(* ===== verification/Prelude.thy ===== *)
theory Prelude
  imports Complex_Main "HOL-Library.Multiset"
begin

text \<open>
  The prelude of the development: the JavaScript values the bridge works on (the
  ESTree nodes an ESLint parser returns, with their locations and their identity),
  the errors it throws, and the generic lemmas on lists, options and sums that the
  component theories share.
\<close>

named_theorems js_simps \<open>evaluation of property accesses and type tests on JavaScript values\<close>
named_theorems res_simps \<open>propagation of errors through sequences of calls\<close>

section \<open>JavaScript values\<close>

text \<open>
  A position, a source location and a range are those of ESTree: lines count from 1,
  columns and offsets from 0.
\<close>

record position =
  pos_line :: int
  pos_column :: int

record source_loc =
  loc_start :: position
  loc_end :: position

type_synonym range = "int \<times> int"

text \<open>
  A JavaScript value. An object carries the identity that \<^verbatim>\<open>===\<close> compares, the
  \<^verbatim>\<open>range\<close> and \<^verbatim>\<open>loc\<close> that every ESTree node may have, and its other
  properties by name. Numbers are exact rationals.
\<close>

datatype jsval =
    JUndefined
  | JNull
  | JBool bool
  | JNum rat
  | JStr string
  | JRegExp string string
  | JArr "jsval list"
  | JObj nat "range option" "source_loc option" "(string \<times> jsval) list"

type_synonym node = jsval

fun fld :: "jsval \<Rightarrow> string \<Rightarrow> jsval" where
  "fld (JObj i r l fs) k = (case map_of fs k of None \<Rightarrow> JUndefined | Some v \<Rightarrow> v)"
| "fld _ k = JUndefined"

fun node_range :: "jsval \<Rightarrow> range option" where
  "node_range (JObj i r l fs) = r"
| "node_range _ = None"

fun node_loc :: "jsval \<Rightarrow> source_loc option" where
  "node_loc (JObj i r l fs) = l"
| "node_loc _ = None"

fun is_array :: "jsval \<Rightarrow> bool" where
  "is_array (JArr vs) = True"
| "is_array _ = False"

fun elems :: "jsval \<Rightarrow> jsval list" where
  "elems (JArr vs) = vs"
| "elems _ = []"

fun truthy :: "jsval \<Rightarrow> bool" where
  "truthy JUndefined = False"
| "truthy JNull = False"
| "truthy (JBool b) = b"
| "truthy (JNum n) = (n \<noteq> 0)"
| "truthy (JStr s) = (s \<noteq> [])"
| "truthy _ = True"

text \<open>\<^verbatim>\<open>v == null\<close>: the value is \<^verbatim>\<open>null\<close> or \<^verbatim>\<open>undefined\<close>.\<close>

definition nullish :: "jsval \<Rightarrow> bool" where
  "nullish v \<longleftrightarrow> v = JUndefined \<or> v = JNull"

text \<open>
  Strict equality: by value on primitives, by identity on objects. Arrays and regular
  expressions are objects without an identity in the model; no code below compares two
  of them.
\<close>

fun strict_eq :: "jsval \<Rightarrow> jsval \<Rightarrow> bool" where
  "strict_eq (JObj i _ _ _) (JObj j _ _ _) = (i = j)"
| "strict_eq (JArr _) (JArr _) = False"
| "strict_eq (JRegExp _ _) (JRegExp _ _) = False"
| "strict_eq a b = (a = b)"

text \<open>\<^verbatim>\<open>node.type === t\<close> and \<^verbatim>\<open>ts.includes(node.type)\<close>.\<close>

definition is_type :: "jsval \<Rightarrow> string \<Rightarrow> bool" where
  "is_type n t \<longleftrightarrow> fld n ''type'' = JStr t"

definition type_in :: "jsval \<Rightarrow> string list \<Rightarrow> bool" where
  "type_in n ts \<longleftrightarrow> (case fld n ''type'' of JStr t \<Rightarrow> t \<in> set ts | _ \<Rightarrow> False)"

lemma type_in_iff: "type_in n ts \<longleftrightarrow> (\<exists>t \<in> set ts. is_type n t)"
  by (auto simp: type_in_def is_type_def split: jsval.splits)

lemma is_type_unique: "is_type n s \<Longrightarrow> is_type n t \<Longrightarrow> s = t"
  by (simp add: is_type_def)

lemma type_in_Cons [js_simps]: "type_in n (t # ts) \<longleftrightarrow> is_type n t \<or> type_in n ts"
  by (auto simp: type_in_iff)

lemma type_in_Nil [js_simps]: "\<not> type_in n []"
  by (simp add: type_in_iff)

lemma truthy_not_nullish: "truthy v \<Longrightarrow> \<not> nullish v"
  by (auto simp: nullish_def)

lemma strict_eq_refl_obj: "strict_eq (JObj i r l fs) (JObj i r l fs)"
  by simp

text \<open>Values reached through a property or an array are smaller: recursion over the tree ends.\<close>

lemma size_elem_less: "v \<in> set vs \<Longrightarrow> size v < size (JArr vs)"
  by (induction vs) auto

lemma size_field_less: "(k, v) \<in> set fs \<Longrightarrow> size v < size (JObj i r l fs)"
  by (induction fs) auto

lemma size_fld_less:
  assumes "fld n k \<noteq> JUndefined"
  shows "size (fld n k) < size n"
proof (cases n)
  case (JObj i r l fs)
  with assms obtain v where "map_of fs k = Some v"
    by (auto split: option.splits)
  moreover from this have "(k, v) \<in> set fs" by (rule map_of_SomeD)
  ultimately show ?thesis using JObj size_field_less by simp
qed (use assms in auto)

lemma size_fld_le: "size (fld n k) \<le> size n"
proof (cases "fld n k = JUndefined")
  case True
  then show ?thesis by simp
next
  case False
  then show ?thesis using size_fld_less less_imp_le by blast
qed

lemma size_elems_fld_less:
  assumes "v \<in> set (elems (fld n k))"
  shows "size v < size n"
proof -
  from assms obtain vs where vs: "fld n k = JArr vs" "v \<in> set vs"
    by (cases "fld n k") auto
  then have "size v < size (fld n k)" by (auto dest: size_elem_less)
  also have "\<dots> \<le> size n" by (rule size_fld_le)
  finally show ?thesis .
qed

section \<open>Errors\<close>

text \<open>
  What a call may throw: an \<^verbatim>\<open>APIError\<close> of \<^verbatim>\<open>src/errors/error.ts\<close> with its code,
  message and optional line, or any other JavaScript error with its message and stack.
\<close>

datatype error_code = Parsing | FailingTypeScript | Unexpected | LinterInitialization

record error_data =
  data_line :: "int option"

datatype js_error =
    APIError error_code string "error_data option"
  | JsError string string

type_synonym 'a res = "js_error + 'a"

definition bind_res :: "'a res \<Rightarrow> ('a \<Rightarrow> 'b res) \<Rightarrow> 'b res" where
  "bind_res r f = (case r of Inl e \<Rightarrow> Inl e | Inr a \<Rightarrow> f a)"

lemma bind_res_Inl [simp, res_simps]: "bind_res (Inl e) f = Inl e"
  by (simp add: bind_res_def)

lemma bind_res_Inr [simp, res_simps]: "bind_res (Inr a) f = f a"
  by (simp add: bind_res_def)

lemma bind_res_eq_Inr: "bind_res r f = Inr b \<longleftrightarrow> (\<exists>a. r = Inr a \<and> f a = Inr b)"
  by (cases r) auto

lemma bind_res_eq_Inl: "bind_res r f = Inl e \<longleftrightarrow> r = Inl e \<or> (\<exists>a. r = Inr a \<and> f a = Inl e)"
  by (cases r) auto

text \<open>A loop whose body may throw: the first error stops it.\<close>

fun map_res :: "('a \<Rightarrow> 'b res) \<Rightarrow> 'a list \<Rightarrow> 'b list res" where
  "map_res f [] = Inr []"
| "map_res f (x # xs) =
     bind_res (f x) (\<lambda>y. bind_res (map_res f xs) (\<lambda>ys. Inr (y # ys)))"

lemma map_res_Inr_iff:
  "map_res f xs = Inr ys \<longleftrightarrow> list_all2 (\<lambda>x y. f x = Inr y) xs ys"
  by (induction xs arbitrary: ys) (auto simp: bind_res_eq_Inr list_all2_Cons1)

lemma map_res_append:
  "map_res f (us @ vs) =
     bind_res (map_res f us) (\<lambda>ys. bind_res (map_res f vs) (\<lambda>zs. Inr (ys @ zs)))"
proof (induction us)
  case Nil
  show ?case by (cases "map_res f vs") auto
next
  case (Cons u us)
  then show ?case
    by (cases "f u"; cases "map_res f us"; cases "map_res f vs") auto
qed

lemma map_res_first_error:
  "map_res f us = Inr ys \<Longrightarrow> f x = Inl e \<Longrightarrow> map_res f (us @ x # vs) = Inl e"
  by (simp add: map_res_append)

lemma map_res_InlE:
  assumes "map_res f xs = Inl e"
  obtains us x vs ys where "xs = us @ x # vs" "map_res f us = Inr ys" "f x = Inl e"
proof -
  from assms have "\<exists>us x vs ys. xs = us @ x # vs \<and> map_res f us = Inr ys \<and> f x = Inl e"
  proof (induction xs)
    case (Cons a xs)
    show ?case
    proof (cases "f a")
      case (Inl e')
      with Cons.prems have "a # xs = [] @ a # xs \<and> map_res f [] = Inr [] \<and> f a = Inl e" by simp
      then show ?thesis by blast
    next
      case (Inr b)
      with Cons.prems have "map_res f xs = Inl e" by (auto simp: bind_res_eq_Inl)
      with Cons.IH obtain us x vs ys where
        "xs = us @ x # vs" "map_res f us = Inr ys" "f x = Inl e" by blast
      then have "a # xs = (a # us) @ x # vs \<and> map_res f (a # us) = Inr (b # ys) \<and> f x = Inl e"
        using Inr by simp
      then show ?thesis by blast
    qed
  qed simp
  with that show thesis by blast
qed

section \<open>Strings and lists\<close>

text \<open>\<^verbatim>\<open>s.startsWith(p)\<close> and \<^verbatim>\<open>s.endsWith(p)\<close>.\<close>

fun starts_with :: "'a list \<Rightarrow> 'a list \<Rightarrow> bool" where
  "starts_with s [] = True"
| "starts_with [] (p # ps) = False"
| "starts_with (c # s) (p # ps) = (c = p \<and> starts_with s ps)"

definition ends_with :: "'a list \<Rightarrow> 'a list \<Rightarrow> bool" where
  "ends_with s p = starts_with (rev s) (rev p)"

lemma starts_with_iff: "starts_with s p \<longleftrightarrow> (\<exists>t. s = p @ t)"
  by (induction s p rule: starts_with.induct) auto

lemma ends_with_iff: "ends_with s p \<longleftrightarrow> (\<exists>t. s = t @ p)"
proof
  assume "ends_with s p"
  then obtain t where "rev s = rev p @ t" by (auto simp: ends_with_def starts_with_iff)
  then have "s = rev t @ p" by (metis rev_append rev_rev_ident)
  then show "\<exists>t. s = t @ p" ..
qed (auto simp: ends_with_def starts_with_iff)

text \<open>
  A JavaScript \<^verbatim>\<open>Set\<close> keeps the order of insertion: a list without duplicates, to
  which \<^verbatim>\<open>add\<close> appends a new element at the end.
\<close>

definition set_add :: "'a \<Rightarrow> 'a list \<Rightarrow> 'a list" where
  "set_add x xs = (if x \<in> set xs then xs else xs @ [x])"

definition set_of_list :: "'a list \<Rightarrow> 'a list" where
  "set_of_list xs = fold set_add xs []"

lemma set_set_add [simp]: "set (set_add x xs) = insert x (set xs)"
  by (auto simp: set_add_def)

lemma distinct_set_add [simp]: "distinct (set_add x xs) = distinct xs"
  by (auto simp: set_add_def)

lemma set_fold_set_add: "set (fold set_add ys xs) = set xs \<union> set ys"
  by (induction ys arbitrary: xs) auto

lemma distinct_fold_set_add: "distinct (fold set_add ys xs) = distinct xs"
  by (induction ys arbitrary: xs) auto

lemma set_set_of_list [simp]: "set (set_of_list xs) = set xs"
  by (simp add: set_of_list_def set_fold_set_add)

lemma distinct_set_of_list [simp]: "distinct (set_of_list xs)"
  by (simp add: set_of_list_def distinct_fold_set_add)

text \<open>
  Characters: the white space of \<^verbatim>\<open>String.prototype.trim\<close> and of the class \<^verbatim>\<open>\s\<close>
  among the first 256 code units, and the case of ASCII letters.
\<close>

definition is_space :: "char \<Rightarrow> bool" where
  "is_space c \<longleftrightarrow> (of_char c :: nat) \<in> {9, 10, 11, 12, 13, 32, 160}"

definition trim :: "string \<Rightarrow> string" where
  "trim s = rev (dropWhile is_space (rev (dropWhile is_space s)))"

definition to_upper_char :: "char \<Rightarrow> char" where
  "to_upper_char c =
     (let n = (of_char c :: nat) in if 97 \<le> n \<and> n \<le> 122 then char_of (n - 32) else c)"

definition to_lower_char :: "char \<Rightarrow> char" where
  "to_lower_char c =
     (let n = (of_char c :: nat) in if 65 \<le> n \<and> n \<le> 90 then char_of (n + 32) else c)"

definition to_upper :: "string \<Rightarrow> string" where
  "to_upper s = map to_upper_char s"

definition to_lower :: "string \<Rightarrow> string" where
  "to_lower s = map to_lower_char s"

lemma trim_empty_iff: "trim s = [] \<longleftrightarrow> (\<forall>c \<in> set s. is_space c)"
proof -
  have "trim s = [] \<longleftrightarrow> (\<forall>c \<in> set (dropWhile is_space s). is_space c)"
    by (simp add: trim_def dropWhile_eq_Nil_conv)
  also have "\<dots> \<longleftrightarrow> (\<forall>c \<in> set s. is_space c)"
    by (induction s) auto
  finally show ?thesis .
qed

lemma find_append:
  "List.find P (xs @ ys) = (case List.find P xs of None \<Rightarrow> List.find P ys | Some x \<Rightarrow> Some x)"
  by (induction xs) auto

lemma find_eq_None: "List.find P xs = None \<longleftrightarrow> (\<forall>x \<in> set xs. \<not> P x)"
  by (induction xs) auto

lemma find_SomeD: "List.find P xs = Some x \<Longrightarrow> x \<in> set xs \<and> P x"
  by (induction xs) (auto split: if_splits)

text \<open>A loop that threads a state and whose body may throw.\<close>

fun fold_res :: "('a \<Rightarrow> 's \<Rightarrow> 's res) \<Rightarrow> 'a list \<Rightarrow> 's \<Rightarrow> 's res" where
  "fold_res f [] s = Inr s"
| "fold_res f (x # xs) s = bind_res (f x s) (fold_res f xs)"

lemma fold_res_append: "fold_res f (xs @ ys) s = bind_res (fold_res f xs s) (fold_res f ys)"
proof (induction xs arbitrary: s)
  case (Cons x xs)
  then show ?case by (cases "f x s") auto
qed simp

lemma fold_res_invariant:
  assumes "fold_res f xs s = Inr t" "P s"
    and "\<And>x s s'. x \<in> set xs \<Longrightarrow> P s \<Longrightarrow> f x s = Inr s' \<Longrightarrow> P s'"
  shows "P t"
  using assms
proof (induction xs arbitrary: s)
  case (Cons x xs)
  then obtain s' where "f x s = Inr s'" "fold_res f xs s' = Inr t" by (auto simp: bind_res_eq_Inr)
  with Cons show ?case by (metis list.set_intros)
qed simp

lemma fold_res_map: "fold_res f (map g xs) s = fold_res (\<lambda>x. f (g x)) xs s"
  by (induction xs arbitrary: s) (simp_all add: bind_res_def split: sum.split)

lemma find_Some_split:
  "List.find P xs = Some x \<longleftrightarrow> (\<exists>us vs. xs = us @ x # vs \<and> P x \<and> (\<forall>u \<in> set us. \<not> P u))"
proof (induction xs)
  case (Cons y xs)
  show ?case
  proof (cases "P y")
    case True
    then show ?thesis by (auto simp: Cons_eq_append_conv)
  next
    case False
    with Cons show ?thesis by (auto simp: Cons_eq_append_conv) (metis append_Cons list.set_cases set_ConsD)
  qed
qed simp

lemma find_rev_Some_iff:
  "List.find P (rev xs) = Some x \<longleftrightarrow> (\<exists>us vs. xs = us @ x # vs \<and> P x \<and> (\<forall>v \<in> set vs. \<not> P v))"
proof -
  have "rev xs = us @ x # vs \<longleftrightarrow> xs = rev vs @ x # rev us" for us vs
    by (metis append.assoc append_Cons append_Nil rev.simps(2) rev_append rev_rev_ident)
  then have "(\<exists>us vs. rev xs = us @ x # vs \<and> P x \<and> (\<forall>u \<in> set us. \<not> P u)) \<longleftrightarrow>
      (\<exists>us vs. xs = us @ x # vs \<and> P x \<and> (\<forall>v \<in> set vs. \<not> P v))"
    by (metis rev_rev_ident set_rev)
  then show ?thesis by (simp add: find_Some_split)
qed

end
