(* ===== verification/Visitor.thy ===== *)
theory Visitor
  imports Prelude
begin

text \<open>
  The ESLint \<^verbatim>\<open>SourceCode\<close> the bridge analyzes, and the visitor of
  \<^verbatim>\<open>src/linting/eslint/linter/visitors/visitor.ts\<close>: an explicit stack of nodes whose
  children are found through the visitor keys the parser provides. The locale
  \<open>node_visitor\<close> is the contract the metrics and the other clients rely on: every node
  of the tree is handed to the callback once, parents before children, siblings in order.
\<close>

section \<open>Source code\<close>

text \<open>
  Tokens and comments as ESLint represents them. A token always has a location; the
  location of a comment is optional in ESTree.
\<close>

record token =
  tok_id :: nat
  tok_type :: string
  tok_value :: string
  tok_range :: range
  tok_loc :: source_loc

record comment =
  com_type :: string
  com_value :: string
  com_range :: range
  com_loc :: "source_loc option"

record template_body =
  tb_tokens :: "token list"
  tb_comments :: "comment list"

text \<open>
  An ESLint \<^verbatim>\<open>SourceCode\<close>: the program and its tokens and comments, the visitor keys,
  the template section of a Vue.js component if there is one, and the methods of the
  instance that the bridge calls. The methods belong to ESLint and are functions of the
  record.
\<close>

type_synonym visitor_keys = "string \<Rightarrow> string list option"

record source_code =
  sc_ast :: node
  sc_tokens :: "token list"
  sc_comments :: "comment list"
  sc_templateBody :: "template_body option"
  sc_visitorKeys :: visitor_keys
  sc_getTokens :: "node \<Rightarrow> token list"
  sc_getFirstToken :: "node \<Rightarrow> token option"
  sc_getCommentsBefore :: "token \<Rightarrow> comment list"
  sc_getLocFromIndex :: "int \<Rightarrow> position"

section \<open>The visitor\<close>

definition keys_of :: "visitor_keys \<Rightarrow> node \<Rightarrow> string list option" where
  "keys_of visitorKeys n =
     (case fld n ''type'' of JStr t \<Rightarrow> visitorKeys t | _ \<Rightarrow> None)"

definition child_values :: "node \<Rightarrow> string \<Rightarrow> jsval list" where
  "child_values n key = (let child = fld n key in if is_array child then elems child else [child])"

definition childrenOf :: "node \<Rightarrow> visitor_keys \<Rightarrow> node list" where
  "childrenOf n visitorKeys =
     (let children = (case keys_of visitorKeys n of
            None \<Rightarrow> []
          | Some keys \<Rightarrow> concat (map (child_values n) keys))
      in filter truthy children)"

lemma childrenOf_less:
  assumes "c \<in> set (childrenOf n keys)"
  shows "size c < size n"
proof -
  from assms obtain k where "c \<in> set (child_values n k)" and "truthy c"
    by (auto simp: childrenOf_def Let_def split: option.splits)
  then show ?thesis
    by (auto simp: child_values_def Let_def split: if_splits
        intro: size_elems_fld_less size_fld_less)
qed

text \<open>
  The loop of \<^verbatim>\<open>visit\<close>, with the stack as the source's array (its top is the last
  element). The callback is a state transformer. The stack shrinks in the multiset order
  of the sizes of its nodes.
\<close>

function visit_loop ::
  "visitor_keys \<Rightarrow> (node \<Rightarrow> 's \<Rightarrow> 's) \<Rightarrow> node list \<Rightarrow> 's \<Rightarrow> 's" where
  "visit_loop keys callback stack s =
     (if stack = [] then s
      else let n = last stack in
        visit_loop keys callback (butlast stack @ rev (childrenOf n keys)) (callback n s))"
  by pat_completeness auto

lemma visit_stack_decreases:
  assumes "stack \<noteq> []"
  shows "(mset (map size (butlast stack @ rev (childrenOf (last stack) keys))), mset (map size stack))
    \<in> mult less_than"
proof -
  from assms obtain ns n where stack: "stack = ns @ [n]"
    by (cases stack rule: rev_cases) auto
  let ?C = "mset (map size (childrenOf n keys))"
  have "(mset (map size ns) + ?C, mset (map size ns) + {#size n#}) \<in> mult less_than"
    by (rule one_step_implies_mult) (use childrenOf_less in auto)
  then show ?thesis by (simp add: stack)
qed

termination visit_loop
  by (relation "inv_image (mult less_than) (\<lambda>(keys, callback, stack, s). mset (map size stack))")
     (auto simp: wf_mult Let_def intro: visit_stack_decreases [simplified])

declare visit_loop.simps [simp del]

definition visit :: "source_code \<Rightarrow> (node \<Rightarrow> 's \<Rightarrow> 's) \<Rightarrow> 's \<Rightarrow> 's" where
  "visit sc callback s = visit_loop (sc_visitorKeys sc) callback [sc_ast sc] s"

section \<open>The order of the visit\<close>

text \<open>The specification: the nodes of a tree in depth-first pre-order.\<close>

function preorder :: "visitor_keys \<Rightarrow> node \<Rightarrow> node list" where
  "preorder keys n = n # concat (map (preorder keys) (childrenOf n keys))"
  by pat_completeness auto
termination preorder
  by (relation "measure (\<lambda>(keys, n). size n)") (auto dest: childrenOf_less)

declare preorder.simps [simp del]

definition all_nodes :: "source_code \<Rightarrow> node list" where
  "all_nodes sc = preorder (sc_visitorKeys sc) (sc_ast sc)"

lemma visit_loop_fold:
  "visit_loop keys callback stack s = fold callback (concat (map (preorder keys) (rev stack))) s"
proof (induction keys callback stack s rule: visit_loop.induct)
  case (1 keys callback stack s)
  show ?case
  proof (cases "stack = []")
    case True
    then show ?thesis by (simp add: visit_loop.simps)
  next
    case False
    then have rev: "rev stack = last stack # rev (butlast stack)"
      by (metis append_butlast_last_id rev.simps(2) rev_rev_ident rev_swap)
    have "visit_loop keys callback stack s =
        visit_loop keys callback (butlast stack @ rev (childrenOf (last stack) keys))
          (callback (last stack) s)"
      using False by (subst visit_loop.simps) (simp add: Let_def)
    also have "\<dots> = fold callback
        (concat (map (preorder keys) (rev (butlast stack @ rev (childrenOf (last stack) keys)))))
        (callback (last stack) s)"
      using "1.IH" False by simp
    also have "\<dots> = fold callback (concat (map (preorder keys) (rev stack))) s"
      by (simp add: rev preorder.simps [of keys "last stack"])
    finally show ?thesis .
  qed
qed

section \<open>The contract of the visitor\<close>

locale node_visitor =
  fixes visitor :: "('n \<Rightarrow> 's \<Rightarrow> 's) \<Rightarrow> 's \<Rightarrow> 's"
    and nodes :: "'n list"
  assumes visits_in_order: "visitor callback s = fold callback nodes s"
begin

text \<open>A quantity of the state that each callback increases by its own amount.\<close>

lemma visit_adds:
  fixes amount :: "'s \<Rightarrow> nat"
  assumes "\<And>n s. amount (callback n s) = amount s + (if P n then 1 else 0)"
  shows "amount (visitor callback s) = amount s + length (filter P nodes)"
proof -
  have "amount (fold callback ns s) = amount s + length (filter P ns)" for ns
    by (induction ns arbitrary: s) (simp_all add: assms)
  then show ?thesis by (simp add: visits_in_order)
qed

text \<open>A set of the state that each callback extends.\<close>

lemma visit_collects:
  assumes "\<And>n s. found (callback n s) = found s \<union> new n"
  shows "found (visitor callback s) = found s \<union> (\<Union>n \<in> set nodes. new n)"
proof -
  have "found (fold callback ns s) = found s \<union> (\<Union>n \<in> set ns. new n)" for ns
    by (induction ns arbitrary: s) (auto simp: assms)
  then show ?thesis by (simp add: visits_in_order)
qed

text \<open>A list of the state to which each callback appends.\<close>

lemma visit_appends:
  assumes "\<And>n s. out (callback n s) = out s @ new n"
  shows "out (visitor callback s) = out s @ concat (map new nodes)"
proof -
  have "out (fold callback ns s) = out s @ concat (map new ns)" for ns
    by (induction ns arbitrary: s) (simp_all add: assms)
  then show ?thesis by (simp add: visits_in_order)
qed

text \<open>An invariant of the callbacks.\<close>

lemma visit_invariant:
  assumes "I s" and "\<And>n s. n \<in> set nodes \<Longrightarrow> I s \<Longrightarrow> I (callback n s)"
  shows "I (visitor callback s)"
proof -
  have "set ns \<subseteq> set nodes \<Longrightarrow> I s \<Longrightarrow> I (fold callback ns s)" for ns
    by (induction ns arbitrary: s) (auto intro: assms(2))
  then show ?thesis using assms(1) by (simp add: visits_in_order)
qed

end

interpretation sv: node_visitor "visit sc" "all_nodes sc" for sc
  by unfold_locales (simp add: visit_def all_nodes_def visit_loop_fold)

text \<open>
  C1: the visitor, which pops nodes from an explicit stack and pushes their children in
  reverse, always ends and runs the callback over the nodes of the tree in depth-first
  pre-order: each node before its children, and siblings in the order of the visitor keys.
\<close>

theorem visit_is_preorder:
  "visit sc callback s = fold callback (preorder (sc_visitorKeys sc) (sc_ast sc)) s"
  by (simp add: sv.visits_in_order all_nodes_def)

lemma set_preorder:
  "set (preorder keys n) = insert n (\<Union>c \<in> set (childrenOf n keys). set (preorder keys c))"
  by (subst preorder.simps) simp

lemma preorder_self: "n \<in> set (preorder keys n)"
  by (subst set_preorder) simp

lemma root_visited: "sc_ast sc \<in> set (all_nodes sc)"
  by (simp add: all_nodes_def preorder_self)

lemma preorder_child:
  "m \<in> set (preorder keys n) \<Longrightarrow> c \<in> set (childrenOf m keys) \<Longrightarrow> c \<in> set (preorder keys n)"
proof (induction keys n rule: preorder.induct)
  case (1 keys n)
  show ?case
  proof (cases "m = n")
    case True
    with "1.prems" preorder_self [of c keys] show ?thesis by (subst set_preorder) blast
  next
    case False
    with "1.prems" obtain d where "d \<in> set (childrenOf n keys)" "m \<in> set (preorder keys d)"
      by (subst (asm) set_preorder) blast
    with "1.IH" "1.prems" show ?thesis by (subst set_preorder) blast
  qed
qed

lemma preorder_size: "m \<in> set (preorder keys n) \<Longrightarrow> size m \<le> size n"
proof (induction keys n rule: preorder.induct)
  case (1 keys n)
  show ?case
  proof (cases "m = n")
    case False
    with "1.prems" obtain d where d: "d \<in> set (childrenOf n keys)" "m \<in> set (preorder keys d)"
      by (subst (asm) set_preorder) blast
    with "1.IH" have "size m \<le> size d" by blast
    with childrenOf_less [OF d(1)] show ?thesis by simp
  qed simp
qed

end
