(* ===== verification/Metrics.thy ===== *)
theory Metrics
  imports Visitor
begin

text \<open>
  The metrics of \<^verbatim>\<open>src/linting/eslint/linter/visitors/metrics/\<close>: the counters of
  classes, functions, statements and cyclomatic complexity, the executable lines, the
  lines of code and of comments, and the record they form. The counters and the
  executable lines are clients of the visitor through \<open>node_visitor\<close>.
\<close>

section \<open>Helpers\<close>

text \<open>A metric location (\<^verbatim>\<open>helpers/location.ts\<close>).\<close>

record location =
  startLine :: int
  startCol :: int
  endLine :: int
  endCol :: int

definition convertLocation :: "source_loc \<Rightarrow> location" where
  "convertLocation loc =
     \<lparr>startLine = pos_line (loc_start loc), startCol = pos_column (loc_start loc),
      endLine = pos_line (loc_end loc), endCol = pos_column (loc_end loc)\<rparr>"

text \<open>The loop of \<^verbatim>\<open>helpers/lines.ts\<close>, from the start line up to the end line.\<close>

function addLines :: "int \<Rightarrow> int \<Rightarrow> int list \<Rightarrow> int list" where
  "addLines l last_line lines =
     (if l \<le> last_line then addLines (l + 1) last_line (set_add l lines) else lines)"
  by pat_completeness auto
termination addLines
  by (relation "measure (\<lambda>(l, last_line, lines). nat (last_line + 1 - l))") auto

declare addLines.simps [simp del]

definition visitAndCountIf :: "source_code \<Rightarrow> (node \<Rightarrow> bool) \<Rightarrow> nat" where
  "visitAndCountIf sc predicate =
     visit sc (\<lambda>n results. if predicate n then results + 1 else results) 0"

text \<open>The tokens and comments of a source, those of a Vue.js template included.\<close>

definition extractTokensAndComments :: "source_code \<Rightarrow> token list \<times> comment list" where
  "extractTokensAndComments sc =
     (case sc_templateBody sc of
        None \<Rightarrow> (sc_tokens sc, sc_comments sc)
      | Some tb \<Rightarrow> (sc_tokens sc @ tb_tokens tb, sc_comments sc @ tb_comments tb))"

section \<open>Counters\<close>

definition CLASS_NODES :: "string list" where
  "CLASS_NODES = [''ClassDeclaration'', ''ClassExpression'']"

definition FUNCTION_NODES :: "string list" where
  "FUNCTION_NODES =
     [''FunctionDeclaration'', ''FunctionExpression'', ''ArrowFunctionExpression'']"

definition STATEMENT_NODES :: "string list" where
  "STATEMENT_NODES =
     [''VariableDeclaration'', ''EmptyStatement'', ''ExpressionStatement'', ''IfStatement'',
      ''DoWhileStatement'', ''WhileStatement'', ''ForInStatement'', ''ForOfStatement'',
      ''ForStatement'', ''ContinueStatement'', ''BreakStatement'', ''ReturnStatement'',
      ''WithStatement'', ''SwitchStatement'', ''ThrowStatement'', ''TryStatement'',
      ''DebuggerStatement'']"

definition LOOP_NODES :: "string list" where
  "LOOP_NODES =
     [''ForStatement'', ''ForInStatement'', ''ForOfStatement'', ''WhileStatement'',
      ''DoWhileStatement'']"

definition CONDITIONAL_NODES :: "string list" where
  "CONDITIONAL_NODES = [''IfStatement'', ''ConditionalExpression'', ''SwitchCase'']"

definition COMPLEXITY_NODES :: "string list" where
  "COMPLEXITY_NODES = CONDITIONAL_NODES @ FUNCTION_NODES @ LOOP_NODES @ [''LogicalExpression'']"

definition countClasses :: "source_code \<Rightarrow> nat" where
  "countClasses sc = visitAndCountIf sc (\<lambda>n. type_in n CLASS_NODES)"

definition countFunctions :: "source_code \<Rightarrow> nat" where
  "countFunctions sc = visitAndCountIf sc (\<lambda>n. type_in n FUNCTION_NODES)"

definition countStatements :: "source_code \<Rightarrow> nat" where
  "countStatements sc = visitAndCountIf sc (\<lambda>n. type_in n STATEMENT_NODES)"

definition computeCyclomaticComplexity :: "source_code \<Rightarrow> nat" where
  "computeCyclomaticComplexity sc =
     visit sc (\<lambda>n complexity. if type_in n COMPLEXITY_NODES then complexity + 1 else complexity) 0"

section \<open>Lines\<close>

definition EXECUTABLE_NODES :: "string list" where
  "EXECUTABLE_NODES =
     [''ExpressionStatement'', ''IfStatement'', ''LabeledStatement'', ''BreakStatement'',
      ''ContinueStatement'', ''WithStatement'', ''SwitchStatement'', ''ReturnStatement'',
      ''ThrowStatement'', ''TryStatement'', ''WhileStatement'', ''DoWhileStatement'',
      ''ForStatement'', ''ForInStatement'', ''DebuggerStatement'', ''VariableDeclaration'',
      ''ForOfStatement'']"

definition findExecutableLines :: "source_code \<Rightarrow> int list" where
  "findExecutableLines sc =
     sort (visit sc (\<lambda>n lines.
       case node_loc n of
         Some loc \<Rightarrow>
           if type_in n EXECUTABLE_NODES then set_add (pos_line (loc_start loc)) lines else lines
       | None \<Rightarrow> lines) [])"

text \<open>
  The tokens of the template and style sections of a Vue.js component: the loop of
  \<^verbatim>\<open>extractVuejsTokens\<close> with its two flags.
\<close>

fun extractVuejsTokens_loop :: "token list \<Rightarrow> bool \<Rightarrow> bool \<Rightarrow> token list \<Rightarrow> token list" where
  "extractVuejsTokens_loop [] withinStyle withinComment tokens = tokens"
| "extractVuejsTokens_loop (token # rest) withinStyle withinComment tokens =
     (let withinStyle =
        (if tok_type token = ''HTMLTagOpen'' \<and> tok_value token = ''style'' then True
         else if tok_type token = ''HTMLEndTagOpen'' \<and> tok_value token = ''style'' then False
         else withinStyle)
      in if tok_type token = ''HTMLWhitespace''
         then extractVuejsTokens_loop rest withinStyle withinComment tokens
         else if tok_type token = ''HTMLRawText'' \<and> \<not> withinStyle
         then extractVuejsTokens_loop rest withinStyle withinComment tokens
         else if withinStyle \<and> \<not> withinComment \<and> tok_value token = ''/*''
         then extractVuejsTokens_loop rest withinStyle True tokens
         else if withinStyle \<and> withinComment
         then extractVuejsTokens_loop rest withinStyle (tok_value token \<noteq> ''*/'') tokens
         else extractVuejsTokens_loop rest withinStyle withinComment (tokens @ [token]))"

definition extractVuejsTokens :: "template_body \<Rightarrow> token list" where
  "extractVuejsTokens templateBody = extractVuejsTokens_loop (tb_tokens templateBody) False False []"

definition token_lines :: "token \<Rightarrow> int list \<Rightarrow> int list" where
  "token_lines token lines =
     addLines (pos_line (loc_start (tok_loc token))) (pos_line (loc_end (tok_loc token))) lines"

definition findNcloc :: "source_code \<Rightarrow> int list" where
  "findNcloc sc =
     (let tokens = sc_tokens sc @
        (case sc_templateBody sc of None \<Rightarrow> [] | Some tb \<Rightarrow> extractVuejsTokens tb)
      in sort (fold token_lines tokens []))"

definition NOSONAR :: string where
  "NOSONAR = ''NOSONAR''"

definition commentValue :: "comment \<Rightarrow> string" where
  "commentValue c =
     (if starts_with (com_value c) ''*'' then trim (tl (com_value c)) else trim (com_value c))"

definition comment_step :: "comment \<Rightarrow> int list \<times> int list \<Rightarrow> int list \<times> int list" where
  "comment_step c s =
     (case s of (commentLines, nosonarLines) \<Rightarrow>
        case com_loc c of
          None \<Rightarrow> (commentLines, nosonarLines)
        | Some loc \<Rightarrow>
            let first = pos_line (loc_start loc); final = pos_line (loc_end loc) in
            if starts_with (to_upper (commentValue c)) NOSONAR
            then (commentLines, addLines first final nosonarLines)
            else if 0 < length (commentValue c)
            then (addLines first final commentLines, nosonarLines)
            else (commentLines, nosonarLines))"

text \<open>The comments to consider: the header comments are those before the first token.\<close>

definition considered_comments :: "source_code \<Rightarrow> bool \<Rightarrow> comment list" where
  "considered_comments sc ignoreHeaderComments =
     (case sc_getFirstToken sc (sc_ast sc) of
        Some firstToken \<Rightarrow>
          if ignoreHeaderComments
          then drop (length (sc_getCommentsBefore sc firstToken)) (sc_comments sc)
          else sc_comments sc
      | None \<Rightarrow> sc_comments sc)"

definition findCommentLines :: "source_code \<Rightarrow> bool \<Rightarrow> int list \<times> int list" where
  "findCommentLines sc ignoreHeaderComments =
     (case fold comment_step (considered_comments sc ignoreHeaderComments) ([], []) of
        (commentLines, nosonarLines) \<Rightarrow> (sort commentLines, sort nosonarLines))"

definition findNoSonarLines :: "source_code \<Rightarrow> int list" where
  "findNoSonarLines sc = snd (findCommentLines sc False)"

section \<open>The metrics of a source\<close>

text \<open>Every field but the lines of \<^verbatim>\<open>NOSONAR\<close> comments is optional.\<close>

record metrics =
  m_ncloc :: "int list option"
  m_commentLines :: "int list option"
  m_nosonarLines :: "int list"
  m_executableLines :: "int list option"
  m_functions :: "nat option"
  m_statements :: "nat option"
  m_classes :: "nat option"
  m_complexity :: "nat option"
  m_cognitiveComplexity :: "int option"

definition computeMetrics :: "source_code \<Rightarrow> bool \<Rightarrow> int option \<Rightarrow> metrics" where
  "computeMetrics sc ignoreHeaderComments cognitiveComplexity =
     (let (commentLines, nosonarLines) = findCommentLines sc ignoreHeaderComments in
      \<lparr>m_ncloc = Some (findNcloc sc),
       m_commentLines = Some commentLines,
       m_nosonarLines = nosonarLines,
       m_executableLines = Some (findExecutableLines sc),
       m_functions = Some (countFunctions sc),
       m_statements = Some (countStatements sc),
       m_classes = Some (countClasses sc),
       m_complexity = Some (computeCyclomaticComplexity sc),
       m_cognitiveComplexity = Some (case cognitiveComplexity of None \<Rightarrow> 0 | Some c \<Rightarrow> c)\<rparr>)"

section \<open>Correctness of the counters\<close>

lemma visitAndCountIf_length: "visitAndCountIf sc P = length (filter P (all_nodes sc))"
  unfolding visitAndCountIf_def
  using sv.visit_adds [where amount = "\<lambda>s. s" and P = P] by simp

lemma complexity_length:
  "computeCyclomaticComplexity sc = length (filter (\<lambda>n. type_in n COMPLEXITY_NODES) (all_nodes sc))"
  unfolding computeCyclomaticComplexity_def
  using sv.visit_adds [where amount = "\<lambda>s. s" and P = "\<lambda>n. type_in n COMPLEXITY_NODES"] by simp

lemma length_filter_disjoint:
  assumes "\<And>x. \<not> (P x \<and> Q x)"
  shows "length (filter (\<lambda>x. P x \<or> Q x) xs) = length (filter P xs) + length (filter Q xs)"
  using assms by (induction xs) auto

lemma type_in_append: "type_in n (ss @ ts) \<longleftrightarrow> type_in n ss \<or> type_in n ts"
  by (auto simp: type_in_iff)

lemma type_in_disjoint:
  "set ss \<inter> set ts = {} \<Longrightarrow> \<not> (type_in n ss \<and> type_in n ts)"
  by (auto simp: type_in_iff dest: is_type_unique)

lemma count_types_append:
  assumes "set ss \<inter> set ts = {}"
  shows "visitAndCountIf sc (\<lambda>n. type_in n (ss @ ts)) =
    visitAndCountIf sc (\<lambda>n. type_in n ss) + visitAndCountIf sc (\<lambda>n. type_in n ts)"
  using type_in_disjoint [OF assms]
  by (simp add: visitAndCountIf_length type_in_append length_filter_disjoint)

text \<open>
  The cyclomatic complexity of a file is the number of its functions plus the number
  of its conditional nodes, loops and logical expressions: the node types of the four
  groups do not overlap, so no node is counted twice.
\<close>

lemma complexity_decomposition:
  "computeCyclomaticComplexity sc =
     countFunctions sc
     + visitAndCountIf sc (\<lambda>n. type_in n CONDITIONAL_NODES)
     + visitAndCountIf sc (\<lambda>n. type_in n LOOP_NODES)
     + visitAndCountIf sc (\<lambda>n. is_type n ''LogicalExpression'')"
proof -
  have "computeCyclomaticComplexity sc = visitAndCountIf sc (\<lambda>n. type_in n COMPLEXITY_NODES)"
    by (simp add: complexity_length visitAndCountIf_length)
  also have "\<dots> = visitAndCountIf sc (\<lambda>n. type_in n CONDITIONAL_NODES)
      + visitAndCountIf sc (\<lambda>n. type_in n (FUNCTION_NODES @ LOOP_NODES @ [''LogicalExpression'']))"
    unfolding COMPLEXITY_NODES_def
    by (rule count_types_append)
      (simp add: CONDITIONAL_NODES_def FUNCTION_NODES_def LOOP_NODES_def)
  also have "visitAndCountIf sc (\<lambda>n. type_in n (FUNCTION_NODES @ LOOP_NODES @ [''LogicalExpression'']))
      = countFunctions sc + visitAndCountIf sc (\<lambda>n. type_in n (LOOP_NODES @ [''LogicalExpression'']))"
    unfolding countFunctions_def
    by (rule count_types_append) (simp add: FUNCTION_NODES_def LOOP_NODES_def)
  also have "visitAndCountIf sc (\<lambda>n. type_in n (LOOP_NODES @ [''LogicalExpression'']))
      = visitAndCountIf sc (\<lambda>n. type_in n LOOP_NODES)
      + visitAndCountIf sc (\<lambda>n. type_in n [''LogicalExpression''])"
    by (rule count_types_append) (simp add: LOOP_NODES_def)
  finally show ?thesis by (simp add: js_simps)
qed

section \<open>Correctness of the lines\<close>

lemma set_addLines: "set (addLines l m lines) = set lines \<union> {l..m}"
proof (induction l m lines rule: addLines.induct)
  case (1 l m lines)
  show ?case
  proof (cases "l \<le> m")
    case True
    then have "{l..m} = insert l {l + 1..m}" by auto
    with "1.IH" True show ?thesis by (subst addLines.simps) auto
  next
    case False
    then show ?thesis by (subst addLines.simps) auto
  qed
qed

lemma distinct_addLines: "distinct lines \<Longrightarrow> distinct (addLines l m lines)"
proof (induction l m lines rule: addLines.induct)
  case (1 l m lines)
  then show ?case by (subst addLines.simps) simp
qed

definition loc_lines :: "source_loc \<Rightarrow> int set" where
  "loc_lines loc = {pos_line (loc_start loc)..pos_line (loc_end loc)}"

lemma set_fold_token_lines:
  "set (fold token_lines ts lines) = set lines \<union> (\<Union>t \<in> set ts. loc_lines (tok_loc t))"
  by (induction ts arbitrary: lines) (auto simp: token_lines_def set_addLines loc_lines_def)

lemma distinct_fold_token_lines: "distinct lines \<Longrightarrow> distinct (fold token_lines ts lines)"
  by (induction ts arbitrary: lines) (auto simp: token_lines_def distinct_addLines)

text \<open>
  The executable lines are the lines on which a node of an executable type starts,
  each once and in increasing order.
\<close>

lemma findExecutableLines_correct:
  "sorted (findExecutableLines sc) \<and> distinct (findExecutableLines sc) \<and>
   set (findExecutableLines sc) =
     {pos_line (loc_start loc) | n loc.
        n \<in> set (all_nodes sc) \<and> type_in n EXECUTABLE_NODES \<and> node_loc n = Some loc}"
proof -
  let ?cb = "\<lambda>n lines. case node_loc n of
      Some loc \<Rightarrow> if type_in n EXECUTABLE_NODES then set_add (pos_line (loc_start loc)) lines else lines
    | None \<Rightarrow> lines"
  let ?new = "\<lambda>n. case node_loc n of
      Some loc \<Rightarrow> if type_in n EXECUTABLE_NODES then {pos_line (loc_start loc)} else {}
    | None \<Rightarrow> {}"
  have "set (visit sc ?cb []) = set [] \<union> (\<Union>n \<in> set (all_nodes sc). ?new n)"
    by (rule sv.visit_collects) (auto split: option.splits)
  moreover have "distinct (visit sc ?cb [])"
    by (rule sv.visit_invariant) (auto split: option.splits)
  ultimately show ?thesis
    by (fastforce simp: findExecutableLines_def split: option.splits if_splits)
qed

text \<open>
  The tokens kept from a template: the loop only appends, it drops white space, and
  without a style section it keeps exactly what is neither white space nor raw text.
\<close>

lemma vue_loop_sublist:
  "\<exists>kept. extractVuejsTokens_loop ts ws wc acc = acc @ kept \<and> set kept \<subseteq> set ts \<and>
     (\<forall>t \<in> set kept. tok_type t \<noteq> ''HTMLWhitespace'')"
proof (induction ts ws wc acc rule: extractVuejsTokens_loop.induct)
  case (1 ws wc acc)
  then show ?case by simp
next
  case (2 t ts ws wc acc)
  define ws' where "ws' =
    (if tok_type t = ''HTMLTagOpen'' \<and> tok_value t = ''style'' then True
     else if tok_type t = ''HTMLEndTagOpen'' \<and> tok_value t = ''style'' then False else ws)"
  note IH = "2.IH" [OF ws'_def]
  show ?case
    unfolding extractVuejsTokens_loop.simps(2) Let_def ws'_def [symmetric]
    using IH by (auto split: if_splits) blast+
qed

lemma vue_loop_without_style:
  assumes "\<forall>t \<in> set ts. \<not> (tok_type t = ''HTMLTagOpen'' \<and> tok_value t = ''style'')"
  shows "extractVuejsTokens_loop ts False wc acc =
    acc @ filter (\<lambda>t. tok_type t \<noteq> ''HTMLWhitespace'' \<and> tok_type t \<noteq> ''HTMLRawText'') ts"
  using assms by (induction ts arbitrary: acc) (auto simp: Let_def)

definition code_tokens :: "source_code \<Rightarrow> token list" where
  "code_tokens sc =
     sc_tokens sc @ (case sc_templateBody sc of None \<Rightarrow> [] | Some tb \<Rightarrow> extractVuejsTokens tb)"

text \<open>
  The lines of code are the lines that a token of the script, or a token kept from the
  template of a Vue.js component, spans, each once and in increasing order; a line that
  only white-space tokens of the template span is not among them.
\<close>

lemma findNcloc_correct:
  "sorted (findNcloc sc) \<and> distinct (findNcloc sc) \<and>
   set (findNcloc sc) = (\<Union>t \<in> set (code_tokens sc). loc_lines (tok_loc t)) \<and>
   (\<forall>tb. sc_templateBody sc = Some tb \<longrightarrow>
      set (extractVuejsTokens tb) \<subseteq> {t \<in> set (tb_tokens tb). tok_type t \<noteq> ''HTMLWhitespace''})"
proof -
  have "findNcloc sc = sort (fold token_lines (code_tokens sc) [])"
    by (simp add: findNcloc_def code_tokens_def Let_def)
  moreover have "set (extractVuejsTokens tb) \<subseteq> {t \<in> set (tb_tokens tb). tok_type t \<noteq> ''HTMLWhitespace''}"
    for tb
    using vue_loop_sublist [of "tb_tokens tb" False False "[]"]
    by (auto simp: extractVuejsTokens_def)
  ultimately show ?thesis
    by (simp add: set_fold_token_lines distinct_fold_token_lines)
qed

lemma findNcloc_example:
  "set (extractVuejsTokens \<lparr>tb_tokens = [], tb_comments = []\<rparr>) \<subseteq> {}"
  using findNcloc_correct [of "\<lparr>sc_ast = JNull, sc_tokens = [], sc_comments = [],
    sc_templateBody = Some \<lparr>tb_tokens = [], tb_comments = []\<rparr>, sc_visitorKeys = (\<lambda>_. None),
    sc_getTokens = (\<lambda>_. []), sc_getFirstToken = (\<lambda>_. None), sc_getCommentsBefore = (\<lambda>_. []),
    sc_getLocFromIndex = (\<lambda>i. \<lparr>pos_line = 1, pos_column = i\<rparr>)\<rparr>"]
  by simp

definition is_nosonar :: "comment \<Rightarrow> bool" where
  "is_nosonar c \<longleftrightarrow> starts_with (to_upper (commentValue c)) NOSONAR"

definition comment_span :: "comment \<Rightarrow> int set" where
  "comment_span c = (\<Union>loc \<in> set_option (com_loc c). loc_lines loc)"

lemma comment_step_sets:
  "set (fst (comment_step c s)) =
     set (fst s) \<union> (if \<not> is_nosonar c \<and> commentValue c \<noteq> [] then comment_span c else {})"
  "set (snd (comment_step c s)) = set (snd s) \<union> (if is_nosonar c then comment_span c else {})"
  "distinct (fst s) \<Longrightarrow> distinct (fst (comment_step c s))"
  "distinct (snd s) \<Longrightarrow> distinct (snd (comment_step c s))"
  by (cases s; cases "com_loc c";
      simp add: comment_step_def Let_def is_nosonar_def comment_span_def loc_lines_def set_addLines
        distinct_addLines)+

lemma fold_comment_step:
  "set (fst (fold comment_step cs s)) =
     set (fst s) \<union> (\<Union>c \<in> {c \<in> set cs. \<not> is_nosonar c \<and> commentValue c \<noteq> []}. comment_span c)"
  "set (snd (fold comment_step cs s)) = set (snd s) \<union> (\<Union>c \<in> {c \<in> set cs. is_nosonar c}. comment_span c)"
  "distinct (fst s) \<Longrightarrow> distinct (fst (fold comment_step cs s))"
  "distinct (snd s) \<Longrightarrow> distinct (snd (fold comment_step cs s))"
  by (induction cs arbitrary: s) (auto simp: comment_step_sets split: if_splits)

text \<open>
  Among the comments considered (all of them, or those after the first token when header
  comments are ignored), the \<^verbatim>\<open>NOSONAR\<close> lines are the lines spanned by comments whose text
  starts with that marker in any case, and the comment lines those spanned by the other
  comments with some text; both lists are sorted and without duplicates.
\<close>

lemma findCommentLines_correct:
  assumes "findCommentLines sc ignoreHeader = (commentLines, nosonarLines)"
  shows "sorted commentLines \<and> distinct commentLines \<and> sorted nosonarLines \<and> distinct nosonarLines \<and>
    set nosonarLines =
      (\<Union>c \<in> {c \<in> set (considered_comments sc ignoreHeader). is_nosonar c}. comment_span c) \<and>
    set commentLines =
      (\<Union>c \<in> {c \<in> set (considered_comments sc ignoreHeader). \<not> is_nosonar c \<and> commentValue c \<noteq> []}.
         comment_span c)"
proof -
  let ?s = "fold comment_step (considered_comments sc ignoreHeader) ([], [])"
  from assms have "commentLines = sort (fst ?s)" "nosonarLines = sort (snd ?s)"
    by (auto simp: findCommentLines_def split: prod.splits)
  then show ?thesis by (simp add: fold_comment_step)
qed

definition example_comment :: comment where
  "example_comment = \<lparr>com_type = ''Line'', com_value = '' noSonar here'', com_range = (0, 15),
     com_loc = Some \<lparr>loc_start = \<lparr>pos_line = 3, pos_column = 0\<rparr>,
       loc_end = \<lparr>pos_line = 3, pos_column = 15\<rparr>\<rparr>\<rparr>"

definition example_source :: "comment list \<Rightarrow> source_code" where
  "example_source cs = \<lparr>sc_ast = JNull, sc_tokens = [], sc_comments = cs,
     sc_templateBody = None, sc_visitorKeys = (\<lambda>_. None), sc_getTokens = (\<lambda>_. []),
     sc_getFirstToken = (\<lambda>_. None), sc_getCommentsBefore = (\<lambda>_. []),
     sc_getLocFromIndex = (\<lambda>i. \<lparr>pos_line = 1, pos_column = i\<rparr>)\<rparr>"

lemma example_comment_lines: "findCommentLines (example_source [example_comment]) False = ([], [3])"
  by code_simp

lemma findCommentLines_example:
  "findCommentLines (example_source [example_comment]) False = ([], [3]) \<and>
   set [3] = (\<Union>c \<in> {c \<in> set (considered_comments (example_source [example_comment]) False).
     is_nosonar c}. comment_span c)"
  using findCommentLines_correct [OF example_comment_lines] example_comment_lines by blast

end
