(* ===== verification/Scopes.thy ===== *)
theory Scopes
  imports Prelude
begin

text \<open>
  The scope analysis ESLint hands to the rules: variables with their definitions and
  references, and scopes linked to their upper scope. Variables and references are objects
  compared by identity; a reference names the variable it resolves to by that identity. ESLint
  marks built-in globals by a \<^verbatim>\<open>writeable\<close> of \<^verbatim>\<open>false\<close>.
\<close>

record reference =
  ref_id :: nat
  ref_identifier :: node
  ref_isRead :: bool
  ref_isWrite :: bool
  ref_writeExpr :: "node option"
  ref_resolved :: "nat option"

record definition_of_variable =
  def_type :: string
  def_name :: node
  def_node :: node
  def_parent :: node

record variable =
  var_id :: nat
  var_name :: string
  var_defs :: "definition_of_variable list"
  var_references :: "reference list"
  var_writeable :: "bool option"

datatype scope = Scope "variable list" "reference list" "scope option"

fun scope_variables :: "scope \<Rightarrow> variable list" where
  "scope_variables (Scope vs rs up) = vs"

fun scope_references :: "scope \<Rightarrow> reference list" where
  "scope_references (Scope vs rs up) = rs"

fun scope_upper :: "scope \<Rightarrow> scope option" where
  "scope_upper (Scope vs rs up) = up"

text \<open>The identity of a node, and sets of objects keyed by their identity.\<close>

fun node_id :: "node \<Rightarrow> nat option" where
  "node_id (JObj i r l fs) = Some i"
| "node_id _ = None"

definition add_by :: "('a \<Rightarrow> 'k) \<Rightarrow> 'a \<Rightarrow> 'a list \<Rightarrow> 'a list" where
  "add_by key x xs = (if key x \<in> key ` set xs then xs else xs @ [x])"

lemma keys_add_by [simp]: "key ` set (add_by key x xs) = insert (key x) (key ` set xs)"
  by (auto simp: add_by_def)

lemma set_add_by: "set xs \<subseteq> set (add_by key x xs) \<and> set (add_by key x xs) \<subseteq> insert x (set xs)"
  by (auto simp: add_by_def)

lemma distinct_add_by: "distinct (map key xs) \<Longrightarrow> distinct (map key (add_by key x xs))"
  by (auto simp: add_by_def)

lemma fold_add_by:
  "key ` set (fold (add_by key) ys xs) = key ` set xs \<union> key ` set ys"
  "distinct (map key xs) \<Longrightarrow> distinct (map key (fold (add_by key) ys xs))"
  "set (fold (add_by key) ys xs) \<subseteq> set xs \<union> set ys"
proof -
  show "key ` set (fold (add_by key) ys xs) = key ` set xs \<union> key ` set ys"
    by (induction ys arbitrary: xs) auto
  show "distinct (map key xs) \<Longrightarrow> distinct (map key (fold (add_by key) ys xs))"
    by (induction ys arbitrary: xs) (auto simp: distinct_add_by)
  show "set (fold (add_by key) ys xs) \<subseteq> set xs \<union> set ys"
  proof (induction ys arbitrary: xs)
    case (Cons y ys)
    have "set (fold (add_by key) ys (add_by key y xs)) \<subseteq> set (add_by key y xs) \<union> set ys"
      by (rule Cons)
    also have "\<dots> \<subseteq> set xs \<union> set (y # ys)"
      using set_add_by [of xs key y] by auto
    finally show ?case by simp
  qed simp
qed

end
