(* ===== verification/Highlighting.thy ===== *)
theory Highlighting
  imports Metrics Scopes
begin

text \<open>
  What the bridge sends back besides issues and metrics: the syntax highlighting, the
  copy-paste tokens and the symbol highlighting of
  \<^verbatim>\<open>src/linting/eslint/linter/visitors/\<close>.
\<close>

section \<open>Syntax highlighting\<close>

datatype text_type = CONSTANT | COMMENT | STRUCTURED_COMMENT | KEYWORD | STRING

record syntax_highlight =
  sh_location :: location
  sh_textType :: text_type

definition highlight ::
  "source_loc option \<Rightarrow> text_type \<Rightarrow> syntax_highlight list \<Rightarrow> syntax_highlight list" where
  "highlight node_location highlightKind highlights =
     (case node_location of
        None \<Rightarrow> highlights
      | Some loc \<Rightarrow> highlights @ [\<lparr>sh_location =
          \<lparr>startLine = pos_line (loc_start loc), startCol = pos_column (loc_start loc),
           endLine = pos_line (loc_end loc), endCol = pos_column (loc_end loc)\<rparr>,
          sh_textType = highlightKind\<rparr>])"

definition highlight_token :: "token \<Rightarrow> syntax_highlight list \<Rightarrow> syntax_highlight list" where
  "highlight_token token highlights =
     (if tok_type token \<in> {''HTMLTagOpen'', ''HTMLTagClose'', ''HTMLEndTagOpen'',
           ''HTMLSelfClosingTagClose'', ''Keyword''}
      then highlight (Some (tok_loc token)) KEYWORD highlights
      else if tok_type token \<in> {''HTMLLiteral'', ''String'', ''Template'', ''RegularExpression''}
      then highlight (Some (tok_loc token)) STRING highlights
      else if tok_type token = ''Numeric''
      then highlight (Some (tok_loc token)) CONSTANT highlights
      else highlights)"

definition highlight_comment :: "comment \<Rightarrow> syntax_highlight list \<Rightarrow> syntax_highlight list" where
  "highlight_comment comment highlights =
     (if (com_type comment = ''Block'' \<and> starts_with (com_value comment) ''*'')
         \<or> com_type comment = ''HTMLBogusComment''
      then highlight (com_loc comment) STRUCTURED_COMMENT highlights
      else highlight (com_loc comment) COMMENT highlights)"

definition getSyntaxHighlighting :: "source_code \<Rightarrow> syntax_highlight list" where
  "getSyntaxHighlighting sc =
     (let (tokens, comments) = extractTokensAndComments sc
      in fold highlight_comment comments (fold highlight_token tokens []))"

section \<open>Copy-paste detection\<close>

record cpd_token =
  cpd_location :: location
  cpd_image :: string

text \<open>The tokens of JSX attribute literals, of imports and of \<^verbatim>\<open>require\<close> calls.\<close>

record cpd_extract =
  jsxTokens :: "token list"
  importTokens :: "token list"
  requireTokens :: "token list"

definition extract_step :: "source_code \<Rightarrow> node \<Rightarrow> cpd_extract \<Rightarrow> cpd_extract" where
  "extract_step sc n s =
     (if is_type n ''JSXAttribute'' then
        if is_type (fld n ''value'') ''Literal''
        then s\<lparr>jsxTokens := jsxTokens s @ sc_getTokens sc (fld n ''value'')\<rparr> else s
      else if is_type n ''ImportDeclaration'' then
        s\<lparr>importTokens := importTokens s @ sc_getTokens sc n\<rparr>
      else if is_type n ''CallExpression'' then
        if is_type (fld n ''callee'') ''Identifier'' \<and>
           fld (fld n ''callee'') ''name'' = JStr ''require''
        then s\<lparr>requireTokens := requireTokens s @ sc_getTokens sc n\<rparr> else s
      else s)"

definition extractTokens :: "source_code \<Rightarrow> cpd_extract" where
  "extractTokens sc =
     visit sc (extract_step sc) \<lparr>jsxTokens = [], importTokens = [], requireTokens = []\<rparr>"

definition isStringLiteralToken :: "token \<Rightarrow> bool" where
  "isStringLiteralToken token \<longleftrightarrow>
     starts_with (tok_value token) [CHR 0x22] \<or> starts_with (tok_value token) [CHR 0x27] \<or>
     starts_with (tok_value token) [CHR 0x60]"

text \<open>\<^verbatim>\<open>tokens.includes(token)\<close> compares tokens by identity.\<close>

definition includes_token :: "token list \<Rightarrow> token \<Rightarrow> bool" where
  "includes_token ts t \<longleftrightarrow> tok_id t \<in> tok_id ` set ts"

definition cpd_step :: "cpd_extract \<Rightarrow> token \<Rightarrow> cpd_token list \<Rightarrow> cpd_token list" where
  "cpd_step ex token cpdTokens =
     (if length (trim (tok_value token)) = 0 then cpdTokens
      else if includes_token (importTokens ex) token then cpdTokens
      else if includes_token (requireTokens ex) token then cpdTokens
      else let text = (if isStringLiteralToken token \<and> \<not> includes_token (jsxTokens ex) token
                       then ''LITERAL'' else tok_value token);
               startPosition = loc_start (tok_loc token); endPosition = loc_end (tok_loc token)
           in cpdTokens @ [\<lparr>cpd_location =
                \<lparr>startLine = pos_line startPosition, startCol = pos_column startPosition,
                 endLine = pos_line endPosition, endCol = pos_column endPosition\<rparr>,
                cpd_image = text\<rparr>])"

definition getCpdTokens :: "source_code \<Rightarrow> cpd_token list" where
  "getCpdTokens sc = (let ex = extractTokens sc in fold (cpd_step ex) (sc_tokens sc) [])"

section \<open>Symbol highlighting\<close>

record symbol_highlight =
  sy_declaration :: location
  sy_references :: "location list"

text \<open>
  The location of an identifier without its type annotation. It is only asked for nodes
  that have a location.
\<close>

definition identifierLocation :: "source_code \<Rightarrow> node \<Rightarrow> source_loc \<Rightarrow> location" where
  "identifierLocation sc n loc =
     convertLocation
       \<lparr>loc_start = loc_start loc,
        loc_end = (if is_type n ''Identifier'' \<and> truthy (fld n ''typeAnnotation'')
          then (case node_range (fld n ''typeAnnotation'') of
                  Some (s, e) \<Rightarrow> sc_getLocFromIndex sc s
                | None \<Rightarrow> loc_end loc)
          else loc_end loc)\<rparr>"

text \<open>The handler of every node adds the variables it declares.\<close>

definition symbols_on_node :: "(node \<Rightarrow> variable list) \<Rightarrow> node \<Rightarrow> variable list \<Rightarrow> variable list" where
  "symbols_on_node getDeclaredVariables n variables =
     fold (add_by var_id) (getDeclaredVariables n) variables"

text \<open>
  All the occurrences of a variable: its definitions and references without duplicates,
  those without a location left out, in the order of their lines (the sort is stable).
\<close>

definition all_ref :: "variable \<Rightarrow> (node \<times> source_loc) list" where
  "all_ref v =
     sort_key (\<lambda>(n, loc). pos_line (loc_start loc))
       (List.map_filter (\<lambda>n. map_option (\<lambda>loc. (n, loc)) (node_loc n))
         (fold (add_by node_id)
            (map def_name (var_defs v) @ map ref_identifier (var_references v)) []))"

definition highlight_variable :: "source_code \<Rightarrow> variable \<Rightarrow> symbol_highlight list" where
  "highlight_variable sc v =
     (case all_ref v of
        [] \<Rightarrow> []
      | (n, loc) # rest \<Rightarrow>
          [\<lparr>sy_declaration = identifierLocation sc n loc,
            sy_references = map (\<lambda>(r, l). identifierLocation sc r l) rest\<rparr>])"

text \<open>
  The pairs of braces and of HTML tags: two stacks, as the arrays of the source (the top is
  the last element). A closing brace without an open one makes the source read a property
  of \<^verbatim>\<open>undefined\<close>, which throws.
\<close>

record bracket_state =
  openCurlyBraces :: "token list"
  openHtmlTags :: "token list"
  bracketPairs :: "symbol_highlight list"

definition pair_of :: "token \<Rightarrow> token \<Rightarrow> symbol_highlight" where
  "pair_of opening closing =
     \<lparr>sy_declaration = convertLocation (tok_loc opening),
      sy_references = [convertLocation (tok_loc closing)]\<rparr>"

definition bracket_step :: "token \<Rightarrow> bracket_state \<Rightarrow> bracket_state res" where
  "bracket_step token s =
     (if tok_type token = ''Punctuator'' then
        if tok_value token = ''{'' then Inr (s\<lparr>openCurlyBraces := openCurlyBraces s @ [token]\<rparr>)
        else if tok_value token = ''}'' then
          (if openCurlyBraces s = []
           then Inl (JsError ''Cannot read properties of undefined'' '''')
           else Inr (s\<lparr>openCurlyBraces := butlast (openCurlyBraces s),
                       bracketPairs := bracketPairs s @ [pair_of (last (openCurlyBraces s)) token]\<rparr>))
        else Inr s
      else if tok_type token = ''HTMLTagOpen'' then
        Inr (s\<lparr>openHtmlTags := openHtmlTags s @ [token]\<rparr>)
      else if tok_type token = ''HTMLSelfClosingTagClose'' then
        Inr (s\<lparr>openHtmlTags := butlast (openHtmlTags s)\<rparr>)
      else if tok_type token = ''HTMLEndTagOpen'' then
        (if openHtmlTags s = [] then Inr s
         else Inr (s\<lparr>openHtmlTags := butlast (openHtmlTags s),
                     bracketPairs := bracketPairs s @ [pair_of (last (openHtmlTags s)) token]\<rparr>))
      else Inr s)"

fun bracket_loop :: "token list \<Rightarrow> bracket_state \<Rightarrow> bracket_state res" where
  "bracket_loop [] s = Inr s"
| "bracket_loop (t # ts) s = bind_res (bracket_step t s) (bracket_loop ts)"

text \<open>The handler of \<^verbatim>\<open>Program:exit\<close>: what it reports, before serialization.\<close>

definition symbols_on_exit :: "source_code \<Rightarrow> variable list \<Rightarrow> symbol_highlight list res" where
  "symbols_on_exit sc variables =
     bind_res
       (bracket_loop (fst (extractTokensAndComments sc))
          \<lparr>openCurlyBraces = [], openHtmlTags = [],
           bracketPairs = concat (map (highlight_variable sc) variables)\<rparr>)
       (\<lambda>s. Inr (bracketPairs s))"

definition symbolHighlighting ::
  "source_code \<Rightarrow> (node \<Rightarrow> variable list) \<Rightarrow> node list \<Rightarrow> symbol_highlight list res" where
  "symbolHighlighting sc getDeclaredVariables visited =
     symbols_on_exit sc (fold (symbols_on_node getDeclaredVariables) visited [])"

section \<open>Correctness\<close>

subsection \<open>Copy-paste tokens\<close>

definition is_require_call :: "node \<Rightarrow> bool" where
  "is_require_call n \<longleftrightarrow> is_type n ''CallExpression'' \<and> is_type (fld n ''callee'') ''Identifier'' \<and>
     fld (fld n ''callee'') ''name'' = JStr ''require''"

text \<open>Tokens of an import or of a call of \<^verbatim>\<open>require\<close>, and tokens of JSX attribute literals.\<close>

definition cpd_ignored :: "source_code \<Rightarrow> token \<Rightarrow> bool" where
  "cpd_ignored sc t \<longleftrightarrow>
     (\<exists>n \<in> set (all_nodes sc). (is_type n ''ImportDeclaration'' \<or> is_require_call n) \<and>
        includes_token (sc_getTokens sc n) t)"

definition jsx_literal :: "source_code \<Rightarrow> token \<Rightarrow> bool" where
  "jsx_literal sc t \<longleftrightarrow>
     (\<exists>n \<in> set (all_nodes sc). is_type n ''JSXAttribute'' \<and> is_type (fld n ''value'') ''Literal'' \<and>
        includes_token (sc_getTokens sc (fld n ''value'')) t)"

lemma includes_token_concat:
  "includes_token (concat (map f ns)) t \<longleftrightarrow> (\<exists>n \<in> set ns. includes_token (f n) t)"
  by (auto simp: includes_token_def)

lemma import_tokens:
  "includes_token (importTokens (extractTokens sc)) t \<longleftrightarrow>
     (\<exists>n \<in> set (all_nodes sc). is_type n ''ImportDeclaration'' \<and> includes_token (sc_getTokens sc n) t)"
proof -
  let ?new = "\<lambda>n. if is_type n ''ImportDeclaration'' then sc_getTokens sc n else []"
  have "importTokens (extractTokens sc) = [] @ concat (map ?new (all_nodes sc))"
    unfolding extractTokens_def
    by (subst sv.visit_appends [where out = importTokens and new = ?new])
      (auto simp: extract_step_def dest: is_type_unique)
  then show ?thesis by (auto simp: includes_token_concat split: if_splits) (auto simp: includes_token_def)
qed

lemma require_tokens:
  "includes_token (requireTokens (extractTokens sc)) t \<longleftrightarrow>
     (\<exists>n \<in> set (all_nodes sc). is_require_call n \<and> includes_token (sc_getTokens sc n) t)"
proof -
  let ?new = "\<lambda>n. if is_require_call n then sc_getTokens sc n else []"
  have "requireTokens (extractTokens sc) = [] @ concat (map ?new (all_nodes sc))"
    unfolding extractTokens_def
    by (subst sv.visit_appends [where out = requireTokens and new = ?new])
      (auto simp: extract_step_def is_require_call_def dest: is_type_unique)
  then show ?thesis by (auto simp: includes_token_concat split: if_splits) (auto simp: includes_token_def)
qed

lemma jsx_tokens: "includes_token (jsxTokens (extractTokens sc)) t \<longleftrightarrow> jsx_literal sc t"
proof -
  let ?new = "\<lambda>n. if is_type n ''JSXAttribute'' \<and> is_type (fld n ''value'') ''Literal''
    then sc_getTokens sc (fld n ''value'') else []"
  have "jsxTokens (extractTokens sc) = [] @ concat (map ?new (all_nodes sc))"
    unfolding extractTokens_def
    by (subst sv.visit_appends [where out = jsxTokens and new = ?new])
      (auto simp: extract_step_def dest: is_type_unique)
  then show ?thesis
    by (auto simp: includes_token_concat jsx_literal_def split: if_splits)
      (auto simp: includes_token_def)
qed

definition cpd_kept :: "source_code \<Rightarrow> token \<Rightarrow> bool" where
  "cpd_kept sc t \<longleftrightarrow> (\<exists>c \<in> set (tok_value t). \<not> is_space c) \<and> \<not> cpd_ignored sc t"

definition cpd_of :: "source_code \<Rightarrow> token \<Rightarrow> cpd_token" where
  "cpd_of sc t = \<lparr>cpd_location = convertLocation (tok_loc t),
     cpd_image = (if isStringLiteralToken t \<and> \<not> jsx_literal sc t then ''LITERAL'' else tok_value t)\<rparr>"

lemma cpd_step_spec:
  "cpd_step (extractTokens sc) t acc = acc @ (if cpd_kept sc t then [cpd_of sc t] else [])"
proof -
  have "includes_token (importTokens (extractTokens sc)) t \<or>
      includes_token (requireTokens (extractTokens sc)) t \<longleftrightarrow> cpd_ignored sc t"
    by (auto simp: import_tokens require_tokens cpd_ignored_def)
  then show ?thesis
    by (auto simp: cpd_step_def cpd_kept_def cpd_of_def jsx_tokens trim_empty_iff Let_def convertLocation_def)
qed

text \<open>
  The copy-paste tokens are, in the order of the file, the tokens that are not blank and
  do not belong to an import or a \<^verbatim>\<open>require\<close> call of the tree, each at its own location; a
  string literal is anonymised unless it is the value of a JSX attribute, and the image of
  every other token is its text.
\<close>

lemma getCpdTokens_correct:
  "getCpdTokens sc = map (cpd_of sc) (filter (cpd_kept sc) (sc_tokens sc))"
proof -
  have "fold (cpd_step (extractTokens sc)) ts acc = acc @ map (cpd_of sc) (filter (cpd_kept sc) ts)" for ts acc
    by (induction ts arbitrary: acc) (simp_all add: cpd_step_spec)
  then show ?thesis by (simp add: getCpdTokens_def)
qed

subsection \<open>Symbols\<close>

definition opens :: "token list \<Rightarrow> nat" where
  "opens ts = length (filter (\<lambda>t. tok_type t = ''Punctuator'' \<and> tok_value t = ''{'') ts)"

definition closes :: "token list \<Rightarrow> nat" where
  "closes ts = length (filter (\<lambda>t. tok_type t = ''Punctuator'' \<and> tok_value t = ''}'') ts)"

lemma bracket_step_depth:
  assumes "bracket_step t s = Inr s'"
  shows "length (openCurlyBraces s') + closes [t] = length (openCurlyBraces s) + opens [t]"
  using assms
  by (auto simp: bracket_step_def opens_def closes_def split: if_splits)

lemma bracket_step_error:
  "(\<exists>e. bracket_step t s = Inl e) \<longleftrightarrow> closes [t] = 1 \<and> openCurlyBraces s = []"
  by (auto simp: bracket_step_def closes_def)

lemma opens_Cons: "opens (t # ts) = opens [t] + opens ts"
  by (simp add: opens_def)

lemma closes_Cons: "closes (t # ts) = closes [t] + closes ts"
  by (simp add: closes_def)

lemma closes_le_1: "closes [t] \<le> 1"
  by (simp add: closes_def)

lemma close_not_open: "closes [t] = 1 \<Longrightarrow> opens [t] = 0"
  by (simp add: closes_def opens_def split: if_splits)

lemma bracket_loop_error:
  "(\<exists>e. bracket_loop ts s = Inl e) \<longleftrightarrow>
     (\<exists>us vs. ts = us @ vs \<and> length (openCurlyBraces s) + opens us < closes us)"
proof (induction ts arbitrary: s)
  case Nil
  then show ?case by (simp add: opens_def closes_def)
next
  case (Cons t ts)
  show ?case
  proof (cases "bracket_step t s")
    case (Inl e)
    then have "closes [t] = 1" "openCurlyBraces s = []" using bracket_step_error by blast+
    with close_not_open have "length (openCurlyBraces s) + opens [t] < closes [t]" by simp
    then have "\<exists>us vs. t # ts = us @ vs \<and> length (openCurlyBraces s) + opens us < closes us"
      by (metis append_Cons append_Nil)
    with Inl show ?thesis by simp
  next
    case (Inr s')
    note depth = bracket_step_depth [OF Inr]
    have "(\<exists>us vs. t # ts = us @ vs \<and> length (openCurlyBraces s) + opens us < closes us) \<longleftrightarrow>
        (\<exists>us vs. ts = us @ vs \<and> length (openCurlyBraces s') + opens us < closes us)"
    proof
      assume "\<exists>us vs. t # ts = us @ vs \<and> length (openCurlyBraces s) + opens us < closes us"
      then obtain us vs where uv: "t # ts = us @ vs"
        "length (openCurlyBraces s) + opens us < closes us" by blast
      then obtain us' where "us = t # us'" "ts = us' @ vs"
        by (cases us) (auto simp: opens_def closes_def)
      with uv depth have "length (openCurlyBraces s') + opens us' < closes us'"
        by (simp add: opens_Cons [of t us'] closes_Cons [of t us'])
      with \<open>ts = us' @ vs\<close>
      show "\<exists>us vs. ts = us @ vs \<and> length (openCurlyBraces s') + opens us < closes us" by blast
    next
      assume "\<exists>us vs. ts = us @ vs \<and> length (openCurlyBraces s') + opens us < closes us"
      then obtain us vs where uv: "ts = us @ vs"
        "length (openCurlyBraces s') + opens us < closes us" by blast
      with depth have "length (openCurlyBraces s) + opens (t # us) < closes (t # us)"
        by (simp add: opens_Cons [of t us] closes_Cons [of t us])
      with uv(1) show "\<exists>us vs. t # ts = us @ vs \<and> length (openCurlyBraces s) + opens us < closes us"
        by (metis append_Cons)
    qed
    with Cons.IH [of s'] Inr show ?thesis by simp
  qed
qed

text \<open>
  C7: symbol highlighting throws exactly on the sources in which some prefix of the tokens
  closes more braces than it opens; on every other source it returns its highlights.
\<close>

theorem symbolHighlighting_error_iff:
  "(\<exists>e. symbolHighlighting sc getDeclaredVariables visited = Inl e) \<longleftrightarrow>
     (\<exists>us vs. fst (extractTokensAndComments sc) = us @ vs \<and> opens us < closes us)"
  using bracket_loop_error [of "fst (extractTokensAndComments sc)"]
  by (simp add: symbolHighlighting_def symbols_on_exit_def bind_res_eq_Inl)

text \<open>Words of balanced braces, and what the two stacks do on them.\<close>

inductive balanced :: "token list \<Rightarrow> bool" where
  empty: "balanced []"
| other: "balanced ts \<Longrightarrow> opens [t] = 0 \<Longrightarrow> closes [t] = 0 \<Longrightarrow> balanced (t # ts)"
| wrap: "balanced ts \<Longrightarrow> balanced us \<Longrightarrow> opens [t] = 1 \<Longrightarrow> closes [u] = 1 \<Longrightarrow>
     balanced (t # ts @ u # us)"

lemma bracket_loop_append:
  "bracket_loop (ts @ us) s = bind_res (bracket_loop ts s) (bracket_loop us)"
proof (induction ts arbitrary: s)
  case (Cons t ts)
  then show ?case by (cases "bracket_step t s") simp_all
qed simp

lemma bracket_step_open:
  "opens [t] = 1 \<Longrightarrow> bracket_step t s = Inr (s\<lparr>openCurlyBraces := openCurlyBraces s @ [t]\<rparr>)"
  by (simp add: bracket_step_def opens_def split: if_splits)

lemma bracket_step_close:
  "closes [u] = 1 \<Longrightarrow> openCurlyBraces s = st @ [t] \<Longrightarrow>
   bracket_step u s =
     Inr (s\<lparr>openCurlyBraces := st, bracketPairs := bracketPairs s @ [pair_of t u]\<rparr>)"
  by (auto simp: bracket_step_def closes_def split: if_splits)

lemma bracket_step_other:
  "opens [t] = 0 \<Longrightarrow> closes [t] = 0 \<Longrightarrow>
   \<exists>s'. bracket_step t s = Inr s' \<and> openCurlyBraces s' = openCurlyBraces s"
  by (auto simp: bracket_step_def opens_def closes_def split: if_splits)

lemma balanced_loop:
  "balanced ts \<Longrightarrow> \<exists>s'. bracket_loop ts s = Inr s' \<and> openCurlyBraces s' = openCurlyBraces s"
proof (induction arbitrary: s rule: balanced.induct)
  case (other ts t)
  obtain s1 where s1: "bracket_step t s = Inr s1" "openCurlyBraces s1 = openCurlyBraces s"
    using bracket_step_other [OF other.hyps(2,3)] by blast
  with other.IH [of s1] show ?case by auto
next
  case (wrap ts us t u)
  let ?s1 = "s\<lparr>openCurlyBraces := openCurlyBraces s @ [t]\<rparr>"
  obtain s2 where s2: "bracket_loop ts ?s1 = Inr s2" "openCurlyBraces s2 = openCurlyBraces s @ [t]"
    using wrap.IH(1) [of ?s1] by auto
  let ?s3 = "s2\<lparr>openCurlyBraces := openCurlyBraces s, bracketPairs := bracketPairs s2 @ [pair_of t u]\<rparr>"
  have "bracket_loop (t # ts @ u # us) s = bracket_loop us ?s3"
    using s2 wrap.hyps by (simp add: bracket_loop_append bracket_step_open bracket_step_close)
  with wrap.IH(2) [of ?s3] show ?case by auto
qed simp

text \<open>
  A closing brace is paired with the brace it closes: after an opening brace and any
  balanced sequence of tokens, the highlight added for the closing brace has the opening
  brace as its declaration, and the stack of open braces is what it was before.
\<close>

lemma braces_match:
  assumes "balanced ts" and "opens [t] = 1" and "closes [u] = 1"
  shows "\<exists>s'. bracket_loop (t # ts @ [u]) s = Inr s' \<and> openCurlyBraces s' = openCurlyBraces s \<and>
    last (bracketPairs s') = pair_of t u"
proof -
  let ?s1 = "s\<lparr>openCurlyBraces := openCurlyBraces s @ [t]\<rparr>"
  obtain s2 where "bracket_loop ts ?s1 = Inr s2" "openCurlyBraces s2 = openCurlyBraces s @ [t]"
    using balanced_loop [OF assms(1), of ?s1] by auto
  then show ?thesis
    using assms by (simp add: bracket_loop_append bracket_step_open bracket_step_close)
qed

definition example_brace :: "nat \<Rightarrow> string \<Rightarrow> token" where
  "example_brace i v = \<lparr>tok_id = i, tok_type = ''Punctuator'', tok_value = v, tok_range = (int i, int i + 1),
     tok_loc = \<lparr>loc_start = \<lparr>pos_line = 1, pos_column = int i\<rparr>,
       loc_end = \<lparr>pos_line = 1, pos_column = int i + 1\<rparr>\<rparr>\<rparr>"

lemma braces_match_example:
  "\<exists>s'. bracket_loop [example_brace 0 ''{'', example_brace 1 '';'', example_brace 2 ''}'']
      \<lparr>openCurlyBraces = [], openHtmlTags = [], bracketPairs = []\<rparr> = Inr s' \<and>
    openCurlyBraces s' = [] \<and> last (bracketPairs s') = pair_of (example_brace 0 ''{'') (example_brace 2 ''}'')"
proof -
  have "balanced [example_brace 1 '';'']"
    by (rule balanced.other [OF balanced.empty]) (simp_all add: opens_def closes_def example_brace_def)
  moreover have "opens [example_brace 0 ''{''] = 1" "closes [example_brace 2 ''}''] = 1"
    by (simp_all add: opens_def closes_def example_brace_def)
  ultimately show ?thesis
    using braces_match [of "[example_brace 1 '';'']" "example_brace 0 ''{''" "example_brace 2 ''}''"
        "\<lparr>openCurlyBraces = [], openHtmlTags = [], bracketPairs = []\<rparr>"]
    by simp
qed

end
