(* ===== verification/Json.thy ===== *)
theory Json
  imports Prelude
begin

text \<open>
  \<^verbatim>\<open>JSON.stringify\<close> and \<^verbatim>\<open>JSON.parse\<close> of the language's standard library, which the
  bridge uses to carry secondary locations and symbol highlights through the message of an
  ESLint report. Numbers are integers (lines, columns and costs); strings are made of the
  code units below 256. The round trip \<open>parse_stringify\<close> is what the issue decoding
  relies on; the locale \<open>text_codec\<close> states it as an interface.
\<close>

datatype json =
    JsonNull
  | JsonBool bool
  | JsonNumber int
  | JsonString string
  | JsonArray "json list"
  | JsonObject "(string \<times> json) list"

section \<open>Printing\<close>

definition hex_digit :: "nat \<Rightarrow> char" where
  "hex_digit n = (if n < 10 then char_of (48 + n) else char_of (87 + n))"

definition BACKSLASH :: char where "BACKSLASH = CHR 0x5C"
definition QUOTE :: char where "QUOTE = CHR 0x22"

lemmas special_chars = BACKSLASH_def QUOTE_def

definition escape_char :: "char \<Rightarrow> string" where
  "escape_char c =
     (let n = (of_char c :: nat) in
      if n = 34 then [BACKSLASH, QUOTE]
      else if n = 92 then [BACKSLASH, BACKSLASH]
      else if n = 8 then [BACKSLASH, CHR ''b'']
      else if n = 12 then [BACKSLASH, CHR ''f'']
      else if n = 10 then [BACKSLASH, CHR ''n'']
      else if n = 13 then [BACKSLASH, CHR ''r'']
      else if n = 9 then [BACKSLASH, CHR ''t'']
      else if n < 32
      then [BACKSLASH, CHR ''u'', CHR ''0'', CHR ''0'', hex_digit (n div 16), hex_digit (n mod 16)]
      else [c])"

definition stringify_string :: "string \<Rightarrow> string" where
  "stringify_string s = QUOTE # concat (map escape_char s) @ [QUOTE]"

fun show_nat :: "nat \<Rightarrow> string" where
  "show_nat n = (if n < 10 then [char_of (48 + n)] else show_nat (n div 10) @ [char_of (48 + n mod 10)])"

declare show_nat.simps [simp del]

definition show_int :: "int \<Rightarrow> string" where
  "show_int i = (if i < 0 then CHR ''-'' # show_nat (nat (- i)) else show_nat (nat i))"

fun stringify :: "json \<Rightarrow> string"
  and stringify_elems :: "json list \<Rightarrow> string"
  and stringify_members :: "(string \<times> json) list \<Rightarrow> string" where
  "stringify JsonNull = ''null''"
| "stringify (JsonBool b) = (if b then ''true'' else ''false'')"
| "stringify (JsonNumber i) = show_int i"
| "stringify (JsonString s) = stringify_string s"
| "stringify (JsonArray []) = ''[]''"
| "stringify (JsonArray (x # xs)) = CHR ''['' # stringify x @ stringify_elems xs"
| "stringify (JsonObject []) = ''{}''"
| "stringify (JsonObject ((k, v) # ms)) =
     CHR ''{'' # stringify_string k @ CHR '':'' # stringify v @ stringify_members ms"
| "stringify_elems [] = '']''"
| "stringify_elems (x # xs) = CHR '','' # stringify x @ stringify_elems xs"
| "stringify_members [] = ''}''"
| "stringify_members ((k, v) # ms) =
     CHR '','' # stringify_string k @ CHR '':'' # stringify v @ stringify_members ms"

section \<open>Parsing\<close>

definition is_ws :: "char \<Rightarrow> bool" where
  "is_ws c \<longleftrightarrow> (of_char c :: nat) \<in> {9, 10, 13, 32}"

definition skip_ws :: "string \<Rightarrow> string" where
  "skip_ws s = dropWhile is_ws s"

definition digit_val :: "char \<Rightarrow> nat option" where
  "digit_val c = (let n = (of_char c :: nat) in if 48 \<le> n \<and> n \<le> 57 then Some (n - 48) else None)"

definition hex_val :: "char \<Rightarrow> nat option" where
  "hex_val c =
     (let n = (of_char c :: nat) in
      if 48 \<le> n \<and> n \<le> 57 then Some (n - 48)
      else if 97 \<le> n \<and> n \<le> 102 then Some (n - 87)
      else if 65 \<le> n \<and> n \<le> 70 then Some (n - 55)
      else None)"

definition simple_escape :: "char \<Rightarrow> char option" where
  "simple_escape c =
     (if c = QUOTE \<or> c = BACKSLASH \<or> c = CHR ''/'' then Some c
      else if c = CHR ''b'' then Some (CHR 0x08)
      else if c = CHR ''f'' then Some (CHR 0x0C)
      else if c = CHR ''n'' then Some (CHR 0x0A)
      else if c = CHR ''r'' then Some (CHR 0x0D)
      else if c = CHR ''t'' then Some (CHR 0x09)
      else None)"

definition cons_fst :: "'a \<Rightarrow> ('a list \<times> 'b) option \<Rightarrow> ('a list \<times> 'b) option" where
  "cons_fst x r = map_option (\<lambda>(xs, y). (x # xs, y)) r"

text \<open>The characters of a string literal up to its closing quote, and the rest of the text.\<close>

definition hex4_val :: "char \<Rightarrow> char \<Rightarrow> char \<Rightarrow> char \<Rightarrow> char option" where
  "hex4_val a b c d =
     (case (hex_val a, hex_val b, hex_val c, hex_val d) of
        (Some i, Some j, Some k, Some l) \<Rightarrow>
          let n = ((i * 16 + j) * 16 + k) * 16 + l in if n < 256 then Some (char_of n) else None
      | _ \<Rightarrow> None)"

function parse_chars :: "string \<Rightarrow> (string \<times> string) option" where
  "parse_chars s =
     (case s of
        [] \<Rightarrow> None
      | c # r \<Rightarrow>
          if c = QUOTE then Some ([], r)
          else if c = BACKSLASH then
            (case r of
               e # r' \<Rightarrow>
                 (case simple_escape e of
                    Some x \<Rightarrow> cons_fst x (parse_chars r')
                  | None \<Rightarrow>
                      if e = CHR ''u''
                      then (case r' of
                              h1 # h2 # h3 # h4 # r'' \<Rightarrow>
                                (case hex4_val h1 h2 h3 h4 of
                                   Some x \<Rightarrow> cons_fst x (parse_chars r'')
                                 | None \<Rightarrow> None)
                            | _ \<Rightarrow> None)
                      else None)
             | [] \<Rightarrow> None)
          else if (of_char c :: nat) < 32 then None
          else cons_fst c (parse_chars r))"
  by pat_completeness auto
termination parse_chars
  by (relation "measure length") auto

declare parse_chars.simps [simp del]

fun parse_digits :: "nat \<Rightarrow> string \<Rightarrow> nat \<times> string" where
  "parse_digits acc [] = (acc, [])"
| "parse_digits acc (c # r) =
     (case digit_val c of Some d \<Rightarrow> parse_digits (10 * acc + d) r | None \<Rightarrow> (acc, c # r))"

text \<open>An integer without a leading zero.\<close>

definition parse_nat :: "string \<Rightarrow> (nat \<times> string) option" where
  "parse_nat s =
     (case s of
        [] \<Rightarrow> None
      | c # r \<Rightarrow>
          (case digit_val c of
             None \<Rightarrow> None
           | Some d \<Rightarrow> if d = 0 then Some (0, r) else Some (parse_digits d r)))"

definition parse_number :: "string \<Rightarrow> (json \<times> string) option" where
  "parse_number s =
     (case s of
        c # r \<Rightarrow>
          if c = CHR ''-''
          then map_option (\<lambda>(n, r'). (JsonNumber (- int n), r')) (parse_nat r)
          else map_option (\<lambda>(n, r'). (JsonNumber (int n), r')) (parse_nat s)
      | [] \<Rightarrow> None)"

definition parse_word :: "string \<Rightarrow> 'a \<Rightarrow> string \<Rightarrow> ('a \<times> string) option" where
  "parse_word w v s = (if starts_with s w then Some (v, drop (length w) s) else None)"

text \<open>
  Recursive descent; the fuel bounds the nesting and is the length of the text, which every
  call shortens.
\<close>

fun parse_value :: "nat \<Rightarrow> string \<Rightarrow> (json \<times> string) option"
  and parse_elems :: "nat \<Rightarrow> string \<Rightarrow> (json list \<times> string) option"
  and parse_members :: "nat \<Rightarrow> string \<Rightarrow> ((string \<times> json) list \<times> string) option"
  and parse_member :: "nat \<Rightarrow> string \<Rightarrow> ((string \<times> json) \<times> string) option" where
  "parse_value 0 s = None"
| "parse_value (Suc n) s =
     (case skip_ws s of
        [] \<Rightarrow> None
      | c # r \<Rightarrow>
          if c = CHR ''['' then
            (case skip_ws r of
               [] \<Rightarrow> None
             | d # r' \<Rightarrow>
                 if d = CHR '']'' then Some (JsonArray [], r')
                 else (case parse_value n (d # r') of
                         None \<Rightarrow> None
                       | Some (x, r2) \<Rightarrow>
                           map_option (\<lambda>(xs, r3). (JsonArray (x # xs), r3)) (parse_elems n r2)))
          else if c = CHR ''{'' then
            (case skip_ws r of
               [] \<Rightarrow> None
             | d # r' \<Rightarrow>
                 if d = CHR ''}'' then Some (JsonObject [], r')
                 else (case parse_member n (d # r') of
                         None \<Rightarrow> None
                       | Some (m, r2) \<Rightarrow>
                           map_option (\<lambda>(ms, r3). (JsonObject (m # ms), r3)) (parse_members n r2)))
          else if c = QUOTE then map_option (\<lambda>(t, r'). (JsonString t, r')) (parse_chars r)
          else if c = CHR ''n'' then parse_word ''null'' JsonNull (c # r)
          else if c = CHR ''t'' then parse_word ''true'' (JsonBool True) (c # r)
          else if c = CHR ''f'' then parse_word ''false'' (JsonBool False) (c # r)
          else parse_number (c # r))"
| "parse_elems 0 s = None"
| "parse_elems (Suc n) s =
     (case skip_ws s of
        [] \<Rightarrow> None
      | c # r \<Rightarrow>
          if c = CHR '']'' then Some ([], r)
          else if c = CHR '','' then
            (case parse_value n r of
               None \<Rightarrow> None
             | Some (x, r2) \<Rightarrow> map_option (\<lambda>(xs, r3). (x # xs, r3)) (parse_elems n r2))
          else None)"
| "parse_members 0 s = None"
| "parse_members (Suc n) s =
     (case skip_ws s of
        [] \<Rightarrow> None
      | c # r \<Rightarrow>
          if c = CHR ''}'' then Some ([], r)
          else if c = CHR '','' then
            (case parse_member n r of
               None \<Rightarrow> None
             | Some (m, r2) \<Rightarrow> map_option (\<lambda>(ms, r3). (m # ms, r3)) (parse_members n r2))
          else None)"
| "parse_member 0 s = None"
| "parse_member (Suc n) s =
     (case skip_ws s of
        [] \<Rightarrow> None
      | c # r \<Rightarrow>
          if c = QUOTE then
            (case parse_chars r of
               None \<Rightarrow> None
             | Some (k, r1) \<Rightarrow>
                 (case skip_ws r1 of
                    [] \<Rightarrow> None
                  | d # r2 \<Rightarrow>
                      if d = CHR '':''
                      then map_option (\<lambda>(v, r3). ((k, v), r3)) (parse_value n r2)
                      else None))
          else None)"

definition json_parse :: "string \<Rightarrow> json option" where
  "json_parse s =
     (case parse_value (Suc (length s)) s of
        Some (j, r) \<Rightarrow> if skip_ws r = [] then Some j else None
      | None \<Rightarrow> None)"

section \<open>Round trip\<close>

lemma char_literals:
  "char_of (34 :: nat) = CHR 0x22" "char_of (92 :: nat) = CHR 0x5C" "char_of (8 :: nat) = CHR 0x08"
  "char_of (12 :: nat) = CHR 0x0C" "char_of (10 :: nat) = CHR 0x0A" "char_of (13 :: nat) = CHR 0x0D"
  "char_of (9 :: nat) = CHR 0x09" "char_of (48 :: nat) = CHR ''0''"
  by (simp_all add: char_of_eq_iff)

lemma special_neq [simp]:
  "QUOTE \<noteq> CHR ''[''" "QUOTE \<noteq> CHR ''{''" "QUOTE \<noteq> CHR ''}''" "QUOTE \<noteq> CHR '']''"
  "CHR ''n'' \<noteq> QUOTE" "CHR ''t'' \<noteq> QUOTE" "CHR ''f'' \<noteq> QUOTE"
  by (simp_all add: special_chars)

lemma hex_digit_val: "n < 16 \<Longrightarrow> hex_val (hex_digit n) = Some n"
  by (simp add: hex_val_def hex_digit_def Let_def)

lemma digit_char_val: "n < 10 \<Longrightarrow> digit_val (char_of (48 + n)) = Some n"
  by (simp add: digit_val_def Let_def)

lemma parse_chars_quote: "parse_chars (QUOTE # r) = Some ([], r)"
  by (subst parse_chars.simps) simp

lemma parse_chars_simple:
  "simple_escape e = Some x \<Longrightarrow> parse_chars (BACKSLASH # e # r) = cons_fst x (parse_chars r)"
  by (subst parse_chars.simps) (simp add: special_chars)

lemma parse_chars_hex:
  "hex4_val a b c d = Some x \<Longrightarrow>
   parse_chars (BACKSLASH # CHR ''u'' # a # b # c # d # r) = cons_fst x (parse_chars r)"
  by (subst parse_chars.simps) (simp add: special_chars simple_escape_def)

lemma parse_chars_plain:
  "c \<noteq> QUOTE \<Longrightarrow> c \<noteq> BACKSLASH \<Longrightarrow> 32 \<le> (of_char c :: nat) \<Longrightarrow>
   parse_chars (c # r) = cons_fst c (parse_chars r)"
  by (subst parse_chars.simps) simp

lemma char_eqI: "(of_char c :: nat) = n \<Longrightarrow> c = char_of n"
  by auto

lemma hex4_control: "(n :: nat) < 32 \<Longrightarrow>
   hex4_val (CHR ''0'') (CHR ''0'') (hex_digit (n div 16)) (hex_digit (n mod 16)) = Some (char_of n)"
proof -
  assume "n < 32"
  then have "n div 16 < 16" "n mod 16 < 16" by auto
  moreover have "hex_val (CHR ''0'') = Some 0" by (simp add: hex_val_def)
  ultimately show ?thesis using \<open>n < 32\<close> by (simp add: hex4_val_def hex_digit_val Let_def)
qed

lemma escape_simple_values:
  "escape_char (CHR 0x22) = [BACKSLASH, QUOTE]" "escape_char (CHR 0x5C) = [BACKSLASH, BACKSLASH]"
  "escape_char (CHR 0x08) = [BACKSLASH, CHR ''b'']" "escape_char (CHR 0x0C) = [BACKSLASH, CHR ''f'']"
  "escape_char (CHR 0x0A) = [BACKSLASH, CHR ''n'']" "escape_char (CHR 0x0D) = [BACKSLASH, CHR ''r'']"
  "escape_char (CHR 0x09) = [BACKSLASH, CHR ''t'']"
  by (simp_all add: escape_char_def)

lemma simple_escape_values:
  "simple_escape QUOTE = Some (CHR 0x22)" "simple_escape BACKSLASH = Some (CHR 0x5C)"
  "simple_escape (CHR ''b'') = Some (CHR 0x08)" "simple_escape (CHR ''f'') = Some (CHR 0x0C)"
  "simple_escape (CHR ''n'') = Some (CHR 0x0A)" "simple_escape (CHR ''r'') = Some (CHR 0x0D)"
  "simple_escape (CHR ''t'') = Some (CHR 0x09)"
  by (simp_all add: simple_escape_def special_chars)

lemma escape_simple:
  assumes "c \<in> {CHR 0x22, CHR 0x5C, CHR 0x08, CHR 0x0C, CHR 0x0A, CHR 0x0D, CHR 0x09}"
  shows "parse_chars (escape_char c @ r) = cons_fst c (parse_chars r)"
  using assms
  by (elim insertE emptyE) (simp_all add: escape_simple_values simple_escape_values parse_chars_simple)

lemma parse_chars_escape: "parse_chars (escape_char c @ r) = cons_fst c (parse_chars r)"
proof -
  define n where "n = (of_char c :: nat)"
  then have c: "c = char_of n" by simp
  consider "n \<in> {34, 92, 8, 12, 10, 13, 9}" | "n \<notin> {34, 92, 8, 12, 10, 13, 9}" "n < 32"
    | "n \<notin> {34, 92, 8, 12, 10, 13, 9}" "32 \<le> n" by fastforce
  then show ?thesis
  proof cases
    case 1
    with c have "c \<in> {CHR 0x22, CHR 0x5C, CHR 0x08, CHR 0x0C, CHR 0x0A, CHR 0x0D, CHR 0x09}"
      by (auto simp: char_literals)
    then show ?thesis by (rule escape_simple)
  next
    case 2
    then have "escape_char c = [BACKSLASH, CHR ''u'', CHR ''0'', CHR ''0'', hex_digit (n div 16), hex_digit (n mod 16)]"
      by (simp add: escape_char_def n_def [symmetric])
    with parse_chars_hex [OF hex4_control] 2 show ?thesis by (simp add: c)
  next
    case 3
    then have "escape_char c = [c]" by (simp add: escape_char_def n_def [symmetric])
    moreover from 3 have "c \<noteq> QUOTE" "c \<noteq> BACKSLASH"
      using n_def by (auto simp: special_chars)
    ultimately show ?thesis using 3 parse_chars_plain [of c r] by (simp add: n_def)
  qed
qed

lemma parse_chars_string: "parse_chars (concat (map escape_char s) @ QUOTE # r) = Some (s, r)"
  by (induction s) (simp_all add: parse_chars_quote parse_chars_escape cons_fst_def)

definition no_digit :: "string \<Rightarrow> bool" where
  "no_digit r \<longleftrightarrow> (case r of [] \<Rightarrow> True | c # _ \<Rightarrow> digit_val c = None)"

lemma parse_digits_stop: "no_digit r \<Longrightarrow> parse_digits k r = (k, r)"
  by (cases r) (auto simp: no_digit_def)

lemma parse_digits_show:
  "parse_digits acc (show_nat n @ r) = parse_digits (acc * 10 ^ length (show_nat n) + n) r"
proof (induction n arbitrary: acc r rule: show_nat.induct)
  case (1 n)
  show ?case
  proof (cases "n < 10")
    case True
    then have "show_nat n = [char_of (48 + n)]" by (subst show_nat.simps) simp
    with True show ?thesis by (simp add: digit_char_val mult.commute)
  next
    case False
    then have sh: "show_nat n = show_nat (n div 10) @ [char_of (48 + n mod 10)]"
      by (subst show_nat.simps) simp
    have "n mod 10 < 10" by simp
    then show ?thesis
      using "1.IH" [OF False] by (simp add: sh digit_char_val algebra_simps)
  qed
qed

lemma show_nat_first:
  "0 < n \<Longrightarrow> \<exists>c t d. show_nat n = c # t \<and> digit_val c = Some d \<and> 0 < d"
proof (induction n rule: show_nat.induct)
  case (1 n)
  show ?case
  proof (cases "n < 10")
    case True
    then have "show_nat n = [char_of (48 + n)]" by (subst show_nat.simps) simp
    with True "1.prems" digit_char_val [of n] show ?thesis by auto
  next
    case False
    then have sh: "show_nat n = show_nat (n div 10) @ [char_of (48 + n mod 10)]"
      by (subst show_nat.simps) simp
    from False have "0 < n div 10" by (simp add: div_greater_zero_iff)
    with "1.IH" [OF False] sh show ?thesis by auto
  qed
qed

lemma show_nat_0: "show_nat 0 = ''0''"
  by (subst show_nat.simps) (simp add: char_literals)

lemma parse_nat_show: "no_digit r \<Longrightarrow> parse_nat (show_nat n @ r) = Some (n, r)"
proof (cases "n = 0")
  case True
  then show ?thesis by (simp add: show_nat_0 parse_nat_def digit_val_def)
next
  case False
  assume r: "no_digit r"
  from False show_nat_first [of n] obtain c t d where
    sh: "show_nat n = c # t" "digit_val c = Some d" "0 < d" by auto
  have "parse_nat (show_nat n @ r) = Some (parse_digits 0 (show_nat n @ r))"
    using sh by (simp add: parse_nat_def)
  also have "\<dots> = Some (n, r)"
    using r by (simp add: parse_digits_show parse_digits_stop)
  finally show ?thesis .
qed

lemma digit_not_minus: "digit_val c = Some d \<Longrightarrow> c \<noteq> CHR ''-''"
  by (auto simp: digit_val_def)

lemma show_nat_digit: "\<exists>c t d. show_nat n = c # t \<and> digit_val c = Some d"
  using show_nat_first [of n] show_nat_0 by (cases "n = 0") (auto simp: digit_val_def)

lemma parse_number_show: "no_digit r \<Longrightarrow> parse_number (show_int i @ r) = Some (JsonNumber i, r)"
proof (cases "i < 0")
  case True
  assume "no_digit r"
  with True show ?thesis by (simp add: show_int_def parse_number_def parse_nat_show)
next
  case False
  assume r: "no_digit r"
  obtain c t d where sh: "show_nat (nat i) = c # t" "digit_val c = Some d"
    using show_nat_digit by blast
  then have "parse_number (show_nat (nat i) @ r) =
      map_option (\<lambda>(n, r'). (JsonNumber (int n), r')) (parse_nat (show_nat (nat i) @ r))"
    using digit_not_minus by (simp add: parse_number_def)
  with False r show ?thesis by (simp add: show_int_def parse_nat_show)
qed

lemma digit_first:
  "digit_val c = Some d \<Longrightarrow> \<not> is_ws c \<and> c \<notin> {CHR '']'', CHR ''['', CHR ''{'', QUOTE, CHR ''n'', CHR ''t'', CHR ''f''}"
  by (auto simp: digit_val_def is_ws_def special_chars split: if_splits)

lemma show_int_first:
  "\<exists>c t. show_int i = c # t \<and> \<not> is_ws c \<and>
     c \<notin> {CHR '']'', CHR ''['', CHR ''{'', QUOTE, CHR ''n'', CHR ''t'', CHR ''f''}"
proof (cases "i < 0")
  case True
  then show ?thesis by (simp add: show_int_def is_ws_def special_chars)
next
  case False
  obtain c t d where "show_nat (nat i) = c # t" "digit_val c = Some d"
    using show_nat_digit by blast
  with False digit_first [of c d] show ?thesis by (simp add: show_int_def)
qed

lemma stringify_first: "\<exists>c t. stringify j = c # t \<and> \<not> is_ws c \<and> c \<noteq> CHR '']''"
proof (cases j)
  case (JsonNumber i)
  with show_int_first [of i] show ?thesis by auto
next
  case (JsonArray xs)
  then show ?thesis by (cases xs) (auto simp: is_ws_def)
next
  case (JsonObject ms)
  then show ?thesis by (cases ms) (auto simp: is_ws_def)
qed (auto simp: is_ws_def stringify_string_def special_chars)

lemma skip_ws_stringify: "skip_ws (stringify j @ r) = stringify j @ r"
  using stringify_first [of j] by (auto simp: skip_ws_def)

lemma skip_ws_Cons: "\<not> is_ws c \<Longrightarrow> skip_ws (c # r) = c # r"
  by (simp add: skip_ws_def)

lemma not_ws [simp]:
  "\<not> is_ws CHR ''['' \<and> \<not> is_ws CHR '']'' \<and> \<not> is_ws CHR ''{'' \<and> \<not> is_ws CHR ''}'' \<and>
   \<not> is_ws CHR '','' \<and> \<not> is_ws CHR '':'' \<and> \<not> is_ws QUOTE \<and> \<not> is_ws CHR ''n'' \<and> \<not> is_ws CHR ''t'' \<and>
   \<not> is_ws CHR ''f''"
  by (simp add: is_ws_def special_chars)

lemma no_digit_after:
  "no_digit (stringify_elems xs @ r)" "no_digit (stringify_members ms @ r)"
proof -
  show "no_digit (stringify_elems xs @ r)"
    by (cases xs) (simp_all add: no_digit_def digit_val_def)
  show "no_digit (stringify_members ms @ r)"
    by (cases ms) (auto simp add: no_digit_def digit_val_def)
qed

lemma parse_value_scalar:
  "parse_value (Suc n) (stringify JsonNull @ r) = Some (JsonNull, r)"
  "parse_value (Suc n) (stringify (JsonBool b) @ r) = Some (JsonBool b, r)"
  "parse_value (Suc n) (stringify (JsonString s) @ r) = Some (JsonString s, r)"
proof -
  show "parse_value (Suc n) (stringify JsonNull @ r) = Some (JsonNull, r)"
    by (simp add: skip_ws_Cons parse_word_def)
  show "parse_value (Suc n) (stringify (JsonBool b) @ r) = Some (JsonBool b, r)"
    by (simp add: skip_ws_Cons parse_word_def)
  show "parse_value (Suc n) (stringify (JsonString s) @ r) = Some (JsonString s, r)"
    using parse_chars_string [of s r]
    by (simp add: stringify_string_def skip_ws_Cons)
qed

lemma parse_value_number:
  assumes "no_digit r"
  shows "parse_value (Suc n) (stringify (JsonNumber i) @ r) = Some (JsonNumber i, r)"
proof -
  from show_int_first [of i] obtain c t where sh: "show_int i = c # t \<and> \<not> is_ws c \<and>
    c \<notin> {CHR '']'', CHR ''['', CHR ''{'', QUOTE, CHR ''n'', CHR ''t'', CHR ''f''}"
    by (elim exE)
  then have "parse_value (Suc n) (stringify (JsonNumber i) @ r) = parse_number (show_int i @ r)"
    by (simp add: skip_ws_Cons)
  then show ?thesis using assms by (simp add: parse_number_show)
qed

lemma parse_member_stringify:
  assumes "parse_value n (stringify v @ r) = Some (v, r)"
  shows "parse_member (Suc n) (stringify_string k @ CHR '':'' # stringify v @ r) = Some ((k, v), r)"
  using assms parse_chars_string [of k "CHR '':'' # stringify v @ r"]
  by (simp add: stringify_string_def skip_ws_Cons)

lemma parse_value_array:
  assumes "parse_value n (stringify x @ stringify_elems xs @ r) = Some (x, stringify_elems xs @ r)"
    and "parse_elems n (stringify_elems xs @ r) = Some (xs, r)"
  shows "parse_value (Suc n) (stringify (JsonArray (x # xs)) @ r) = Some (JsonArray (x # xs), r)"
proof -
  obtain c t where "stringify x = c # t" "\<not> is_ws c" "c \<noteq> CHR '']''"
    using stringify_first by blast
  with assms show ?thesis by (simp add: skip_ws_Cons)
qed

lemma parse_value_object:
  assumes "parse_member n (stringify_string k @ CHR '':'' # stringify v @ stringify_members ms @ r) =
      Some ((k, v), stringify_members ms @ r)"
    and "parse_members n (stringify_members ms @ r) = Some (ms, r)"
  shows "parse_value (Suc n) (stringify (JsonObject ((k, v) # ms)) @ r) =
    Some (JsonObject ((k, v) # ms), r)"
  using assms by (simp add: skip_ws_Cons stringify_string_def)

lemma length_stringify_elems: "0 < length (stringify_elems xs)"
  by (cases xs) auto

lemma length_stringify_members: "0 < length (stringify_members ms)"
  by (cases ms) auto

lemma length_stringify: "0 < length (stringify j)"
  using stringify_first [of j] by auto

lemma parse_stringify_rest:
  "length (stringify j) < n \<Longrightarrow> no_digit r \<Longrightarrow> parse_value n (stringify j @ r) = Some (j, r)"
  "length (stringify_elems xs) < n \<Longrightarrow> parse_elems n (stringify_elems xs @ r) = Some (xs, r)"
  "length (stringify_members ms) < n \<Longrightarrow> parse_members n (stringify_members ms @ r) = Some (ms, r)"
proof (induction j and xs and ms arbitrary: n r and n r and n r
    rule: stringify_stringify_elems_stringify_members.induct)
  case 1
  then show ?case by (cases n) (auto simp only: parse_value_scalar)
next
  case (2 b)
  then show ?case by (cases n) (auto simp only: parse_value_scalar)
next
  case (3 i)
  then show ?case by (cases n) (auto simp only: parse_value_number)
next
  case (4 s)
  then show ?case by (cases n) (auto simp only: parse_value_scalar)
next
  case 5
  then show ?case by (cases n) (auto simp: skip_ws_Cons)
next
  case (6 x xs)
  then obtain m where m: "n = Suc m" "length (stringify x) < m" "length (stringify_elems xs) < m"
    using length_stringify [of x] length_stringify_elems [of xs] by (cases n) auto
  show ?case
    unfolding m(1) by (rule parse_value_array) (use m "6.IH" no_digit_after in auto)
next
  case 7
  then show ?case by (cases n) (auto simp: skip_ws_Cons special_chars)
next
  case (8 k v ms)
  then obtain m where m: "n = Suc (Suc m)" "length (stringify v) < m"
      "length (stringify_members ms) < Suc m"
    using length_stringify_members [of ms]
    by (cases n; cases "n - 1") (auto simp: stringify_string_def)
  show ?case
    unfolding m(1)
  proof (rule parse_value_object)
    show "parse_member (Suc m) (stringify_string k @ CHR '':'' # stringify v @ stringify_members ms @ r) =
        Some ((k, v), stringify_members ms @ r)"
      by (rule parse_member_stringify) (use m "8.IH"(1) no_digit_after in blast)
    show "parse_members (Suc m) (stringify_members ms @ r) = Some (ms, r)"
      using m "8.IH"(2) by blast
  qed
next
  case 9
  then show ?case by (cases n) (auto simp: skip_ws_Cons)
next
  case (10 x xs)
  then obtain m where "n = Suc m" "length (stringify x) < m" "length (stringify_elems xs) < m"
    using length_stringify [of x] length_stringify_elems [of xs] by (cases n) auto
  with "10.IH" no_digit_after(1) [of xs] show ?case by (simp add: skip_ws_Cons)
next
  case 11
  then show ?case by (cases n) (auto simp: skip_ws_Cons)
next
  case (12 k v ms)
  then obtain m where m: "n = Suc (Suc m)" "length (stringify v) < m"
      "length (stringify_members ms) < Suc m"
    using length_stringify_members [of ms]
    by (cases n; cases "n - 1") (auto simp: stringify_string_def)
  have "parse_member (Suc m) (stringify_string k @ CHR '':'' # stringify v @ stringify_members ms @ r) =
      Some ((k, v), stringify_members ms @ r)"
    by (rule parse_member_stringify) (use m "12.IH"(1) no_digit_after in blast)
  moreover have "parse_members (Suc m) (stringify_members ms @ r) = Some (ms, r)"
    using m "12.IH"(2) by blast
  ultimately show ?case
    unfolding m(1)
    by (subst parse_members.simps) (simp add: skip_ws_Cons del: parse_member.simps parse_members.simps)
qed

text \<open>The interface of an encoding of values into texts.\<close>

locale text_codec =
  fixes encode :: "'v \<Rightarrow> string"
    and decode :: "string \<Rightarrow> 'v option"
  assumes decode_encode: "decode (encode v) = Some v"
begin

lemma encode_inj: "encode v = encode w \<Longrightarrow> v = w"
  using decode_encode by (metis option.inject)

lemma decode_encode_comp: "decode \<circ> encode = Some"
  by (simp add: fun_eq_iff decode_encode)

end

lemma parse_stringify: "json_parse (stringify j) = Some j"
  using parse_stringify_rest(1) [of j "Suc (length (stringify j))" "[]"]
  by (simp add: json_parse_def no_digit_def skip_ws_def)

interpretation json: text_codec stringify json_parse
  by unfold_locales (rule parse_stringify)

end
