(* ===== verification/Rule_Parameters.thy ===== *)
theory Rule_Parameters
  imports Prelude
begin

text \<open>
  ESLint rule definitions as far as the bridge inspects them, and the two internal rule
  parameters of \<^verbatim>\<open>src/linting/eslint/linter/parameters/\<close>. What a rule's \<^verbatim>\<open>create\<close>
  function does with a context is a parameter of the type.
\<close>

record schema_option =
  so_enum :: "string list option"
  so_title :: "string option"

datatype rule_schema = SchemaArray "schema_option list" | SchemaObject schema_option

record rule_docs =
  docs_requiresTypeChecking :: "bool option"

record rule_meta =
  meta_schema :: "rule_schema option"
  meta_docs :: "rule_docs option"

record ('c, 'l) rule_module =
  rm_meta :: "rule_meta option"
  rm_create :: "'c \<Rightarrow> 'l"

definition getRuleSchema :: "('c, 'l) rule_module option \<Rightarrow> schema_option list option" where
  "getRuleSchema ruleModule =
     (case ruleModule of
        None \<Rightarrow> None
      | Some m \<Rightarrow>
          (case rm_meta m of
             None \<Rightarrow> None
           | Some meta \<Rightarrow>
               (case meta_schema meta of
                  None \<Rightarrow> None
                | Some (SchemaArray os) \<Rightarrow> Some os
                | Some (SchemaObject opt) \<Rightarrow> Some [opt])))"

definition SONAR_CONTEXT :: string where
  "SONAR_CONTEXT = ''sonar-context''"

definition SONAR_RUNTIME :: string where
  "SONAR_RUNTIME = ''sonar-runtime''"

definition hasSonarContextOption :: "('c, 'l) rule_module option \<Rightarrow> bool" where
  "hasSonarContextOption ruleModule =
     (case getRuleSchema ruleModule of
        None \<Rightarrow> False
      | Some schema \<Rightarrow> list_ex (\<lambda>opt. so_title opt = Some SONAR_CONTEXT) schema)"

definition hasSonarRuntimeOption :: "('c, 'l) rule_module option \<Rightarrow> bool" where
  "hasSonarRuntimeOption ruleModule =
     (case getRuleSchema ruleModule of
        None \<Rightarrow> False
      | Some schema \<Rightarrow>
          list_ex (\<lambda>opt. case so_enum opt of None \<Rightarrow> False | Some vs \<Rightarrow> SONAR_RUNTIME \<in> set vs) schema)"

lemma option_absent_without_module [simp]:
  "\<not> hasSonarRuntimeOption None" "\<not> hasSonarContextOption None"
  by (simp_all add: hasSonarRuntimeOption_def hasSonarContextOption_def getRuleSchema_def)

end
