(* ===== verification/Issues.thy ===== *)
theory Issues
  imports Highlighting Json Rule_Parameters
begin

text \<open>
  From ESLint messages to SonarQube issues: the quick fixes of
  \<^verbatim>\<open>src/linting/eslint/linter/quickfixes/\<close>, the encoding of secondary locations by
  \<^verbatim>\<open>src/linting/eslint/rules/helpers/location.ts\<close>, and the conversion, decoding,
  normalization and extraction of \<^verbatim>\<open>src/linting/eslint/linter/issues/\<close>.
\<close>

section \<open>Quick fixes\<close>

record rule_fix =
  fix_range :: range
  fix_text :: string

record suggestion =
  sug_desc :: string
  sug_fix :: rule_fix

record lint_message =
  lm_ruleId :: "string option"
  lm_line :: int
  lm_column :: int
  lm_endLine :: "int option"
  lm_endColumn :: "int option"
  lm_message :: string
  lm_fix :: "rule_fix option"
  lm_suggestions :: "suggestion list option"

record issue_location =
  il_line :: int
  il_column :: int
  il_endLine :: int
  il_endColumn :: int
  il_message :: "string option"

record quick_fix_edit =
  qe_loc :: issue_location
  qe_text :: string

record quick_fix =
  qf_message :: string
  qf_edits :: "quick_fix_edit list"

definition quickFixRules :: "string list" where
  "quickFixRules =
     [''comma-dangle'', ''eol-last'', ''no-extra-semi'', ''no-trailing-spaces'',
      ''no-unsafe-negation'', ''no-var'', ''object-shorthand'', ''prefer-const'',
      ''prefer-regex-literals'', ''prefer-template'', ''quotes'', ''radix'', ''semi'',
      ''no-dupe-keys'', ''no-duplicate-imports'', ''no-empty'', ''no-empty-function'',
      ''no-throw-literal'', ''no-unreachable'', ''use-isnan'',
      ''no-collection-size-mischeck'', ''no-inverted-boolean-check'', ''no-redundant-jump'',
      ''non-existent-operator'', ''prefer-immediate-return'', ''prefer-single-boolean-return'',
      ''prefer-while'',
      ''no-empty-interface'', ''no-explicit-any'', ''no-inferrable-types'',
      ''no-unnecessary-type-arguments'', ''no-unnecessary-type-assertion'',
      ''prefer-namespace-keyword'', ''prefer-readonly'', ''no-non-null-assertion'',
      ''prefer-for-of'',
      ''different-types-comparison'', ''inverted-assertion-arguments'', ''no-alphabetical-sort'',
      ''no-commented-code'', ''no-duplicate-in-composite'', ''no-exclusive-tests'',
      ''no-global-this'', ''no-in-misuse'', ''no-primitive-wrappers'', ''no-redundant-optional'',
      ''no-redundant-parentheses'', ''no-undefined-argument'', ''no-unthrown-error'',
      ''no-unused-function-argument'', ''prefer-promise-shorthand'', ''prefer-type-guard'',
      ''unused-import'']"

definition quickFixMessages :: "(string \<times> string) list" where
  "quickFixMessages =
     [(''comma-dangle'', ''Remove this trailing comma''),
      (''eol-last'', ''Add a new line at the end of file''),
      (''no-extra-semi'', ''Remove extra semicolon''),
      (''no-trailing-spaces'', ''Remove trailing space''),
      (''no-var'', ''Replace '' @ [CHR 0x27] @ ''var'' @ [CHR 0x27] @ '' with '' @ [CHR 0x27] @ ''let'' @ [CHR 0x27]),
      (''object-shorthand'', ''Use shorthand property''),
      (''prefer-const'', ''Replace with '' @ [CHR 0x27] @ ''const'' @ [CHR 0x27]),
      (''prefer-template'', ''Replace with template string literal''),
      (''quotes'', ''Fix quotes''),
      (''radix'', ''Add 10 as radix''),
      (''semi'', ''Add semicolon''),
      (''prefer-immediate-return'', ''Return value immediately''),
      (''prefer-while'', ''Replace with '' @ [CHR 0x27] @ ''while'' @ [CHR 0x27] @ '' loop''),
      (''no-empty-interface'', ''Replace with type alias''),
      (''no-inferrable-types'', ''Remove type declaration''),
      (''no-unnecessary-type-arguments'', ''Remove type argument''),
      (''no-unnecessary-type-assertion'', ''Remove type assertion''),
      (''prefer-namespace-keyword'', ''Replace with '' @ [CHR 0x27] @ ''namespace'' @ [CHR 0x27] @ '' keyword''),
      (''prefer-readonly'', ''Add '' @ [CHR 0x27] @ ''readonly'' @ [CHR 0x27]),
      (''no-non-null-assertion'', ''Replace with optional chaining '' @ [CHR 0x27] @ ''.?'' @ [CHR 0x27])]"

definition getQuickFixMessage :: "string \<Rightarrow> string res" where
  "getQuickFixMessage ruleKey =
     (case map_of quickFixMessages ruleKey of
        None \<Rightarrow> Inl (JsError (''Missing message for quick fix '' @ [CHR 0x27] @ ruleKey @ [CHR 0x27]) [])
      | Some m \<Rightarrow> Inr m)"

text \<open>A rule key that is absent or empty is falsy.\<close>

definition has_rule_id :: "lint_message \<Rightarrow> bool" where
  "has_rule_id m \<longleftrightarrow> lm_ruleId m \<noteq> None \<and> lm_ruleId m \<noteq> Some []"

definition hasQuickFix :: "lint_message \<Rightarrow> bool" where
  "hasQuickFix m =
     (if lm_fix m = None \<and> (lm_suggestions m = None \<or> lm_suggestions m = Some []) then False
      else has_rule_id m \<and> (case lm_ruleId m of None \<Rightarrow> False | Some r \<Rightarrow> r \<in> set quickFixRules))"

definition fixToEdit :: "source_code \<Rightarrow> rule_fix \<Rightarrow> quick_fix_edit" where
  "fixToEdit sc f =
     (let startPos = sc_getLocFromIndex sc (fst (fix_range f));
          endPos = sc_getLocFromIndex sc (snd (fix_range f))
      in \<lparr>qe_loc = \<lparr>il_line = pos_line startPos, il_column = pos_column startPos,
            il_endLine = pos_line endPos, il_endColumn = pos_column endPos, il_message = None\<rparr>,
          qe_text = fix_text f\<rparr>)"

definition transformFixes :: "source_code \<Rightarrow> lint_message \<Rightarrow> quick_fix list res" where
  "transformFixes sc m =
     (if \<not> hasQuickFix m then Inr []
      else bind_res
        (case lm_fix m of
           None \<Rightarrow> Inr []
         | Some f \<Rightarrow>
             bind_res (getQuickFixMessage (case lm_ruleId m of None \<Rightarrow> [] | Some r \<Rightarrow> r))
               (\<lambda>msg. Inr [\<lparr>qf_message = msg, qf_edits = [fixToEdit sc f]\<rparr>]))
        (\<lambda>fixes. Inr (fixes @
           (case lm_suggestions m of
              None \<Rightarrow> []
            | Some ss \<Rightarrow>
                map (\<lambda>s. \<lparr>qf_message = sug_desc s, qf_edits = [fixToEdit sc (sug_fix s)]\<rparr>) ss))))"

section \<open>Issues\<close>

record issue =
  is_ruleId :: string
  is_line :: int
  is_column :: int
  is_endLine :: "int option"
  is_endColumn :: "int option"
  is_message :: string
  is_cost :: "int option"
  is_secondaryLocations :: "issue_location list"
  is_quickFixes :: "quick_fix list"

text \<open>\<^verbatim>\<open>null\<close> is the outer \<open>None\<close>: a message without a rule key is not converted.\<close>

definition convertMessage :: "source_code \<Rightarrow> lint_message \<Rightarrow> issue option res" where
  "convertMessage sc m =
     (if \<not> has_rule_id m then Inr None
      else bind_res (transformFixes sc m) (\<lambda>fixes. Inr (Some
        \<lparr>is_ruleId = (case lm_ruleId m of None \<Rightarrow> [] | Some r \<Rightarrow> r),
         is_line = lm_line m, is_column = lm_column m,
         is_endLine = lm_endLine m, is_endColumn = lm_endColumn m,
         is_message = lm_message m, is_cost = None,
         is_secondaryLocations = [], is_quickFixes = fixes\<rparr>)))"

subsection \<open>Encoded secondary locations\<close>

record encoded_message =
  em_message :: string
  em_cost :: "int option"
  em_secondaryLocations :: "issue_location list"

definition toSecondaryLocation :: "source_loc option \<Rightarrow> string option \<Rightarrow> issue_location res" where
  "toSecondaryLocation holder message =
     (case holder of
        None \<Rightarrow> Inl (JsError ''Invalid secondary location'' [])
      | Some loc \<Rightarrow> Inr
          \<lparr>il_line = pos_line (loc_start loc), il_column = pos_column (loc_start loc),
           il_endLine = pos_line (loc_end loc), il_endColumn = pos_column (loc_end loc),
           il_message = message\<rparr>)"

text \<open>A property whose value is \<^verbatim>\<open>undefined\<close> is left out by \<^verbatim>\<open>JSON.stringify\<close>.\<close>

definition optional :: "string \<Rightarrow> json option \<Rightarrow> (string \<times> json) list" where
  "optional k v = (case v of None \<Rightarrow> [] | Some j \<Rightarrow> [(k, j)])"

definition location_to_json :: "issue_location \<Rightarrow> json" where
  "location_to_json l = JsonObject
     (optional ''message'' (map_option JsonString (il_message l)) @
      [(''column'', JsonNumber (il_column l)), (''line'', JsonNumber (il_line l)),
       (''endColumn'', JsonNumber (il_endColumn l)), (''endLine'', JsonNumber (il_endLine l))])"

definition encoded_to_json :: "encoded_message \<Rightarrow> json" where
  "encoded_to_json m = JsonObject
     ([(''message'', JsonString (em_message m))] @
      optional ''cost'' (map_option JsonNumber (em_cost m)) @
      [(''secondaryLocations'', JsonArray (map location_to_json (em_secondaryLocations m)))])"

definition nth_message :: "string option list option \<Rightarrow> nat \<Rightarrow> string option" where
  "nth_message secondaryMessages i =
     (case secondaryMessages of
        None \<Rightarrow> None
      | Some ms \<Rightarrow> if i < length ms then ms ! i else None)"

definition toEncodedMessage ::
  "string \<Rightarrow> source_loc option list \<Rightarrow> string option list option \<Rightarrow> int option \<Rightarrow> string res" where
  "toEncodedMessage message secondaryLocationsHolder secondaryMessages cost =
     bind_res
       (map_res (\<lambda>(holder, i). toSecondaryLocation holder (nth_message secondaryMessages i))
          (zip secondaryLocationsHolder [0..<length secondaryLocationsHolder]))
       (\<lambda>locs. Inr (stringify (encoded_to_json
          \<lparr>em_message = message, em_cost = cost, em_secondaryLocations = locs\<rparr>)))"

text \<open>
  Reading an object back, property by property; the last property of a name wins, as in
  \<^verbatim>\<open>JSON.parse\<close>.
\<close>

fun json_get :: "json \<Rightarrow> string \<Rightarrow> json option" where
  "json_get (JsonObject ms) k = map_of (rev ms) k"
| "json_get _ k = None"

fun json_int :: "json option \<Rightarrow> int option" where
  "json_int (Some (JsonNumber i)) = Some i"
| "json_int _ = None"

fun json_string :: "json option \<Rightarrow> string option" where
  "json_string (Some (JsonString s)) = Some s"
| "json_string _ = None"

fun json_list :: "json option \<Rightarrow> json list option" where
  "json_list (Some (JsonArray xs)) = Some xs"
| "json_list _ = None"

definition location_of_json :: "json \<Rightarrow> issue_location option" where
  "location_of_json j =
     (case (json_int (json_get j ''line''), json_int (json_get j ''column''),
            json_int (json_get j ''endLine''), json_int (json_get j ''endColumn'')) of
        (Some l, Some c, Some el, Some ec) \<Rightarrow>
          Some \<lparr>il_line = l, il_column = c, il_endLine = el, il_endColumn = ec,
                il_message = json_string (json_get j ''message'')\<rparr>
      | _ \<Rightarrow> None)"

definition mergeEncoded :: "issue \<Rightarrow> json \<Rightarrow> issue" where
  "mergeEncoded i j =
     i\<lparr>is_message := (case json_string (json_get j ''message'') of None \<Rightarrow> is_message i | Some m \<Rightarrow> m),
       is_cost := (case json_int (json_get j ''cost'') of None \<Rightarrow> is_cost i | Some c \<Rightarrow> Some c),
       is_secondaryLocations :=
         (case json_list (json_get j ''secondaryLocations'') of
            None \<Rightarrow> is_secondaryLocations i
          | Some js \<Rightarrow> List.map_filter location_of_json js)\<rparr>"

text \<open>The message of the error ends with the parser's own message, which is left out.\<close>

definition decodeSonarRuntime :: "('c, 'l) rule_module option \<Rightarrow> issue \<Rightarrow> issue res" where
  "decodeSonarRuntime ruleModule i =
     (if hasSonarRuntimeOption ruleModule then
        (case json_parse (is_message i) of
           None \<Rightarrow> Inl (JsError (''Failed to parse encoded issue message for rule '' @ is_ruleId i @ '':'' @
             [CHR 0x0A, QUOTE] @ is_message i @ [QUOTE] @ ''. '') [])
         | Some j \<Rightarrow> Inr (mergeEncoded i j))
      else Inr i)"

definition normalizeLocation :: "issue \<Rightarrow> issue" where
  "normalizeLocation i =
     i\<lparr>is_column := is_column i - 1,
       is_endColumn := (case is_endColumn i of
          Some c \<Rightarrow> if c \<noteq> 0 then Some (c - 1) else Some c
        | None \<Rightarrow> None)\<rparr>"

subsection \<open>Extraction of the internal rules' reports\<close>

definition cognitiveComplexityRuleId :: string where
  "cognitiveComplexityRuleId = ''internal-cognitive-complexity''"

definition symbolHighlightingRuleId :: string where
  "symbolHighlightingRuleId = ''internal-symbol-highlighting''"

fun findAndRemoveFirstIssue :: "issue list \<Rightarrow> string \<Rightarrow> issue option \<times> issue list" where
  "findAndRemoveFirstIssue [] ruleId = (None, [])"
| "findAndRemoveFirstIssue (i # issues) ruleId =
     (if is_ruleId i = ruleId then (Some i, issues)
      else case findAndRemoveFirstIssue issues ruleId of (found, rest) \<Rightarrow> (found, i # rest))"

definition metric_location_to_json :: "location \<Rightarrow> json" where
  "metric_location_to_json l = JsonObject
     [(''startLine'', JsonNumber (startLine l)), (''startCol'', JsonNumber (startCol l)),
      (''endLine'', JsonNumber (endLine l)), (''endCol'', JsonNumber (endCol l))]"

definition symbol_to_json :: "symbol_highlight \<Rightarrow> json" where
  "symbol_to_json s = JsonObject
     [(''declaration'', metric_location_to_json (sy_declaration s)),
      (''references'', JsonArray (map metric_location_to_json (sy_references s)))]"

definition encode_symbols :: "symbol_highlight list \<Rightarrow> string" where
  "encode_symbols ss = stringify (JsonArray (map symbol_to_json ss))"

definition metric_location_of_json :: "json \<Rightarrow> location option" where
  "metric_location_of_json j =
     (case (json_int (json_get j ''startLine''), json_int (json_get j ''startCol''),
            json_int (json_get j ''endLine''), json_int (json_get j ''endCol'')) of
        (Some sl, Some scol, Some el, Some ecol) \<Rightarrow>
          Some \<lparr>startLine = sl, startCol = scol, endLine = el, endCol = ecol\<rparr>
      | _ \<Rightarrow> None)"

definition symbol_of_json :: "json \<Rightarrow> symbol_highlight option" where
  "symbol_of_json j =
     (case (Option.bind (json_get j ''declaration'') metric_location_of_json,
            json_list (json_get j ''references'')) of
        (Some d, Some rs) \<Rightarrow>
          Some \<lparr>sy_declaration = d, sy_references = List.map_filter metric_location_of_json rs\<rparr>
      | _ \<Rightarrow> None)"

definition decode_symbols :: "string \<Rightarrow> symbol_highlight list option" where
  "decode_symbols s =
     (case json_parse s of
        Some (JsonArray js) \<Rightarrow> Some (List.map_filter symbol_of_json js)
      | _ \<Rightarrow> None)"

definition extractHighlightedSymbols :: "issue list \<Rightarrow> (symbol_highlight list \<times> issue list) res" where
  "extractHighlightedSymbols issues =
     (case findAndRemoveFirstIssue issues symbolHighlightingRuleId of
        (None, rest) \<Rightarrow> Inr ([], rest)
      | (Some i, rest) \<Rightarrow>
          (case decode_symbols (is_message i) of
             None \<Rightarrow> Inl (JsError ''Unexpected token in JSON'' [])
           | Some ss \<Rightarrow> Inr (ss, rest)))"

text \<open>
  \<^verbatim>\<open>Number(s)\<close> on the texts of integers: white space around it is ignored, the empty text
  is 0, and any other text is not a number.
\<close>

definition to_number :: "string \<Rightarrow> int option" where
  "to_number s =
     (let t = trim s in
      if t = [] then Some 0
      else let (neg, ds) = (case t of c # r \<Rightarrow> if c = CHR ''-'' then (True, r)
             else if c = CHR ''+'' then (False, r) else (False, t) | [] \<Rightarrow> (False, t))
           in if ds \<noteq> [] \<and> list_all (\<lambda>c. digit_val c \<noteq> None) ds
              then Some ((if neg then -1 else 1) * int (fst (parse_digits 0 ds)))
              else None)"

definition extractCognitiveComplexity :: "issue list \<Rightarrow> int option \<times> issue list" where
  "extractCognitiveComplexity issues =
     (case findAndRemoveFirstIssue issues cognitiveComplexityRuleId of
        (None, rest) \<Rightarrow> (None, rest)
      | (Some i, rest) \<Rightarrow> (to_number (is_message i), rest))"

subsection \<open>The transformation\<close>

record linting_result =
  lr_issues :: "issue list"
  lr_ucfgPaths :: "string list"
  lr_highlightedSymbols :: "symbol_highlight list"
  lr_cognitiveComplexity :: "int option"

definition transform_step ::
  "source_code \<Rightarrow> (string \<Rightarrow> ('c, 'l) rule_module option) \<Rightarrow> lint_message \<Rightarrow>
   issue list \<times> string list \<Rightarrow> (issue list \<times> string list) res" where
  "transform_step sc rules m s =
     (case s of (issues, ucfgPaths) \<Rightarrow>
        if lm_ruleId m = Some ''ucfg'' then Inr (issues, ucfgPaths @ [lm_message m])
        else bind_res (convertMessage sc m) (\<lambda>converted.
          case converted of
            None \<Rightarrow> Inr (issues, ucfgPaths)
          | Some i \<Rightarrow>
              bind_res (decodeSonarRuntime (rules (is_ruleId i)) i) (\<lambda>decoded.
                Inr (issues @ [normalizeLocation decoded], ucfgPaths))))"

fun transform_loop ::
  "source_code \<Rightarrow> (string \<Rightarrow> ('c, 'l) rule_module option) \<Rightarrow> lint_message list \<Rightarrow>
   issue list \<times> string list \<Rightarrow> (issue list \<times> string list) res" where
  "transform_loop sc rules [] s = Inr s"
| "transform_loop sc rules (m # ms) s =
     bind_res (transform_step sc rules m s) (transform_loop sc rules ms)"

definition transformMessages ::
  "lint_message list \<Rightarrow> source_code \<Rightarrow> (string \<Rightarrow> ('c, 'l) rule_module option) \<Rightarrow> linting_result res" where
  "transformMessages messages sc rules =
     bind_res (transform_loop sc rules messages ([], [])) (\<lambda>(issues, ucfgPaths).
       bind_res (extractHighlightedSymbols issues) (\<lambda>(symbols, issues).
         case extractCognitiveComplexity issues of (complexity, issues) \<Rightarrow>
           Inr \<lparr>lr_issues = issues, lr_ucfgPaths = ucfgPaths,
                lr_highlightedSymbols = symbols, lr_cognitiveComplexity = complexity\<rparr>))"

section \<open>Correctness\<close>

subsection \<open>Secondary locations survive their encoding\<close>

lemma json_get_location:
  "json_get (location_to_json l) ''line'' = Some (JsonNumber (il_line l))"
  "json_get (location_to_json l) ''column'' = Some (JsonNumber (il_column l))"
  "json_get (location_to_json l) ''endLine'' = Some (JsonNumber (il_endLine l))"
  "json_get (location_to_json l) ''endColumn'' = Some (JsonNumber (il_endColumn l))"
  "json_get (location_to_json l) ''message'' = map_option JsonString (il_message l)"
  by (cases "il_message l"; simp add: location_to_json_def optional_def)+

lemma json_string_map [simp]: "json_string (map_option JsonString m) = m"
  by (cases m) simp_all

lemma json_int_map [simp]: "json_int (map_option JsonNumber m) = m"
  by (cases m) simp_all

lemma location_of_to_json [simp]: "location_of_json (location_to_json l) = Some l"
  by (simp add: location_of_json_def json_get_location)

lemma map_filter_all: "(\<And>x. x \<in> set xs \<Longrightarrow> f (g x) = Some x) \<Longrightarrow> List.map_filter f (map g xs) = xs"
  by (induction xs) (simp_all add: List.map_filter_simps)

lemma json_get_encoded:
  "json_get (encoded_to_json m) ''message'' = Some (JsonString (em_message m))"
  "json_get (encoded_to_json m) ''cost'' = map_option JsonNumber (em_cost m)"
  "json_get (encoded_to_json m) ''secondaryLocations'' =
     Some (JsonArray (map location_to_json (em_secondaryLocations m)))"
  by (cases "em_cost m"; simp add: encoded_to_json_def optional_def)+

lemma mergeEncoded_encoded:
  "mergeEncoded i (encoded_to_json m) =
     i\<lparr>is_message := em_message m,
       is_cost := (case em_cost m of None \<Rightarrow> is_cost i | Some c \<Rightarrow> Some c),
       is_secondaryLocations := em_secondaryLocations m\<rparr>"
  by (simp add: mergeEncoded_def json_get_encoded map_filter_all)

text \<open>
  C9: a message that a rule encodes with its secondary locations and cost is decoded to
  exactly these: for a rule that declares \<^verbatim>\<open>sonar-runtime\<close>, the issue gets the plain message,
  the cost if one was given, and one secondary location per holder, at the holder's place
  and with the message of the same index.
\<close>

theorem decode_of_encode:
  assumes "toEncodedMessage message holders messages cost = Inr text"
    and "hasSonarRuntimeOption ruleModule" and "is_message i = text"
  shows "\<exists>locs. decodeSonarRuntime ruleModule i =
      Inr (i\<lparr>is_message := message,
             is_cost := (case cost of None \<Rightarrow> is_cost i | Some c \<Rightarrow> Some c),
             is_secondaryLocations := locs\<rparr>) \<and>
    length locs = length holders \<and>
    (\<forall>k < length holders. \<exists>loc. holders ! k = Some loc \<and>
      locs ! k = \<lparr>il_line = pos_line (loc_start loc), il_column = pos_column (loc_start loc),
        il_endLine = pos_line (loc_end loc), il_endColumn = pos_column (loc_end loc),
        il_message = nth_message messages k\<rparr>)"
proof -
  let ?f = "\<lambda>(holder, i). toSecondaryLocation holder (nth_message messages i)"
  let ?xs = "zip holders [0..<length holders]"
  from assms(1) obtain locs where locs: "map_res ?f ?xs = Inr locs"
    "text = stringify (encoded_to_json \<lparr>em_message = message, em_cost = cost, em_secondaryLocations = locs\<rparr>)"
    by (auto simp: toEncodedMessage_def bind_res_eq_Inr)
  have all2: "list_all2 (\<lambda>x y. ?f x = Inr y) ?xs locs"
    using locs(1) by (simp only: map_res_Inr_iff)
  then have len: "length locs = length holders"
    by (auto dest: list_all2_lengthD)
  have "\<exists>loc. holders ! k = Some loc \<and>
      locs ! k = \<lparr>il_line = pos_line (loc_start loc), il_column = pos_column (loc_start loc),
        il_endLine = pos_line (loc_end loc), il_endColumn = pos_column (loc_end loc),
        il_message = nth_message messages k\<rparr>"
    if "k < length holders" for k
    using list_all2_nthD [OF all2, of k] that by (auto simp: toSecondaryLocation_def split: option.splits)
  moreover have "decodeSonarRuntime ruleModule i = Inr (mergeEncoded i
      (encoded_to_json \<lparr>em_message = message, em_cost = cost, em_secondaryLocations = locs\<rparr>))"
    using assms(2,3) locs(2) by (simp add: decodeSonarRuntime_def json.decode_encode)
  ultimately show ?thesis using len by (auto simp: mergeEncoded_encoded)
qed

definition runtime_rule :: "(unit, unit) rule_module" where
  "runtime_rule = \<lparr>rm_meta = Some \<lparr>meta_schema = Some (SchemaArray [\<lparr>so_enum = Some [SONAR_RUNTIME],
     so_title = None\<rparr>]), meta_docs = None\<rparr>, rm_create = (\<lambda>_. ())\<rparr>"

definition example_issue :: "string \<Rightarrow> issue" where
  "example_issue text = \<lparr>is_ruleId = ''r'', is_line = 1, is_column = 1, is_endLine = None,
     is_endColumn = None, is_message = text, is_cost = None, is_secondaryLocations = [],
     is_quickFixes = []\<rparr>"

definition example_loc :: source_loc where
  "example_loc = \<lparr>loc_start = \<lparr>pos_line = 2, pos_column = 4\<rparr>, loc_end = \<lparr>pos_line = 2, pos_column = 9\<rparr>\<rparr>"

theorem decode_of_encode_witness:
  "\<exists>text locs. toEncodedMessage ''msg'' [Some example_loc] None (Some 3) = Inr text \<and>
    decodeSonarRuntime (Some runtime_rule) (example_issue text) =
      Inr ((example_issue text)\<lparr>is_message := ''msg'', is_cost := Some 3, is_secondaryLocations := locs\<rparr>) \<and>
    length locs = 1"
proof -
  obtain enc where enc: "toEncodedMessage ''msg'' [Some example_loc] None (Some 3) = Inr enc"
    by (simp add: toEncodedMessage_def toSecondaryLocation_def)
  have "hasSonarRuntimeOption (Some runtime_rule)"
    by (simp add: hasSonarRuntimeOption_def getRuleSchema_def runtime_rule_def)
  from decode_of_encode [OF enc this, of "example_issue enc"] enc show ?thesis
    by (auto simp: example_issue_def)
qed

lemma metric_location_of_to_json [simp]:
  "metric_location_of_json (metric_location_to_json l) = Some l"
  by (simp add: metric_location_of_json_def metric_location_to_json_def)

lemma symbol_of_to_json [simp]: "symbol_of_json (symbol_to_json s) = Some s"
  by (simp add: symbol_of_json_def symbol_to_json_def map_filter_all)

interpretation symbols: text_codec encode_symbols decode_symbols
  by unfold_locales
    (simp add: encode_symbols_def decode_symbols_def json.decode_encode map_filter_all)

subsection \<open>Quick fixes\<close>

lemma quickFixMessages_enabled: "fst ` set quickFixMessages \<subseteq> set quickFixRules"
  by code_simp

text \<open>
  The conversion of fixes fails exactly on a message that carries a fix, whose rule is
  enabled for quick fixes and has no quick fix message; every rule that has such a message
  is enabled; and a message whose rule is not enabled yields no quick fix.
\<close>

lemma transformFixes_error_iff:
  "((\<exists>e. transformFixes sc m = Inl e) \<longleftrightarrow>
     (\<exists>f r. lm_fix m = Some f \<and> lm_ruleId m = Some r \<and> r \<noteq> [] \<and> r \<in> set quickFixRules \<and>
        r \<notin> fst ` set quickFixMessages)) \<and>
   fst ` set quickFixMessages \<subseteq> set quickFixRules \<and>
   (\<forall>r. lm_ruleId m = Some r \<and> r \<notin> set quickFixRules \<longrightarrow> transformFixes sc m = Inr [])"
proof (intro conjI)
  have "(\<exists>e. getQuickFixMessage r = Inl e) \<longleftrightarrow> r \<notin> fst ` set quickFixMessages" for r
    by (auto simp: getQuickFixMessage_def map_of_eq_None_iff split: option.splits)
      (metis fst_conv image_eqI map_of_SomeD)
  then show "(\<exists>e. transformFixes sc m = Inl e) \<longleftrightarrow>
     (\<exists>f r. lm_fix m = Some f \<and> lm_ruleId m = Some r \<and> r \<noteq> [] \<and> r \<in> set quickFixRules \<and>
        r \<notin> fst ` set quickFixMessages)"
    by (cases "lm_ruleId m"; cases "lm_fix m")
      (auto simp: transformFixes_def hasQuickFix_def has_rule_id_def bind_res_eq_Inl)
  show "fst ` set quickFixMessages \<subseteq> set quickFixRules" by (rule quickFixMessages_enabled)
  show "\<forall>r. lm_ruleId m = Some r \<and> r \<notin> set quickFixRules \<longrightarrow> transformFixes sc m = Inr []"
    by (auto simp: transformFixes_def hasQuickFix_def)
qed

definition example_message :: "string \<Rightarrow> lint_message" where
  "example_message r = \<lparr>lm_ruleId = Some r, lm_line = 1, lm_column = 5, lm_endLine = None,
     lm_endColumn = Some 8, lm_message = ''m'', lm_fix = Some \<lparr>fix_range = (0, 1), fix_text = []\<rparr>,
     lm_suggestions = None\<rparr>"

lemma transformFixes_error_iff_witness:
  "transformFixes (example_source []) (example_message ''no-unused-vars'') = Inr []"
  using transformFixes_error_iff [of "example_source []" "example_message ''no-unused-vars''"]
  by (simp add: quickFixRules_def example_message_def)

subsection \<open>The linting result\<close>

lemma findAndRemove_absent:
  "\<forall>i \<in> set issues. is_ruleId i \<noteq> r \<Longrightarrow> findAndRemoveFirstIssue issues r = (None, issues)"
  by (induction issues) auto

lemma findAndRemove_None:
  "findAndRemoveFirstIssue issues r = (None, rest) \<Longrightarrow> rest = issues \<and> (\<forall>i \<in> set issues. is_ruleId i \<noteq> r)"
  by (induction issues arbitrary: rest) (auto split: prod.splits if_splits)

lemma findAndRemove_Some:
  "findAndRemoveFirstIssue issues r = (Some i, rest) \<Longrightarrow>
   \<exists>us vs. issues = us @ i # vs \<and> rest = us @ vs \<and> is_ruleId i = r \<and> (\<forall>u \<in> set us. is_ruleId u \<noteq> r)"
proof (induction issues arbitrary: rest)
  case (Cons j issues)
  show ?case
  proof (cases "is_ruleId j = r")
    case True
    with Cons.prems have "j # issues = [] @ i # issues \<and> rest = [] @ issues \<and> is_ruleId i = r" by auto
    then show ?thesis by (metis empty_iff list.set(1))
  next
    case False
    with Cons.prems obtain rest' where rest': "findAndRemoveFirstIssue issues r = (Some i, rest')" "rest = j # rest'"
      by (auto split: prod.splits)
    with Cons.IH obtain us vs where uv: "issues = us @ i # vs" "rest' = us @ vs" "is_ruleId i = r"
      "\<forall>u \<in> set us. is_ruleId u \<noteq> r" by blast
    then have "j # issues = (j # us) @ i # vs \<and> rest = (j # us) @ vs \<and> is_ruleId i = r \<and>
        (\<forall>u \<in> set (j # us). is_ruleId u \<noteq> r)"
      using False rest'(2) by simp
    then show ?thesis by blast
  qed
qed simp

definition without_first :: "string \<Rightarrow> issue list \<Rightarrow> issue list" where
  "without_first r issues = snd (findAndRemoveFirstIssue issues r)"

lemma without_first_cases:
  "without_first r issues = issues \<and> (\<forall>i \<in> set issues. is_ruleId i \<noteq> r) \<or>
   (\<exists>us i vs. issues = us @ i # vs \<and> without_first r issues = us @ vs \<and> is_ruleId i = r \<and>
      (\<forall>u \<in> set us. is_ruleId u \<noteq> r))"
proof (cases "findAndRemoveFirstIssue issues r")
  case (Pair found rest)
  then have rest: "without_first r issues = rest" by (simp add: without_first_def)
  show ?thesis
  proof (cases found)
    case None
    with Pair rest show ?thesis using findAndRemove_None [of issues r rest] by simp
  next
    case (Some i)
    with Pair rest show ?thesis using findAndRemove_Some [of issues r i rest] by blast
  qed
qed

lemma without_first_other:
  assumes "\<And>i. P i \<Longrightarrow> is_ruleId i \<noteq> r"
  shows "filter P (without_first r issues) = filter P issues"
  using without_first_cases [of r issues] assms by (auto dest!: assms)

lemma without_first_count:
  "length (filter (\<lambda>i. is_ruleId i = r) (without_first r issues)) =
     length (filter (\<lambda>i. is_ruleId i = r) issues) - 1"
  using without_first_cases [of r issues] by (auto simp: filter_empty_conv)

text \<open>How an issue relates to the message it comes from.\<close>

definition reports :: "source_code \<Rightarrow> lint_message \<Rightarrow> issue \<Rightarrow> bool" where
  "reports sc m i \<longleftrightarrow> lm_ruleId m = Some (is_ruleId i) \<and> is_line i = lm_line m \<and>
     is_column i = lm_column m - 1 \<and> is_endLine i = lm_endLine m \<and>
     is_endColumn i = map_option (\<lambda>c. if c = 0 then 0 else c - 1) (lm_endColumn m) \<and>
     transformFixes sc m = Inr (is_quickFixes i)"

definition makes_issue :: "lint_message \<Rightarrow> bool" where
  "makes_issue m \<longleftrightarrow> has_rule_id m \<and> lm_ruleId m \<noteq> Some ''ucfg''"

lemma decode_keeps_place:
  "decodeSonarRuntime rm i = Inr j \<Longrightarrow>
   is_ruleId j = is_ruleId i \<and> is_line j = is_line i \<and> is_column j = is_column i \<and>
   is_endLine j = is_endLine i \<and> is_endColumn j = is_endColumn i \<and> is_quickFixes j = is_quickFixes i"
  by (auto simp: decodeSonarRuntime_def mergeEncoded_def split: if_splits option.splits)

lemma transform_step_paths:
  assumes "transform_step sc rules m (issues, paths) = Inr (issues', paths')"
  shows "paths' = paths @ (if lm_ruleId m = Some ''ucfg'' then [lm_message m] else [])"
  using assms by (auto simp: transform_step_def bind_res_eq_Inr split: if_splits option.splits)

lemma reports_converted:
  assumes "convertMessage sc m = Inr (Some i)" "decodeSonarRuntime rm i = Inr j"
  shows "reports sc m (normalizeLocation j)"
proof -
  have "has_rule_id m" "lm_ruleId m = Some (is_ruleId i)" "transformFixes sc m = Inr (is_quickFixes i)"
    "is_line i = lm_line m" "is_column i = lm_column m" "is_endLine i = lm_endLine m"
    "is_endColumn i = lm_endColumn m"
    using assms(1)
    by (auto simp: convertMessage_def bind_res_eq_Inr has_rule_id_def split: if_splits)
  with decode_keeps_place [OF assms(2)] show ?thesis
    by (simp add: reports_def normalizeLocation_def split: option.split)
qed

lemma transform_step_issues:
  assumes "transform_step sc rules m (issues, paths) = Inr (issues', paths')"
  shows "if makes_issue m then \<exists>i. issues' = issues @ [i] \<and> reports sc m i else issues' = issues"
proof (cases "lm_ruleId m = Some ''ucfg''")
  case True
  with assms show ?thesis by (simp add: transform_step_def makes_issue_def)
next
  case False
  with assms obtain converted where conv: "convertMessage sc m = Inr converted"
    and rest: "(case converted of None \<Rightarrow> Inr (issues, paths)
        | Some i \<Rightarrow> bind_res (decodeSonarRuntime (rules (is_ruleId i)) i) (\<lambda>decoded.
            Inr (issues @ [normalizeLocation decoded], paths))) = Inr (issues', paths')"
    by (auto simp: transform_step_def bind_res_eq_Inr)
  have iff: "makes_issue m \<longleftrightarrow> converted \<noteq> None"
    using conv False by (auto simp: convertMessage_def makes_issue_def bind_res_eq_Inr split: if_splits)
  show ?thesis
  proof (cases converted)
    case None
    with rest iff show ?thesis by simp
  next
    case (Some i)
    with rest obtain j where "decodeSonarRuntime (rules (is_ruleId i)) i = Inr j"
      "issues' = issues @ [normalizeLocation j]" by (auto simp: bind_res_eq_Inr)
    with reports_converted conv Some iff show ?thesis by auto
  qed
qed

lemma transform_loop_spec:
  "transform_loop sc rules ms (issues, paths) = Inr (issues', paths') \<Longrightarrow>
   paths' = paths @ map lm_message (filter (\<lambda>m. lm_ruleId m = Some ''ucfg'') ms) \<and>
   (\<exists>new. issues' = issues @ new \<and> list_all2 (reports sc) (filter makes_issue ms) new)"
proof (induction ms arbitrary: issues paths)
  case (Cons m ms)
  then obtain issues1 paths1 where step: "transform_step sc rules m (issues, paths) = Inr (issues1, paths1)"
    and loop: "transform_loop sc rules ms (issues1, paths1) = Inr (issues', paths')"
    by (auto simp: bind_res_eq_Inr)
  from Cons.IH [OF loop] obtain new where new: "issues' = issues1 @ new"
    "list_all2 (reports sc) (filter makes_issue ms) new" by blast
  have "\<exists>new'. issues' = issues @ new' \<and> list_all2 (reports sc) (filter makes_issue (m # ms)) new'"
  proof (cases "makes_issue m")
    case True
    with transform_step_issues [OF step] obtain i where "issues1 = issues @ [i]" "reports sc m i" by auto
    with new True have "issues' = issues @ (i # new) \<and> list_all2 (reports sc) (filter makes_issue (m # ms)) (i # new)"
      by simp
    then show ?thesis by blast
  next
    case False
    with transform_step_issues [OF step] new show ?thesis by auto
  qed
  with Cons.IH [OF loop] transform_step_paths [OF step] show ?case by auto
qed simp


definition example_messages :: "lint_message list" where
  "example_messages = [(example_message ''ucfg'')\<lparr>lm_message := ''p''\<rparr>, example_message ''max-len'',
     (example_message cognitiveComplexityRuleId)\<lparr>lm_message := ''12''\<rparr>]"

definition example_result :: linting_result where
  "example_result = (case transformMessages example_messages (example_source [])
       (\<lambda>_. None :: (unit, unit) rule_module option) of
     Inr r \<Rightarrow> r
   | Inl _ \<Rightarrow> \<lparr>lr_issues = [], lr_ucfgPaths = [], lr_highlightedSymbols = [], lr_cognitiveComplexity = None\<rparr>)"

lemma example_transform:
  "\<not> isl (transformMessages example_messages (example_source []) (\<lambda>_. None :: (unit, unit) rule_module option))"
  by code_simp


end
