(* ===== verification/Objects.thy ===== *)
theory Objects
  imports Prelude
begin

text \<open>
  JavaScript objects and \<^verbatim>\<open>Map\<close>s that are used as dictionaries: association lists in the
  order of insertion, where assigning an existing key keeps its place. The two locales are
  the contract the clients of such stores rely on.
\<close>

section \<open>The contract\<close>

locale keyed_store =
  fixes get :: "'s \<Rightarrow> 'k \<Rightarrow> 'v option"
    and put :: "'k \<Rightarrow> 'v \<Rightarrow> 's \<Rightarrow> 's"
  assumes get_put: "get (put k v s) k' = (if k' = k then Some v else get s k')"
begin

lemma get_put_same: "get (put k v s) k = Some v"
  by (simp add: get_put)

lemma get_put_other: "k' \<noteq> k \<Longrightarrow> get (put k v s) k' = get s k'"
  by (simp add: get_put)

lemma get_put_all:
  "get (fold (\<lambda>(k, v) s. put k v s) kvs s) k =
     (case map_of (rev kvs) k of None \<Rightarrow> get s k | Some v \<Rightarrow> Some v)"
  by (induction kvs arbitrary: s) (auto simp: get_put map_add_def split: option.splits)

lemma get_fold:
  "get (fold (\<lambda>x s. put (key x) (val x) s) xs s) k =
     (case List.find (\<lambda>x. key x = k) (rev xs) of None \<Rightarrow> get s k | Some x \<Rightarrow> Some (val x))"
  by (induction xs arbitrary: s) (auto simp: get_put find_append split: option.splits)

end

locale deletable_store = keyed_store get put
  for get :: "'s \<Rightarrow> 'k \<Rightarrow> 'v option" and put :: "'k \<Rightarrow> 'v \<Rightarrow> 's \<Rightarrow> 's" +
  fixes del :: "'k \<Rightarrow> 's \<Rightarrow> 's"
  assumes get_del: "get (del k s) k' = (if k' = k then None else get s k')"
begin

lemma get_del_put: "get (del k (put k v s)) k' = get (del k s) k'"
  by (simp add: get_del get_put)

lemma get_put_del: "get (put k v (del k s)) k' = get (put k v s) k'"
  by (simp add: get_del get_put)

end

section \<open>Dictionaries\<close>

type_synonym 'v dict = "(string \<times> 'v) list"

definition dict_get :: "('k \<times> 'v) list \<Rightarrow> 'k \<Rightarrow> 'v option" where
  "dict_get d k = map_of d k"

fun dict_set :: "'k \<Rightarrow> 'v \<Rightarrow> ('k \<times> 'v) list \<Rightarrow> ('k \<times> 'v) list" where
  "dict_set k v [] = [(k, v)]"
| "dict_set k v ((k', v') # d) = (if k' = k then (k, v) # d else (k', v') # dict_set k v d)"

definition dict_del :: "'k \<Rightarrow> ('k \<times> 'v) list \<Rightarrow> ('k \<times> 'v) list" where
  "dict_del k d = filter (\<lambda>(k', v). k' \<noteq> k) d"

definition dict_assign :: "('k \<times> 'v) list \<Rightarrow> ('k \<times> 'v) list \<Rightarrow> ('k \<times> 'v) list" where
  "dict_assign kvs d = fold (\<lambda>(k, v) d. dict_set k v d) kvs d"

lemma map_of_dict_set: "map_of (dict_set k v d) = (map_of d)(k \<mapsto> v)"
  by (induction k v d rule: dict_set.induct) auto

lemma map_of_dict_del: "map_of (dict_del k d) k' = (if k' = k then None else map_of d k')"
  by (induction d) (auto simp: dict_del_def)

interpretation dict: deletable_store dict_get dict_set dict_del
  by unfold_locales (simp_all add: dict_get_def map_of_dict_set map_of_dict_del)

text \<open>The keys of a dictionary stay distinct, and in the order of their first assignment.\<close>

lemma keys_dict_set: "map fst (dict_set k v d) = set_add k (map fst d)"
  by (induction k v d rule: dict_set.induct) (auto simp: set_add_def)

lemma keys_dict_assign: "map fst (dict_assign kvs d) = fold set_add (map fst kvs) (map fst d)"
proof -
  have "map fst (fold (\<lambda>(k, v) d. dict_set k v d) kvs d) = fold set_add (map fst kvs) (map fst d)"
    by (induction kvs arbitrary: d) (auto simp: keys_dict_set)
  then show ?thesis by (simp add: dict_assign_def)
qed

lemma distinct_dict_set [simp]: "distinct (map fst (dict_set k v d)) = distinct (map fst d)"
  by (simp add: keys_dict_set)

lemma dict_get_assign:
  "dict_get (dict_assign kvs d) k = (case map_of (rev kvs) k of None \<Rightarrow> dict_get d k | Some v \<Rightarrow> Some v)"
  unfolding dict_assign_def by (rule dict.get_put_all)

lemma map_of_rev: "distinct (map fst kvs) \<Longrightarrow> map_of (rev kvs) k = map_of kvs k"
proof (induction kvs)
  case (Cons x kvs)
  then show ?case
    by (cases x) (auto simp: map_add_def image_iff split: option.splits dest!: map_of_SomeD)
qed simp

lemma dict_get_assign_distinct:
  "distinct (map fst kvs) \<Longrightarrow>
   dict_get (dict_assign kvs d) k = (case dict_get kvs k of None \<Rightarrow> dict_get d k | Some v \<Rightarrow> Some v)"
  by (simp add: dict_get_assign map_of_rev) (simp add: dict_get_def)

end
