(* ===== verification/Helpers.thy ===== *)
theory Helpers
  imports Objects "HOL-Library.Word"
begin

text \<open>
  The helpers of \<^verbatim>\<open>src/helpers/\<close>: the global context, the type of files, the byte order
  mark and Unix paths. Reading a file is a parameter of the functions that do.
\<close>

section \<open>The context\<close>

record context_info =
  workDir :: string
  shouldUseTypeScriptParserForJS :: bool
  sonarlint :: bool
  bundles :: "string list"

text \<open>The module variable \<^verbatim>\<open>context\<close> is undefined until it is set.\<close>

definition getContext :: "context_info option \<Rightarrow> context_info option" where
  "getContext g = g"

definition setContext :: "context_info \<Rightarrow> context_info option \<Rightarrow> context_info option" where
  "setContext ctx g = Some ctx"

section \<open>Files\<close>

datatype file_type = MAIN | TEST

type_synonym code_units = "16 word list"

definition BOM_BYTE :: "16 word" where
  "BOM_BYTE = 0xfeff"

definition stripBOM :: "code_units \<Rightarrow> code_units" where
  "stripBOM str = (case str of [] \<Rightarrow> [] | c # cs \<Rightarrow> if c = BOM_BYTE then cs else str)"

text \<open>\<^verbatim>\<open>fs.readFile\<close> is a parameter: it gives the decoded contents or rejects.\<close>

definition readFile :: "(string \<Rightarrow> code_units res) \<Rightarrow> string \<Rightarrow> code_units res" where
  "readFile fs filePath = bind_res (fs filePath) (\<lambda>fileContent. Inr (stripBOM fileContent))"

definition is_sep :: "char \<Rightarrow> bool" where
  "is_sep c \<longleftrightarrow> c = CHR 0x5C \<or> c = CHR ''/''"

text \<open>\<^verbatim>\<open>replace(/[\\/]+/g, '/')\<close>: every maximal run of separators becomes one slash.\<close>

fun collapse_seps :: "string \<Rightarrow> string" where
  "collapse_seps [] = []"
| "collapse_seps [c] = (if is_sep c then [CHR ''/''] else [c])"
| "collapse_seps (c # d # cs) =
     (if is_sep c then (if is_sep d then collapse_seps (d # cs) else CHR ''/'' # collapse_seps (d # cs))
      else c # collapse_seps (d # cs))"

text \<open>\<^verbatim>\<open>replace(/(\.\/)/, '')\<close>: the first occurrence, wherever it is.\<close>

fun remove_first_dot_slash :: "string \<Rightarrow> string" where
  "remove_first_dot_slash (c # d # cs) =
     (if c = CHR ''.'' \<and> d = CHR ''/'' then cs else c # remove_first_dot_slash (d # cs))"
| "remove_first_dot_slash cs = cs"

definition toUnixPath :: "string \<Rightarrow> string" where
  "toUnixPath path = remove_first_dot_slash (collapse_seps path)"

text \<open>
  \<^verbatim>\<open>fs.lstat\<close> and \<^verbatim>\<open>path.join\<close> are parameters; \<^verbatim>\<open>lstat\<close> tells whether the path is a
  directory or rejects.
\<close>

definition addTsConfigIfDirectory ::
  "(string \<Rightarrow> bool res) \<Rightarrow> (string \<Rightarrow> string \<Rightarrow> string) \<Rightarrow> string \<Rightarrow> string option" where
  "addTsConfigIfDirectory lstat join tsConfig =
     (case lstat tsConfig of
        Inr True \<Rightarrow> Some (join tsConfig ''tsconfig.json'')
      | Inr False \<Rightarrow> Some tsConfig
      | Inl e \<Rightarrow> None)"

section \<open>Correctness\<close>

text \<open>A byte order mark is removed once, and only at the head.\<close>

lemma stripBOM_cases: "stripBOM str = str \<or> str = BOM_BYTE # stripBOM str"
  by (simp add: stripBOM_def split: list.split)

text \<open>A path in Unix form has no backslash and no two slashes in a row.\<close>

fun unix_form :: "string \<Rightarrow> bool" where
  "unix_form [] = True"
| "unix_form [c] = (c \<noteq> CHR 0x5C)"
| "unix_form (c # d # cs) = (c \<noteq> CHR 0x5C \<and> \<not> (c = CHR ''/'' \<and> d = CHR ''/'') \<and> unix_form (d # cs))"

lemma unix_form_Cons:
  "unix_form (c # cs) \<longleftrightarrow> c \<noteq> CHR 0x5C \<and> \<not> (c = CHR ''/'' \<and> cs \<noteq> [] \<and> hd cs = CHR ''/'') \<and> unix_form cs"
  by (cases cs) auto

lemma collapse_seps_hd:
  "cs \<noteq> [] \<Longrightarrow> collapse_seps cs \<noteq> [] \<and>
     hd (collapse_seps cs) = (if is_sep (hd cs) then CHR ''/'' else hd cs)"
  by (induction cs rule: collapse_seps.induct) auto

lemma unix_form_collapse: "unix_form (collapse_seps path)"
proof (induction path rule: collapse_seps.induct)
  case (3 c d cs)
  then show ?case
    using collapse_seps_hd [of "d # cs"] by (auto simp: unix_form_Cons is_sep_def)
qed (auto simp: is_sep_def)

lemma unix_form_append:
  "unix_form (us @ vs) \<longleftrightarrow> unix_form us \<and> unix_form vs \<and>
     \<not> (us \<noteq> [] \<and> vs \<noteq> [] \<and> last us = CHR ''/'' \<and> hd vs = CHR ''/'')"
  by (induction us) (auto simp: unix_form_Cons)

lemma remove_first_dot_slash_cases:
  "remove_first_dot_slash cs = cs \<or>
   (\<exists>us vs. cs = us @ CHR ''.'' # CHR ''/'' # vs \<and> remove_first_dot_slash cs = us @ vs)"
proof (induction cs rule: remove_first_dot_slash.induct)
  case (1 c d cs)
  show ?case
  proof (cases "c = CHR ''.'' \<and> d = CHR ''/''")
    case True
    then have "c # d # cs = [] @ CHR ''.'' # CHR ''/'' # cs \<and> remove_first_dot_slash (c # d # cs) = [] @ cs"
      by simp
    then show ?thesis by blast
  next
    case False
    then have step: "remove_first_dot_slash (c # d # cs) = c # remove_first_dot_slash (d # cs)" by auto
    from 1 [OF False] show ?thesis unfolding step by (metis append_Cons)
  qed
qed simp_all

lemma unix_form_toUnixPath: "unix_form (toUnixPath path)"
proof -
  let ?cs = "collapse_seps path"
  consider "remove_first_dot_slash ?cs = ?cs"
    | us vs where "?cs = us @ CHR ''.'' # CHR ''/'' # vs" "remove_first_dot_slash ?cs = us @ vs"
    using remove_first_dot_slash_cases [of ?cs] by blast
  then show ?thesis
  proof cases
    case 1
    then show ?thesis by (simp add: toUnixPath_def unix_form_collapse)
  next
    case 2
    then have "unix_form (us @ CHR ''.'' # CHR ''/'' # vs)"
      using unix_form_collapse [of path] by simp
    with 2(2) show ?thesis by (simp add: toUnixPath_def unix_form_append unix_form_Cons)
  qed
qed

lemma collapse_seps_id: "unix_form cs \<Longrightarrow> collapse_seps cs = cs"
  by (induction cs rule: collapse_seps.induct) (auto simp: is_sep_def unix_form_Cons)

text \<open>
  The pattern of the second replacement is not anchored: a path into the parent directory
  loses a dot and its slash.
\<close>

lemma toUnixPath_parent: "toUnixPath (CHR ''.'' # ''./a/b.js'') = ''.a/b.js''"
  by code_simp

end
