(* ===== verification/Linter.thy ===== *)
theory Linter
  imports Issues Helpers
begin

text \<open>
  The ESLint linter wrapper: the configuration of \<^verbatim>\<open>src/linting/eslint/linter/config/\<close>,
  the loading of rule bundles of \<^verbatim>\<open>bundle-loader.ts\<close>, the decoration of external rules of
  \<^verbatim>\<open>decoration/\<close>, the wrapper of \<^verbatim>\<open>wrapper.ts\<close> and the registry of linters of
  \<^verbatim>\<open>src/linting/eslint/index.ts\<close>. The rules of the packages and what ESLint's \<^verbatim>\<open>verify\<close>
  does with a configuration are parameters.
\<close>

section \<open>Rules\<close>

text \<open>
  A listener object has its handlers by selector. A dictionary of rules may hold
  \<^verbatim>\<open>undefined\<close> under a key.
\<close>

type_synonym ('c, 'h) module = "('c, 'h dict) rule_module"
type_synonym ('c, 'h) rules = "('c, 'h) module option dict"

datatype config_option = OptValue jsval | OptContext "context_info option"

record ('c, 'h) custom_rule =
  cr_ruleId :: string
  cr_ruleModule :: "('c, 'h) module"
  cr_ruleConfig :: "config_option list"

text \<open>
  What the packages provide: ESLint's own rules, those of the TypeScript, React and Sonar
  plugins, the rules and decorators of \<^verbatim>\<open>src/linting/eslint/rules/\<close>, the rule modules of
  the internal custom rules, \<^verbatim>\<open>require\<close> on a bundle of custom rules, and whether a rule
  context has full type information.
\<close>

record ('c, 'h) packages =
  pk_eslintRules :: "('c, 'h) module dict"
  pk_typescriptESLintRules :: "('c, 'h) module dict"
  pk_reactESLintRules :: "('c, 'h) module dict"
  pk_pluginRules :: "('c, 'h) module dict"
  pk_internalRules :: "('c, 'h) module dict"
  pk_decorators :: "(('c, 'h) module \<Rightarrow> ('c, 'h) module) dict"
  pk_cognitiveComplexity :: "('c, 'h) module"
  pk_symbolHighlighting :: "('c, 'h) module"
  pk_require :: "string \<Rightarrow> ('c, 'h) custom_rule list res"
  pk_hasFullTypeInformation :: "'c \<Rightarrow> bool"

definition internalCustomRules :: "('c, 'h) packages \<Rightarrow> ('c, 'h) custom_rule list" where
  "internalCustomRules pk =
     [\<lparr>cr_ruleId = cognitiveComplexityRuleId, cr_ruleModule = pk_cognitiveComplexity pk,
       cr_ruleConfig = [OptValue (JStr ''metric'')]\<rparr>,
      \<lparr>cr_ruleId = symbolHighlightingRuleId, cr_ruleModule = pk_symbolHighlighting pk,
       cr_ruleConfig = []\<rparr>]"

definition defined :: "'a dict \<Rightarrow> 'a option dict" where
  "defined d = map (\<lambda>(k, m). (k, Some m)) d"

definition type_error :: "string \<Rightarrow> js_error" where
  "type_error msg = JsError msg []"

section \<open>Decoration\<close>

text \<open>\<^verbatim>\<open>{}\<close> has no handler.\<close>

definition requiresTypeChecking :: "('c, 'l) rule_module \<Rightarrow> bool" where
  "requiresTypeChecking rule =
     (case rm_meta rule of
        None \<Rightarrow> False
      | Some meta \<Rightarrow> (case meta_docs meta of
          None \<Rightarrow> False
        | Some docs \<Rightarrow> docs_requiresTypeChecking docs = Some True))"

definition sanitizeTypeScriptESLintRule :: "('c \<Rightarrow> bool) \<Rightarrow> ('c, 'h) module \<Rightarrow> ('c, 'h) module" where
  "sanitizeTypeScriptESLintRule hasFullTypeInformation rule =
     \<lparr>rm_meta = rm_meta rule,
      rm_create = (\<lambda>context.
        if requiresTypeChecking rule \<and> \<not> hasFullTypeInformation context then []
        else rm_create rule context)\<rparr>"

text \<open>A property of \<^verbatim>\<open>undefined\<close> is read when a missing rule is sanitized or decorated.\<close>

definition rewrite_rule ::
  "string \<Rightarrow> (('c, 'h) module \<Rightarrow> ('c, 'h) module) \<Rightarrow> ('c, 'h) rules \<Rightarrow> ('c, 'h) rules res" where
  "rewrite_rule ruleKey f decoratedRules =
     (case dict_get decoratedRules ruleKey of
        Some (Some rule) \<Rightarrow> Inr (dict_set ruleKey (Some (f rule)) decoratedRules)
      | _ \<Rightarrow> Inl (type_error ''Cannot read properties of undefined''))"

definition decorateExternalRules ::
  "('c, 'h) packages \<Rightarrow> ('c, 'h) module dict \<Rightarrow> ('c, 'h) rules res" where
  "decorateExternalRules pk externalRules =
     (let decoratedRules = defined externalRules;
          decoratedRules = dict_set ''enforce-trailing-comma''
            (dict_get (pk_eslintRules pk) ''comma-dangle'') decoratedRules;
          decoratedRules = dict_set ''no-throw-literal''
            (dict_get (pk_eslintRules pk) ''no-throw-literal'') decoratedRules
      in bind_res
           (fold_res (\<lambda>ruleKey. rewrite_rule ruleKey
                (sanitizeTypeScriptESLintRule (pk_hasFullTypeInformation pk)))
             (map fst (pk_typescriptESLintRules pk)) decoratedRules)
           (fold_res (\<lambda>(ruleKey, decorator). rewrite_rule ruleKey decorator) (pk_decorators pk)))"

section \<open>Bundles\<close>

definition loadCustomRules :: "('c, 'h) custom_rule list \<Rightarrow> ('c, 'h) rules \<Rightarrow> ('c, 'h) rules" where
  "loadCustomRules rules linter =
     fold (\<lambda>rule linter. dict_set (cr_ruleId rule) (Some (cr_ruleModule rule)) linter) rules linter"

definition externalRules :: "('c, 'h) packages \<Rightarrow> ('c, 'h) module dict" where
  "externalRules pk =
     fold dict_assign [pk_eslintRules pk, pk_typescriptESLintRules pk, pk_reactESLintRules pk] []"

definition load_externalRules :: "('c, 'h) packages \<Rightarrow> ('c, 'h) rules \<Rightarrow> ('c, 'h) rules res" where
  "load_externalRules pk linter =
     bind_res (decorateExternalRules pk (externalRules pk)) (\<lambda>d. Inr (dict_assign d linter))"

definition load_contextRules ::
  "('c, 'h) packages \<Rightarrow> context_info option \<Rightarrow> ('c, 'h) rules \<Rightarrow> ('c, 'h) rules res" where
  "load_contextRules pk ctx linter =
     (case getContext ctx of
        None \<Rightarrow> Inl (type_error ''Cannot destructure property of undefined'')
      | Some c \<Rightarrow>
          bind_res (map_res (pk_require pk) (bundles c))
            (\<lambda>bundleRules. Inr (loadCustomRules (concat bundleRules) linter)))"

definition loaders ::
  "('c, 'h) packages \<Rightarrow> context_info option \<Rightarrow> (('c, 'h) rules \<Rightarrow> ('c, 'h) rules res) dict" where
  "loaders pk ctx =
     [(''externalRules'', load_externalRules pk),
      (''pluginRules'', \<lambda>linter. Inr (dict_assign (defined (pk_pluginRules pk)) linter)),
      (''internalRules'', \<lambda>linter. Inr (dict_assign (defined (pk_internalRules pk)) linter)),
      (''contextRules'', load_contextRules pk ctx),
      (''internalCustomRules'', \<lambda>linter. Inr (loadCustomRules (internalCustomRules pk) linter))]"

definition loadBundles ::
  "('c, 'h) packages \<Rightarrow> context_info option \<Rightarrow> string list \<Rightarrow> ('c, 'h) rules \<Rightarrow> ('c, 'h) rules res" where
  "loadBundles pk ctx rulesBundles linter =
     fold_res (\<lambda>bundleId linter.
       case dict_get (loaders pk ctx) bundleId of
         None \<Rightarrow> Inl (type_error ''loaders[bundleId] is not a function'')
       | Some loader \<Rightarrow> loader linter) rulesBundles linter"

section \<open>Configuration\<close>

record rule_config =
  rc_key :: string
  rc_configurations :: "config_option list"
  rc_fileTypeTarget :: "file_type list"

definition extendRuleConfig ::
  "context_info option \<Rightarrow> ('c, 'l) rule_module option \<Rightarrow> rule_config \<Rightarrow> config_option list" where
  "extendRuleConfig ctx ruleModule inputRule =
     rc_configurations inputRule @
     (if hasSonarRuntimeOption ruleModule then [OptValue (JStr SONAR_RUNTIME)] else []) @
     (if hasSonarContextOption ruleModule then [OptContext (getContext ctx)] else [])"

record linter_config =
  cfg_env :: "bool dict"
  cfg_globals :: "bool dict"
  cfg_sourceType :: string
  cfg_ecmaVersion :: int
  cfg_rules :: "config_option list dict"
  cfg_reactVersion :: string
  cfg_fileType :: "file_type option"

definition createEnv :: "string list \<Rightarrow> bool dict" where
  "createEnv environments = fold (\<lambda>key env. dict_set key True env) environments [(''es6'', True)]"

definition createGlobals :: "string list \<Rightarrow> bool dict" where
  "createGlobals globs = fold (\<lambda>key globals. dict_set key True globals) globs []"

definition rule_of :: "('c, 'h) rules \<Rightarrow> string \<Rightarrow> ('c, 'h) module option" where
  "rule_of linterRules key = (case dict_get linterRules key of None \<Rightarrow> None | Some m \<Rightarrow> m)"

definition enableRules ::
  "context_info option \<Rightarrow> linter_config \<Rightarrow> rule_config list \<Rightarrow> ('c, 'h) rules \<Rightarrow> linter_config" where
  "enableRules ctx config inputRules linterRules =
     config\<lparr>cfg_rules := fold (\<lambda>inputRule rules.
       dict_set (rc_key inputRule)
         (OptValue (JStr ''error'') # extendRuleConfig ctx (rule_of linterRules (rc_key inputRule)) inputRule)
         rules) inputRules (cfg_rules config)\<rparr>"

definition enableInternalCustomRules ::
  "('c, 'h) packages \<Rightarrow> context_info option \<Rightarrow> linter_config \<Rightarrow> linter_config res" where
  "enableInternalCustomRules pk ctx config =
     (case getContext ctx of
        None \<Rightarrow> Inl (type_error ''Cannot read properties of undefined'')
      | Some c \<Rightarrow>
          if sonarlint c then Inr config
          else Inr (config\<lparr>cfg_rules := fold (\<lambda>internalCustomRule rules.
            dict_set (cr_ruleId internalCustomRule)
              (OptValue (JStr ''error'') # cr_ruleConfig internalCustomRule) rules)
            (internalCustomRules pk) (cfg_rules config)\<rparr>))"

definition createLinterConfig ::
  "('c, 'h) packages \<Rightarrow> context_info option \<Rightarrow> rule_config list \<Rightarrow> ('c, 'h) rules \<Rightarrow>
   string list \<Rightarrow> string list \<Rightarrow> linter_config res" where
  "createLinterConfig pk ctx inputRules linterRules environments globs =
     enableInternalCustomRules pk ctx
       (enableRules ctx
          \<lparr>cfg_env = createEnv environments, cfg_globals = createGlobals globs,
           cfg_sourceType = ''module'', cfg_ecmaVersion = 2018, cfg_rules = [],
           cfg_reactVersion = ''999.999.999'', cfg_fileType = None\<rparr>
          inputRules linterRules)"

section \<open>The wrapper\<close>

record ('c, 'h) wrapper_options =
  wo_inputRules :: "rule_config list option"
  wo_environments :: "string list option"
  wo_globals :: "string list option"
  wo_ruleBundles :: "string list option"
  wo_customRules :: "('c, 'h) custom_rule list option"

definition or_default :: "'a \<Rightarrow> 'a option \<Rightarrow> 'a" where
  "or_default d x = (case x of None \<Rightarrow> d | Some y \<Rightarrow> y)"

definition defaultRuleBundles :: "string list" where
  "defaultRuleBundles =
     [''externalRules'', ''pluginRules'', ''internalRules'', ''contextRules'', ''internalCustomRules'']"

record ('c, 'h) linter_wrapper =
  lw_linter :: "('c, 'h) rules"
  lw_main :: linter_config
  lw_test :: linter_config

definition createConfig ::
  "('c, 'h) packages \<Rightarrow> context_info option \<Rightarrow> ('c, 'h) rules \<Rightarrow> ('c, 'h) wrapper_options \<Rightarrow>
   (linter_config \<times> linter_config) res" where
  "createConfig pk ctx linterRules opts =
     (let inputRules = or_default [] (wo_inputRules opts);
          mainRules = filter (\<lambda>r. MAIN \<in> set (rc_fileTypeTarget r)) inputRules;
          testRules = filter (\<lambda>r. TEST \<in> set (rc_fileTypeTarget r)) inputRules;
          environments = or_default [] (wo_environments opts);
          globs = or_default [] (wo_globals opts)
      in bind_res (createLinterConfig pk ctx mainRules linterRules environments globs) (\<lambda>mainConfig.
         bind_res (createLinterConfig pk ctx testRules linterRules environments globs) (\<lambda>testConfig.
         Inr (mainConfig, testConfig))))"

definition LinterWrapper ::
  "('c, 'h) packages \<Rightarrow> context_info option \<Rightarrow> ('c, 'h) wrapper_options \<Rightarrow> ('c, 'h) linter_wrapper res" where
  "LinterWrapper pk ctx opts =
     (let linter = defined (pk_eslintRules pk) in
      bind_res (loadBundles pk ctx (or_default defaultRuleBundles (wo_ruleBundles opts)) linter) (\<lambda>linter.
      let linter = loadCustomRules (or_default [] (wo_customRules opts)) linter in
      bind_res (createConfig pk ctx linter opts) (\<lambda>(mainConfig, testConfig).
      Inr \<lparr>lw_linter = linter, lw_main = mainConfig, lw_test = testConfig\<rparr>)))"

text \<open>ESLint's \<^verbatim>\<open>verify\<close> is a parameter: the messages for a source under a configuration.\<close>

type_synonym ('c, 'h) verifier =
  "('c, 'h) rules \<Rightarrow> source_code \<Rightarrow> linter_config \<Rightarrow> string \<Rightarrow> lint_message list res"

definition config_for :: "('c, 'h) linter_wrapper \<Rightarrow> file_type \<Rightarrow> linter_config" where
  "config_for w fileType = (case fileType of MAIN \<Rightarrow> lw_main w | TEST \<Rightarrow> lw_test w)"

definition lint ::
  "('c, 'h) verifier \<Rightarrow> ('c, 'h) linter_wrapper \<Rightarrow> source_code \<Rightarrow> string \<Rightarrow> file_type \<Rightarrow> linting_result res" where
  "lint verify w sourceCode filePath fileType =
     (let config = (config_for w fileType)\<lparr>cfg_fileType := Some fileType\<rparr> in
      bind_res (verify (lw_linter w) sourceCode config filePath) (\<lambda>messages.
        transformMessages messages sourceCode (rule_of (lw_linter w))))"

section \<open>The registry of linters\<close>

type_synonym ('c, 'h) linters = "('c, 'h) linter_wrapper dict"

definition initializeLinter ::
  "('c, 'h) packages \<Rightarrow> context_info option \<Rightarrow> rule_config list \<Rightarrow> string list option \<Rightarrow>
   string list option \<Rightarrow> string option \<Rightarrow> ('c, 'h) linters \<Rightarrow> ('c, 'h) linters res" where
  "initializeLinter pk ctx inputRules environments globals linterId linters =
     bind_res (LinterWrapper pk ctx
         \<lparr>wo_inputRules = Some inputRules, wo_environments = Some (or_default [] environments),
          wo_globals = Some (or_default [] globals), wo_ruleBundles = None, wo_customRules = None\<rparr>)
       (\<lambda>w. Inr (dict_set (or_default ''default'' linterId) w linters))"

definition getLinter :: "('c, 'h) linters \<Rightarrow> string option \<Rightarrow> ('c, 'h) linter_wrapper res" where
  "getLinter linters linterId =
     (let linterId = or_default ''default'' linterId in
      case dict_get linters linterId of
        None \<Rightarrow> Inl (APIError LinterInitialization
          (''Linter '' @ linterId @ '' does not exist. Did you call /init-linter?'') None)
      | Some w \<Rightarrow> Inr w)"

section \<open>Correctness\<close>

subsection \<open>Decoration\<close>

lemma dict_get_defined [simp]: "dict_get (defined d) k = map_option Some (dict_get d k)"
  by (induction d) (auto simp: dict_get_def defined_def)

lemma rewrite_rule_get:
  assumes "rewrite_rule key f d = Inr d'"
  shows "dict_get d' k = (if k = key then map_option (map_option f) (dict_get d k) else dict_get d k) \<and>
    (\<exists>rule. dict_get d key = Some (Some rule))"
  using assms by (auto simp: rewrite_rule_def dict.get_put split: option.splits)

lemma fold_rewrite_get:
  assumes "fold_res (\<lambda>(key, f). rewrite_rule key f) fs d = Inr d'" and "distinct (map fst fs)"
  shows "dict_get d' k =
    (case map_of fs k of None \<Rightarrow> dict_get d k | Some f \<Rightarrow> map_option (map_option f) (dict_get d k))"
  using assms
proof (induction fs arbitrary: d)
  case (Cons p fs)
  obtain key f where p: "p = (key, f)" by (cases p)
  with Cons.prems obtain d1 where step: "rewrite_rule key f d = Inr d1"
    and loop: "fold_res (\<lambda>(key, f). rewrite_rule key f) fs d1 = Inr d'"
    by (auto simp: bind_res_eq_Inr)
  have "map_of fs key = None"
    using Cons.prems(2) p by (simp add: map_of_eq_None_iff)
  with Cons.IH [OF loop] Cons.prems(2) rewrite_rule_get [OF step, of k] p show ?case
    by (auto split: option.splits)
qed simp

lemma map_of_constant: "map_of (map (\<lambda>k. (k, c)) ks) k = (if k \<in> set ks then Some c else None)"
  by (induction ks) auto

definition external_base :: "('c, 'h) packages \<Rightarrow> ('c, 'h) module dict \<Rightarrow> string \<Rightarrow> ('c, 'h) module option" where
  "external_base pk ext k =
     (if k = ''enforce-trailing-comma'' then dict_get (pk_eslintRules pk) ''comma-dangle''
      else if k = ''no-throw-literal'' then dict_get (pk_eslintRules pk) ''no-throw-literal''
      else dict_get ext k)"

lemma rule_of_start:
  "rule_of (dict_set ''no-throw-literal'' (dict_get (pk_eslintRules pk) ''no-throw-literal'')
     (dict_set ''enforce-trailing-comma'' (dict_get (pk_eslintRules pk) ''comma-dangle'')
       (defined ext))) k = external_base pk ext k"
  by (auto simp: rule_of_def external_base_def dict.get_put split: option.splits)

lemma rule_of_map:
  "dict_get d' k = map_option (map_option f) (dict_get d k) \<Longrightarrow> rule_of d' k = map_option f (rule_of d k)"
  by (cases "dict_get d k") (auto simp: rule_of_def)

lemma rule_of_same: "dict_get d' k = dict_get d k \<Longrightarrow> rule_of d' k = rule_of d k"
  by (simp add: rule_of_def)

text \<open>
  C12: every external rule ends up as the implementation that the loader means for it: ESLint's
  own \<^verbatim>\<open>comma-dangle\<close> under \<^verbatim>\<open>enforce-trailing-comma\<close> and ESLint's own \<^verbatim>\<open>no-throw-literal\<close>,
  else the given one; it is sanitized exactly if TypeScript ESLint has a rule of this key, and
  then decorated exactly if there is a decorator for the key. A sanitized rule that requires
  type checking has no handler in a context without type information, and any other
  sanitized rule behaves as before.
\<close>

theorem decorateExternalRules_correct:
  assumes "decorateExternalRules pk ext = Inr d"
    and "distinct (map fst (pk_typescriptESLintRules pk))" and "distinct (map fst (pk_decorators pk))"
  shows "rule_of d k =
      map_option (or_default id (dict_get (pk_decorators pk) k))
        (map_option (if k \<in> fst ` set (pk_typescriptESLintRules pk)
             then sanitizeTypeScriptESLintRule (pk_hasFullTypeInformation pk) else id)
          (external_base pk ext k)) \<and>
    (\<forall>rule context. rm_create (sanitizeTypeScriptESLintRule (pk_hasFullTypeInformation pk) rule) context =
      (if requiresTypeChecking rule \<and> \<not> pk_hasFullTypeInformation pk context then []
       else rm_create rule context))"
proof
  let ?s = "sanitizeTypeScriptESLintRule (pk_hasFullTypeInformation pk)"
  let ?keys = "map fst (pk_typescriptESLintRules pk)"
  let ?d0 = "dict_set ''no-throw-literal'' (dict_get (pk_eslintRules pk) ''no-throw-literal'')
     (dict_set ''enforce-trailing-comma'' (dict_get (pk_eslintRules pk) ''comma-dangle'') (defined ext))"
  from assms(1) obtain d1 where
    san: "fold_res (\<lambda>(key, f). rewrite_rule key f) (map (\<lambda>key. (key, ?s)) ?keys) ?d0 = Inr d1" and
    dec: "fold_res (\<lambda>(key, f). rewrite_rule key f) (pk_decorators pk) d1 = Inr d"
    by (auto simp: decorateExternalRules_def Let_def bind_res_eq_Inr fold_res_map)
  have keys: "map_of (map (\<lambda>key. (key, ?s)) ?keys) k = (if k \<in> set ?keys then Some ?s else None)"
    by (rule map_of_constant)
  have "distinct (map fst (map (\<lambda>key. (key, ?s)) ?keys))"
    using assms(2) by (simp add: comp_def)
  from fold_rewrite_get [OF san this, of k, unfolded keys]
  have "rule_of d1 k = map_option (if k \<in> set ?keys then ?s else id) (rule_of ?d0 k)"
    by (cases "k \<in> set ?keys") (use rule_of_map [of d1 k ?s ?d0] rule_of_same [of d1 k ?d0] in
        \<open>simp_all add: option.map_id\<close>)
  then have "rule_of d1 k = map_option (if k \<in> set ?keys then ?s else id) (external_base pk ext k)"
    by (simp only: rule_of_start)
  with fold_rewrite_get [OF dec assms(3), of k]
  show "rule_of d k =
      map_option (or_default id (dict_get (pk_decorators pk) k))
        (map_option (if k \<in> fst ` set (pk_typescriptESLintRules pk) then ?s else id)
          (external_base pk ext k))"
    using rule_of_map [of d k _ d1] rule_of_same [of d k d1]
    by (cases "map_of (pk_decorators pk) k")
      (simp_all add: dict_get_def [of "pk_decorators pk"] or_default_def option.map_id)
qed (simp add: sanitizeTypeScriptESLintRule_def)

definition example_module :: "bool \<Rightarrow> nat \<Rightarrow> (bool, nat) module" where
  "example_module typed n = \<lparr>rm_meta = Some \<lparr>meta_schema = None,
     meta_docs = Some \<lparr>docs_requiresTypeChecking = Some typed\<rparr>\<rparr>, rm_create = (\<lambda>_. [(''Program'', n)])\<rparr>"

definition example_packages :: "(bool, nat) packages" where
  "example_packages = \<lparr>
     pk_eslintRules = [(''comma-dangle'', example_module False 1), (''no-throw-literal'', example_module False 2)],
     pk_typescriptESLintRules = [(''no-throw-literal'', example_module True 3), (''typed'', example_module True 4)],
     pk_reactESLintRules = [], pk_pluginRules = [], pk_internalRules = [(''typed'', example_module False 5)],
     pk_decorators = [(''comma-dangle'', \<lambda>m. m\<lparr>rm_create := (\<lambda>_. [])\<rparr>)],
     pk_cognitiveComplexity = example_module False 6, pk_symbolHighlighting = example_module False 7,
     pk_require = (\<lambda>_. Inr []), pk_hasFullTypeInformation = id\<rparr>"

theorem decorateExternalRules_correct_witness:
  "\<exists>d rule. decorateExternalRules example_packages (externalRules example_packages) = Inr d \<and>
     rule_of d ''typed'' = Some rule \<and> rm_create rule True = [(''Program'', 4)] \<and> rm_create rule False = []"
proof -
  have "\<not> isl (decorateExternalRules example_packages (externalRules example_packages))"
    by code_simp
  then obtain d where d: "decorateExternalRules example_packages (externalRules example_packages) = Inr d"
    by (cases "decorateExternalRules example_packages (externalRules example_packages)") auto
  from decorateExternalRules_correct [OF d, of "''typed''", THEN conjunct1]
  have "rule_of d ''typed'' = Some (sanitizeTypeScriptESLintRule id (example_module True 4))"
    by (simp add: example_packages_def external_base_def externalRules_def dict_assign_def dict_get_def or_default_def)
  with d show ?thesis
    by (simp add: sanitizeTypeScriptESLintRule_def requiresTypeChecking_def example_module_def)
qed

subsection \<open>The rule database\<close>

definition custom_entries :: "('c, 'h) custom_rule list \<Rightarrow> ('c, 'h) rules" where
  "custom_entries rules = map (\<lambda>r. (cr_ruleId r, Some (cr_ruleModule r))) rules"

lemma loadCustomRules_assign: "loadCustomRules rules linter = dict_assign (custom_entries rules) linter"
  by (simp add: loadCustomRules_def dict_assign_def custom_entries_def fold_map comp_def)

lemma dict_get_assign_assign:
  "dict_get (dict_assign ys (dict_assign xs d)) = dict_get (dict_assign (xs @ ys) d)"
  by (simp add: dict_assign_def)

lemma loadBundles_default:
  assumes "loadBundles pk ctx defaultRuleBundles linter = Inr linter'"
  shows "\<exists>decorated c bundleRules.
    decorateExternalRules pk (externalRules pk) = Inr decorated \<and> ctx = Some c \<and>
    map_res (pk_require pk) (bundles c) = Inr bundleRules \<and>
    linter' = dict_assign (decorated @ defined (pk_pluginRules pk) @ defined (pk_internalRules pk) @
      custom_entries (concat bundleRules) @ custom_entries (internalCustomRules pk)) linter"
  using assms
  by (auto simp: loadBundles_def defaultRuleBundles_def loaders_def dict_get_def load_externalRules_def
      load_contextRules_def getContext_def bind_res_eq_Inr loadCustomRules_assign dict_assign_def
      split: option.splits)

text \<open>
  The rule database of a linter that loads the default bundles: the implementation of a
  key is the last one in the order of ESLint's own rules, the decorated external rules, the
  plugin's, the internal ones, those of the context's bundles, the internal custom rules and
  the rules given to the wrapper. The constructor fails when the context is not set.
\<close>

lemma wrapper_rules_override:
  assumes "LinterWrapper pk ctx opts = Inr w" and "wo_ruleBundles opts = None"
    and "distinct (map fst (pk_eslintRules pk))"
  shows "\<exists>decorated c bundleRules.
    decorateExternalRules pk (externalRules pk) = Inr decorated \<and> ctx = Some c \<and>
    map_res (pk_require pk) (bundles c) = Inr bundleRules \<and>
    (\<forall>k. dict_get (lw_linter w) k = map_of (rev (defined (pk_eslintRules pk) @ decorated @
        defined (pk_pluginRules pk) @ defined (pk_internalRules pk) @
        custom_entries (concat bundleRules) @ custom_entries (internalCustomRules pk) @
        custom_entries (or_default [] (wo_customRules opts)))) k)"
proof -
  from assms obtain linter' where load: "loadBundles pk ctx defaultRuleBundles (defined (pk_eslintRules pk)) = Inr linter'"
    and w: "lw_linter w = loadCustomRules (or_default [] (wo_customRules opts)) linter'"
    by (auto simp: LinterWrapper_def Let_def bind_res_eq_Inr or_default_def)
  from loadBundles_default [OF load] obtain decorated c bundleRules where
    parts: "decorateExternalRules pk (externalRules pk) = Inr decorated" "ctx = Some c"
      "map_res (pk_require pk) (bundles c) = Inr bundleRules"
    and linter': "linter' = dict_assign (decorated @ defined (pk_pluginRules pk) @ defined (pk_internalRules pk) @
      custom_entries (concat bundleRules) @ custom_entries (internalCustomRules pk)) (defined (pk_eslintRules pk))"
    by blast
  have rev_eslint: "map_of (rev (defined (pk_eslintRules pk))) k = map_of (defined (pk_eslintRules pk)) k"
    for k using assms(3) by (intro map_of_rev) (simp add: defined_def comp_def case_prod_beta)
  have "dict_get (lw_linter w) k = map_of (rev (defined (pk_eslintRules pk) @ decorated @
        defined (pk_pluginRules pk) @ defined (pk_internalRules pk) @
        custom_entries (concat bundleRules) @ custom_entries (internalCustomRules pk) @
        custom_entries (or_default [] (wo_customRules opts)))) k"
    for k unfolding w linter' loadCustomRules_assign dict_get_assign_assign dict_get_assign
    using rev_eslint [of k]
    by (simp add: map_add_def dict_get_def split: option.splits)
  with parts show ?thesis by blast
qed

definition example_context :: "bool \<Rightarrow> context_info" where
  "example_context sl = \<lparr>workDir = ''/work'', shouldUseTypeScriptParserForJS = True, sonarlint = sl, bundles = []\<rparr>"

definition example_options :: "(bool, nat) wrapper_options" where
  "example_options = \<lparr>wo_inputRules = Some
       [\<lparr>rc_key = ''typed'', rc_configurations = [], rc_fileTypeTarget = [MAIN]\<rparr>,
        \<lparr>rc_key = ''comma-dangle'', rc_configurations = [OptValue (JStr ''x'')], rc_fileTypeTarget = [TEST]\<rparr>],
     wo_environments = Some [''node''], wo_globals = None, wo_ruleBundles = None, wo_customRules = None\<rparr>"

lemma example_wrapper: "\<exists>w. LinterWrapper example_packages (Some (example_context False)) example_options = Inr w"
proof -
  have "\<not> isl (LinterWrapper example_packages (Some (example_context False)) example_options)"
    by code_simp
  then show ?thesis
    by (cases "LinterWrapper example_packages (Some (example_context False)) example_options") auto
qed

lemma wrapper_rules_override_witness:
  "\<exists>w. LinterWrapper example_packages (Some (example_context False)) example_options = Inr w \<and>
     dict_get (lw_linter w) ''typed'' = Some (Some (example_module False 5))"
proof -
  obtain w where w: "LinterWrapper example_packages (Some (example_context False)) example_options = Inr w"
    using example_wrapper by blast
  have none: "wo_ruleBundles example_options = None" "or_default [] (wo_customRules example_options) = []"
    and dist: "distinct (map fst (pk_eslintRules example_packages))"
    by (simp_all add: example_options_def or_default_def example_packages_def)
  from wrapper_rules_override [OF w none(1) dist] obtain decorated c bundleRules where
    b: "Some (example_context False) = Some c" "map_res (pk_require example_packages) (bundles c) = Inr bundleRules"
    and get: "\<forall>k. dict_get (lw_linter w) k = map_of (rev (defined (pk_eslintRules example_packages) @ decorated @
        defined (pk_pluginRules example_packages) @ defined (pk_internalRules example_packages) @
        custom_entries (concat bundleRules) @ custom_entries (internalCustomRules example_packages) @
        custom_entries (or_default [] (wo_customRules example_options)))) k"
    by blast
  have "bundleRules = []" using b by (auto simp: example_context_def)
  with get [rule_format, of "''typed''"] none(2) have "dict_get (lw_linter w) ''typed'' = Some (Some (example_module False 5))"
    by (simp add: custom_entries_def internalCustomRules_def example_packages_def defined_def
        cognitiveComplexityRuleId_def symbolHighlightingRuleId_def)
  with w show ?thesis by blast
qed

subsection \<open>Configurations\<close>

lemma dict_get_fold_True:
  "dict_get (fold (\<lambda>key d. dict_set key True d) keys d) k = (if k \<in> set keys then Some True else dict_get d k)"
  by (induction keys arbitrary: d) (auto simp: dict.get_put)

definition enabled_rule ::
  "('c, 'h) packages \<Rightarrow> context_info \<Rightarrow> ('c, 'h) rules \<Rightarrow> rule_config list \<Rightarrow> string \<Rightarrow> config_option list option" where
  "enabled_rule pk c linterRules inputRules k =
     (if \<not> sonarlint c \<and> k = symbolHighlightingRuleId then Some [OptValue (JStr ''error'')]
      else if \<not> sonarlint c \<and> k = cognitiveComplexityRuleId
      then Some [OptValue (JStr ''error''), OptValue (JStr ''metric'')]
      else map_option (\<lambda>r. OptValue (JStr ''error'') # extendRuleConfig (Some c) (rule_of linterRules k) r)
             (List.find (\<lambda>r. rc_key r = k) (rev inputRules)))"

lemma find_rev_key: "List.find (\<lambda>r. key r = k) xs = Some r \<Longrightarrow> key r = k"
  by (auto dest: find_SomeD)

lemma createLinterConfig_get:
  assumes "createLinterConfig pk ctx inputRules linterRules environments globs = Inr config"
  shows "\<exists>c. ctx = Some c \<and> dict_get (cfg_rules config) k = enabled_rule pk c linterRules inputRules k \<and>
    cfg_env config = createEnv environments \<and> cfg_globals config = createGlobals globs"
proof -
  from assms obtain c where c: "ctx = Some c"
    by (auto simp: createLinterConfig_def enableInternalCustomRules_def getContext_def split: option.splits)
  have inputs: "dict_get (fold (\<lambda>r rules. dict_set (rc_key r)
         (OptValue (JStr ''error'') # extendRuleConfig ctx (rule_of linterRules (rc_key r)) r) rules) inputRules []) k =
      map_option (\<lambda>r. OptValue (JStr ''error'') # extendRuleConfig ctx (rule_of linterRules k) r)
        (List.find (\<lambda>r. rc_key r = k) (rev inputRules))"
    by (simp add: dict.get_fold) (auto simp: dict_get_def split: option.splits dest: find_rev_key)
  with assms c show ?thesis
    by (auto simp: createLinterConfig_def enableInternalCustomRules_def enableRules_def getContext_def
        internalCustomRules_def enabled_rule_def dict.get_put split: if_splits)
qed

lemma find_filter: "List.find P (filter Q xs) = List.find (\<lambda>x. Q x \<and> P x) xs"
  by (induction xs) auto

text \<open>
  C14: the configuration of a linter for a type of file: a rule is enabled there exactly if
  some input rule of its key targets this type of file, or if it is an internal custom rule
  and the bridge does not run in SonarLint. The options are those of the last such input rule,
  after \<^verbatim>\<open>error\<close>, extended by the markers that the rule's schema asks for. An environment
  or a global is on exactly if it was asked for, or is \<^verbatim>\<open>es6\<close>.
\<close>

theorem wrapper_config_correct:
  assumes "LinterWrapper pk ctx opts = Inr w"
  shows "\<exists>c. ctx = Some c \<and>
    (\<forall>k. dict_get (cfg_rules (config_for w fileType)) k = enabled_rule pk c (lw_linter w)
        (filter (\<lambda>r. fileType \<in> set (rc_fileTypeTarget r)) (or_default [] (wo_inputRules opts))) k) \<and>
    (\<forall>e. dict_get (cfg_env (config_for w fileType)) e =
        (if e = ''es6'' \<or> e \<in> set (or_default [] (wo_environments opts)) then Some True else None)) \<and>
    (\<forall>g. dict_get (cfg_globals (config_for w fileType)) g =
        (if g \<in> set (or_default [] (wo_globals opts)) then Some True else None))"
proof -
  let ?inputs = "\<lambda>t. filter (\<lambda>r. t \<in> set (rc_fileTypeTarget r)) (or_default [] (wo_inputRules opts))"
  from assms have config: "createLinterConfig pk ctx (?inputs fileType) (lw_linter w)
      (or_default [] (wo_environments opts)) (or_default [] (wo_globals opts)) = Inr (config_for w fileType)"
    by (cases fileType)
      (auto simp: LinterWrapper_def Let_def createConfig_def bind_res_eq_Inr config_for_def)
  then obtain c where "ctx = Some c" using createLinterConfig_get by blast
  with createLinterConfig_get [OF config] show ?thesis
    by (auto simp: createEnv_def createGlobals_def dict_get_fold_True dict_get_def [of "[]"]
        dict_get_def [of "[(_, _)]"])
qed

theorem wrapper_config_correct_witness:
  "\<exists>w. LinterWrapper example_packages (Some (example_context False)) example_options = Inr w \<and>
     dict_get (cfg_rules (config_for w MAIN)) ''typed'' \<noteq> None \<and>
     dict_get (cfg_rules (config_for w TEST)) ''typed'' = None \<and>
     dict_get (cfg_rules (config_for w TEST)) symbolHighlightingRuleId = Some [OptValue (JStr ''error'')]"
proof -
  obtain w where w: "LinterWrapper example_packages (Some (example_context False)) example_options = Inr w"
    using example_wrapper by blast
  from wrapper_config_correct [OF w, of MAIN] wrapper_config_correct [OF w, of TEST] w show ?thesis
    by (auto simp: enabled_rule_def example_options_def or_default_def symbolHighlightingRuleId_def
        cognitiveComplexityRuleId_def example_context_def)
qed

subsection \<open>The registry\<close>

text \<open>
  A linter is available under its key from its initialization on, with the wrapper built
  from the given rules, and initializing a linter leaves those of other keys as they were;
  the key defaults to \<^verbatim>\<open>default\<close>. A key that was never initialized is an initialization
  error. A failing initialization gives no new registry.
\<close>

lemma linters_registry:
  assumes "initializeLinter pk ctx inputRules environments globals linterId linters = Inr linters'"
  shows "(\<exists>w. getLinter linters' linterId = Inr w \<and>
      LinterWrapper pk ctx \<lparr>wo_inputRules = Some inputRules, wo_environments = Some (or_default [] environments),
        wo_globals = Some (or_default [] globals), wo_ruleBundles = None, wo_customRules = None\<rparr> = Inr w) \<and>
    (\<forall>other. or_default ''default'' other \<noteq> or_default ''default'' linterId \<longrightarrow>
       getLinter linters' other = getLinter linters other) \<and>
    (\<forall>other. (\<exists>msg. getLinter linters' other = Inl (APIError LinterInitialization msg None)) \<longleftrightarrow>
       or_default ''default'' other \<notin> insert (or_default ''default'' linterId) (fst ` set linters))"
proof -
  let ?opts = "\<lparr>wo_inputRules = Some inputRules, wo_environments = Some (or_default [] environments),
        wo_globals = Some (or_default [] globals), wo_ruleBundles = None, wo_customRules = None\<rparr>"
  from assms obtain w where w: "LinterWrapper pk ctx ?opts = Inr w"
    and l: "linters' = dict_set (or_default ''default'' linterId) w linters"
    by (auto simp: initializeLinter_def bind_res_eq_Inr)
  have missing: "(\<exists>msg. getLinter d other = Inl (APIError LinterInitialization msg None)) \<longleftrightarrow>
      dict_get d (or_default ''default'' other) = None" for d :: "('a, 'b) linters" and other
    by (simp add: getLinter_def Let_def split: option.split)
  have "dict_get linters' k = None \<longleftrightarrow> k \<notin> insert (or_default ''default'' linterId) (fst ` set linters)" for k
    unfolding l dict.get_put by (simp add: dict_get_def map_of_eq_None_iff)
  then show ?thesis
    unfolding missing using w by (simp add: l getLinter_def Let_def dict.get_put)
qed

lemma linters_registry_witness:
  "\<exists>linters w. initializeLinter example_packages (Some (example_context True)) [] None None None [] = Inr linters \<and>
     getLinter linters (Some ''default'') = Inr w \<and> isl (getLinter linters (Some ''other''))"
proof -
  have "\<not> isl (initializeLinter example_packages (Some (example_context True)) [] None None None [])"
    by code_simp
  then obtain linters where init:
    "initializeLinter example_packages (Some (example_context True)) [] None None None [] = Inr linters"
    by (cases "initializeLinter example_packages (Some (example_context True)) [] None None None []") auto
  have "\<exists>w. getLinter linters None = Inr w"
    using linters_registry [OF init] by blast
  moreover have "\<exists>msg. getLinter linters (Some ''other'') = Inl (APIError LinterInitialization msg None)"
    using linters_registry [OF init, THEN conjunct2, THEN conjunct2, rule_format, of "Some ''other''"]
    by (simp add: or_default_def)
  moreover have "getLinter linters (Some ''default'') = getLinter linters None"
    by (simp add: getLinter_def or_default_def)
  ultimately show ?thesis using init by force
qed

end
