(* ===== verification/Dataflow.thy ===== *)
theory Dataflow
  imports Objects Scopes
begin

text \<open>
  The two data flow analyses of the rule helpers: live variables
  (\<^verbatim>\<open>src/linting/eslint/rules/helpers/lva.ts\<close>) and reaching definitions
  (\<^verbatim>\<open>reaching-definitions.ts\<close>), over the code path segments that ESLint computes. Both
  run the same loop over a worklist; the locale \<open>worklist_analysis\<close> states what such an
  analysis promises and gets termination and stability from it once.
\<close>

section \<open>The worklist\<close>

text \<open>
  An array used as a stack, its top first. A step gives the new state and the elements to
  push, in the order in which they are pushed; not returning is \<open>None\<close>.
\<close>

partial_function (option) worklist_loop ::
  "('s \<Rightarrow> 'n \<Rightarrow> ('s \<times> 'n list) res) \<Rightarrow> 'n list \<Rightarrow> 's \<Rightarrow> 's res option" where
  "worklist_loop step worklist s =
     (case worklist of
        [] \<Rightarrow> Some (Inr s)
      | current # rest \<Rightarrow>
          (case step s current of
             Inl e \<Rightarrow> Some (Inl e)
           | Inr (s', pushed) \<Rightarrow> worklist_loop step (rev pushed @ rest) s'))"

declare worklist_loop.simps [code]

lemma worklist_loop_Nil [simp]: "worklist_loop step [] s = Some (Inr s)"
  by (simp add: worklist_loop.simps)

lemma worklist_loop_Cons:
  "step s n = Inr (s', pushed) \<Longrightarrow> worklist_loop step (n # rest) s = worklist_loop step (rev pushed @ rest) s'"
  by (subst worklist_loop.simps) simp

lemma worklist_loop_error: "step s n = Inl e \<Longrightarrow> worklist_loop step (n # rest) s = Some (Inl e)"
  by (subst worklist_loop.simps) simp

locale worklist_analysis =
  fixes step :: "'s \<Rightarrow> 'n \<Rightarrow> ('s \<times> 'n list) res"
    and node :: "'s \<Rightarrow> 'n \<Rightarrow> bool"
    and consistent :: "'s \<Rightarrow> bool"
    and stable :: "'s \<Rightarrow> 'n \<Rightarrow> bool"
    and rank :: "'s \<Rightarrow> nat"
  assumes step_returns: "consistent s \<Longrightarrow> node s n \<Longrightarrow> \<exists>s' pushed. step s n = Inr (s', pushed)"
    and step_consistent: "consistent s \<Longrightarrow> node s n \<Longrightarrow> step s n = Inr (s', pushed) \<Longrightarrow>
          consistent s' \<and> node s' = node s \<and> (\<forall>m \<in> set pushed. node s m)"
    and step_rank: "consistent s \<Longrightarrow> node s n \<Longrightarrow> step s n = Inr (s', pushed) \<Longrightarrow>
          rank s' < rank s \<or> rank s' = rank s \<and> pushed = []"
    and step_stable: "consistent s \<Longrightarrow> node s n \<Longrightarrow> step s n = Inr (s', pushed) \<Longrightarrow> node s m \<Longrightarrow>
          m = n \<or> stable s m \<Longrightarrow> stable s' m \<or> m \<in> set pushed"
begin

lemma loop_returns:
  assumes "consistent s" and "\<forall>n \<in> set worklist. node s n"
    and "\<forall>n. node s n \<longrightarrow> n \<in> set worklist \<or> stable s n"
  shows "\<exists>s'. worklist_loop step worklist s = Some (Inr s') \<and> consistent s' \<and> node s' = node s \<and>
    (\<forall>n. node s n \<longrightarrow> stable s' n)"
  using assms
proof (induction "(rank s, length worklist)" arbitrary: s worklist
    rule: wf_induct_rule [OF wf_lex_prod [OF wf_less_than wf_less_than]])
  case 1
  show ?case
  proof (cases worklist)
    case Nil
    with 1 show ?thesis by simp
  next
    case (Cons n rest)
    with 1 have n: "node s n" by simp
    then obtain s' pushed where st: "step s n = Inr (s', pushed)" using step_returns 1 by blast
    have con: "consistent s'" "node s' = node s" "\<forall>m \<in> set pushed. node s m"
      using step_consistent [OF 1(2) n st] by auto
    have smaller: "((rank s', length (rev pushed @ rest)), rank s, length worklist)
        \<in> less_than <*lex*> less_than"
      using step_rank [OF 1(2) n st] Cons by auto
    have nodes: "\<forall>m \<in> set (rev pushed @ rest). node s' m" using con 1(3) Cons by auto
    have "m \<in> set (rev pushed @ rest) \<or> stable s' m" if "node s' m" for m
      using step_stable [OF 1(2) n st, of m] that con(2) 1(4) Cons by auto
    then show ?thesis
      using 1(1) [OF smaller con(1) nodes] worklist_loop_Cons [of step, OF st] Cons con(2) by auto
  qed
qed

end

text \<open>
  One round of the loop on its configurations, the worklist and the state: a configuration that
  some number of rounds leads back to itself is one from which the loop never returns.
\<close>

definition loop_step :: "('s \<Rightarrow> 'n \<Rightarrow> ('s \<times> 'n list) res) \<Rightarrow> 'n list \<times> 's \<Rightarrow> ('n list \<times> 's) option" where
  "loop_step step c =
     (case c of
        ([], s) \<Rightarrow> None
      | (current # rest, s) \<Rightarrow>
          (case step s current of Inl e \<Rightarrow> None | Inr (s', pushed) \<Rightarrow> Some (rev pushed @ rest, s')))"

fun loop_steps :: "('s \<Rightarrow> 'n \<Rightarrow> ('s \<times> 'n list) res) \<Rightarrow> nat \<Rightarrow> 'n list \<times> 's \<Rightarrow> ('n list \<times> 's) option" where
  "loop_steps step 0 c = Some c"
| "loop_steps step (Suc k) c = Option.bind (loop_step step c) (loop_steps step k)"

lemma worklist_loop_step: "loop_step step (w, s) = Some (w', s') \<Longrightarrow> worklist_loop step w s = worklist_loop step w' s'"
  by (subst worklist_loop.simps) (auto simp: loop_step_def split: list.splits sum.splits)

lemma worklist_loop_steps:
  "loop_steps step k (w, s) = Some (w', s') \<Longrightarrow> worklist_loop step w s = worklist_loop step w' s'"
  by (induction k arbitrary: w s) (auto simp: bind_eq_Some_conv dest: worklist_loop_step)

lemma worklist_loop_cycle:
  assumes "loop_steps step (Suc p) c0 = Some c0"
  shows "worklist_loop step (fst c0) (snd c0) = None"
proof -
  define C where "C c \<longleftrightarrow> (\<exists>k. loop_steps step k c = Some c0)" for c
  have move: "\<exists>c'. loop_step step c = Some c' \<and> C c'" if c: "C c" for c
  proof -
    from c obtain k where k: "loop_steps step k c = Some c0" by (auto simp: C_def)
    then obtain j where "loop_steps step (Suc j) c = Some c0" using assms by (cases k) auto
    then show ?thesis by (auto simp: bind_eq_Some_conv C_def)
  qed
  have never: "step' = step \<longrightarrow> \<not> C (w, s)" if "worklist_loop step' w s = Some r" for step' w s r
    using that
  proof (rule worklist_loop.raw_induct [rotated])
    fix loop step' w s r
    assume IH: "\<And>step' w s r. loop step' w s = Some r \<Longrightarrow> step' = step \<longrightarrow> \<not> C (w, s)"
      and r: "(case w of [] \<Rightarrow> Some (Inr s)
        | current # rest \<Rightarrow> (case step' s current of Inl e \<Rightarrow> Some (Inl e)
            | Inr (s', pushed) \<Rightarrow> loop step' (rev pushed @ rest) s')) = Some r"
    show "step' = step \<longrightarrow> \<not> C (w, s)"
    proof (intro impI notI)
      assume same: "step' = step" and c: "C (w, s)"
      from move [OF c] obtain c' where "loop_step step (w, s) = Some c'" "C c'" by blast
      with r same IH show False
        by (auto simp: loop_step_def split: list.splits sum.splits)
    qed
  qed
  have "C c0" by (auto simp: C_def intro: exI [of _ 0])
  with never [of step "fst c0" "snd c0"] show ?thesis by (cases "worklist_loop step (fst c0) (snd c0)") auto
qed

lemma worklist_loop_diverges:
  assumes "loop_steps step k (w, s) = Some c" "loop_steps step (Suc p) c = Some c"
  shows "worklist_loop step w s = None"
  using worklist_loop_steps [of step k w s "fst c" "snd c"] worklist_loop_cycle [OF assms(2)] assms(1) by simp

section \<open>Segments\<close>

text \<open>
  A segment knows its neighbours; a segment is identified by its \<^verbatim>\<open>id\<close>, and the map of an
  analysis holds the segment under that id.
\<close>

record segment =
  seg_id :: string
  nextSegments :: "string list"
  prevSegments :: "string list"

definition undefined_get :: js_error where
  "undefined_get = JsError ''Cannot read properties of undefined'' []"

section \<open>Live variables\<close>

record live_variables =
  lv_segment :: segment
  lv_gen :: "nat list"
  lv_kill :: "nat list"
  lv_in :: "nat list"
  lv_out :: "nat list"
  lv_references :: "reference list"

definition new_LiveVariables :: "segment \<Rightarrow> live_variables" where
  "new_LiveVariables segment =
     \<lparr>lv_segment = segment, lv_gen = [], lv_kill = [], lv_in = [], lv_out = [], lv_references = []\<rparr>"

definition lv_add :: "reference \<Rightarrow> live_variables \<Rightarrow> live_variables" where
  "lv_add ref lv =
     (case ref_resolved ref of
        None \<Rightarrow> lv
      | Some variable \<Rightarrow>
          lv\<lparr>lv_gen := (if ref_isRead ref then set_add variable (lv_gen lv) else lv_gen lv),
             lv_kill := (if ref_isWrite ref then set_add variable (lv_kill lv) else lv_kill lv),
             lv_references := add_by ref_id ref (lv_references lv)\<rparr>)"

definition difference :: "'a list \<Rightarrow> 'a list \<Rightarrow> 'a list" where
  "difference a b = (if length b = 0 then a else filter (\<lambda>e. e \<notin> set b) a)"

definition shouldUpdate :: "nat list \<Rightarrow> nat list \<Rightarrow> nat list \<Rightarrow> bool" where
  "shouldUpdate inSet gen diff =
     (list_ex (\<lambda>e. e \<notin> set inSet) gen \<or> list_ex (\<lambda>e. e \<notin> set inSet) diff)"

type_synonym live_map = "live_variables dict"

definition lv_propagate :: "live_map \<Rightarrow> live_variables \<Rightarrow> (live_variables \<times> bool) res" where
  "lv_propagate liveVariablesMap lv =
     bind_res
       (map_res (\<lambda>next. case dict_get liveVariablesMap next of
            None \<Rightarrow> Inl undefined_get | Some n \<Rightarrow> Inr (lv_in n))
          (nextSegments (lv_segment lv)))
       (\<lambda>ins.
          let out = concat ins; diff = difference out (lv_kill lv) in
          if shouldUpdate (lv_in lv) (lv_gen lv) diff
          then Inr (lv\<lparr>lv_out := out, lv_in := set_of_list (lv_gen lv @ diff)\<rparr>, True)
          else Inr (lv\<lparr>lv_out := out\<rparr>, False))"

definition lva_step :: "live_map \<Rightarrow> string \<Rightarrow> (live_map \<times> string list) res" where
  "lva_step liveVariablesMap current =
     (case dict_get liveVariablesMap current of
        None \<Rightarrow> Inl undefined_get
      | Some lv \<Rightarrow>
          bind_res (lv_propagate liveVariablesMap lv) (\<lambda>(lv', liveInHasChanged).
            Inr (dict_set current lv' liveVariablesMap,
                 if liveInHasChanged then prevSegments (lv_segment lv) else [])))"

definition lva :: "live_map \<Rightarrow> live_map res option" where
  "lva liveVariablesMap =
     worklist_loop lva_step (rev (map (\<lambda>(k, lv). seg_id (lv_segment lv)) liveVariablesMap)) liveVariablesMap"

subsection \<open>What liveness means\<close>

text \<open>
  A variable is live at a segment when a path of segments from there reaches one that reads it,
  and no segment before the last one writes it.
\<close>

inductive live :: "live_map \<Rightarrow> string \<Rightarrow> nat \<Rightarrow> bool" for m where
  live_read: "dict_get m i = Some lv \<Longrightarrow> v \<in> set (lv_gen lv) \<Longrightarrow> live m i v"
| live_flow: "dict_get m i = Some lv \<Longrightarrow> v \<notin> set (lv_kill lv) \<Longrightarrow>
    n \<in> set (nextSegments (lv_segment lv)) \<Longrightarrow> live m n v \<Longrightarrow> live m i v"

definition ins :: "live_map \<Rightarrow> string \<Rightarrow> nat set" where
  "ins m i = (case dict_get m i of None \<Rightarrow> {} | Some lv \<Rightarrow> set (lv_in lv))"

definition outs :: "live_map \<Rightarrow> live_variables \<Rightarrow> nat set" where
  "outs m lv = (\<Union>n \<in> set (nextSegments (lv_segment lv)). ins m n)"

definition transfer :: "live_map \<Rightarrow> live_variables \<Rightarrow> nat set" where
  "transfer m lv = set (lv_gen lv) \<union> (outs m lv - set (lv_kill lv))"

text \<open>
  The graph: segments stand under their id, all neighbours are in the map, and
  \<^verbatim>\<open>prevSegments\<close> lists every segment that has this one among its \<^verbatim>\<open>nextSegments\<close>.
\<close>

definition live_graph :: "live_map \<Rightarrow> bool" where
  "live_graph m \<longleftrightarrow> (\<forall>i lv. dict_get m i = Some lv \<longrightarrow> seg_id (lv_segment lv) = i \<and>
     (\<forall>p \<in> set (prevSegments (lv_segment lv)). dict_get m p \<noteq> None) \<and>
     (\<forall>n \<in> set (nextSegments (lv_segment lv)).
        \<exists>lvn. dict_get m n = Some lvn \<and> i \<in> set (prevSegments (lv_segment lvn))))"

definition lv_consistent :: "live_map \<Rightarrow> bool" where
  "lv_consistent m \<longleftrightarrow> live_graph m \<and> (\<forall>i. ins m i \<subseteq> {v. live m i v}) \<and>
     (\<forall>i lv. dict_get m i = Some lv \<longrightarrow> set (lv_in lv) \<subseteq> transfer m lv)"

definition lv_stable :: "live_map \<Rightarrow> string \<Rightarrow> bool" where
  "lv_stable m i \<longleftrightarrow> (\<forall>lv. dict_get m i = Some lv \<longrightarrow>
     set (lv_in lv) = transfer m lv \<and> set (lv_out lv) = outs m lv)"

definition lv_universe :: "live_map \<Rightarrow> nat set" where
  "lv_universe m = {v. \<exists>i. live m i v}"

definition lv_rank :: "live_map \<Rightarrow> nat" where
  "lv_rank m = (\<Sum>i \<in> dom (dict_get m). card (lv_universe m - ins m i))"

lemma dom_dict_get: "dom (dict_get d) = fst ` set d"
  by (simp add: dict_get_def [abs_def] dom_map_of_conv_image_fst)

lemma finite_dom_dict_get [simp]: "finite (dom (dict_get d))"
  by (simp add: dom_dict_get)

lemma live_in_gen: "live m i v \<Longrightarrow> \<exists>j lv. dict_get m j = Some lv \<and> v \<in> set (lv_gen lv)"
  by (induction rule: live.induct) auto

lemma finite_lv_universe [simp]: "finite (lv_universe m)"
proof -
  have "lv_universe m \<subseteq> (\<Union>(i, lv) \<in> set m. set (lv_gen lv))"
    by (auto simp: lv_universe_def dict_get_def dest!: live_in_gen map_of_SomeD)
  then show ?thesis by (rule finite_subset) auto
qed

text \<open>Only the fixed parts of the entries determine what is live.\<close>

lemma live_update:
  assumes "dict_get m i = Some lv" "lv_segment lv' = lv_segment lv" "lv_gen lv' = lv_gen lv"
    "lv_kill lv' = lv_kill lv"
  shows "live (dict_set i lv' m) = live m"
proof -
  have static: "map_option (\<lambda>l. (lv_segment l, lv_gen l, lv_kill l)) (dict_get (dict_set i lv' m) j) =
      map_option (\<lambda>l. (lv_segment l, lv_gen l, lv_kill l)) (dict_get m j)" for j
    using assms by (simp add: dict.get_put)
  have "live b j v" if "live a j v"
    and "\<And>j. map_option (\<lambda>l. (lv_segment l, lv_gen l, lv_kill l)) (dict_get a j) =
           map_option (\<lambda>l. (lv_segment l, lv_gen l, lv_kill l)) (dict_get b j)" for a b j v
    using that(1)
  proof induction
    case (live_read j l v)
    with that(2) [of j] obtain l' where "dict_get b j = Some l'" "lv_gen l' = lv_gen l"
      by (cases "dict_get b j") auto
    with live_read show ?case by (auto intro: live.live_read)
  next
    case (live_flow j l v n)
    with that(2) [of j] obtain l' where "dict_get b j = Some l'" "lv_kill l' = lv_kill l"
      "lv_segment l' = lv_segment l" by (cases "dict_get b j") auto
    with live_flow show ?case by (auto intro: live.live_flow)
  qed
  from this [OF _ static] this [OF _ static [symmetric]] show ?thesis by blast
qed

text \<open>What one step does to a consistent map.\<close>

lemma lva_step_effect:
  assumes "lv_consistent m" "dict_get m i = Some lv"
  shows "\<exists>lv'. lva_step m i = Inr (dict_set i lv' m,
        if transfer m lv \<subseteq> set (lv_in lv) then [] else prevSegments (lv_segment lv)) \<and>
      lv_segment lv' = lv_segment lv \<and> lv_gen lv' = lv_gen lv \<and> lv_kill lv' = lv_kill lv \<and>
      set (lv_in lv') = transfer m lv \<and> set (lv_out lv') = outs m lv"
proof -
  let ?get = "\<lambda>n. case dict_get m n of None \<Rightarrow> Inl undefined_get | Some l \<Rightarrow> Inr (lv_in l)"
  let ?next = "nextSegments (lv_segment lv)"
  have nexts: "\<forall>n \<in> set ?next. dict_get m n \<noteq> None"
    using assms unfolding lv_consistent_def live_graph_def by (metis option.distinct(1))
  then have "list_all2 (\<lambda>n y. ?get n = Inr y) ?next (map (\<lambda>n. lv_in (the (dict_get m n))) ?next)"
    by (auto simp: list.rel_map intro!: list.rel_refl_strong split: option.split)
  then have ok: "map_res ?get ?next = Inr (map (\<lambda>n. lv_in (the (dict_get m n))) ?next)"
    by (simp add: map_res_Inr_iff)
  let ?out = "concat (map (\<lambda>n. lv_in (the (dict_get m n))) ?next)"
  have "set (lv_in (the (dict_get m n))) = ins m n" if "n \<in> set ?next" for n
    using nexts that by (auto simp: ins_def)
  then have out: "set ?out = outs m lv" by (simp add: outs_def)
  have diff: "set (difference ?out (lv_kill lv)) = outs m lv - set (lv_kill lv)"
    using out by (auto simp: difference_def)
  have upd: "shouldUpdate (lv_in lv) (lv_gen lv) (difference ?out (lv_kill lv)) \<longleftrightarrow>
      \<not> transfer m lv \<subseteq> set (lv_in lv)"
    unfolding shouldUpdate_def list_ex_iff transfer_def diff by auto
  have "set (lv_in lv) \<subseteq> transfer m lv"
    using assms by (simp add: lv_consistent_def)
  moreover have "lva_step m i = Inr
      (dict_set i (if transfer m lv \<subseteq> set (lv_in lv) then lv\<lparr>lv_out := ?out\<rparr>
         else lv\<lparr>lv_out := ?out, lv_in := set_of_list (lv_gen lv @ difference ?out (lv_kill lv))\<rparr>) m,
       if transfer m lv \<subseteq> set (lv_in lv) then [] else prevSegments (lv_segment lv))"
    using assms(2) ok by (simp add: lva_step_def lv_propagate_def Let_def upd)
  moreover have "set (set_of_list (lv_gen lv @ difference ?out (lv_kill lv))) = transfer m lv"
    by (simp add: diff transfer_def)
  ultimately show ?thesis
    using out by (cases "transfer m lv \<subseteq> set (lv_in lv)") (auto intro!: exI)
qed

lemma ins_update: "ins (dict_set i lv' m) j = (if j = i then set (lv_in lv') else ins m j)"
  by (simp add: ins_def dict.get_put)

lemma ins_entry: "dict_get m i = Some lv \<Longrightarrow> ins m i = set (lv_in lv)"
  by (simp add: ins_def)

lemma transfer_mono:
  assumes "\<And>j. ins m j \<subseteq> ins m' j"
  shows "outs m lv \<subseteq> outs m' lv" and "transfer m lv \<subseteq> transfer m' lv"
  using assms by (auto simp: transfer_def outs_def)

lemma live_graph_update:
  assumes "live_graph m" "dict_get m i = Some lv" "lv_segment lv' = lv_segment lv"
  shows "live_graph (dict_set i lv' m)"
  unfolding live_graph_def
proof (intro allI impI conjI ballI)
  fix j l assume "dict_get (dict_set i lv' m) j = Some l"
  with assms obtain l' where l': "dict_get m j = Some l'" "lv_segment l = lv_segment l'"
    by (auto simp: dict.get_put split: if_splits)
  with assms(1) show "seg_id (lv_segment l) = j" by (simp add: live_graph_def)
  show "dict_get (dict_set i lv' m) p \<noteq> None" if "p \<in> set (prevSegments (lv_segment l))" for p
    using assms(1) l' that by (auto simp: live_graph_def dict.get_put)
  show "\<exists>lvn. dict_get (dict_set i lv' m) n = Some lvn \<and> j \<in> set (prevSegments (lv_segment lvn))"
    if "n \<in> set (nextSegments (lv_segment l))" for n
  proof -
    from assms(1) l' that obtain lvn where "dict_get m n = Some lvn" "j \<in> set (prevSegments (lv_segment lvn))"
      unfolding live_graph_def by metis
    with assms(2,3) show ?thesis by (auto simp: dict.get_put)
  qed
qed

text \<open>The facts about the entry \<open>lv'\<close> that a step puts in the place of \<open>lv\<close>.\<close>

definition lv_replaces :: "live_map \<Rightarrow> string \<Rightarrow> live_variables \<Rightarrow> live_variables \<Rightarrow> bool" where
  "lv_replaces m i lv lv' \<longleftrightarrow> lv_consistent m \<and> dict_get m i = Some lv \<and>
     lv_segment lv' = lv_segment lv \<and> lv_gen lv' = lv_gen lv \<and> lv_kill lv' = lv_kill lv \<and>
     set (lv_in lv') = transfer m lv \<and> set (lv_out lv') = outs m lv"

lemma lva_stepE:
  assumes "lv_consistent m" "dict_get m i \<noteq> None" "lva_step m i = Inr (m', pushed)"
  obtains lv lv' where "lv_replaces m i lv lv'" "m' = dict_set i lv' m"
    "pushed = (if transfer m lv \<subseteq> set (lv_in lv) then [] else prevSegments (lv_segment lv))"
proof -
  from assms(2) obtain lv where lv: "dict_get m i = Some lv" by auto
  from lva_step_effect [OF assms(1) lv] assms(1,3) lv that show thesis
    by (auto simp: lv_replaces_def)
qed

lemma lv_replaces_live: "lv_replaces m i lv lv' \<Longrightarrow> live (dict_set i lv' m) = live m"
  by (auto simp: lv_replaces_def intro!: live_update)

lemma lv_replaces_grows:
  "lv_replaces m i lv lv' \<Longrightarrow> ins m i = set (lv_in lv) \<and> set (lv_in lv) \<subseteq> transfer m lv \<and>
     ins (dict_set i lv' m) i = transfer m lv"
  unfolding lv_replaces_def lv_consistent_def by (metis ins_entry ins_update)

lemma lv_replaces_mono:
  assumes "lv_replaces m i lv lv'"
  shows "ins m j \<subseteq> ins (dict_set i lv' m) j"
  using lv_replaces_grows [OF assms] by (cases "j = i") (simp_all add: ins_update)

lemma lv_replaces_same:
  assumes "lv_replaces m i lv lv'" "transfer m lv \<subseteq> set (lv_in lv)"
  shows "ins (dict_set i lv' m) = ins m"
  using lv_replaces_grows [OF assms(1)] assms(2) by (auto simp: ins_update fun_eq_iff)

lemma lv_replaces_consistent:
  assumes "lv_replaces m i lv lv'"
  shows "lv_consistent (dict_set i lv' m)"
  unfolding lv_consistent_def
proof (intro conjI allI impI)
  note facts = assms [unfolded lv_replaces_def lv_consistent_def]
  let ?m = "dict_set i lv' m"
  show "live_graph ?m" using facts live_graph_update by blast
  have "live m i v" if "v \<in> transfer m lv" for v
    using that facts live_read [of m i lv v] live_flow [of m i lv v]
    by (auto simp: transfer_def outs_def)
  then show "ins ?m j \<subseteq> {v. live ?m j v}" for j
    using facts by (auto simp: ins_update lv_replaces_live [OF assms])
  have mono: "transfer m l \<subseteq> transfer ?m l" for l
    by (rule transfer_mono) (rule lv_replaces_mono [OF assms])
  have "transfer ?m lv' = transfer ?m lv"
    using facts by (simp add: transfer_def outs_def)
  then show "set (lv_in l) \<subseteq> transfer ?m l" if "dict_get ?m j = Some l" for j l
    using that facts mono by (fastforce simp: dict.get_put split: if_splits)
qed

lemma lv_replaces_rank:
  assumes "lv_replaces m i lv lv'"
  shows "if transfer m lv \<subseteq> set (lv_in lv) then lv_rank (dict_set i lv' m) = lv_rank m
    else lv_rank (dict_set i lv' m) < lv_rank m"
proof -
  note facts = assms [unfolded lv_replaces_def lv_consistent_def]
  let ?m = "dict_set i lv' m"
  have univ: "lv_universe ?m = lv_universe m" by (simp add: lv_universe_def lv_replaces_live [OF assms])
  have dom: "dom (dict_get ?m) = dom (dict_get m)"
    using facts by (auto simp: dict.get_put split: if_splits)
  have i: "i \<in> dom (dict_get m)" using facts by auto
  have le: "card (lv_universe m - ins ?m j) \<le> card (lv_universe m - ins m j)" for j
    by (rule card_mono) (use lv_replaces_mono [OF assms, of j] in auto)
  show ?thesis
  proof (cases "transfer m lv \<subseteq> set (lv_in lv)")
    case True
    with lv_replaces_same [OF assms] show ?thesis by (simp add: lv_rank_def univ dom)
  next
    case False
    then obtain v where v: "v \<in> transfer m lv" "v \<notin> set (lv_in lv)" by blast
    have "live ?m i v"
      using lv_replaces_consistent [OF assms] v lv_replaces_grows [OF assms] unfolding lv_consistent_def by blast
    then have "v \<in> lv_universe m" using univ by (auto simp: lv_universe_def)
    with v facts lv_replaces_mono [OF assms, of i]
    have "lv_universe m - ins ?m i \<subset> lv_universe m - ins m i"
      by (auto simp: ins_update ins_entry)
    then have "card (lv_universe m - ins ?m i) < card (lv_universe m - ins m i)"
      by (intro psubset_card_mono) auto
    with le i have "lv_rank ?m < lv_rank m"
      unfolding lv_rank_def univ dom by (intro sum_strict_mono_ex1) auto
    with False show ?thesis by simp
  qed
qed

lemma lv_replaces_stable:
  assumes "lv_replaces m i lv lv'" and "dict_get m j \<noteq> None" and "j = i \<or> lv_stable m j"
  shows "lv_stable (dict_set i lv' m) j \<or>
    \<not> transfer m lv \<subseteq> set (lv_in lv) \<and> j \<in> set (prevSegments (lv_segment lv))"
proof (cases "transfer m lv \<subseteq> set (lv_in lv) \<or> j \<notin> set (prevSegments (lv_segment lv))")
  case True
  note facts = assms(1) [unfolded lv_replaces_def lv_consistent_def]
  let ?m = "dict_set i lv' m"
  have same: "outs ?m l = outs m l" if "dict_get m j = Some l" for l
  proof (cases "transfer m lv \<subseteq> set (lv_in lv)")
    case True
    with lv_replaces_same [OF assms(1)] show ?thesis by (simp add: outs_def)
  next
    case False
    with True have "j \<notin> set (prevSegments (lv_segment lv))" by simp
    with facts that have "i \<notin> set (nextSegments (lv_segment l))"
      unfolding live_graph_def by fastforce
    then show ?thesis by (auto simp: outs_def ins_update)
  qed
  have "lv_stable ?m j"
  proof (cases "j = i")
    case True
    with facts same [of lv] show ?thesis
      by (auto simp: lv_stable_def dict.get_put transfer_def outs_def)
  next
    case False
    with assms(3) same show ?thesis
      by (auto simp: lv_stable_def dict.get_put transfer_def)
  qed
  then show ?thesis ..
qed simp

interpretation live_wl: worklist_analysis lva_step "\<lambda>m i. dict_get m i \<noteq> None" lv_consistent lv_stable lv_rank
proof
  fix m i m' pushed
  assume con: "lv_consistent m" and i: "dict_get m i \<noteq> None"
  show "\<exists>m' pushed. lva_step m i = Inr (m', pushed)"
    using lva_step_effect [OF con] i by blast
  assume step: "lva_step m i = Inr (m', pushed)"
  from lva_stepE [OF con i step] obtain lv lv' where rep: "lv_replaces m i lv lv'"
    and m': "m' = dict_set i lv' m"
    and pushed: "pushed = (if transfer m lv \<subseteq> set (lv_in lv) then [] else prevSegments (lv_segment lv))"
    by blast
  have "\<forall>p \<in> set (prevSegments (lv_segment lv)). dict_get m p \<noteq> None"
    using rep by (auto simp: lv_replaces_def lv_consistent_def live_graph_def)
  then show "lv_consistent m' \<and> (\<lambda>i. dict_get m' i \<noteq> None) = (\<lambda>i. dict_get m i \<noteq> None) \<and>
      (\<forall>p \<in> set pushed. dict_get m p \<noteq> None)"
    using lv_replaces_consistent [OF rep] i by (auto simp: m' pushed dict.get_put fun_eq_iff)
  show "lv_rank m' < lv_rank m \<or> lv_rank m' = lv_rank m \<and> pushed = []"
    using lv_replaces_rank [OF rep] by (simp add: m' pushed split: if_splits)
  show "lv_stable m' j \<or> j \<in> set pushed" if "dict_get m j \<noteq> None" "j = i \<or> lv_stable m j" for j
    using lv_replaces_stable [OF rep that] by (auto simp: m' pushed)
qed

lemma live_stable_iff:
  assumes "lv_consistent m" "\<forall>i. dict_get m i \<noteq> None \<longrightarrow> lv_stable m i"
  shows "v \<in> ins m i \<longleftrightarrow> live m i v"
proof
  show "v \<in> ins m i \<Longrightarrow> live m i v" using assms(1) by (auto simp: lv_consistent_def)
  show "live m i v \<Longrightarrow> v \<in> ins m i"
  proof (induction rule: live.induct)
    case (live_read i lv v)
    with assms(2) show ?case by (auto simp: lv_stable_def transfer_def ins_entry)
  next
    case (live_flow i lv v n)
    with assms(2) show ?case by (auto simp: lv_stable_def transfer_def outs_def ins_entry)
  qed
qed

text \<open>The steps keep the segments, reads and writes, so what is live stays the same.\<close>

lemma lva_step_static:
  assumes "lva_step m i = Inr (m', pushed)"
  shows "live m' = live m \<and> map fst m' = map fst m"
proof -
  from assms obtain lv lv' where "dict_get m i = Some lv" "m' = dict_set i lv' m"
    "lv_segment lv' = lv_segment lv" "lv_gen lv' = lv_gen lv" "lv_kill lv' = lv_kill lv"
    by (auto simp: lva_step_def lv_propagate_def Let_def bind_res_eq_Inr split: option.splits if_splits)
  moreover from this have "i \<in> set (map fst m)"
    by (auto simp: dict_get_def dest!: map_of_SomeD intro: rev_image_eqI)
  ultimately show ?thesis using live_update by (simp add: keys_dict_set set_add_def)
qed

lemma worklist_loop_keeps:
  assumes "worklist_loop step worklist s = Some (Inr t)"
    and "\<And>s n s' pushed. step s n = Inr (s', pushed) \<Longrightarrow> P s' = P s"
  shows "P t = P s"
proof -
  have "(\<forall>s n s' pushed. step s n = Inr (s', pushed) \<longrightarrow> P s' = P s) \<longrightarrow> (\<forall>t. r = Inr t \<longrightarrow> P t = P s)"
    if "worklist_loop step worklist s = Some r" for r
    using that
  proof (rule worklist_loop.raw_induct [rotated])
    fix loop step worklist s y
    assume IH: "\<And>step worklist s y. loop step worklist s = Some y \<Longrightarrow>
        (\<forall>s n s' pushed. step s n = Inr (s', pushed) \<longrightarrow> P s' = P s) \<longrightarrow> (\<forall>t. y = Inr t \<longrightarrow> P t = P s)"
      and y: "(case worklist of [] \<Rightarrow> Some (Inr s)
        | current # rest \<Rightarrow> (case step s current of Inl e \<Rightarrow> Some (Inl e)
            | Inr (s', pushed) \<Rightarrow> loop step (rev pushed @ rest) s')) = Some y"
    show "(\<forall>s n s' pushed. step s n = Inr (s', pushed) \<longrightarrow> P s' = P s) \<longrightarrow> (\<forall>t. y = Inr t \<longrightarrow> P t = P s)"
    proof (intro impI allI)
      fix t assume keeps: "\<forall>s n s' pushed. step s n = Inr (s', pushed) \<longrightarrow> P s' = P s" and t: "y = Inr t"
      show "P t = P s"
      proof (cases worklist)
        case Nil
        with y t show ?thesis by simp
      next
        case (Cons n rest)
        with y t obtain s' pushed where st: "step s n = Inr (s', pushed)"
          and loop: "loop step (rev pushed @ rest) s' = Some (Inr t)"
          by (auto split: sum.splits)
        from IH [OF loop] keeps have "P t = P s'" by blast
        also have "P s' = P s" using keeps st by blast
        finally show ?thesis .
      qed
    qed
  qed
  with assms show ?thesis by blast
qed

text \<open>The analysis changes only the sets it computes.\<close>

definition lv_fixed :: "live_variables \<Rightarrow> segment \<times> nat list \<times> nat list \<times> reference list" where
  "lv_fixed lv = (lv_segment lv, lv_gen lv, lv_kill lv, lv_references lv)"

lemma map_dict_set_same:
  assumes "dict_get d k = Some v" "f v' = f v"
  shows "map (\<lambda>(i, x). (i, f x)) (dict_set k v' d) = map (\<lambda>(i, x). (i, f x)) d"
  using assms by (induction d) (auto simp: dict_get_def split: if_splits)

lemma lva_step_fixed:
  assumes "lva_step m i = Inr (m', pushed)"
  shows "map (\<lambda>(i, lv). (i, lv_fixed lv)) m' = map (\<lambda>(i, lv). (i, lv_fixed lv)) m"
proof -
  from assms obtain lv lv' where "dict_get m i = Some lv" "m' = dict_set i lv' m" "lv_fixed lv' = lv_fixed lv"
    by (auto simp: lva_step_def lv_propagate_def Let_def bind_res_eq_Inr lv_fixed_def
        split: option.splits if_splits)
  then show ?thesis by (simp add: map_dict_set_same)
qed

lemma lva_fixed:
  assumes "lva m = Some (Inr m')"
  shows "map (\<lambda>(i, lv). (i, lv_fixed lv)) m' = map (\<lambda>(i, lv). (i, lv_fixed lv)) m"
  by (rule worklist_loop_keeps [OF assms [unfolded lva_def]]) (rule lva_step_fixed)

text \<open>What the analysis computes, for the property below and for the rules that rest on it.\<close>

lemma lva_exact:
  assumes "live_graph m" and "distinct (map fst m)" and "\<forall>(i, lv) \<in> set m. lv_in lv = []"
  shows "\<exists>m'. lva m = Some (Inr m') \<and> map fst m' = map fst m \<and>
    (\<forall>i lv. dict_get m' i = Some lv \<longrightarrow>
       set (lv_in lv) = {v. live m i v} \<and>
       set (lv_out lv) = {v. \<exists>n \<in> set (nextSegments (lv_segment lv)). live m n v})"
proof -
  have get: "dict_get m i = Some lv \<longleftrightarrow> (i, lv) \<in> set m" for i lv
    using assms(2) by (simp add: dict_get_def)
  have empty: "lv_in lv = []" if "dict_get m i = Some lv" for i lv
    using assms(3) that by (auto simp: get)
  then have con: "lv_consistent m"
    using assms(1) by (auto simp: lv_consistent_def ins_def split: option.splits)
  let ?wl = "rev (map (\<lambda>(k, lv). seg_id (lv_segment lv)) m)"
  have "i \<in> set ?wl \<longleftrightarrow> dict_get m i \<noteq> None" for i
    using assms(1) get by (force simp: live_graph_def)
  with live_wl.loop_returns [OF con, of ?wl] obtain m' where
    run: "lva m = Some (Inr m')" and con': "lv_consistent m'"
    and dom: "(\<lambda>i. dict_get m' i \<noteq> None) = (\<lambda>i. dict_get m i \<noteq> None)"
    and stable: "\<forall>i. dict_get m i \<noteq> None \<longrightarrow> lv_stable m' i"
    unfolding lva_def by blast
  have live': "live m' = live m" and keys: "map fst m' = map fst m"
    using run worklist_loop_keeps [of lva_step ?wl m m' live] worklist_loop_keeps [of lva_step ?wl m m' "map fst"]
      lva_step_static unfolding lva_def by blast+
  have stable': "\<forall>i. dict_get m' i \<noteq> None \<longrightarrow> lv_stable m' i"
    using stable dom by metis
  have exact: "ins m' i = {v. live m i v}" for i
    using live_stable_iff [OF con' stable'] live' by auto
  have "set (lv_in lv) = {v. live m i v} \<and>
      set (lv_out lv) = {v. \<exists>n \<in> set (nextSegments (lv_segment lv)). live m n v}"
    if lv: "dict_get m' i = Some lv" for i lv
  proof
    show "set (lv_in lv) = {v. live m i v}" using exact [of i] ins_entry [OF lv] by simp
    have "set (lv_out lv) = outs m' lv" using stable' lv by (auto simp: lv_stable_def)
    then show "set (lv_out lv) = {v. \<exists>n \<in> set (nextSegments (lv_segment lv)). live m n v}"
      by (auto simp: outs_def exact)
  qed
  with run keys show ?thesis by blast
qed


definition example_reference :: "nat \<Rightarrow> nat \<Rightarrow> bool \<Rightarrow> reference" where
  "example_reference i v write = \<lparr>ref_id = i, ref_identifier = JUndefined, ref_isRead = \<not> write,
     ref_isWrite = write, ref_writeExpr = None, ref_resolved = Some v\<rparr>"

definition example_live_map :: live_map where
  "example_live_map =
     [(''s1'', lv_add (example_reference 0 1 True)
        (new_LiveVariables \<lparr>seg_id = ''s1'', nextSegments = [''s2''], prevSegments = []\<rparr>)),
      (''s2'', lv_add (example_reference 1 1 False) (lv_add (example_reference 2 2 False)
        (new_LiveVariables \<lparr>seg_id = ''s2'', nextSegments = [''s2''], prevSegments = [''s1'', ''s2'']\<rparr>)))]"


end
