(* ===== verification/Reaching_Definitions.thy ===== *)
theory Reaching_Definitions
  imports Dataflow
begin

text \<open>
  Reaching definitions, \<^verbatim>\<open>src/linting/eslint/rules/helpers/reaching-definitions.ts\<close>: which
  literals a variable may hold at the entry and the exit of a segment. The sets of an analysis
  are never shared between two live maps when they are changed, so values stand for them.
\<close>

section \<open>The analysis\<close>

record reaching_ref = reference +
  rr_from :: scope

datatype vals = AssignedValues "string list" | UnknownValue

type_synonym program_state = "(nat \<times> vals) list"

record reaching_definitions =
  rd_segment :: segment
  rd_in :: program_state
  rd_out :: program_state
  rd_references :: "reaching_ref list"

type_synonym reaching_map = "reaching_definitions dict"

definition new_ReachingDefinitions :: "segment \<Rightarrow> reaching_definitions" where
  "new_ReachingDefinitions segment =
     \<lparr>rd_segment = segment, rd_in = [], rd_out = [], rd_references = []\<rparr>"

definition rd_add :: "reaching_ref \<Rightarrow> reaching_definitions \<Rightarrow> reaching_definitions" where
  "rd_add ref rd =
     (if ref_resolved ref \<noteq> None
      then rd\<lparr>rd_references := add_by ref_id ref (rd_references rd)\<rparr> else rd)"

definition getVariableFromIdentifier :: "node \<Rightarrow> scope \<Rightarrow> variable option" where
  "getVariableFromIdentifier identifier sc =
     (let named = (\<lambda>v. JStr (var_name v) = fld identifier ''name'') in
      case List.find named (scope_variables sc) of
        Some v \<Rightarrow> Some v
      | None \<Rightarrow> (case scope_upper sc of
          None \<Rightarrow> None
        | Some up \<Rightarrow> List.find named (scope_variables up)))"

definition resolveAssignedValues ::
  "nat \<Rightarrow> node option \<Rightarrow> program_state \<Rightarrow> scope \<Rightarrow> vals" where
  "resolveAssignedValues lhsVariable writeExpr assignedValuesMap sc =
     (case writeExpr of
        None \<Rightarrow> UnknownValue
      | Some e \<Rightarrow>
          if is_type e ''Literal'' then
            (case fld e ''raw'' of
               JStr raw \<Rightarrow> if raw \<noteq> [] then AssignedValues [raw] else UnknownValue
             | _ \<Rightarrow> UnknownValue)
          else if is_type e ''Identifier'' then
            (case getVariableFromIdentifier e sc of
               None \<Rightarrow> UnknownValue
             | Some resolvedVar \<Rightarrow>
                 if var_id resolvedVar \<noteq> lhsVariable then
                   (case dict_get assignedValuesMap (var_id resolvedVar) of
                      None \<Rightarrow> UnknownValue
                    | Some vs \<Rightarrow> vs)
                 else UnknownValue)
          else UnknownValue)"

definition updateProgramState :: "reaching_ref \<Rightarrow> program_state \<Rightarrow> program_state" where
  "updateProgramState ref programState =
     (case ref_resolved ref of
        None \<Rightarrow> programState
      | Some variable \<Rightarrow>
          if \<not> ref_isWrite ref then programState
          else if ref_writeExpr ref = None then dict_set variable UnknownValue programState
          else dict_set variable
                 (resolveAssignedValues variable (ref_writeExpr ref) programState (rr_from ref))
                 programState)"

definition join_entry :: "nat \<times> vals \<Rightarrow> program_state \<Rightarrow> program_state" where
  "join_entry entry inMap =
     (case entry of (key, values) \<Rightarrow>
        (case (case dict_get inMap key of None \<Rightarrow> AssignedValues [] | Some v \<Rightarrow> v, values) of
           (AssignedValues inValues, AssignedValues vs) \<Rightarrow>
             dict_set key (AssignedValues (fold set_add vs inValues)) inMap
         | _ \<Rightarrow> dict_set key UnknownValue inMap))"

definition join :: "program_state \<Rightarrow> program_state \<Rightarrow> program_state" where
  "join previousOut inMap = fold join_entry previousOut inMap"

definition setEquals :: "'a list \<Rightarrow> 'a list \<Rightarrow> bool" where
  "setEquals a b \<longleftrightarrow> length a = length b \<and> list_all (\<lambda>e. e \<in> set b) a"

fun valuesEquals :: "vals \<Rightarrow> vals \<Rightarrow> bool" where
  "valuesEquals (AssignedValues a) (AssignedValues b) = setEquals a b"
| "valuesEquals a b = (a = b)"

definition equals :: "program_state \<Rightarrow> program_state \<Rightarrow> bool" where
  "equals ps1 ps2 \<longleftrightarrow> length ps1 = length ps2 \<and>
     list_all (\<lambda>(variable, values1).
       case dict_get ps2 variable of None \<Rightarrow> False | Some values2 \<Rightarrow> valuesEquals values2 values1) ps1"

definition rd_propagate :: "reaching_map \<Rightarrow> reaching_definitions \<Rightarrow> (reaching_definitions \<times> bool) res" where
  "rd_propagate reachingDefinitionsMap rd =
     bind_res
       (fold_res (\<lambda>prev inMap. case dict_get reachingDefinitionsMap prev of
            None \<Rightarrow> Inl undefined_get | Some p \<Rightarrow> Inr (join (rd_out p) inMap))
          (prevSegments (rd_segment rd)) [])
       (\<lambda>inMap.
          let newOut = fold updateProgramState (rd_references rd) inMap in
          if \<not> equals (rd_out rd) newOut
          then Inr (rd\<lparr>rd_in := inMap, rd_out := newOut\<rparr>, True)
          else Inr (rd\<lparr>rd_in := inMap\<rparr>, False))"

definition reaching_step :: "reaching_map \<Rightarrow> string \<Rightarrow> (reaching_map \<times> string list) res" where
  "reaching_step reachingDefinitionsMap current =
     (case dict_get reachingDefinitionsMap current of
        None \<Rightarrow> Inl undefined_get
      | Some rd \<Rightarrow>
          bind_res (rd_propagate reachingDefinitionsMap rd) (\<lambda>(rd', outHasChanged).
            Inr (dict_set current rd' reachingDefinitionsMap,
                 if outHasChanged then nextSegments (rd_segment rd) else [])))"

definition reachingDefinitions :: "reaching_map \<Rightarrow> reaching_map res option" where
  "reachingDefinitions reachingDefinitionsMap =
     worklist_loop reaching_step
       (rev (map (\<lambda>(k, rd). seg_id (rd_segment rd)) reachingDefinitionsMap)) reachingDefinitionsMap"

section \<open>The lattice of values\<close>

text \<open>
  What is known of a variable: nothing reaches, one of these literals, or anything. This is a
  semilattice, and the maps of the analysis are functions into it.
\<close>

datatype aval = Absent | Known "string set" | Anything

instantiation aval :: bounded_semilattice_sup_bot
begin

fun sup_aval :: "aval \<Rightarrow> aval \<Rightarrow> aval" where
  "sup_aval Absent b = b"
| "sup_aval a Absent = a"
| "sup_aval (Known a) (Known b) = Known (a \<union> b)"
| "sup_aval a b = Anything"

definition less_eq_aval :: "aval \<Rightarrow> aval \<Rightarrow> bool" where
  "less_eq_aval a b \<longleftrightarrow> sup a b = b"

definition less_aval :: "aval \<Rightarrow> aval \<Rightarrow> bool" where
  "less_aval a b \<longleftrightarrow> a \<le> b \<and> a \<noteq> b"

definition bot_aval :: aval where
  "bot_aval = Absent"

instance
proof
  fix a b c :: aval
  have assoc: "sup (sup a b) c = sup a (sup b c)" for a b c :: aval
    by (cases a; cases b; cases c) auto
  have comm: "sup a b = sup b a" for a b :: aval
    by (cases a; cases b) auto
  have idem: "sup a a = a" for a :: aval
    by (cases a) auto
  show "(a < b) = (a \<le> b \<and> \<not> b \<le> a)"
    unfolding less_aval_def less_eq_aval_def using comm by metis
  show "a \<le> a" by (simp add: less_eq_aval_def idem)
  show "a \<le> b \<Longrightarrow> b \<le> c \<Longrightarrow> a \<le> c" unfolding less_eq_aval_def using assoc by metis
  show "a \<le> b \<Longrightarrow> b \<le> a \<Longrightarrow> a = b" unfolding less_eq_aval_def using comm by metis
  show "a \<le> sup a b" unfolding less_eq_aval_def using assoc idem by metis
  show "b \<le> sup a b" unfolding less_eq_aval_def using assoc idem comm by metis
  show "b \<le> a \<Longrightarrow> c \<le> a \<Longrightarrow> sup b c \<le> a" unfolding less_eq_aval_def using assoc by metis
  show "bot \<le> a" by (simp add: bot_aval_def less_eq_aval_def)
qed

end

lemma aval_le_simps [simp]:
  "Absent \<le> a" "a \<le> Anything" "Known S \<le> Known T \<longleftrightarrow> S \<subseteq> T" "\<not> Known S \<le> Absent"
  "\<not> Anything \<le> Known S" "\<not> Anything \<le> Absent"
  by (cases a; auto simp: less_eq_aval_def)+

lemma sup_Absent [simp]: "sup a Absent = a"
  by (cases a) simp_all

lemma not_less_Absent: "\<not> a < Absent"
  by (cases a) (simp_all add: less_aval_def)

definition aval_of :: "vals \<Rightarrow> aval" where
  "aval_of v = (case v of AssignedValues vs \<Rightarrow> Known (set vs) | UnknownValue \<Rightarrow> Anything)"

definition look :: "program_state \<Rightarrow> nat \<Rightarrow> aval" where
  "look ps x = (case dict_get ps x of None \<Rightarrow> Absent | Some v \<Rightarrow> aval_of v)"

fun wf_vals :: "vals \<Rightarrow> bool" where
  "wf_vals (AssignedValues vs) = distinct vs"
| "wf_vals UnknownValue = True"

definition wf_ps :: "program_state \<Rightarrow> bool" where
  "wf_ps ps \<longleftrightarrow> distinct (map fst ps) \<and> (\<forall>x v. dict_get ps x = Some v \<longrightarrow> wf_vals v)"

lemma look_set: "look (dict_set k v ps) x = (if x = k then aval_of v else look ps x)"
  by (simp add: look_def dict.get_put)

lemma wf_ps_set: "wf_ps ps \<Longrightarrow> wf_vals v \<Longrightarrow> wf_ps (dict_set k v ps)"
  by (auto simp: wf_ps_def dict.get_put split: if_splits)

lemma wf_ps_Nil [simp]: "wf_ps []"
  by (simp add: wf_ps_def dict_get_def)

lemma look_Nil [simp]: "look [] x = Absent"
  by (simp add: look_def dict_get_def)

lemma join_entry_look:
  "look (join_entry (k, v) ps) x = (if x = k then sup (look ps x) (aval_of v) else look ps x)"
  by (cases v; cases "dict_get ps k"; cases "the (dict_get ps k)")
    (auto simp: join_entry_def look_set look_def aval_of_def set_fold_set_add dict.get_put)

lemma wf_join_entry: "wf_ps ps \<Longrightarrow> wf_vals v \<Longrightarrow> wf_ps (join_entry (k, v) ps)"
proof (cases "dict_get ps k")
  case None
  assume "wf_ps ps" "wf_vals v"
  with None show ?thesis
    by (cases v) (auto simp: join_entry_def distinct_fold_set_add intro!: wf_ps_set)
next
  case (Some u)
  assume ps: "wf_ps ps" "wf_vals v"
  then have "wf_vals u" using Some by (auto simp: wf_ps_def)
  with ps Some show ?thesis
    by (cases v; cases u) (auto simp: join_entry_def distinct_fold_set_add intro!: wf_ps_set)
qed

lemma join_look:
  assumes "distinct (map fst prev)"
  shows "look (join prev ps) x = sup (look ps x) (look prev x)"
  using assms
proof (induction prev arbitrary: ps)
  case Nil
  show ?case by (cases "look ps x") (simp_all add: join_def)
next
  case (Cons e prev)
  obtain k v where e: "e = (k, v)" by (cases e)
  have "look (join (e # prev) ps) x = sup (look (join_entry (k, v) ps) x) (look prev x)"
    using Cons e by (simp add: join_def)
  moreover have "look prev k = Absent"
    using Cons.prems e map_of_eq_None_iff [of prev k] by (simp add: look_def dict_get_def)
  moreover have "look (e # prev) x = (if x = k then aval_of v else look prev x)"
    by (simp add: look_def dict_get_def e)
  ultimately show ?case by (simp add: join_entry_look)
qed

lemma wf_join:
  assumes "wf_ps ps" "wf_ps prev"
  shows "wf_ps (join prev ps)"
proof -
  have vals: "\<forall>(k, v) \<in> set prev. wf_vals v" using assms(2) by (auto simp: wf_ps_def dict_get_def)
  have "wf_ps (fold join_entry es ps)" if "\<forall>(k, v) \<in> set es. wf_vals v" for es
    using that assms(1) by (induction es arbitrary: ps) (auto intro: wf_join_entry)
  from this [OF vals] show ?thesis by (simp add: join_def)
qed

lemma setEquals_iff: "distinct a \<Longrightarrow> distinct b \<Longrightarrow> setEquals a b \<longleftrightarrow> set a = set b"
proof -
  assume d: "distinct a" "distinct b"
  then have "setEquals a b \<longleftrightarrow> card (set a) = card (set b) \<and> set a \<subseteq> set b"
    by (auto simp: setEquals_def list_all_iff distinct_card)
  then show ?thesis using card_subset_eq [of "set b" "set a"] by auto
qed

lemma valuesEquals_iff: "wf_vals a \<Longrightarrow> wf_vals b \<Longrightarrow> valuesEquals a b \<longleftrightarrow> aval_of a = aval_of b"
  by (cases a; cases b) (auto simp: aval_of_def setEquals_iff)

text \<open>\<^verbatim>\<open>equals\<close> compares what two program states know.\<close>

lemma equals_iff:
  assumes "wf_ps ps1" "wf_ps ps2"
  shows "equals ps1 ps2 \<longleftrightarrow> look ps1 = look ps2"
proof
  have get: "dict_get ps x = Some v \<longleftrightarrow> (x, v) \<in> set ps" if "wf_ps ps" for ps :: program_state and x v
    using that by (simp add: wf_ps_def dict_get_def)
  have wfv: "wf_vals v" if "wf_ps ps" "dict_get ps x = Some v" for ps x v
    using that by (auto simp: wf_ps_def)
  have keys: "length ps = card (dom (dict_get ps))" if "wf_ps ps" for ps :: program_state
    using that by (simp add: wf_ps_def dom_dict_get) (metis distinct_card length_map list.set_map)
  show "look ps1 = look ps2" if eq: "equals ps1 ps2"
  proof
    have sub: "\<exists>v2. dict_get ps2 x = Some v2 \<and> aval_of v2 = aval_of v" if x: "dict_get ps1 x = Some v" for x v
    proof -
      from eq x obtain v2 where "dict_get ps2 x = Some v2" "valuesEquals v2 v"
        by (auto simp: equals_def list_all_iff get [OF assms(1)] split: option.splits)
      with wfv [OF assms(1) x] wfv [OF assms(2)] show ?thesis by (auto simp: valuesEquals_iff)
    qed
    then have "dom (dict_get ps1) \<subseteq> dom (dict_get ps2)" by blast
    moreover have "card (dom (dict_get ps1)) = card (dom (dict_get ps2))"
      using eq keys assms by (metis equals_def)
    ultimately have dom: "dom (dict_get ps1) = dom (dict_get ps2)"
      by (simp add: card_subset_eq)
    fix x
    show "look ps1 x = look ps2 x"
      using sub [of x] dom by (cases "dict_get ps1 x"; cases "dict_get ps2 x") (auto simp: look_def)
  qed
  show "equals ps1 ps2" if eq: "look ps1 = look ps2"
  proof -
    have iff: "dict_get ps x \<noteq> None \<longleftrightarrow> look ps x \<noteq> Absent" for ps x
      by (auto simp: look_def aval_of_def split: option.splits vals.splits)
    have "dom (dict_get ps1) = dom (dict_get ps2)" using eq iff unfolding dom_def by metis
    then have "length ps1 = length ps2" using keys assms by simp
    moreover have "\<exists>v2. dict_get ps2 x = Some v2 \<and> valuesEquals v2 v" if x: "dict_get ps1 x = Some v" for x v
    proof -
      have "look ps2 x = aval_of v" using eq x by (metis look_def option.simps(5))
      with iff [of ps1 x] iff [of ps2 x] eq x obtain v2 where v2: "dict_get ps2 x = Some v2" "aval_of v2 = aval_of v"
        by (auto simp: look_def)
      with wfv [OF assms(1) x] wfv [OF assms(2) v2(1)] show ?thesis by (auto simp: valuesEquals_iff)
    qed
    ultimately show ?thesis
      by (force simp: equals_def list_all_iff get [OF assms(1), symmetric])
  qed
qed

section \<open>Termination and the fixed point\<close>

text \<open>
  A write that does not copy another variable has an effect that is known in advance. With
  copies, the transfer function of a segment is not monotone: an absent source gives an unknown
  value, and a source that appears later a known one.
\<close>

definition no_copy :: "reaching_ref \<Rightarrow> bool" where
  "no_copy ref \<longleftrightarrow> ref_isWrite ref \<longrightarrow>
     (case ref_writeExpr ref of None \<Rightarrow> True | Some e \<Rightarrow> \<not> is_type e ''Identifier'')"

definition effect :: "reaching_ref \<Rightarrow> (nat \<times> vals) option" where
  "effect ref =
     (case ref_resolved ref of
        None \<Rightarrow> None
      | Some x \<Rightarrow>
          if ref_isWrite ref then Some (x, resolveAssignedValues x (ref_writeExpr ref) [] (rr_from ref))
          else None)"

definition written :: "reaching_definitions \<Rightarrow> (nat \<times> vals) list" where
  "written rd = List.map_filter effect (rd_references rd)"

lemma update_no_copy:
  "no_copy ref \<Longrightarrow> updateProgramState ref ps =
     (case effect ref of None \<Rightarrow> ps | Some (x, v) \<Rightarrow> dict_set x v ps)"
  by (auto simp: updateProgramState_def effect_def no_copy_def resolveAssignedValues_def
      split: option.splits)

lemma update_written:
  assumes "\<forall>ref \<in> set refs. no_copy ref"
  shows "fold updateProgramState refs ps =
    fold (\<lambda>(x, v) ps. dict_set x v ps) (List.map_filter effect refs) ps"
  using assms
proof (induction refs arbitrary: ps)
  case (Cons r refs)
  then show ?case
    by (cases "effect r") (auto simp: update_no_copy List.map_filter_simps)
qed (simp add: List.map_filter_simps)

lemma effect_wf: "effect ref = Some (x, v) \<Longrightarrow> wf_vals v"
  by (auto simp: effect_def resolveAssignedValues_def dict_get_def
      split: option.splits if_splits jsval.splits)

lemma written_wf: "(x, v) \<in> set (written rd) \<Longrightarrow> wf_vals v"
  by (auto simp: written_def List.map_filter_def dest: effect_wf)

definition aout :: "reaching_map \<Rightarrow> string \<Rightarrow> nat \<Rightarrow> aval" where
  "aout m i x = (case dict_get m i of None \<Rightarrow> Absent | Some rd \<Rightarrow> look (rd_out rd) x)"

definition ain :: "(string \<Rightarrow> nat \<Rightarrow> aval) \<Rightarrow> reaching_definitions \<Rightarrow> nat \<Rightarrow> aval" where
  "ain f rd x = fold (\<lambda>p a. sup a (f p x)) (prevSegments (rd_segment rd)) Absent"

definition flow :: "(string \<Rightarrow> nat \<Rightarrow> aval) \<Rightarrow> reaching_definitions \<Rightarrow> nat \<Rightarrow> aval" where
  "flow f rd x = (case map_of (rev (written rd)) x of None \<Rightarrow> ain f rd x | Some v \<Rightarrow> aval_of v)"

definition reaching_graph :: "reaching_map \<Rightarrow> bool" where
  "reaching_graph m \<longleftrightarrow> (\<forall>i rd. dict_get m i = Some rd \<longrightarrow> seg_id (rd_segment rd) = i \<and>
     (\<forall>n \<in> set (nextSegments (rd_segment rd)). dict_get m n \<noteq> None) \<and>
     (\<forall>p \<in> set (prevSegments (rd_segment rd)).
        \<exists>rp. dict_get m p = Some rp \<and> i \<in> set (nextSegments (rd_segment rp))) \<and>
     (\<forall>ref \<in> set (rd_references rd). no_copy ref))"

lemma wf_fold_set: "wf_ps ps \<Longrightarrow> \<forall>(x, v) \<in> set kvs. wf_vals v \<Longrightarrow> wf_ps (fold (\<lambda>(x, v) ps. dict_set x v ps) kvs ps)"
  by (induction kvs arbitrary: ps) (auto intro: wf_ps_set)

lemma look_fold_set:
  "look (fold (\<lambda>(x, v) ps. dict_set x v ps) kvs ps) x =
     (case map_of (rev kvs) x of None \<Rightarrow> look ps x | Some v \<Rightarrow> aval_of v)"
  by (simp add: look_def dict.get_put_all split: option.split)

lemma join_all:
  assumes "\<forall>p \<in> set ps. \<exists>rp. dict_get m p = Some rp \<and> wf_ps (rd_out rp)" and "wf_ps s"
  shows "\<exists>t. fold_res (\<lambda>prev inMap. case dict_get m prev of
        None \<Rightarrow> Inl undefined_get | Some p \<Rightarrow> Inr (join (rd_out p) inMap)) ps s = Inr t \<and> wf_ps t \<and>
      (\<forall>x. look t x = fold (\<lambda>p a. sup a (aout m p x)) ps (look s x))"
  using assms
proof (induction ps arbitrary: s)
  case (Cons p ps)
  then obtain rp where rp: "dict_get m p = Some rp" "wf_ps (rd_out rp)" by auto
  have wf: "wf_ps (join (rd_out rp) s)" using rp Cons.prems by (simp add: wf_join)
  have "look (join (rd_out rp) s) x = sup (look s x) (aout m p x)" for x
    using rp by (simp add: join_look wf_ps_def aout_def)
  with Cons.IH [OF _ wf] Cons.prems(1) rp show ?case by auto
qed simp

text \<open>What one step does to a map whose program states are well formed.\<close>

lemma reaching_step_effect:
  assumes "reaching_graph m" "\<forall>i rd. dict_get m i = Some rd \<longrightarrow> wf_ps (rd_out rd)"
    and "dict_get m i = Some rd"
  shows "\<exists>rd'. reaching_step m i = Inr (dict_set i rd' m,
      if look (rd_out rd) = flow (aout m) rd then [] else nextSegments (rd_segment rd)) \<and>
    rd_segment rd' = rd_segment rd \<and> rd_references rd' = rd_references rd \<and> wf_ps (rd_out rd') \<and>
    look (rd_out rd') = flow (aout m) rd \<and> look (rd_in rd') = ain (aout m) rd"
proof -
  have "\<forall>p \<in> set (prevSegments (rd_segment rd)). \<exists>rp. dict_get m p = Some rp \<and> wf_ps (rd_out rp)"
    using assms unfolding reaching_graph_def by metis
  from join_all [OF this wf_ps_Nil] obtain t where
    t: "fold_res (\<lambda>prev inMap. case dict_get m prev of
        None \<Rightarrow> Inl undefined_get | Some p \<Rightarrow> Inr (join (rd_out p) inMap)) (prevSegments (rd_segment rd)) [] = Inr t"
      "wf_ps t" "\<forall>x. look t x = ain (aout m) rd x"
    by (auto simp: ain_def)
  have simple: "\<forall>ref \<in> set (rd_references rd). no_copy ref"
    using assms(1,3) by (simp add: reaching_graph_def)
  let ?new = "fold updateProgramState (rd_references rd) t"
  have new: "?new = fold (\<lambda>(x, v) ps. dict_set x v ps) (written rd) t"
    by (simp add: update_written [OF simple] written_def)
  have wf: "wf_ps ?new" unfolding new using t(2) by (intro wf_fold_set) (auto dest: written_wf)
  have lk: "look ?new = flow (aout m) rd"
    unfolding new by (auto simp: look_fold_set flow_def t(3) fun_eq_iff split: option.split)
  have eq: "equals (rd_out rd) ?new \<longleftrightarrow> look (rd_out rd) = flow (aout m) rd"
    using equals_iff [OF _ wf] assms(2,3) lk by simp
  have "reaching_step m i = Inr (dict_set i
      (if look (rd_out rd) = flow (aout m) rd then rd\<lparr>rd_in := t\<rparr> else rd\<lparr>rd_in := t, rd_out := ?new\<rparr>) m,
      if look (rd_out rd) = flow (aout m) rd then [] else nextSegments (rd_segment rd))"
    using assms(3) t(1) by (simp add: reaching_step_def rd_propagate_def Let_def eq)
  moreover have "look t = ain (aout m) rd" using t(3) by auto
  ultimately show ?thesis
    using wf lk assms(2,3) by (cases "look (rd_out rd) = flow (aout m) rd") (auto intro!: exI)
qed

lemma fold_sup_mono:
  fixes a b :: aval
  assumes "\<And>p. p \<in> set ps \<Longrightarrow> f p \<le> g p" "a \<le> b"
  shows "fold (\<lambda>p a. sup a (f p)) ps a \<le> fold (\<lambda>p a. sup a (g p)) ps b"
  using assms by (induction ps arbitrary: a b) (auto intro: sup_mono)

lemma flow_mono:
  assumes "\<And>p. p \<in> set (prevSegments (rd_segment rd)) \<Longrightarrow> f p x \<le> g p x"
  shows "flow f rd x \<le> flow g rd x"
  using assms by (auto simp: flow_def ain_def split: option.split intro!: fold_sup_mono)

lemma flow_cong:
  "rd_segment rd' = rd_segment rd \<Longrightarrow> rd_references rd' = rd_references rd \<Longrightarrow>
   flow f rd' = flow f rd \<and> ain f rd' = ain f rd"
  by (auto simp: flow_def ain_def written_def fun_eq_iff split: option.split)

text \<open>The values that can occur: the written variables and the literals written to them.\<close>

definition all_written :: "reaching_map \<Rightarrow> (nat \<times> vals) set" where
  "all_written m = {w. \<exists>i rd. dict_get m i = Some rd \<and> w \<in> set (written rd)}"

definition literals :: "reaching_map \<Rightarrow> string set" where
  "literals m = {s. \<exists>x vs. (x, AssignedValues vs) \<in> all_written m \<and> s \<in> set vs}"

definition occurs :: "reaching_map \<Rightarrow> nat \<Rightarrow> aval \<Rightarrow> bool" where
  "occurs m x a \<longleftrightarrow> (a \<noteq> Absent \<longrightarrow> x \<in> fst ` all_written m) \<and> (\<forall>S. a = Known S \<longrightarrow> S \<subseteq> literals m)"

definition height :: "reaching_map \<Rightarrow> aval \<Rightarrow> nat" where
  "height m a = (case a of Absent \<Rightarrow> 0 | Known S \<Rightarrow> Suc (card S) | Anything \<Rightarrow> card (literals m) + 2)"

definition solution :: "reaching_map \<Rightarrow> (string \<Rightarrow> nat \<Rightarrow> aval) \<Rightarrow> bool" where
  "solution m f \<longleftrightarrow> (\<forall>i rd x. dict_get m i = Some rd \<longrightarrow> flow f rd x \<le> f i x)"

lemma finite_all_written [simp]: "finite (all_written m)"
proof -
  have "all_written m \<subseteq> (\<Union>(i, rd) \<in> set m. set (written rd))"
    by (auto simp: all_written_def dict_get_def dest!: map_of_SomeD)
  then show ?thesis by (rule finite_subset) auto
qed

lemma finite_literals [simp]: "finite (literals m)"
proof -
  have "literals m \<subseteq> (\<Union>(x, v) \<in> all_written m. case v of AssignedValues vs \<Rightarrow> set vs | UnknownValue \<Rightarrow> {})"
    by (force simp: literals_def)
  then show ?thesis by (rule finite_subset) (auto split: vals.splits)
qed

lemma occurs_sup: "occurs m x a \<Longrightarrow> occurs m x b \<Longrightarrow> occurs m x (sup a b)"
  by (cases a; cases b) (auto simp: occurs_def)

lemma occurs_fold:
  "(\<And>p. occurs m x (f p)) \<Longrightarrow> occurs m x a \<Longrightarrow> occurs m x (fold (\<lambda>p a. sup a (f p)) ps a)"
  by (induction ps arbitrary: a) (auto simp: occurs_sup)

lemma occurs_flow:
  assumes "\<And>p. occurs m x (f p x)" "dict_get m i = Some rd"
  shows "occurs m x (flow f rd x)"
proof (cases "map_of (rev (written rd)) x")
  case None
  then show ?thesis
    using assms(1) by (auto simp: flow_def ain_def occurs_def [of m x Absent] intro!: occurs_fold)
next
  case (Some v)
  then have "(x, v) \<in> all_written m" using assms(2) by (force simp: all_written_def dest: map_of_SomeD)
  with Some show ?thesis
    by (cases v) (force simp: flow_def occurs_def aval_of_def literals_def)+
qed

lemma height_mono:
  assumes "a \<le> b" "occurs m x a" "occurs m x b"
  shows "height m a \<le> height m b"
  using assms by (cases a; cases b)
    (auto simp: height_def occurs_def intro: card_mono finite_subset [OF _ finite_literals]
      le_SucI card_mono [OF finite_literals])

lemma height_strict:
  assumes "a < b" "occurs m x a" "occurs m x b"
  shows "height m a < height m b"
proof (cases a; cases b)
  fix S T assume ab: "a = Known S" "b = Known T"
  with assms have "S \<subset> T" "finite T"
    by (auto simp: less_aval_def occurs_def intro: finite_subset [OF _ finite_literals])
  with ab show ?thesis by (simp add: height_def psubset_card_mono)
next
  fix S assume ab: "a = Known S" "b = Anything"
  with assms have "card S \<le> card (literals m)" by (auto simp: occurs_def intro: card_mono)
  with ab show ?thesis by (simp add: height_def)
qed (use assms in \<open>auto simp: less_aval_def height_def\<close>)

lemma height_le: "occurs m x a \<Longrightarrow> height m a \<le> card (literals m) + 2"
  using height_mono [of a Anything m x] by (cases a) (auto simp: height_def occurs_def card_mono le_SucI)

definition rd_consistent :: "reaching_map \<Rightarrow> bool" where
  "rd_consistent m \<longleftrightarrow> reaching_graph m \<and> (\<forall>i rd. dict_get m i = Some rd \<longrightarrow> wf_ps (rd_out rd)) \<and>
     (\<forall>i rd x. dict_get m i = Some rd \<longrightarrow> aout m i x \<le> flow (aout m) rd x) \<and>
     (\<forall>i x. occurs m x (aout m i x)) \<and>
     (\<forall>f. solution m f \<longrightarrow> (\<forall>i x. aout m i x \<le> f i x))"

definition rd_stable :: "reaching_map \<Rightarrow> string \<Rightarrow> bool" where
  "rd_stable m i \<longleftrightarrow> (\<forall>rd. dict_get m i = Some rd \<longrightarrow>
     look (rd_out rd) = flow (aout m) rd \<and> look (rd_in rd) = ain (aout m) rd)"

definition rd_rank :: "reaching_map \<Rightarrow> nat" where
  "rd_rank m = (\<Sum>i \<in> dom (dict_get m). \<Sum>x \<in> fst ` all_written m.
     card (literals m) + 2 - height m (aout m i x))"

definition rd_replaces :: "reaching_map \<Rightarrow> string \<Rightarrow> reaching_definitions \<Rightarrow> reaching_definitions \<Rightarrow> bool" where
  "rd_replaces m i rd rd' \<longleftrightarrow> rd_consistent m \<and> dict_get m i = Some rd \<and>
     rd_segment rd' = rd_segment rd \<and> rd_references rd' = rd_references rd \<and> wf_ps (rd_out rd') \<and>
     look (rd_out rd') = flow (aout m) rd \<and> look (rd_in rd') = ain (aout m) rd"

lemma reaching_stepE:
  assumes "rd_consistent m" "dict_get m i \<noteq> None" "reaching_step m i = Inr (m', pushed)"
  obtains rd rd' where "rd_replaces m i rd rd'" "m' = dict_set i rd' m"
    "pushed = (if aout m i = flow (aout m) rd then [] else nextSegments (rd_segment rd))"
proof -
  from assms(2) obtain rd where rd: "dict_get m i = Some rd" by auto
  moreover from this have "look (rd_out rd) = aout m i" by (auto simp: aout_def)
  ultimately show thesis
    using reaching_step_effect [of m i rd] assms(1,3) that
    by (auto simp: rd_replaces_def rd_consistent_def)
qed

text \<open>Replacing an entry keeps everything that depends on segments and references only.\<close>

lemma rd_static:
  assumes "dict_get m i = Some rd" "rd_segment rd' = rd_segment rd" "rd_references rd' = rd_references rd"
  shows "all_written (dict_set i rd' m) = all_written m" "solution (dict_set i rd' m) = solution m"
    "literals (dict_set i rd' m) = literals m"
proof -
  have w: "written rd' = written rd" using assms by (simp add: written_def)
  show a: "all_written (dict_set i rd' m) = all_written m"
  proof -
    have "(\<exists>r. dict_get (dict_set i rd' m) j = Some r \<and> e \<in> set (written r)) \<longleftrightarrow>
        (\<exists>r. dict_get m j = Some r \<and> e \<in> set (written r))" for j e
      using assms(1) by (simp add: dict.get_put w)
    then show ?thesis by (simp add: all_written_def)
  qed
  then show "literals (dict_set i rd' m) = literals m" by (simp add: literals_def)
  show "solution (dict_set i rd' m) = solution m"
  proof -
    have "(\<forall>r. dict_get (dict_set i rd' m) j = Some r \<longrightarrow> flow f r x \<le> f j x) \<longleftrightarrow>
        (\<forall>r. dict_get m j = Some r \<longrightarrow> flow f r x \<le> f j x)" for j x f
      using assms(1) flow_cong [OF assms(2,3)] by (simp add: dict.get_put)
    then show ?thesis unfolding solution_def fun_eq_iff by metis
  qed
qed

lemma reaching_graph_update:
  assumes "reaching_graph m" "dict_get m i = Some rd" "rd_segment rd' = rd_segment rd"
    "rd_references rd' = rd_references rd"
  shows "reaching_graph (dict_set i rd' m)"
  unfolding reaching_graph_def
proof (intro allI impI conjI ballI)
  fix j r assume "dict_get (dict_set i rd' m) j = Some r"
  with assms obtain r' where r': "dict_get m j = Some r'" "rd_segment r = rd_segment r'"
      "rd_references r = rd_references r'"
    by (auto simp: dict.get_put split: if_splits)
  with assms(1) show "seg_id (rd_segment r) = j" by (simp add: reaching_graph_def)
  show "dict_get (dict_set i rd' m) n \<noteq> None" if "n \<in> set (nextSegments (rd_segment r))" for n
    using assms(1) r' that by (auto simp: reaching_graph_def dict.get_put)
  show "\<exists>rp. dict_get (dict_set i rd' m) p = Some rp \<and> j \<in> set (nextSegments (rd_segment rp))"
    if "p \<in> set (prevSegments (rd_segment r))" for p
  proof -
    from assms(1) r' that obtain rp where "dict_get m p = Some rp" "j \<in> set (nextSegments (rd_segment rp))"
      unfolding reaching_graph_def by metis
    with assms(2,3) show ?thesis by (auto simp: dict.get_put)
  qed
  show "no_copy ref" if "ref \<in> set (rd_references r)" for ref
    using assms(1) r' that by (simp add: reaching_graph_def)
qed

lemma rd_replaces_out:
  assumes "rd_replaces m i rd rd'"
  shows "aout (dict_set i rd' m) j x = (if j = i then flow (aout m) rd x else aout m j x)"
    and "aout m j x \<le> aout (dict_set i rd' m) j x"
  using assms by (auto simp: aout_def dict.get_put rd_replaces_def rd_consistent_def)

lemma rd_replaces_consistent:
  assumes "rd_replaces m i rd rd'"
  shows "rd_consistent (dict_set i rd' m)"
  unfolding rd_consistent_def
proof (intro conjI allI impI)
  note facts = assms [unfolded rd_replaces_def rd_consistent_def]
  note static = rd_static [of m i rd rd']
  let ?m = "dict_set i rd' m"
  show "reaching_graph ?m" using facts reaching_graph_update by blast
  show "wf_ps (rd_out r)" if "dict_get ?m j = Some r" for j r
    using that facts by (auto simp: dict.get_put split: if_splits)
  have mono: "flow (aout m) r x \<le> flow (aout ?m) r x" for r x
    by (rule flow_mono) (rule rd_replaces_out [OF assms])
  show "aout ?m j x \<le> flow (aout ?m) r x" if "dict_get ?m j = Some r" for j r x
  proof (cases "j = i")
    case True
    with that have "r = rd'" by (simp add: dict.get_put)
    with True mono [of rd x] flow_cong [of rd' rd] facts show ?thesis
      by (simp add: rd_replaces_out(1) [OF assms])
  next
    case False
    with that have "aout m j x \<le> flow (aout m) r x" using facts by (auto simp: dict.get_put)
    with False mono [of r x] show ?thesis by (auto simp: rd_replaces_out(1) [OF assms] intro: order_trans)
  qed
  have occ: "occurs ?m = occurs m" using static facts by (auto simp: occurs_def fun_eq_iff)
  show "occurs ?m x (aout ?m j x)" for j x
    using facts occurs_flow [of m x "aout m" i rd] by (simp add: occ rd_replaces_out(1) [OF assms])
  show "aout ?m j x \<le> f j x" if "solution ?m f" for f j x
  proof -
    have sol: "solution m f" using that static facts by simp
    then have le: "aout m k y \<le> f k y" for k y using facts by blast
    have "flow (aout m) rd x \<le> flow f rd x" by (rule flow_mono) (rule le)
    also have "\<dots> \<le> f i x" using sol facts by (simp add: solution_def)
    finally show ?thesis using le by (simp add: rd_replaces_out(1) [OF assms])
  qed
qed

lemma rd_replaces_rank:
  assumes "rd_replaces m i rd rd'"
  shows "if aout m i = flow (aout m) rd then rd_rank (dict_set i rd' m) = rd_rank m
    else rd_rank (dict_set i rd' m) < rd_rank m"
proof -
  note facts = assms [unfolded rd_replaces_def rd_consistent_def]
  note out = rd_replaces_out [OF assms]
  let ?m = "dict_set i rd' m"
  have static: "all_written ?m = all_written m" "literals ?m = literals m"
    using facts rd_static [of m i rd rd'] by simp_all
  have heights: "height ?m = height m" by (auto simp: height_def static fun_eq_iff split: aval.split)
  have dom: "dom (dict_get ?m) = dom (dict_get m)"
    using facts by (auto simp: dict.get_put split: if_splits)
  have occ: "occurs m x (aout m j x)" "occurs m x (aout ?m j x)" for j x
    using facts occurs_flow [of m x "aout m" i rd] by (simp_all add: out(1))
  let ?d = "\<lambda>m' j x. card (literals m) + 2 - height m (aout m' j x)"
  have le: "?d ?m j x \<le> ?d m j x" for j x
    using height_mono [OF out(2) occ(1) occ(2)] by (intro diff_le_mono2)
  show ?thesis
  proof (cases "aout m i = flow (aout m) rd")
    case True
    then have "aout ?m = aout m" by (auto simp: out(1) fun_eq_iff)
    with True show ?thesis by (simp add: rd_rank_def dom static heights)
  next
    case False
    then obtain x where x: "aout m i x \<noteq> flow (aout m) rd x" by auto
    then have less: "aout m i x < aout ?m i x"
      using out(2) [of i x] out(1) [of i x] by (simp add: less_aval_def)
    then have "aout ?m i x \<noteq> Absent" using not_less_Absent [of "aout m i x"] by auto
    then have W: "x \<in> fst ` all_written m" using occ(2) [of x i] by (simp add: occurs_def)
    have "?d ?m i x < ?d m i x"
      using height_strict [OF less occ(1) occ(2)] height_le [OF occ(2) [of x i]] by linarith
    with W le have "(\<Sum>x \<in> fst ` all_written m. ?d ?m i x) < (\<Sum>x \<in> fst ` all_written m. ?d m i x)"
      by (intro sum_strict_mono_ex1) auto
    moreover have "(\<Sum>x \<in> fst ` all_written m. ?d ?m j x) \<le> (\<Sum>x \<in> fst ` all_written m. ?d m j x)" for j
      by (intro sum_mono le)
    moreover have "i \<in> dom (dict_get m)" using facts by auto
    ultimately have "rd_rank ?m < rd_rank m"
      unfolding rd_rank_def dom static heights by (intro sum_strict_mono_ex1) auto
    with False show ?thesis by simp
  qed
qed

lemma rd_replaces_stable:
  assumes "rd_replaces m i rd rd'" and "dict_get m j \<noteq> None" and "j = i \<or> rd_stable m j"
  shows "rd_stable (dict_set i rd' m) j \<or>
    aout m i \<noteq> flow (aout m) rd \<and> j \<in> set (nextSegments (rd_segment rd))"
proof (cases "aout m i = flow (aout m) rd \<or> j \<notin> set (nextSegments (rd_segment rd))")
  case True
  note facts = assms(1) [unfolded rd_replaces_def rd_consistent_def]
  note out = rd_replaces_out [OF assms(1)]
  let ?m = "dict_set i rd' m"
  have same: "ain (aout ?m) r = ain (aout m) r" if r: "dict_get m j = Some r" for r
  proof (cases "aout m i = flow (aout m) rd")
    case True
    then have "aout ?m = aout m" by (auto simp: out(1) fun_eq_iff)
    then show ?thesis by simp
  next
    case False
    with True have "j \<notin> set (nextSegments (rd_segment rd))" by simp
    with facts r have "i \<notin> set (prevSegments (rd_segment r))"
      unfolding reaching_graph_def by (metis option.inject)
    then show ?thesis
      by (auto simp: ain_def fun_eq_iff out(1) intro!: fold_cong)
  qed
  then have same_flow: "flow (aout ?m) r = flow (aout m) r" if "dict_get m j = Some r" for r
    using that by (auto simp: flow_def fun_eq_iff split: option.split)
  have "rd_stable ?m j"
  proof (cases "j = i")
    case True
    with facts same [of rd] same_flow [of rd] flow_cong [of rd' rd] show ?thesis
      by (auto simp: rd_stable_def dict.get_put)
  next
    case False
    with assms(3) same same_flow show ?thesis
      by (auto simp: rd_stable_def dict.get_put)
  qed
  then show ?thesis ..
qed simp

interpretation reaching_wl: worklist_analysis reaching_step "\<lambda>m i. dict_get m i \<noteq> None"
  rd_consistent rd_stable rd_rank
proof
  fix m i m' pushed
  assume con: "rd_consistent m" and i: "dict_get m i \<noteq> None"
  show "\<exists>m' pushed. reaching_step m i = Inr (m', pushed)"
    using reaching_step_effect [of m i] con i by (auto simp: rd_consistent_def)
  assume step: "reaching_step m i = Inr (m', pushed)"
  from reaching_stepE [OF con i step] obtain rd rd' where rep: "rd_replaces m i rd rd'"
    and m': "m' = dict_set i rd' m"
    and pushed: "pushed = (if aout m i = flow (aout m) rd then [] else nextSegments (rd_segment rd))"
    by blast
  have "\<forall>n \<in> set (nextSegments (rd_segment rd)). dict_get m n \<noteq> None"
    using rep by (auto simp: rd_replaces_def rd_consistent_def reaching_graph_def)
  then show "rd_consistent m' \<and> (\<lambda>i. dict_get m' i \<noteq> None) = (\<lambda>i. dict_get m i \<noteq> None) \<and>
      (\<forall>p \<in> set pushed. dict_get m p \<noteq> None)"
    using rd_replaces_consistent [OF rep] i by (auto simp: m' pushed dict.get_put fun_eq_iff)
  show "rd_rank m' < rd_rank m \<or> rd_rank m' = rd_rank m \<and> pushed = []"
    using rd_replaces_rank [OF rep] by (simp add: m' pushed split: if_splits)
  show "rd_stable m' j \<or> j \<in> set pushed" if "dict_get m j \<noteq> None" "j = i \<or> rd_stable m j" for j
    using rd_replaces_stable [OF rep that] by (auto simp: m' pushed)
qed

lemma reaching_step_static:
  assumes "reaching_step m i = Inr (m', pushed)"
  shows "solution m' = solution m \<and> map fst m' = map fst m"
proof -
  from assms obtain rd rd' where "dict_get m i = Some rd" "m' = dict_set i rd' m"
    "rd_segment rd' = rd_segment rd" "rd_references rd' = rd_references rd"
    by (auto simp: reaching_step_def rd_propagate_def Let_def bind_res_eq_Inr split: option.splits if_splits)
  moreover from this have "i \<in> set (map fst m)"
    by (auto simp: dict_get_def dest!: map_of_SomeD intro: rev_image_eqI)
  ultimately show ?thesis using rd_static by (simp add: keys_dict_set set_add_def)
qed

text \<open>The analysis changes only the program states it computes.\<close>

definition rd_fixed :: "reaching_definitions \<Rightarrow> segment \<times> reaching_ref list" where
  "rd_fixed rd = (rd_segment rd, rd_references rd)"

lemma reaching_step_fixed:
  assumes "reaching_step m i = Inr (m', pushed)"
  shows "map (\<lambda>(i, rd). (i, rd_fixed rd)) m' = map (\<lambda>(i, rd). (i, rd_fixed rd)) m"
proof -
  from assms obtain rd rd' where "dict_get m i = Some rd" "m' = dict_set i rd' m" "rd_fixed rd' = rd_fixed rd"
    by (auto simp: reaching_step_def rd_propagate_def Let_def bind_res_eq_Inr rd_fixed_def
        split: option.splits if_splits)
  then show ?thesis by (simp add: map_dict_set_same)
qed

lemma reaching_fixed:
  assumes "reachingDefinitions m = Some (Inr m')"
  shows "map (\<lambda>(i, rd). (i, rd_fixed rd)) m' = map (\<lambda>(i, rd). (i, rd_fixed rd)) m"
  by (rule worklist_loop_keeps [OF assms [unfolded reachingDefinitions_def]]) (rule reaching_step_fixed)

text \<open>What the analysis computes, for the property below and for the rule that rests on it.\<close>

lemma reachingDefinitions_exact:
  assumes "reaching_graph m" and "distinct (map fst m)" and "\<forall>(i, rd) \<in> set m. rd_out rd = []"
  shows "\<exists>m'. reachingDefinitions m = Some (Inr m') \<and> map fst m' = map fst m \<and>
    map (\<lambda>(i, rd). (i, rd_fixed rd)) m' = map (\<lambda>(i, rd). (i, rd_fixed rd)) m \<and>
    (\<forall>i rd. dict_get m' i = Some rd \<longrightarrow>
       look (rd_in rd) = ain (aout m') rd \<and> look (rd_out rd) = flow (aout m') rd) \<and>
    (\<forall>f. solution m f \<longrightarrow> (\<forall>i x. aout m' i x \<le> f i x))"
proof -
  have get: "dict_get m i = Some rd \<longleftrightarrow> (i, rd) \<in> set m" for i rd
    using assms(2) by (simp add: dict_get_def)
  have empty: "rd_out rd = []" if "dict_get m i = Some rd" for i rd
    using assms(3) that by (auto simp: get)
  then have "aout m i x = Absent" for i x by (simp add: aout_def split: option.split)
  then have con: "rd_consistent m"
    using assms(1) empty by (auto simp: rd_consistent_def occurs_def)
  let ?wl = "rev (map (\<lambda>(k, rd). seg_id (rd_segment rd)) m)"
  have "i \<in> set ?wl \<longleftrightarrow> dict_get m i \<noteq> None" for i
    using assms(1) get by (force simp: reaching_graph_def)
  with reaching_wl.loop_returns [OF con, of ?wl] obtain m' where
    run: "reachingDefinitions m = Some (Inr m')" and con': "rd_consistent m'"
    and dom: "(\<lambda>i. dict_get m' i \<noteq> None) = (\<lambda>i. dict_get m i \<noteq> None)"
    and stable: "\<forall>i. dict_get m i \<noteq> None \<longrightarrow> rd_stable m' i"
    unfolding reachingDefinitions_def by blast
  have sol: "solution m' = solution m" and keys: "map fst m' = map fst m"
    using run worklist_loop_keeps [of reaching_step ?wl m m' solution]
      worklist_loop_keeps [of reaching_step ?wl m m' "map fst"] reaching_step_static
    unfolding reachingDefinitions_def by blast+
  have "rd_stable m' i" if "dict_get m' i \<noteq> None" for i using stable dom that by metis
  then have "\<forall>i rd. dict_get m' i = Some rd \<longrightarrow>
       look (rd_in rd) = ain (aout m') rd \<and> look (rd_out rd) = flow (aout m') rd"
    unfolding rd_stable_def by blast
  moreover have "\<forall>f. solution m f \<longrightarrow> (\<forall>i x. aout m' i x \<le> f i x)"
    using con' sol by (simp add: rd_consistent_def)
  ultimately show ?thesis using run keys reaching_fixed [OF run] by blast
qed

section \<open>What reaches a point\<close>

text \<open>
  A point is a segment with the references already evaluated in it. The write that gave a variable
  its value there is the last one in the segment, or, without one, a write that reaches the end of
  a predecessor.
\<close>

inductive reaches :: "reaching_map \<Rightarrow> string \<Rightarrow> reaching_ref list \<Rightarrow> nat \<Rightarrow> reaching_ref \<Rightarrow> bool" for m where
  reaches_here: "ref_resolved r = Some x \<Longrightarrow> ref_isWrite r \<Longrightarrow> reaches m i (before @ [r]) x r"
| reaches_later: "reaches m i before x r \<Longrightarrow> \<not> (ref_resolved q = Some x \<and> ref_isWrite q) \<Longrightarrow>
    reaches m i (before @ [q]) x r"
| reaches_flow: "dict_get m i = Some rd \<Longrightarrow> p \<in> set (prevSegments (rd_segment rd)) \<Longrightarrow>
    dict_get m p = Some rp \<Longrightarrow> reaches m p (rd_references rp) x r \<Longrightarrow> reaches m i [] x r"

inductive_simps reaches_Nil: "reaches m i [] x r"
inductive_simps reaches_snoc: "reaches m i (before @ [q]) x r"

definition reaching_values :: "reaching_map \<Rightarrow> string \<Rightarrow> reaching_ref list \<Rightarrow> nat \<Rightarrow> vals set" where
  "reaching_values m i before x = {w. \<exists>r. reaches m i before x r \<and> effect r = Some (x, w)}"

definition join_vals :: "vals set \<Rightarrow> aval" where
  "join_vals V = (if V = {} then Absent else if UnknownValue \<in> V then Anything
     else Known {s. \<exists>vs. AssignedValues vs \<in> V \<and> s \<in> set vs})"

definition point :: "(string \<Rightarrow> nat \<Rightarrow> aval) \<Rightarrow> reaching_definitions \<Rightarrow> reaching_ref list \<Rightarrow> nat \<Rightarrow> aval" where
  "point f rd before x =
     (case map_of (rev (List.map_filter effect before)) x of None \<Rightarrow> ain f rd x | Some v \<Rightarrow> aval_of v)"

lemma flow_point: "flow f rd x = point f rd (rd_references rd) x"
  by (simp add: flow_def point_def written_def)

lemma point_Nil [simp]: "point f rd [] x = ain f rd x"
  by (simp add: point_def List.map_filter_simps)

lemma point_snoc:
  "point f rd (before @ [q]) x =
     (case effect q of None \<Rightarrow> point f rd before x | Some (y, w) \<Rightarrow> if y = x then aval_of w else point f rd before x)"
  by (cases "effect q") (auto simp: point_def List.map_filter_def)

lemma effect_iff: "(\<exists>w. effect q = Some (x, w)) \<longleftrightarrow> ref_resolved q = Some x \<and> ref_isWrite q"
  by (auto simp: effect_def split: option.splits)

lemma point_mono: "(\<And>i x. f i x \<le> g i x) \<Longrightarrow> point f rd before x \<le> point g rd before x"
  by (auto simp: point_def ain_def intro!: fold_sup_mono split: option.split)

lemma ain_upper: "p \<in> set (prevSegments (rd_segment rd)) \<Longrightarrow> f p x \<le> ain f rd x"
proof -
  have start: "a \<le> fold (\<lambda>p a. sup a (f p x)) ps a" for ps a
    by (induction ps arbitrary: a) (auto intro: order_trans [OF sup_ge1])
  have "f p x \<le> fold (\<lambda>p a. sup a (f p x)) ps a" if "p \<in> set ps" for ps a
    using that by (induction ps arbitrary: a) (auto intro: order_trans [OF sup_ge2 start])
  then show "p \<in> set (prevSegments (rd_segment rd)) \<Longrightarrow> f p x \<le> ain f rd x" by (simp add: ain_def)
qed

lemma ain_least: "(\<And>p. p \<in> set (prevSegments (rd_segment rd)) \<Longrightarrow> f p x \<le> b) \<Longrightarrow> ain f rd x \<le> b"
proof -
  have "fold (\<lambda>p a. sup a (f p x)) ps a \<le> b" if "\<forall>p \<in> set ps. f p x \<le> b" "a \<le> b" for ps a
    using that by (induction ps arbitrary: a) auto
  then show "(\<And>p. p \<in> set (prevSegments (rd_segment rd)) \<Longrightarrow> f p x \<le> b) \<Longrightarrow> ain f rd x \<le> b"
    by (simp add: ain_def)
qed

lemma join_vals_least: "(\<And>w. w \<in> V \<Longrightarrow> aval_of w \<le> a) \<Longrightarrow> join_vals V \<le> a"
proof (cases a)
  case Absent
  assume "\<And>w. w \<in> V \<Longrightarrow> aval_of w \<le> a"
  then have "aval_of w \<le> Absent" if "w \<in> V" for w using that Absent by simp
  moreover have "\<not> aval_of w \<le> Absent" for w by (cases w) (simp_all add: aval_of_def)
  ultimately have "V = {}" by blast
  then show ?thesis by (simp add: join_vals_def)
next
  case (Known S)
  assume V: "\<And>w. w \<in> V \<Longrightarrow> aval_of w \<le> a"
  have "UnknownValue \<notin> V" using V [of UnknownValue] Known by (auto simp: aval_of_def)
  moreover have "set vs \<subseteq> S" if "AssignedValues vs \<in> V" for vs
    using V [OF that] Known by (simp add: aval_of_def)
  ultimately show ?thesis using Known by (auto simp: join_vals_def)
qed simp

lemma join_vals_mono: "V \<subseteq> W \<Longrightarrow> join_vals V \<le> join_vals W"
  by (auto simp: join_vals_def)

lemma join_vals_single [simp]: "join_vals {w} = aval_of w"
  by (cases w) (auto simp: join_vals_def aval_of_def)

text \<open>Every write that reaches a point is below every solution there.\<close>

lemma reaches_sound:
  assumes "reaches m i before x r" "dict_get m i = Some rd" "solution m f"
  shows "\<exists>w. effect r = Some (x, w) \<and> aval_of w \<le> point f rd before x"
  using assms
proof (induction arbitrary: rd)
  case (reaches_here r x i before)
  then obtain w where "effect r = Some (x, w)" using effect_iff by blast
  then show ?case by (auto simp: point_snoc)
next
  case (reaches_later i before x r q)
  then have "effect q \<noteq> Some (x, w)" for w using effect_iff by blast
  with reaches_later show ?case by (auto simp: point_snoc split: option.split)
next
  case (reaches_flow i rd' p rp x r)
  then obtain w where w: "effect r = Some (x, w)" and le: "aval_of w \<le> flow f rp x" by (auto simp: flow_point)
  note le
  also have "flow f rp x \<le> f p x" using reaches_flow by (simp add: solution_def)
  also have "f p x \<le> ain f rd x" using reaches_flow by (intro ain_upper) simp
  finally show ?case using w by simp
qed

lemma reaches_effect: "reaches m i before x r \<Longrightarrow> \<exists>w. effect r = Some (x, w)"
  by (induction rule: reaches.induct) (simp_all add: effect_iff)

text \<open>The writes that reach the ends of the segments are a solution themselves.\<close>

definition reach_solution :: "reaching_map \<Rightarrow> string \<Rightarrow> nat \<Rightarrow> aval" where
  "reach_solution m i x =
     (case dict_get m i of None \<Rightarrow> Absent | Some rd \<Rightarrow> join_vals (reaching_values m i (rd_references rd) x))"

lemma reaching_values_snoc:
  "reaching_values m i (before @ [q]) x =
     (case effect q of
        Some (y, w) \<Rightarrow> if y = x then {w} else reaching_values m i before x
      | None \<Rightarrow> reaching_values m i before x)"
proof (cases "\<exists>w. effect q = Some (x, w)")
  case True
  then have "reaches m i (before @ [q]) x r \<longleftrightarrow> r = q" for r
    using effect_iff [of q x] by (auto simp: reaches_snoc)
  with True show ?thesis by (auto simp: reaching_values_def)
next
  case False
  then have "reaches m i (before @ [q]) x r \<longleftrightarrow> reaches m i before x r" for r
    using effect_iff [of q x] by (auto simp: reaches_snoc)
  with False show ?thesis by (auto simp: reaching_values_def split: option.split)
qed

lemma point_reach_solution:
  assumes "dict_get m i = Some rd"
  shows "point (reach_solution m) rd before x \<le> join_vals (reaching_values m i before x)"
proof (induction before rule: rev_induct)
  case Nil
  have "reach_solution m p x \<le> join_vals (reaching_values m i [] x)" if "p \<in> set (prevSegments (rd_segment rd))" for p
  proof (cases "dict_get m p")
    case (Some rp)
    with assms that have "reaching_values m p (rd_references rp) x \<subseteq> reaching_values m i [] x"
      by (auto simp: reaching_values_def intro: reaches_flow)
    with Some show ?thesis by (simp add: reach_solution_def join_vals_mono)
  qed (simp add: reach_solution_def)
  then show ?case by (auto intro: ain_least)
next
  case (snoc q before)
  then show ?case by (auto simp: point_snoc reaching_values_snoc split: option.split)
qed

lemma solution_reach: "solution m (reach_solution m)"
  unfolding solution_def flow_point
  using point_reach_solution by (auto simp: reach_solution_def)

lemma point_exact:
  assumes "dict_get m i = Some rd" "solution m f" "\<And>g i x. solution m g \<Longrightarrow> f i x \<le> g i x"
  shows "point f rd before x = join_vals (reaching_values m i before x)"
proof (rule antisym)
  have "point f rd before x \<le> point (reach_solution m) rd before x"
    by (intro point_mono assms(3) solution_reach)
  then show "point f rd before x \<le> join_vals (reaching_values m i before x)"
    using point_reach_solution [OF assms(1)] order_trans by blast
  show "join_vals (reaching_values m i before x) \<le> point f rd before x"
    using reaches_sound [OF _ assms(1,2)] by (intro join_vals_least) (fastforce simp: reaching_values_def)
qed

text \<open>The result of the analysis at every point of the program.\<close>

lemma reachingDefinitions_points:
  assumes "reaching_graph m" and "distinct (map fst m)" and "\<forall>(i, rd) \<in> set m. rd_out rd = []"
  shows "\<exists>m'. reachingDefinitions m = Some (Inr m') \<and> map fst m' = map fst m \<and>
    map (\<lambda>(i, rd). (i, rd_fixed rd)) m' = map (\<lambda>(i, rd). (i, rd_fixed rd)) m \<and>
    (\<forall>i rd rd' x. dict_get m i = Some rd \<longrightarrow> dict_get m' i = Some rd' \<longrightarrow>
       look (rd_in rd') x = join_vals (reaching_values m i [] x) \<and>
       look (rd_out rd') x = join_vals (reaching_values m i (rd_references rd) x))"
proof -
  from reachingDefinitions_exact [OF assms] obtain m' where
    run: "reachingDefinitions m = Some (Inr m')" and keys: "map fst m' = map fst m"
    and fixed: "map (\<lambda>(i, rd). (i, rd_fixed rd)) m' = map (\<lambda>(i, rd). (i, rd_fixed rd)) m"
    and stable: "\<And>i rd. dict_get m' i = Some rd \<Longrightarrow>
       look (rd_in rd) = ain (aout m') rd \<and> look (rd_out rd) = flow (aout m') rd"
    and least: "\<And>f i x. solution m f \<Longrightarrow> aout m' i x \<le> f i x"
    by blast
  have same: "map_option rd_fixed (dict_get m' i) = map_option rd_fixed (dict_get m i)" for i
    using arg_cong [OF fixed, of "\<lambda>xs. map_of xs i"] by (simp add: map_of_map dict_get_def)
  have flows: "ain (aout m') rd' = ain (aout m') rd" "flow (aout m') rd' = flow (aout m') rd"
    if "dict_get m i = Some rd" "dict_get m' i = Some rd'" for i rd rd'
    using same [of i] that by (auto simp: rd_fixed_def fun_eq_iff ain_def flow_def written_def split: option.split)
  have sol: "solution m (aout m')"
    unfolding solution_def
  proof (intro allI impI)
    fix i rd x assume rd: "dict_get m i = Some rd"
    with same [of i] obtain rd' where rd': "dict_get m' i = Some rd'" by auto
    with stable [OF rd'] flows [OF rd rd'] show "flow (aout m') rd x \<le> aout m' i x" by (simp add: aout_def)
  qed
  have "look (rd_in rd') x = join_vals (reaching_values m i [] x) \<and>
       look (rd_out rd') x = join_vals (reaching_values m i (rd_references rd) x)"
    if "dict_get m i = Some rd" "dict_get m' i = Some rd'" for i rd rd' x
  proof -
    have "point (aout m') rd before x = join_vals (reaching_values m i before x)" for before
      using that(1) sol by (rule point_exact) (rule least)
    from this [of "[]"] this [of "rd_references rd"] show ?thesis
      using stable [OF that(2)] flows [OF that] by (simp add: flow_point)
  qed
  with run keys fixed show ?thesis by blast
qed

text \<open>
  C17: when no write copies another variable, the analysis of reaching definitions returns for
  every graph of segments, and what it knows of a variable on entry to a segment and at its exit
  is exactly the join of the values of the writes that reach this point on some path: absent
  when no write does, unknown when one of them is no literal, else the set of their literals.
\<close>

theorem reachingDefinitions_correct:
  assumes "reaching_graph m" and "distinct (map fst m)" and "\<forall>(i, rd) \<in> set m. rd_out rd = []"
  shows "\<exists>m'. reachingDefinitions m = Some (Inr m') \<and> map fst m' = map fst m \<and>
    (\<forall>i rd rd' x. dict_get m i = Some rd \<longrightarrow> dict_get m' i = Some rd' \<longrightarrow>
       look (rd_in rd') x = join_vals (reaching_values m i [] x) \<and>
       look (rd_out rd') x = join_vals (reaching_values m i (rd_references rd) x))"
  using reachingDefinitions_points [OF assms] by blast

definition example_write :: "nat \<Rightarrow> nat \<Rightarrow> string \<Rightarrow> reaching_ref" where
  "example_write i x raw = \<lparr>ref_id = i, ref_identifier = JUndefined, ref_isRead = False, ref_isWrite = True,
     ref_writeExpr = Some (JObj i None None [(''type'', JStr ''Literal''), (''raw'', JStr raw)]),
     ref_resolved = Some x, rr_from = Scope [] [] None\<rparr>"

definition example_reaching_map :: reaching_map where
  "example_reaching_map =
     [(''s1'', rd_add (example_write 0 7 ''1'')
        (new_ReachingDefinitions \<lparr>seg_id = ''s1'', nextSegments = [''s2''], prevSegments = []\<rparr>)),
      (''s2'', rd_add (example_write 1 8 ''2'')
        (new_ReachingDefinitions \<lparr>seg_id = ''s2'', nextSegments = [''s2''], prevSegments = [''s1'', ''s2'']\<rparr>))]"

theorem reachingDefinitions_correct_witness:
  "\<exists>m' a b. reachingDefinitions example_reaching_map = Some (Inr m') \<and> m' = [(''s1'', a), (''s2'', b)] \<and>
     rd_out b = [(7, AssignedValues [''1'']), (8, AssignedValues [''2''])] \<and>
     join_vals (reaching_values example_reaching_map ''s2'' [] 7) = Known {''1''}"
proof -
  have "reaching_graph example_reaching_map"
    by (simp add: reaching_graph_def example_reaching_map_def dict_get_def rd_add_def example_write_def
        new_ReachingDefinitions_def add_by_def no_copy_def is_type_def)
  moreover have "distinct (map fst example_reaching_map)" "\<forall>(i, rd) \<in> set example_reaching_map. rd_out rd = []"
    by (simp_all add: example_reaching_map_def rd_add_def example_write_def new_ReachingDefinitions_def)
  ultimately obtain m' where m': "reachingDefinitions example_reaching_map = Some (Inr m')"
    "\<forall>i rd rd' x. dict_get example_reaching_map i = Some rd \<longrightarrow> dict_get m' i = Some rd' \<longrightarrow>
       look (rd_in rd') x = join_vals (reaching_values example_reaching_map i [] x)"
    using reachingDefinitions_correct [of example_reaching_map] by blast
  have "map_option (\<lambda>r. case r of Inl e \<Rightarrow> [] | Inr m \<Rightarrow> map (\<lambda>(i, rd). (i, rd_in rd, rd_out rd)) m)
      (reachingDefinitions example_reaching_map) =
      Some [(''s1'', [], [(7, AssignedValues [''1''])]), (''s2'', [(7, AssignedValues [''1'']), (8, AssignedValues [''2''])],
        [(7, AssignedValues [''1'']), (8, AssignedValues [''2''])])]"
    by code_simp
  with m'(1) have "map (\<lambda>(i, rd). (i, rd_in rd, rd_out rd)) m' =
      [(''s1'', [], [(7, AssignedValues [''1''])]), (''s2'', [(7, AssignedValues [''1'']), (8, AssignedValues [''2''])],
        [(7, AssignedValues [''1'']), (8, AssignedValues [''2''])])]"
    by simp
  then obtain a b where ab: "m' = [(''s1'', a), (''s2'', b)]"
    "rd_in b = [(7, AssignedValues [''1'']), (8, AssignedValues [''2''])]"
    "rd_out b = [(7, AssignedValues [''1'']), (8, AssignedValues [''2''])]" by auto
  obtain rd where "dict_get example_reaching_map ''s2'' = Some rd"
    by (simp add: example_reaching_map_def dict_get_def)
  moreover have "dict_get m' ''s2'' = Some b" "look (rd_in b) 7 = Known {''1''}"
    using ab by (simp_all add: dict_get_def look_def aval_of_def)
  ultimately have "join_vals (reaching_values example_reaching_map ''s2'' [] 7) = Known {''1''}"
    using m'(2) by metis
  with m'(1) ab show ?thesis by blast
qed

section \<open>A program the analysis never finishes\<close>

text \<open>
  With copies the loop need not end. The writes of

  \<^verbatim>\<open>function f(c) { var a, b, d; for (;;) { if (r()) { b = 1; while (q()) { a = c; c = b; b = a; } return b; } d = 2; } }\<close>

  in the segments of its code path: \<^verbatim>\<open>s2\<close> is the test of the \<^verbatim>\<open>if\<close>, \<^verbatim>\<open>s4\<close> the test of the
  \<^verbatim>\<open>while\<close> and \<^verbatim>\<open>s5\<close> its body, \<^verbatim>\<open>s7\<close> the end of the outer loop. The body exchanges a known
  and an unknown value on every round: \<^verbatim>\<open>c\<close> is absent on entry, so the first round gives
  \<^verbatim>\<open>b\<close> an unknown and \<^verbatim>\<open>c\<close> a known value, the second one the reverse.
\<close>

definition swap_id :: "nat \<Rightarrow> string \<Rightarrow> node" where
  "swap_id i name = JObj i None None [(''type'', JStr ''Identifier''), (''name'', JStr name)]"

definition swap_literal :: "nat \<Rightarrow> string \<Rightarrow> node" where
  "swap_literal i raw = JObj i None None [(''type'', JStr ''Literal''), (''raw'', JStr raw)]"

definition swap_variable :: "nat \<Rightarrow> string \<Rightarrow> variable" where
  "swap_variable i name = \<lparr>var_id = i, var_name = name, var_defs = [], var_references = [], var_writeable = None\<rparr>"

definition swap_scope :: scope where
  "swap_scope = Scope [swap_variable 0 ''a'', swap_variable 1 ''b'', swap_variable 2 ''c'', swap_variable 3 ''d''] [] None"

definition swap_write :: "nat \<Rightarrow> nat \<Rightarrow> string \<Rightarrow> node \<Rightarrow> reaching_ref" where
  "swap_write i x name e = \<lparr>ref_id = i, ref_identifier = swap_id i name, ref_isRead = False, ref_isWrite = True,
     ref_writeExpr = Some e, ref_resolved = Some x, rr_from = swap_scope\<rparr>"

definition swap_entry :: "string \<Rightarrow> string list \<Rightarrow> string list \<Rightarrow> reaching_ref list \<Rightarrow> string \<times> reaching_definitions" where
  "swap_entry i prev nxt refs = (i, fold rd_add refs (new_ReachingDefinitions \<lparr>seg_id = i, nextSegments = nxt, prevSegments = prev\<rparr>))"

definition swap_map :: reaching_map where
  "swap_map =
     [swap_entry ''s1'' [] [''s2''] [],
      swap_entry ''s2'' [''s1'', ''s7''] [''s3'', ''s7''] [],
      swap_entry ''s3'' [''s2''] [''s4''] [swap_write 10 1 ''b'' (swap_literal 20 ''1'')],
      swap_entry ''s4'' [''s3'', ''s5''] [''s5'', ''s6''] [],
      swap_entry ''s5'' [''s4''] [''s4''] [swap_write 11 0 ''a'' (swap_id 21 ''c''),
        swap_write 12 2 ''c'' (swap_id 22 ''b''), swap_write 13 1 ''b'' (swap_id 23 ''a'')],
      swap_entry ''s6'' [''s4''] [] [],
      swap_entry ''s7'' [''s2''] [''s2''] [swap_write 14 3 ''d'' (swap_literal 24 ''2'')]]"

definition swap_start :: "string list \<times> reaching_map" where
  "swap_start = (rev (map (\<lambda>(k, rd). seg_id (rd_segment rd)) swap_map), swap_map)"

lemma swap_cycle:
  "case loop_steps reaching_step 12 swap_start of None \<Rightarrow> False
   | Some c \<Rightarrow> loop_steps reaching_step (Suc 5) c = Some c"
  by code_simp

text \<open>
  C3: when writes copy other variables the analysis of reaching definitions may never return: on
  the function above its worklist comes back to the same segments with the same maps forever.
\<close>

theorem reachingDefinitions_diverges: "reachingDefinitions swap_map = None"
proof -
  from swap_cycle obtain c where "loop_steps reaching_step 12 swap_start = Some c"
    "loop_steps reaching_step (Suc 5) c = Some c" by (auto split: option.splits)
  then show ?thesis
    unfolding reachingDefinitions_def swap_start_def by (rule worklist_loop_diverges)
qed

end
