(* ===== verification/Ast_Helpers.thy ===== *)
theory Ast_Helpers
  imports Scopes Visitor Issues "HOL-Library.Sublist"
begin

text \<open>
  The syntax tree helpers of the rules: \<^verbatim>\<open>src/linting/eslint/rules/helpers/ast.ts\<close>,
  \<^verbatim>\<open>ancestor.ts\<close> and \<^verbatim>\<open>collection.ts\<close>. Nodes are the values of the prelude; reading a
  property that the type of a node does not have gives \<^verbatim>\<open>undefined\<close>. Helpers that follow the
  unique write of a variable may run forever; they return an option, and \<open>None\<close> is not
  returning.
\<close>

section \<open>Rule contexts\<close>

text \<open>
  The part of ESLint's rule context that the helpers read: the scope and the ancestors of the
  node that is being traversed, the source code and the scopes of its scope manager with the
  variables that references resolve to.
\<close>

record rule_context =
  rx_scope :: "scope option"
  rx_ancestors :: "node list"
  rx_source :: source_code
  rx_scopes :: "scope list"
  rx_variable :: "nat \<Rightarrow> variable option"

definition name_of :: "node \<Rightarrow> string option" where
  "name_of n = (case fld n ''name'' of JStr s \<Rightarrow> Some s | _ \<Rightarrow> None)"

section \<open>Tests on nodes\<close>

definition FUNCTION_NODE_TYPES :: "string list" where
  "FUNCTION_NODE_TYPES = [''FunctionDeclaration'', ''FunctionExpression'', ''ArrowFunctionExpression'']"

definition functionLike :: "string list" where
  "functionLike =
     [''FunctionDeclaration'', ''FunctionExpression'', ''ArrowFunctionExpression'', ''MethodDefinition'']"

definition isIdentifier :: "node \<Rightarrow> string list \<Rightarrow> bool" where
  "isIdentifier n values \<longleftrightarrow>
     is_type n ''Identifier'' \<and> (values = [] \<or> list_ex (\<lambda>v. fld n ''name'' = JStr v) values)"

definition isMemberWithProperty :: "node \<Rightarrow> string list \<Rightarrow> bool" where
  "isMemberWithProperty n values \<longleftrightarrow>
     is_type n ''MemberExpression'' \<and> isIdentifier (fld n ''property'') values"

definition isMemberExpression :: "node \<Rightarrow> string \<Rightarrow> string list \<Rightarrow> bool" where
  "isMemberExpression n objectValue propertyValue \<longleftrightarrow>
     is_type n ''MemberExpression'' \<and> isIdentifier (fld n ''object'') [objectValue] \<and>
     isIdentifier (fld n ''property'') propertyValue"

definition isBinaryPlus :: "node \<Rightarrow> bool" where
  "isBinaryPlus n \<longleftrightarrow> is_type n ''BinaryExpression'' \<and> fld n ''operator'' = JStr ''+''"

definition isUnaryExpression :: "node \<Rightarrow> bool" where
  "isUnaryExpression n \<longleftrightarrow> n \<noteq> JUndefined \<and> is_type n ''UnaryExpression''"

definition isArrayExpression :: "node \<Rightarrow> bool" where
  "isArrayExpression n \<longleftrightarrow> n \<noteq> JUndefined \<and> is_type n ''ArrayExpression''"

text \<open>
  \<^verbatim>\<open>String(v)\<close> on primitive values. Numbers are printed as integers; the text of any other
  number is not represented and never equals a name that the code compares with.
\<close>

definition js_String :: "jsval \<Rightarrow> string option" where
  "js_String v =
     (case v of
        JStr s \<Rightarrow> Some s
      | JBool b \<Rightarrow> Some (if b then ''true'' else ''false'')
      | JNull \<Rightarrow> Some ''null''
      | JUndefined \<Rightarrow> Some ''undefined''
      | JNum q \<Rightarrow> if of_int \<lfloor>q\<rfloor> = q then Some (show_int \<lfloor>q\<rfloor>) else None
      | _ \<Rightarrow> None)"

definition isRequireModule :: "node \<Rightarrow> string list \<Rightarrow> bool" where
  "isRequireModule n moduleNames =
     (if isIdentifier (fld n ''callee'') [''require''] \<and> length (elems (fld n ''arguments'')) = 1
      then let argument = elems (fld n ''arguments'') ! 0 in
           if is_type argument ''Literal''
           then (case js_String (fld argument ''value'') of None \<Rightarrow> False | Some s \<Rightarrow> s \<in> set moduleNames)
           else False
      else False)"

definition isMethodInvocation :: "node \<Rightarrow> string \<Rightarrow> string \<Rightarrow> nat \<Rightarrow> bool" where
  "isMethodInvocation callExpression objectIdentifierName methodName minArgs \<longleftrightarrow>
     is_type (fld callExpression ''callee'') ''MemberExpression'' \<and>
     isIdentifier (fld (fld callExpression ''callee'') ''object'') [objectIdentifierName] \<and>
     isIdentifier (fld (fld callExpression ''callee'') ''property'') [methodName] \<and>
     is_type (fld (fld callExpression ''callee'') ''property'') ''Identifier'' \<and>
     minArgs \<le> length (elems (fld callExpression ''arguments''))"

definition isFunctionInvocation :: "node \<Rightarrow> string \<Rightarrow> nat \<Rightarrow> bool" where
  "isFunctionInvocation callExpression functionName minArgs \<longleftrightarrow>
     is_type (fld callExpression ''callee'') ''Identifier'' \<and>
     isIdentifier (fld callExpression ''callee'') [functionName] \<and>
     minArgs \<le> length (elems (fld callExpression ''arguments''))"

definition isFunctionCall :: "node \<Rightarrow> bool" where
  "isFunctionCall n \<longleftrightarrow> is_type n ''CallExpression'' \<and> is_type (fld n ''callee'') ''Identifier''"

definition isMethodCall :: "node \<Rightarrow> bool" where
  "isMethodCall callExpr \<longleftrightarrow>
     is_type (fld callExpr ''callee'') ''MemberExpression'' \<and>
     \<not> truthy (fld (fld callExpr ''callee'') ''computed'') \<and>
     is_type (fld (fld callExpr ''callee'') ''property'') ''Identifier''"

definition isCallingMethod :: "node \<Rightarrow> nat \<Rightarrow> string list \<Rightarrow> bool" where
  "isCallingMethod callExpr arity methodNames \<longleftrightarrow>
     isMethodCall callExpr \<and> length (elems (fld callExpr ''arguments'')) = arity \<and>
     (case name_of (fld (fld callExpr ''callee'') ''property'') of
        None \<Rightarrow> False | Some s \<Rightarrow> s \<in> set methodNames)"

definition isNamespaceSpecifier :: "node \<Rightarrow> string \<Rightarrow> bool" where
  "isNamespaceSpecifier importDeclaration name =
     list_ex (\<lambda>s. is_type s ''ImportNamespaceSpecifier'' \<and> fld (fld s ''local'') ''name'' = JStr name)
       (elems (fld importDeclaration ''specifiers''))"

definition isDefaultSpecifier :: "node \<Rightarrow> string \<Rightarrow> bool" where
  "isDefaultSpecifier importDeclaration name =
     list_ex (\<lambda>s. is_type s ''ImportDefaultSpecifier'' \<and> fld (fld s ''local'') ''name'' = JStr name)
       (elems (fld importDeclaration ''specifiers''))"

definition isModuleExports :: "node \<Rightarrow> bool" where
  "isModuleExports n \<longleftrightarrow>
     is_type n ''MemberExpression'' \<and>
     is_type (fld n ''object'') ''Identifier'' \<and> fld (fld n ''object'') ''name'' = JStr ''module'' \<and>
     is_type (fld n ''property'') ''Identifier'' \<and> fld (fld n ''property'') ''name'' = JStr ''exports''"

definition isFunctionNode :: "node \<Rightarrow> bool" where
  "isFunctionNode n = type_in n FUNCTION_NODE_TYPES"

definition isLiteral :: "node \<Rightarrow> bool" where
  "isLiteral n \<longleftrightarrow> \<not> nullish n \<and> is_type n ''Literal''"

definition isNullLiteral :: "node \<Rightarrow> bool" where
  "isNullLiteral n \<longleftrightarrow> isLiteral n \<and> fld n ''value'' = JNull"

definition isFalseLiteral :: "node \<Rightarrow> bool" where
  "isFalseLiteral n \<longleftrightarrow> isLiteral n \<and> fld n ''value'' = JBool False"

definition isUndefined :: "node \<Rightarrow> bool" where
  "isUndefined n \<longleftrightarrow> is_type n ''Identifier'' \<and> fld n ''name'' = JStr ''undefined''"

definition isStringLiteral :: "node \<Rightarrow> bool" where
  "isStringLiteral n \<longleftrightarrow> isLiteral n \<and> (case fld n ''value'' of JStr _ \<Rightarrow> True | _ \<Rightarrow> False)"

definition isBooleanLiteral :: "node \<Rightarrow> bool" where
  "isBooleanLiteral n \<longleftrightarrow> isLiteral n \<and> (case fld n ''value'' of JBool _ \<Rightarrow> True | _ \<Rightarrow> False)"

definition isNumberLiteral :: "node \<Rightarrow> bool" where
  "isNumberLiteral n \<longleftrightarrow> isLiteral n \<and> (case fld n ''value'' of JNum _ \<Rightarrow> True | _ \<Rightarrow> False)"

definition isRegexLiteral :: "node \<Rightarrow> bool" where
  "isRegexLiteral n \<longleftrightarrow> is_type n ''Literal'' \<and> (case fld n ''value'' of JRegExp _ _ \<Rightarrow> True | _ \<Rightarrow> False)"

definition isDotNotation :: "node \<Rightarrow> bool" where
  "isDotNotation n \<longleftrightarrow> is_type n ''MemberExpression'' \<and> \<not> truthy (fld n ''computed'') \<and>
     is_type (fld n ''property'') ''Identifier''"

definition isIndexNotation :: "node \<Rightarrow> bool" where
  "isIndexNotation n \<longleftrightarrow> is_type n ''MemberExpression'' \<and> truthy (fld n ''computed'') \<and>
     isStringLiteral (fld n ''property'')"

definition isObjectDestructuring :: "node \<Rightarrow> bool" where
  "isObjectDestructuring n \<longleftrightarrow>
     is_type n ''VariableDeclarator'' \<and> is_type (fld n ''id'') ''ObjectPattern'' \<or>
     is_type n ''AssignmentExpression'' \<and> is_type (fld n ''left'') ''ObjectPattern''"

definition isStaticTemplateLiteral :: "node \<Rightarrow> bool" where
  "isStaticTemplateLiteral n \<longleftrightarrow> is_type n ''TemplateLiteral'' \<and>
     length (elems (fld n ''expressions'')) = 0 \<and> length (elems (fld n ''quasis'')) = 1"

definition isThisExpression :: "node \<Rightarrow> bool" where
  "isThisExpression n = is_type n ''ThisExpression''"

definition isProperty :: "node \<Rightarrow> bool" where
  "isProperty n = is_type n ''Property''"

section \<open>References and variables\<close>

definition isReferenceTo :: "reference \<Rightarrow> node \<Rightarrow> bool" where
  "isReferenceTo ref n \<longleftrightarrow> is_type n ''Identifier'' \<and> strict_eq n (ref_identifier ref)"

function isMemberExpressionReference :: "node \<Rightarrow> reference \<Rightarrow> bool" where
  "isMemberExpressionReference lhs ref \<longleftrightarrow>
     is_type lhs ''MemberExpression'' \<and>
     (isReferenceTo ref (fld lhs ''object'') \<or>
      (if fld lhs ''object'' = JUndefined then False
       else isMemberExpressionReference (fld lhs ''object'') ref))"
  by auto
termination by (relation "measure (\<lambda>(n, _). size n)") (auto simp: size_fld_less)

declare isMemberExpressionReference.simps [simp del]

definition isElementWrite :: "node \<Rightarrow> reference \<Rightarrow> bool" where
  "isElementWrite statement ref =
     (if is_type (fld statement ''expression'') ''AssignmentExpression''
      then isMemberExpressionReference (fld (fld statement ''expression'') ''left'') ref else False)"

fun getVariableFromScope :: "scope option \<Rightarrow> string \<Rightarrow> variable option" where
  "getVariableFromScope None name = None"
| "getVariableFromScope (Some (Scope vs rs up)) name =
     (case List.find (\<lambda>v. var_name v = name) vs of
        Some v \<Rightarrow> Some v
      | None \<Rightarrow> getVariableFromScope up name)"

definition getVariableFromName :: "rule_context \<Rightarrow> string \<Rightarrow> variable option" where
  "getVariableFromName ctx name = getVariableFromScope (rx_scope ctx) name"

definition getUniqueWriteReference :: "variable option \<Rightarrow> node option" where
  "getUniqueWriteReference variable =
     (case variable of
        None \<Rightarrow> None
      | Some v \<Rightarrow>
          (case filter ref_isWrite (var_references v) of
             [r] \<Rightarrow> ref_writeExpr r
           | _ \<Rightarrow> None))"

definition getUniqueWriteUsage :: "rule_context \<Rightarrow> string \<Rightarrow> node option" where
  "getUniqueWriteUsage ctx name = getUniqueWriteReference (getVariableFromName ctx name)"

text \<open>The unique write of the variable that an identifier names.\<close>

definition usage_of :: "rule_context \<Rightarrow> node \<Rightarrow> node option" where
  "usage_of ctx n = (case name_of n of None \<Rightarrow> None | Some name \<Rightarrow> getUniqueWriteUsage ctx name)"

partial_function (option) getUniqueWriteUsageOrNode ::
  "rule_context \<Rightarrow> node \<Rightarrow> bool \<Rightarrow> node option" where
  "getUniqueWriteUsageOrNode ctx n recursive =
     (if is_type n ''Identifier'' then
        (case usage_of ctx n of
           Some usage \<Rightarrow> if recursive then getUniqueWriteUsageOrNode ctx usage recursive else Some usage
         | None \<Rightarrow> Some n)
      else Some n)"

text \<open>The inner option is \<^verbatim>\<open>undefined\<close>.\<close>

partial_function (option) getValueOfExpression ::
  "rule_context \<Rightarrow> node \<Rightarrow> string \<Rightarrow> bool \<Rightarrow> node option option" where
  "getValueOfExpression ctx expr type recursive =
     (if \<not> truthy expr then Some None
      else if is_type expr type then Some (Some expr)
      else if is_type expr ''Identifier'' then
        (case usage_of ctx expr of
           None \<Rightarrow> Some None
         | Some usage \<Rightarrow>
             if is_type usage type then Some (Some usage)
             else if recursive then getValueOfExpression ctx usage type True
             else Some None)
      else Some None)"

declare getUniqueWriteUsageOrNode.simps [code] getValueOfExpression.simps [code]

definition getLhsVariable :: "rule_context \<Rightarrow> variable option" where
  "getLhsVariable ctx =
     (let parent = (if rx_ancestors ctx = [] then JUndefined else last (rx_ancestors ctx));
          formIdentifier =
            (if is_type parent ''VariableDeclarator'' \<and> is_type (fld parent ''id'') ''Identifier''
             then Some (fld parent ''id'')
             else if is_type parent ''AssignmentExpression'' \<and> is_type (fld parent ''left'') ''Identifier''
             then Some (fld parent ''left'') else None)
      in case formIdentifier of
           None \<Rightarrow> None
         | Some i \<Rightarrow> (case name_of i of None \<Rightarrow> None | Some name \<Rightarrow> getVariableFromName ctx name))"

section \<open>Arguments, patterns and properties\<close>

definition flatMap :: "'a list \<Rightarrow> ('a \<Rightarrow> 'b list) \<Rightarrow> 'b list" where
  "flatMap xs f = fold (\<lambda>x acc. acc @ f x) xs []"

definition writingMethods :: "string list" where
  "writingMethods = [''copyWithin'', ''fill'', ''pop'', ''push'', ''reverse'', ''set'', ''shift'', ''sort'',
     ''splice'', ''unshift'', ''add'', ''clear'', ''delete'']"

definition collectionConstructor :: "string list" where
  "collectionConstructor = [''Array'', ''Map'', ''Set'', ''WeakSet'', ''WeakMap'']"

definition sortLike :: "string list" where
  "sortLike = [''sort'', [CHR 0x22] @ ''sort'' @ [CHR 0x22], [CHR 0x27] @ ''sort'' @ [CHR 0x27]]"

text \<open>
  \<^verbatim>\<open>flattenArgs\<close> maps the helper \<^verbatim>\<open>recHelper\<close> over a list of nodes; both are this
  function on lists.
\<close>

partial_function (option) flattenArgs :: "rule_context \<Rightarrow> node list \<Rightarrow> node list option" where
  "flattenArgs ctx args =
     (case args of
        [] \<Rightarrow> Some []
      | arg # rest \<Rightarrow>
          Option.bind (getUniqueWriteUsageOrNode ctx arg False) (\<lambda>n.
          Option.bind (if is_type n ''ArrayExpression'' then flattenArgs ctx (elems (fld n ''elements''))
                       else Some [n]) (\<lambda>flat.
          Option.bind (flattenArgs ctx rest) (\<lambda>flats. Some (flat @ flats)))))"

declare flattenArgs.simps [code]

text \<open>The accumulator of \<^verbatim>\<open>resolveIdentifiersAcc\<close> is only appended to.\<close>

function resolveIdentifiers :: "node \<Rightarrow> bool \<Rightarrow> node list" where
  "resolveIdentifiers n acceptShorthand =
     (if \<not> truthy n then []
      else if is_type n ''Identifier'' then [n]
      else if is_type n ''ObjectPattern'' then
        concat (map (\<lambda>p. resolveIdentifiers p acceptShorthand) (elems (fld n ''properties'')))
      else if is_type n ''ArrayPattern'' then
        concat (map (\<lambda>e. if truthy e then resolveIdentifiers e acceptShorthand else [])
          (elems (fld n ''elements'')))
      else if is_type n ''Property'' then
        (if (acceptShorthand \<or> \<not> truthy (fld n ''shorthand'')) \<and> truthy (fld n ''value'')
         then resolveIdentifiers (fld n ''value'') acceptShorthand else [])
      else if is_type n ''RestElement'' \<and> truthy (fld n ''argument'') then
        resolveIdentifiers (fld n ''argument'') acceptShorthand
      else if is_type n ''AssignmentPattern'' \<and> truthy (fld n ''left'') then
        resolveIdentifiers (fld n ''left'') acceptShorthand
      else if is_type n ''TSParameterProperty'' \<and> truthy (fld n ''parameter'') then
        resolveIdentifiers (fld n ''parameter'') acceptShorthand
      else [])"
  by auto
termination
  by (relation "measure (\<lambda>(n, _). size n)")
    (auto intro: size_elems_fld_less size_fld_less dest: truthy_not_nullish simp: nullish_def)

declare resolveIdentifiers.simps [simp del]

definition getObjectExpressionProperty :: "node \<Rightarrow> string \<Rightarrow> node option" where
  "getObjectExpressionProperty n propertyKey =
     (if is_type n ''ObjectExpression'' then
        (case rev (filter (\<lambda>p. is_type p ''Property'' \<and>
             (isIdentifier (fld p ''key'') [propertyKey] \<or>
              isLiteral (fld p ''key'') \<and> fld (fld p ''key'') ''value'' = JStr propertyKey))
           (elems (fld n ''properties''))) of
           [] \<Rightarrow> None
         | p # _ \<Rightarrow> Some p)
      else None)"

definition getPropertyWithValue :: "rule_context \<Rightarrow> node \<Rightarrow> string \<Rightarrow> jsval \<Rightarrow> node option option" where
  "getPropertyWithValue ctx objectExpression propertyName propertyValue =
     (case getObjectExpressionProperty objectExpression propertyName of
        None \<Rightarrow> Some None
      | Some maybeProperty \<Rightarrow>
          Option.bind (getValueOfExpression ctx (fld maybeProperty ''value'') ''Literal'' False)
            (\<lambda>maybePropertyValue.
               case maybePropertyValue of
                 None \<Rightarrow> Some (if propertyValue = JUndefined then Some maybeProperty else None)
               | Some v \<Rightarrow>
                   Some (if strict_eq (fld v ''value'') propertyValue then Some maybeProperty else None)))"

text \<open>A property that was found, one that is certainly absent (\<^verbatim>\<open>null\<close>), or no answer (\<^verbatim>\<open>undefined\<close>).\<close>

datatype property_result = PropertyFound node | PropertyNull | PropertyUndefined

definition is_property_with_key :: "node \<Rightarrow> string \<Rightarrow> bool" where
  "is_property_with_key n key \<longleftrightarrow> is_type n ''Property'' \<and>
     (isIdentifier (fld n ''key'') [key] \<or>
      isStringLiteral (fld n ''key'') \<and> fld (fld n ''key'') ''value'' = JStr key)"

partial_function (option) getProperty_loop ::
  "rule_context \<Rightarrow> string \<Rightarrow> node list \<Rightarrow> bool \<Rightarrow> property_result option" where
  "getProperty_loop ctx key properties unresolvedSpreadElement =
     (case properties of
        [] \<Rightarrow> Some (if unresolvedSpreadElement then PropertyUndefined else PropertyNull)
      | p # ps \<Rightarrow>
          if is_property_with_key p key then Some (PropertyFound p)
          else if is_type p ''SpreadElement'' then
            Option.bind (getValueOfExpression ctx (fld p ''argument'') ''ObjectExpression'' False)
              (\<lambda>props. case props of
                 Some expr \<Rightarrow>
                   Option.bind (getProperty_loop ctx key (rev (elems (fld expr ''properties''))) False)
                     (\<lambda>r. if r \<noteq> PropertyNull then Some r
                           else getProperty_loop ctx key ps unresolvedSpreadElement)
               | None \<Rightarrow> getProperty_loop ctx key ps True)
          else getProperty_loop ctx key ps unresolvedSpreadElement)"

declare getProperty_loop.simps [code]

definition getProperty :: "node \<Rightarrow> string \<Rightarrow> rule_context \<Rightarrow> property_result option" where
  "getProperty expr key ctx = getProperty_loop ctx key (rev (elems (fld expr ''properties''))) False"

definition resolveFromFunctionReference :: "rule_context \<Rightarrow> node \<Rightarrow> node option" where
  "resolveFromFunctionReference ctx functionIdentifier =
     List.find (\<lambda>_. True) (List.map_filter (\<lambda>sc.
       case List.find (\<lambda>r. strict_eq (ref_identifier r) functionIdentifier) (scope_references sc) of
         None \<Rightarrow> None
       | Some r \<Rightarrow> (case Option.bind (ref_resolved r) (rx_variable ctx) of
           None \<Rightarrow> None
         | Some v \<Rightarrow> (case var_defs v of
             [d] \<Rightarrow> if def_type d = ''FunctionName'' then Some (def_node d) else None
           | _ \<Rightarrow> None))) (rx_scopes ctx))"

definition resolveFunction :: "rule_context \<Rightarrow> node \<Rightarrow> node option" where
  "resolveFunction ctx n =
     (if isFunctionNode n then Some n
      else if is_type n ''Identifier'' then resolveFromFunctionReference ctx n
      else None)"

text \<open>What a rule reports: the node and the text of the message.\<close>

record report =
  rep_node :: node
  rep_message :: string

definition checkSensitiveCall ::
  "rule_context \<Rightarrow> node \<Rightarrow> nat \<Rightarrow> string \<Rightarrow> bool \<Rightarrow> string \<Rightarrow> report list res option" where
  "checkSensitiveCall ctx callExpression sensitiveArgumentIndex sensitiveProperty sensitivePropertyValue message =
     (let args = elems (fld callExpression ''arguments'') in
      if length args < sensitiveArgumentIndex + 1 then Some (Inr [])
      else Option.bind
        (getValueOfExpression ctx (args ! sensitiveArgumentIndex) ''ObjectExpression'' False) (\<lambda>opts.
        case opts of
          None \<Rightarrow> Some (Inr [])
        | Some obj \<Rightarrow>
            Option.bind (getPropertyWithValue ctx obj sensitiveProperty (JBool sensitivePropertyValue))
              (\<lambda>unsafeProperty.
                 case unsafeProperty of
                   None \<Rightarrow> Some (Inr [])
                 | Some p \<Rightarrow> Some (bind_res (toEncodedMessage message [node_loc p] None None)
                     (\<lambda>m. Inr [\<lparr>rep_node = fld callExpression ''callee'', rep_message = m\<rparr>])))))"

section \<open>Ancestors\<close>

text \<open>The parser sets \<^verbatim>\<open>parent\<close> on every node; it is a parameter here.\<close>

partial_function (option) ancestors_from ::
  "(node \<Rightarrow> node option) \<Rightarrow> string list \<Rightarrow> node option \<Rightarrow> node list option" where
  "ancestors_from parent boundaryTypes currentNode =
     (case currentNode of
        None \<Rightarrow> Some []
      | Some n \<Rightarrow>
          if type_in n boundaryTypes then Some [n]
          else Option.bind (ancestors_from parent boundaryTypes (parent n)) (\<lambda>chain. Some (n # chain)))"

declare ancestors_from.simps [code]

definition ancestorsChain :: "(node \<Rightarrow> node option) \<Rightarrow> node \<Rightarrow> string list \<Rightarrow> node list option" where
  "ancestorsChain parent n boundaryTypes = ancestors_from parent boundaryTypes (parent n)"

definition localAncestorsChain :: "(node \<Rightarrow> node option) \<Rightarrow> node \<Rightarrow> node list option" where
  "localAncestorsChain parent n = ancestorsChain parent n functionLike"

definition findFirstMatchingLocalAncestor ::
  "(node \<Rightarrow> node option) \<Rightarrow> node \<Rightarrow> (node \<Rightarrow> bool) \<Rightarrow> node option option" where
  "findFirstMatchingLocalAncestor parent n predicate =
     map_option (List.find predicate) (localAncestorsChain parent n)"

definition findFirstMatchingAncestor ::
  "(node \<Rightarrow> node option) \<Rightarrow> node \<Rightarrow> (node \<Rightarrow> bool) \<Rightarrow> node option option" where
  "findFirstMatchingAncestor parent n predicate =
     map_option (List.find predicate) (ancestorsChain parent n [])"

definition getParent :: "rule_context \<Rightarrow> node option" where
  "getParent ctx = (if rx_ancestors ctx = [] then None else Some (last (rx_ancestors ctx)))"

section \<open>Correctness\<close>

subsection \<open>Following unique writes\<close>

text \<open>One step from an identifier to the expression written to its variable.\<close>

definition follow :: "rule_context \<Rightarrow> node \<Rightarrow> node option" where
  "follow ctx n = (if is_type n ''Identifier'' then usage_of ctx n else None)"

inductive resolves :: "rule_context \<Rightarrow> node \<Rightarrow> node \<Rightarrow> bool" for ctx where
  resolves_stop: "follow ctx n = None \<Longrightarrow> resolves ctx n n"
| resolves_step: "follow ctx n = Some m \<Longrightarrow> resolves ctx m r \<Longrightarrow> resolves ctx n r"

inductive_cases resolvesE: "resolves ctx n r"

lemma usageOrNode_rec:
  "getUniqueWriteUsageOrNode ctx n True =
     (case follow ctx n of None \<Rightarrow> Some n | Some m \<Rightarrow> getUniqueWriteUsageOrNode ctx m True)"
  by (subst getUniqueWriteUsageOrNode.simps) (simp add: follow_def split: option.split)

lemma usageOrNode_once:
  "getUniqueWriteUsageOrNode ctx n False = Some (case follow ctx n of None \<Rightarrow> n | Some m \<Rightarrow> m)"
  by (subst getUniqueWriteUsageOrNode.simps) (simp add: follow_def split: option.split)

lemma resolves_returns: "resolves ctx n r \<Longrightarrow> getUniqueWriteUsageOrNode ctx n True = Some r"
  by (induction rule: resolves.induct) (subst usageOrNode_rec, simp)+

lemma returns_resolves:
  assumes "getUniqueWriteUsageOrNode ctx n recursive = Some r"
  shows "recursive \<longrightarrow> resolves ctx n r"
  using assms
proof (rule getUniqueWriteUsageOrNode.raw_induct [rotated])
  fix loop ctx n recursive r
  assume IH: "\<And>ctx n recursive r. loop ctx n recursive = Some r \<Longrightarrow> recursive \<longrightarrow> resolves ctx n r"
    and run: "(if is_type n ''Identifier'' then
        (case usage_of ctx n of
           None \<Rightarrow> Some n
         | Some usage \<Rightarrow> if recursive then loop ctx usage recursive else Some usage)
      else Some n) = Some r"
  show "recursive \<longrightarrow> resolves ctx n r"
  proof
    assume rec: "recursive"
    show "resolves ctx n r"
    proof (cases "follow ctx n")
      case None
      with run have "r = n" by (auto simp: follow_def split: if_splits option.splits)
      with None show ?thesis by (simp add: resolves_stop)
    next
      case (Some m)
      with run rec have "loop ctx m True = Some r" by (auto simp: follow_def split: if_splits)
      from IH [OF this] Some show ?thesis by (simp add: resolves_step)
    qed
  qed
qed

lemma resolves_acyclic: "resolves ctx n r \<Longrightarrow> \<not> (\<lambda>a b. follow ctx a = Some b)\<^sup>+\<^sup>+ n n"
proof (induction rule: resolves.induct)
  case (resolves_stop n)
  then show ?case by (auto dest: tranclpD)
next
  case (resolves_step n m r)
  show ?case
  proof
    assume "(\<lambda>a b. follow ctx a = Some b)\<^sup>+\<^sup>+ n n"
    then obtain b where b: "follow ctx n = Some b" "(\<lambda>a b. follow ctx a = Some b)\<^sup>*\<^sup>* b n"
      by (auto dest: tranclpD)
    then have "b = m" using resolves_step(1) by simp
    with b resolves_step(1) have "(\<lambda>a b. follow ctx a = Some b)\<^sup>+\<^sup>+ m m"
      by (blast intro: rtranclp_into_tranclp1)
    with resolves_step(3) show False ..
  qed
qed

text \<open>
  C18: following unique writes to the end returns exactly when the chain of writes ends, and
  then with the end of that chain, which is no identifier with a unique write. When the writes
  form a cycle it never returns; a single step always does.
\<close>

theorem getUniqueWriteUsageOrNode_correct:
  "(getUniqueWriteUsageOrNode ctx n True = Some r \<longleftrightarrow> resolves ctx n r) \<and>
   (resolves ctx n r \<longrightarrow> follow ctx r = None) \<and>
   ((\<lambda>a b. follow ctx a = Some b)\<^sup>+\<^sup>+ n n \<longrightarrow> getUniqueWriteUsageOrNode ctx n True = None) \<and>
   (\<exists>m. getUniqueWriteUsageOrNode ctx n False = Some m)"
proof (intro conjI impI)
  show "getUniqueWriteUsageOrNode ctx n True = Some r \<longleftrightarrow> resolves ctx n r"
    using resolves_returns returns_resolves by blast
  show "follow ctx r = None" if "resolves ctx n r" using that by induction
  show "getUniqueWriteUsageOrNode ctx n True = None" if "(\<lambda>a b. follow ctx a = Some b)\<^sup>+\<^sup>+ n n"
    using that resolves_acyclic returns_resolves [of ctx n True]
    by (cases "getUniqueWriteUsageOrNode ctx n True") auto
  show "\<exists>m. getUniqueWriteUsageOrNode ctx n False = Some m" by (simp add: usageOrNode_once)
qed

definition identifier_node :: "nat \<Rightarrow> string \<Rightarrow> node" where
  "identifier_node i name = JObj i None None [(''type'', JStr ''Identifier''), (''name'', JStr name)]"

text \<open>The scope of \<^verbatim>\<open>var x = x\<close>, or of \<^verbatim>\<open>let x = init\<close> in general.\<close>

definition context_of_write :: "string \<Rightarrow> node \<Rightarrow> rule_context" where
  "context_of_write name init = \<lparr>rx_scope = Some (Scope [\<lparr>var_id = 0, var_name = name, var_defs = [],
       var_references = [\<lparr>ref_id = 0, ref_identifier = identifier_node 0 name, ref_isRead = False,
         ref_isWrite = True, ref_writeExpr = Some init, ref_resolved = Some 0\<rparr>],
       var_writeable = None\<rparr>] [] None),
     rx_ancestors = [], rx_source = example_source [], rx_scopes = [], rx_variable = (\<lambda>_. None)\<rparr>"

theorem getUniqueWriteUsageOrNode_correct_witness:
  "getUniqueWriteUsageOrNode (context_of_write ''x'' (identifier_node 1 ''x'')) (identifier_node 1 ''x'') True = None \<and>
   getUniqueWriteUsageOrNode (context_of_write ''x'' JNull) (identifier_node 1 ''x'') True = Some JNull"
proof
  have "follow (context_of_write ''x'' (identifier_node 1 ''x'')) (identifier_node 1 ''x'') = Some (identifier_node 1 ''x'')"
    by code_simp
  then show "getUniqueWriteUsageOrNode (context_of_write ''x'' (identifier_node 1 ''x'')) (identifier_node 1 ''x'') True = None"
    using getUniqueWriteUsageOrNode_correct [of "context_of_write ''x'' (identifier_node 1 ''x'')" "identifier_node 1 ''x''"]
    by (blast intro: tranclp.r_into_trancl)
  have "resolves (context_of_write ''x'' JNull) (identifier_node 1 ''x'') JNull"
    by (rule resolves_step [of _ _ JNull], code_simp, rule resolves_stop, code_simp)
  then show "getUniqueWriteUsageOrNode (context_of_write ''x'' JNull) (identifier_node 1 ''x'') True = Some JNull"
    using getUniqueWriteUsageOrNode_correct by blast
qed

text \<open>The innermost scope that declares a name decides.\<close>

fun scope_chain :: "scope option \<Rightarrow> scope list" where
  "scope_chain None = []"
| "scope_chain (Some (Scope vs rs up)) = Scope vs rs up # scope_chain up"

lemma getVariableFromScope_chain:
  "getVariableFromScope sc name = List.find (\<lambda>v. var_name v = name) (concat (map scope_variables (scope_chain sc)))"
  by (induction sc name rule: getVariableFromScope.induct) (auto simp: find_append split: option.split)

subsection \<open>Properties of object expressions\<close>

lemma getProperty_loop_no_spread:
  assumes "\<forall>p \<in> set ps. \<not> is_type p ''SpreadElement''"
  shows "getProperty_loop ctx key ps unresolved =
    Some (case List.find (\<lambda>p. is_property_with_key p key) ps of
      Some p \<Rightarrow> PropertyFound p
    | None \<Rightarrow> if unresolved then PropertyUndefined else PropertyNull)"
  using assms
proof (induction ps)
  case Nil
  show ?case by (subst getProperty_loop.simps) simp
next
  case (Cons p ps)
  then show ?case by (subst getProperty_loop.simps) simp
qed

lemma find_hd_filter: "List.find P xs = (case filter P xs of [] \<Rightarrow> None | x # _ \<Rightarrow> Some x)"
  by (induction xs) auto

text \<open>
  On an object expression without spread elements, \<^verbatim>\<open>getProperty\<close> returns, it agrees
  with \<^verbatim>\<open>getObjectExpressionProperty\<close>, which it is meant to replace, and both give the last
  property of the key.
\<close>

lemma getProperty_agrees:
  assumes "is_type expr ''ObjectExpression''"
    and "\<forall>p \<in> set (elems (fld expr ''properties'')). \<not> is_type p ''SpreadElement''"
  shows "getProperty expr key ctx =
      Some (case getObjectExpressionProperty expr key of None \<Rightarrow> PropertyNull | Some p \<Rightarrow> PropertyFound p) \<and>
    (\<forall>p. getProperty expr key ctx = Some (PropertyFound p) \<longleftrightarrow>
      (\<exists>us vs. elems (fld expr ''properties'') = us @ p # vs \<and> is_property_with_key p key \<and>
         (\<forall>v \<in> set vs. \<not> is_property_with_key v key)))"
proof
  let ?ps = "elems (fld expr ''properties'')"
  have keys: "is_property_with_key p key \<longleftrightarrow> is_type p ''Property'' \<and>
      (isIdentifier (fld p ''key'') [key] \<or> isLiteral (fld p ''key'') \<and> fld (fld p ''key'') ''value'' = JStr key)" for p
    by (auto simp: is_property_with_key_def isStringLiteral_def)
  have run: "getProperty expr key ctx =
      Some (case List.find (\<lambda>p. is_property_with_key p key) (rev ?ps) of Some p \<Rightarrow> PropertyFound p | None \<Rightarrow> PropertyNull)"
    unfolding getProperty_def using assms(2) by (simp add: getProperty_loop_no_spread)
  have "getObjectExpressionProperty expr key = List.find (\<lambda>p. is_property_with_key p key) (rev ?ps)"
    using assms(1) by (simp add: getObjectExpressionProperty_def find_hd_filter rev_filter keys)
  then show "getProperty expr key ctx =
      Some (case getObjectExpressionProperty expr key of None \<Rightarrow> PropertyNull | Some p \<Rightarrow> PropertyFound p)"
    by (simp add: run split: option.split)
  have "getProperty expr key ctx = Some (PropertyFound p) \<longleftrightarrow>
      List.find (\<lambda>p. is_property_with_key p key) (rev ?ps) = Some p" for p
    by (simp add: run split: option.split)
  then show "\<forall>p. getProperty expr key ctx = Some (PropertyFound p) \<longleftrightarrow>
      (\<exists>us vs. ?ps = us @ p # vs \<and> is_property_with_key p key \<and> (\<forall>v \<in> set vs. \<not> is_property_with_key v key))"
    by (simp only: find_rev_Some_iff) simp
qed

definition property_node :: "nat \<Rightarrow> string \<Rightarrow> node \<Rightarrow> node" where
  "property_node i key v = JObj i None None [(''type'', JStr ''Property''), (''key'', identifier_node (i + 100) key),
     (''value'', v)]"

definition object_node :: "nat \<Rightarrow> node list \<Rightarrow> node" where
  "object_node i ps = JObj i None None [(''type'', JStr ''ObjectExpression''), (''properties'', JArr ps)]"

lemma getProperty_agrees_witness:
  "getProperty (object_node 0 [property_node 1 ''a'' JNull, property_node 2 ''a'' (JBool True)]) ''a''
     (context_of_write ''x'' JNull) = Some (PropertyFound (property_node 2 ''a'' (JBool True)))"
proof -
  let ?e = "object_node 0 [property_node 1 ''a'' JNull, property_node 2 ''a'' (JBool True)]"
  have "is_type ?e ''ObjectExpression''"
    "\<forall>p \<in> set (elems (fld ?e ''properties'')). \<not> is_type p ''SpreadElement''"
    by (simp_all add: object_node_def property_node_def is_type_def)
  from getProperty_agrees [OF this, of "''a''" "context_of_write ''x'' JNull", THEN conjunct1] show ?thesis
    by (simp add: object_node_def property_node_def getObjectExpressionProperty_def is_type_def
        isIdentifier_def identifier_node_def)
qed

subsection \<open>Patterns\<close>

definition pattern_children :: "node \<Rightarrow> bool \<Rightarrow> node list" where
  "pattern_children n b = filter truthy
     (if is_type n ''ObjectPattern'' then elems (fld n ''properties'')
      else if is_type n ''ArrayPattern'' then elems (fld n ''elements'')
      else if is_type n ''Property'' then (if b \<or> \<not> truthy (fld n ''shorthand'') then [fld n ''value''] else [])
      else if is_type n ''RestElement'' then [fld n ''argument'']
      else if is_type n ''AssignmentPattern'' then [fld n ''left'']
      else if is_type n ''TSParameterProperty'' then [fld n ''parameter''] else [])"

lemma resolveIdentifiers_falsy: "\<not> truthy n \<Longrightarrow> resolveIdentifiers n b = []"
  by (subst resolveIdentifiers.simps) simp

lemma concat_map_filter_truthy:
  "concat (map (\<lambda>m. resolveIdentifiers m b) (filter truthy ms)) = concat (map (\<lambda>m. resolveIdentifiers m b) ms)"
  by (induction ms) (auto simp: resolveIdentifiers_falsy)

lemma concat_map_if_truthy:
  "concat (map (\<lambda>m. if truthy m then resolveIdentifiers m b else []) ms) =
     concat (map (\<lambda>m. resolveIdentifiers m b) ms)"
  by (induction ms) (auto simp: resolveIdentifiers_falsy)

lemma resolveIdentifiers_children:
  "resolveIdentifiers n b =
     (if \<not> truthy n then [] else if is_type n ''Identifier'' then [n]
      else concat (map (\<lambda>m. resolveIdentifiers m b) (pattern_children n b)))"
proof (cases "\<not> truthy n \<or> is_type n ''Identifier''")
  case True
  then show ?thesis by (subst resolveIdentifiers.simps) auto
next
  case False
  have other: "\<not> is_type n s" if "is_type n t" "s \<noteq> t" for s t using that is_type_unique by blast
  from False show ?thesis
    unfolding pattern_children_def concat_map_filter_truthy
    by (subst resolveIdentifiers.simps)
      (simp add: concat_map_if_truthy resolveIdentifiers_falsy other)
qed

lemma pattern_children_smaller: "m \<in> set (pattern_children n b) \<Longrightarrow> truthy m \<and> size m < size n"
  by (auto simp: pattern_children_def split: if_splits intro: size_elems_fld_less intro!: size_fld_less)

lemma pattern_children_shorthand: "subseq (pattern_children n False) (pattern_children n True)"
  by (auto simp: pattern_children_def)

lemma resolveIdentifiers_sound:
  "i \<in> set (resolveIdentifiers n b) \<Longrightarrow> is_type i ''Identifier'' \<and> size i \<le> size n"
proof (induction "size n" arbitrary: n rule: less_induct)
  case less
  show ?case
  proof (cases "\<not> truthy n \<or> is_type n ''Identifier''")
    case True
    with less.prems show ?thesis by (subst (asm) resolveIdentifiers_children) (auto split: if_splits)
  next
    case False
    with less.prems obtain m where "m \<in> set (pattern_children n b)" "i \<in> set (resolveIdentifiers m b)"
      by (subst (asm) resolveIdentifiers_children) auto
    with less.hyps [of m] pattern_children_smaller [of m n b] show ?thesis by auto
  qed
qed

lemma subseq_concat_map:
  assumes "subseq xs ys" "\<And>x. x \<in> set xs \<Longrightarrow> subseq (f x) (g x)"
  shows "subseq (concat (map f xs)) (concat (map g ys))"
  using assms
proof (induction rule: list_emb.induct)
  case (list_emb_Cons xs ys y)
  then show ?case by (simp add: list_emb_append2)
next
  case (list_emb_Cons2 x y xs ys)
  then show ?case by (simp add: list_emb_append_mono)
qed simp

lemma resolveIdentifiers_shorthand:
  "subseq (resolveIdentifiers n False) (resolveIdentifiers n True)"
proof (induction "size n" arbitrary: n rule: less_induct)
  case less
  have "subseq (concat (map (\<lambda>m. resolveIdentifiers m False) (pattern_children n False)))
      (concat (map (\<lambda>m. resolveIdentifiers m True) (pattern_children n True)))"
    using less pattern_children_smaller by (intro subseq_concat_map pattern_children_shorthand) blast
  then show ?case by (subst (1 2) resolveIdentifiers_children) simp
qed

text \<open>
  The identifiers that a pattern binds are identifier nodes within it, and leaving out
  shorthand properties only drops some of them and keeps the order of the others.
\<close>

lemma resolveIdentifiers_correct:
  "(\<forall>i. i \<in> set (resolveIdentifiers n b) \<longrightarrow> is_type i ''Identifier'' \<and> size i \<le> size n) \<and>
   subseq (resolveIdentifiers n False) (resolveIdentifiers n True)"
  using resolveIdentifiers_sound resolveIdentifiers_shorthand by blast

lemma resolveIdentifiers_correct_witness:
  "resolveIdentifiers (identifier_node 1 ''x'') True = [identifier_node 1 ''x''] \<and>
   is_type (identifier_node 1 ''x'') ''Identifier''"
proof -
  have r: "resolveIdentifiers (identifier_node 1 ''x'') True = [identifier_node 1 ''x'']"
    by (subst resolveIdentifiers_children) (simp add: identifier_node_def is_type_def)
  with resolveIdentifiers_correct [of "identifier_node 1 ''x''" True] show ?thesis by simp
qed

end
