(* ===== verification/Module_Names.thy ===== *)
theory Module_Names
  imports Ast_Helpers
begin

text \<open>
  Imports, requires and fully qualified names:
  \<^verbatim>\<open>src/linting/eslint/rules/helpers/module.ts\<close>, and \<^verbatim>\<open>isUnresolved\<close> of \<^verbatim>\<open>ast.ts\<close>, which
  uses them. The scope a variable belongs to (\<^verbatim>\<open>variable.scope\<close>) is a parameter. The array
  \<^verbatim>\<open>fqn\<close>, which the code changes in place, is returned with the results.
\<close>

section \<open>Text\<close>

text \<open>\<^verbatim>\<open>s.split(c)\<close> and \<^verbatim>\<open>parts.join(c)\<close> for a single character.\<close>

fun split_on :: "char \<Rightarrow> string \<Rightarrow> string list" where
  "split_on c [] = [[]]"
| "split_on c (d # ds) =
     (if d = c then [] # split_on c ds
      else case split_on c ds of [] \<Rightarrow> [[d]] | w # ws \<Rightarrow> (d # w) # ws)"

fun join_with :: "char \<Rightarrow> string list \<Rightarrow> string" where
  "join_with c [] = []"
| "join_with c [w] = w"
| "join_with c (w # v # ws) = w @ c # join_with c (v # ws)"

lemma split_on_not_Nil [simp]: "split_on c s \<noteq> []"
  by (induction s) (auto split: list.split)

lemma join_split: "join_with c (split_on c s) = s"
proof (induction s)
  case (Cons d ds)
  then show ?case
    by (cases "split_on c ds"; cases "tl (split_on c ds)") auto
qed simp

section \<open>Imports and requires\<close>

definition getImportDeclarations :: "rule_context \<Rightarrow> node list" where
  "getImportDeclarations ctx =
     (let program = sc_ast (rx_source ctx) in
      if fld program ''sourceType'' = JStr ''module''
      then filter (\<lambda>n. is_type n ''ImportDeclaration'') (elems (fld program ''body'')) else [])"

definition isRequire :: "node \<Rightarrow> bool" where
  "isRequire n \<longleftrightarrow> is_type n ''CallExpression'' \<and> is_type (fld n ''callee'') ''Identifier'' \<and>
     fld (fld n ''callee'') ''name'' = JStr ''require'' \<and> length (elems (fld n ''arguments'')) = 1"

definition getRequireCalls :: "rule_context \<Rightarrow> node list" where
  "getRequireCalls ctx =
     concat (map (\<lambda>sc. concat (map (\<lambda>v. concat (map (\<lambda>d.
       let init = fld (def_node d) ''init'' in
       if def_type d = ''Variable'' \<and> truthy init then
         if isRequire init then [init]
         else if is_type init ''MemberExpression'' \<and> isRequire (fld init ''object'')
         then [fld init ''object''] else []
       else []) (var_defs v))) (scope_variables sc))) (rx_scopes ctx))"

definition getModuleNameFromRequire :: "node \<Rightarrow> node option" where
  "getModuleNameFromRequire n =
     (if isRequire n then
        let moduleName = elems (fld n ''arguments'') ! 0 in
        if is_type moduleName ''Literal'' then Some moduleName else None
      else None)"

definition string_value :: "node option \<Rightarrow> string option" where
  "string_value n = (case n of None \<Rightarrow> None | Some m \<Rightarrow> (case fld m ''value'' of JStr s \<Rightarrow> Some s | _ \<Rightarrow> None))"

section \<open>Reduction\<close>

text \<open>\<^verbatim>\<open>undefined\<close> is joined as the empty text.\<close>

definition text_of :: "jsval \<Rightarrow> string" where
  "text_of v = (case v of JStr s \<Rightarrow> s | _ \<Rightarrow> [])"

definition property_qualifier :: "node \<Rightarrow> string list" where
  "property_qualifier p =
     (if is_type p ''Literal'' \<and> string_value (Some p) \<noteq> None then [text_of (fld p ''value'')]
      else if is_type p ''Identifier'' then [text_of (fld p ''name'')] else [])"

text \<open>
  The part of a node to go on with, and the qualifiers to put in front; \<open>None\<close> ends the
  loop.
\<close>

definition reduce_once :: "node \<Rightarrow> (node \<times> string list) option" where
  "reduce_once n =
     (if is_type n ''MemberExpression'' then
        Some (fld n ''object'', property_qualifier (fld n ''property''))
      else if is_type n ''CallExpression'' \<and> getModuleNameFromRequire n = None then
        Some (fld n ''callee'', [])
      else if is_type n ''NewExpression'' then Some (fld n ''callee'', [])
      else if is_type n ''ChainExpression'' then Some (fld n ''expression'', [])
      else if is_type n ''TSNonNullExpression'' then Some (fld n ''expression'', [])
      else if is_type n ''TSQualifiedName'' then
        Some (fld n ''left'', [text_of (fld (fld n ''right'') ''name'')])
      else None)"

lemma reduce_once_size: "reduce_once n = Some (m, qs) \<Longrightarrow> m \<noteq> JUndefined \<Longrightarrow> size m < size n"
  by (auto simp: reduce_once_def split: if_splits intro!: size_fld_less)

function reduceTo :: "string \<Rightarrow> node \<Rightarrow> string list \<Rightarrow> node \<times> string list" where
  "reduceTo type n fqn =
     (if is_type n type then (n, fqn)
      else case reduce_once n of
        None \<Rightarrow> (n, fqn)
      | Some (m, qs) \<Rightarrow> if m = JUndefined then (m, qs @ fqn) else reduceTo type m (qs @ fqn))"
  by pat_completeness auto
termination
  by (relation "measure (\<lambda>(_, n, _). size n)") (auto simp: reduce_once_size)

declare reduceTo.simps [simp del]

definition reduceToIdentifier :: "node \<Rightarrow> string list \<Rightarrow> node \<times> string list" where
  "reduceToIdentifier n fqn = reduceTo ''Identifier'' n fqn"

section \<open>Fully qualified names\<close>

definition removeNodePrefixIfExists :: "string option \<Rightarrow> string option" where
  "removeNodePrefixIfExists fqn =
     (case fqn of
        None \<Rightarrow> None
      | Some s \<Rightarrow> if starts_with s ''node:'' then Some (drop (length ''node:'') s) else Some s)"

text \<open>
  A call either answers (\<open>None\<close> is \<^verbatim>\<open>null\<close>) or goes on with another node, the qualifiers so
  far, the scope of a variable and the variables it has visited.
\<close>

datatype fqn_step =
    FqnResult "string option"
  | FqnRecurse node "string list" "scope option" "nat list"

definition checkFqnFromImport ::
  "(nat \<Rightarrow> scope option) \<Rightarrow> variable \<Rightarrow> definition_of_variable \<Rightarrow> string list \<Rightarrow> nat list \<Rightarrow> fqn_step" where
  "checkFqnFromImport scopeOf variable d fqn visitedVars =
     (if def_type d = ''ImportBinding'' then
        let specifier = def_node d; importDeclaration = def_parent d;
            imported = fld (fld specifier ''imported'') ''name'';
            fqn = (if is_type specifier ''ImportSpecifier'' \<and> imported \<noteq> JStr ''default''
                   then text_of imported # fqn else fqn)
        in case string_value (Some (fld importDeclaration ''source'')) of
             Some source \<Rightarrow> FqnResult (Some (join_with (CHR ''.'') (split_on (CHR ''/'') source @ fqn)))
           | None \<Rightarrow>
               if is_type importDeclaration ''TSImportEqualsDeclaration'' then
                 let importedModule = fld importDeclaration ''moduleReference'' in
                 if is_type importedModule ''TSExternalModuleReference'' \<and>
                    is_type (fld importedModule ''expression'') ''Literal'' \<and>
                    string_value (Some (fld importedModule ''expression'')) \<noteq> None
                 then FqnResult (Some (join_with (CHR ''.'')
                   (split_on (CHR ''/'') (text_of (fld (fld importedModule ''expression'') ''value'')) @ fqn)))
                 else if is_type importedModule ''TSQualifiedName''
                 then FqnRecurse importedModule fqn (scopeOf (var_id variable)) (visitedVars @ [var_id variable])
                 else FqnResult None
               else FqnResult None
      else FqnResult None)"

definition checkFqnFromRequire ::
  "(nat \<Rightarrow> scope option) \<Rightarrow> variable \<Rightarrow> definition_of_variable \<Rightarrow> string list \<Rightarrow> nat list \<Rightarrow> fqn_step" where
  "checkFqnFromRequire scopeOf variable d fqn visitedVars =
     (case getUniqueWriteReference (Some variable) of
        None \<Rightarrow> FqnResult None
      | Some value \<Rightarrow>
          if def_type d = ''Variable'' then
            let fqn = (if is_type (fld (def_node d) ''id'') ''ObjectPattern'' then
                  fold (\<lambda>property fqn.
                    if strict_eq (fld property ''value'') (def_name d)
                    then text_of (fld (fld property ''key'') ''name'') # fqn else fqn)
                    (elems (fld (fld (def_node d) ''id'') ''properties'')) fqn
                  else fqn);
                (nodeToCheck, fqn) = reduceTo ''CallExpression'' value fqn
            in case string_value (getModuleNameFromRequire nodeToCheck) of
                 Some name \<Rightarrow> FqnResult (Some (join_with (CHR ''.'') (split_on (CHR ''/'') name @ fqn)))
               | None \<Rightarrow> FqnRecurse nodeToCheck fqn (scopeOf (var_id variable)) (visitedVars @ [var_id variable])
          else FqnResult None)"

text \<open>The body of \<^verbatim>\<open>getFullyQualifiedNameRaw\<close> up to its recursive calls.\<close>

definition fqn_body ::
  "(nat \<Rightarrow> scope option) \<Rightarrow> rule_context \<Rightarrow> node \<Rightarrow> string list \<Rightarrow> scope option \<Rightarrow> nat list \<Rightarrow> fqn_step" where
  "fqn_body scopeOf ctx n fqn sc visitedVars =
     (let (nodeToCheck, fqn) = reduceToIdentifier n fqn in
      if \<not> isIdentifier nodeToCheck [] then
        (if is_type n ''CallExpression'' then
           let (maybeRequire, qualifiers) = reduceTo ''CallExpression'' (fld n ''callee'') [] in
           (case string_value (getModuleNameFromRequire maybeRequire) of
              Some name \<Rightarrow> FqnResult (Some (join_with (CHR ''.'') (name # qualifiers)))
            | None \<Rightarrow> FqnResult None)
         else FqnResult None)
      else
        (case Option.bind (name_of nodeToCheck)
            (getVariableFromScope (if sc \<noteq> None then sc else rx_scope ctx)) of
           None \<Rightarrow> FqnResult None
         | Some variable \<Rightarrow>
             if 1 < length (var_defs variable) then FqnResult None
             else if var_writeable variable = Some False \<or> var_id variable \<in> set visitedVars then
               FqnResult (Some (join_with (CHR ''.'') (text_of (fld nodeToCheck ''name'') # fqn)))
             else
               (case List.find (\<lambda>d. def_type d \<in> {''ImportBinding'', ''Variable''}) (var_defs variable) of
                  None \<Rightarrow> FqnResult None
                | Some d \<Rightarrow>
                    (case checkFqnFromImport scopeOf variable d fqn visitedVars of
                       FqnResult None \<Rightarrow> checkFqnFromRequire scopeOf variable d fqn visitedVars
                     | r \<Rightarrow> r))))"

text \<open>
  A recursive call from an import that gives \<^verbatim>\<open>null\<close> is followed by
  \<^verbatim>\<open>checkFqnFromRequire\<close>, which gives \<^verbatim>\<open>null\<close> on the definition of an import.
\<close>

partial_function (option) getFullyQualifiedNameRaw ::
  "(nat \<Rightarrow> scope option) \<Rightarrow> rule_context \<Rightarrow> node \<Rightarrow> string list \<Rightarrow> scope option \<Rightarrow> nat list \<Rightarrow> string option option" where
  "getFullyQualifiedNameRaw scopeOf ctx n fqn sc visitedVars =
     (case fqn_body scopeOf ctx n fqn sc visitedVars of
        FqnResult r \<Rightarrow> Some r
      | FqnRecurse n' fqn' sc' visitedVars' \<Rightarrow> getFullyQualifiedNameRaw scopeOf ctx n' fqn' sc' visitedVars')"

declare getFullyQualifiedNameRaw.simps [code]

definition getFullyQualifiedName ::
  "(nat \<Rightarrow> scope option) \<Rightarrow> rule_context \<Rightarrow> node \<Rightarrow> string option option" where
  "getFullyQualifiedName scopeOf ctx n =
     map_option removeNodePrefixIfExists (getFullyQualifiedNameRaw scopeOf ctx n [] None [])"

function object_root :: "node \<Rightarrow> node" where
  "object_root n =
     (if is_type n ''MemberExpression'' \<and> fld n ''object'' \<noteq> JUndefined then object_root (fld n ''object'') else n)"
  by auto
termination by (relation "measure size") (auto simp: size_fld_less)

declare object_root.simps [simp del]

definition isUnresolved :: "(nat \<Rightarrow> scope option) \<Rightarrow> node \<Rightarrow> rule_context \<Rightarrow> bool option" where
  "isUnresolved scopeOf n ctx =
     (if \<not> truthy n then Some False
      else Option.bind (getFullyQualifiedName scopeOf ctx n) (\<lambda>fqn.
        if (fqn \<noteq> None \<and> fqn \<noteq> Some []) \<or> isUndefined n then Some False
        else
          let nodeToCheck = object_root n in
          if is_type nodeToCheck ''Identifier'' then
            (case Option.bind (name_of nodeToCheck) (getVariableFromName ctx) of
               None \<Rightarrow> Some True
             | Some variable \<Rightarrow> Some (filter ref_isWrite (var_references variable) = []))
          else Some False))"

section \<open>Correctness\<close>

subsection \<open>Termination\<close>

definition ids_in :: "nat set \<Rightarrow> scope option \<Rightarrow> bool" where
  "ids_in V sc \<longleftrightarrow> (\<forall>s \<in> set (scope_chain sc). \<forall>v \<in> set (scope_variables s). var_id v \<in> V)"

lemma found_in_chain:
  "getVariableFromScope sc name = Some v \<Longrightarrow> ids_in V sc \<Longrightarrow> var_id v \<in> V"
  by (auto simp: getVariableFromScope_chain ids_in_def dest!: find_SomeD)

lemma checkFqnFromImport_recurse:
  "checkFqnFromImport scopeOf v d fqn visited = FqnRecurse n' fqn' sc' visited' \<Longrightarrow>
   sc' = scopeOf (var_id v) \<and> visited' = visited @ [var_id v]"
  by (auto simp: checkFqnFromImport_def Let_def split: if_splits option.splits)

lemma checkFqnFromRequire_recurse:
  "checkFqnFromRequire scopeOf v d fqn visited = FqnRecurse n' fqn' sc' visited' \<Longrightarrow>
   sc' = scopeOf (var_id v) \<and> visited' = visited @ [var_id v]"
  by (auto simp: checkFqnFromRequire_def Let_def split: if_splits option.splits prod.splits)

lemma fqn_body_recurse:
  assumes "fqn_body scopeOf ctx n fqn sc visited = FqnRecurse n' fqn' sc' visited'"
  shows "\<exists>name v. getVariableFromScope (if sc \<noteq> None then sc else rx_scope ctx) name = Some v \<and>
    var_id v \<notin> set visited \<and> sc' = scopeOf (var_id v) \<and> visited' = visited @ [var_id v]"
proof -
  obtain nd q where red: "reduceToIdentifier n fqn = (nd, q)" by (cases "reduceToIdentifier n fqn")
  from assms red have "isIdentifier nd []"
    by (auto simp: fqn_body_def split: if_splits prod.splits option.splits)
  with assms red obtain v where v: "Option.bind (name_of nd)
      (getVariableFromScope (if sc \<noteq> None then sc else rx_scope ctx)) = Some v"
    by (auto simp: fqn_body_def split: option.splits)
  then obtain name where name: "getVariableFromScope (if sc \<noteq> None then sc else rx_scope ctx) name = Some v"
    by (auto simp: bind_eq_Some_conv)
  from assms red v \<open>isIdentifier nd []\<close> obtain d where fresh: "var_id v \<notin> set visited"
    and rest: "(case checkFqnFromImport scopeOf v d q visited of
        FqnResult None \<Rightarrow> checkFqnFromRequire scopeOf v d q visited | r \<Rightarrow> r) = FqnRecurse n' fqn' sc' visited'"
    by (auto simp: fqn_body_def split: if_splits option.splits)
  have "sc' = scopeOf (var_id v) \<and> visited' = visited @ [var_id v]"
  proof (cases "checkFqnFromImport scopeOf v d q visited")
    case (FqnResult r)
    with rest show ?thesis by (cases r) (auto dest: checkFqnFromRequire_recurse)
  next
    case (FqnRecurse a b c e)
    with rest show ?thesis by (auto dest: checkFqnFromImport_recurse)
  qed
  with name fresh show ?thesis by blast
qed

text \<open>
  C21: the search for a fully qualified name always returns when the program has finitely many
  variables: the visited variables stop every cycle of aliases.
\<close>

theorem getFullyQualifiedNameRaw_returns:
  assumes "finite V" and "ids_in V (rx_scope ctx)" and "\<forall>x. ids_in V (scopeOf x)" and "ids_in V sc"
  shows "\<exists>r. getFullyQualifiedNameRaw scopeOf ctx n fqn sc visited = Some r"
  using assms(4)
proof (induction "card (V - set visited)" arbitrary: n fqn sc visited rule: less_induct)
  case less
  show ?case
  proof (cases "fqn_body scopeOf ctx n fqn sc visited")
    case (FqnResult r)
    then show ?thesis by (subst getFullyQualifiedNameRaw.simps) simp
  next
    case (FqnRecurse n' fqn' sc' visited')
    from fqn_body_recurse [OF this] obtain name v where
      v: "getVariableFromScope (if sc \<noteq> None then sc else rx_scope ctx) name = Some v"
      and fresh: "var_id v \<notin> set visited" and next_: "sc' = scopeOf (var_id v)" "visited' = visited @ [var_id v]"
      by blast
    have "ids_in V (if sc \<noteq> None then sc else rx_scope ctx)" using less.prems assms(2) by simp
    with v have "var_id v \<in> V" by (rule found_in_chain)
    with fresh assms(1) next_ have "card (V - set visited') < card (V - set visited)"
      by (intro psubset_card_mono) auto
    with less.hyps assms(3) next_ FqnRecurse show ?thesis
      by (subst getFullyQualifiedNameRaw.simps) simp
  qed
qed

theorem getFullyQualifiedNameRaw_returns_witness:
  "\<exists>r. getFullyQualifiedNameRaw (\<lambda>_. None) (context_of_write ''x'' (identifier_node 1 ''x''))
     (identifier_node 1 ''x'') [] None [] = Some r"
  using getFullyQualifiedNameRaw_returns [of "{0}" "context_of_write ''x'' (identifier_node 1 ''x'')" "\<lambda>_. None" None]
  by (simp add: ids_in_def context_of_write_def)

subsection \<open>Names through requires\<close>

definition member_node :: "node \<Rightarrow> string \<Rightarrow> node" where
  "member_node obj p = JObj 0 None None [(''type'', JStr ''MemberExpression''), (''object'', obj),
     (''property'', identifier_node 0 p), (''computed'', JBool False)]"

fun member_chain :: "node \<Rightarrow> string list \<Rightarrow> node" where
  "member_chain n [] = n"
| "member_chain n (p # ps) = member_chain (member_node n p) ps"

lemma member_node_type [simp]: "is_type (member_node n p) t \<longleftrightarrow> t = ''MemberExpression''"
  by (auto simp: member_node_def is_type_def)

lemma reduce_member_node: "reduce_once (member_node n p) = Some (n, [p])"
  by (simp add: reduce_once_def) (simp add: member_node_def property_qualifier_def identifier_node_def
      is_type_def text_of_def)

lemma reduceTo_member_chain:
  assumes "type \<noteq> ''MemberExpression''" "n \<noteq> JUndefined"
  shows "reduceTo type (member_chain n ps) fqn = reduceTo type n (ps @ fqn)"
  using assms(2)
proof (induction ps arbitrary: n)
  case (Cons p ps)
  have "reduceTo type (member_chain n (p # ps)) fqn = reduceTo type (member_node n p) (ps @ fqn)"
    using Cons.IH [of "member_node n p"] by (simp add: member_node_def)
  also have "\<dots> = reduceTo type n (p # ps @ fqn)"
    using assms(1) Cons.prems by (subst reduceTo.simps) (simp add: reduce_member_node)
  finally show ?case by simp
qed simp

lemma require_is_call: "string_value (getModuleNameFromRequire req) = Some m \<Longrightarrow> is_type req ''CallExpression''"
  by (auto simp: string_value_def getModuleNameFromRequire_def isRequire_def split: option.splits if_splits)

text \<open>
  The documented case of a fully qualified name: when \<^verbatim>\<open>foo\<close> is declared once and its
  only value is a property chain on \<^verbatim>\<open>require('lib')\<close>, then \<^verbatim>\<open>foo.bar.baz\<close> is named by the
  parts of the module's path, the properties of that chain, and \<^verbatim>\<open>bar.baz\<close>, joined by dots and
  without a leading \<^verbatim>\<open>node:\<close>.
\<close>

lemma getFullyQualifiedName_require:
  assumes "getVariableFromScope (rx_scope ctx) x = Some v" and "var_defs v = [d]"
    and "def_type d = ''Variable''" and "var_writeable v \<noteq> Some False"
    and "\<not> is_type (fld (def_node d) ''id'') ''ObjectPattern''"
    and "getUniqueWriteReference (Some v) = Some (member_chain req qs)"
    and "string_value (getModuleNameFromRequire req) = Some m"
  shows "getFullyQualifiedName scopeOf ctx (member_chain (identifier_node i x) ps) =
    Some (removeNodePrefixIfExists (Some (join_with (CHR ''.'') (split_on (CHR ''/'') m @ qs @ ps))))"
proof -
  have call: "is_type req ''CallExpression''" using assms(7) by (rule require_is_call)
  then have "req \<noteq> JUndefined" by (auto simp: is_type_def)
  with call have reduced: "reduceTo ''CallExpression'' (member_chain req qs) ps = (req, qs @ ps)"
    by (simp add: reduceTo_member_chain) (simp add: reduceTo.simps)
  have ident: "reduceToIdentifier (member_chain (identifier_node i x) ps) [] = (identifier_node i x, ps)"
    by (simp add: reduceToIdentifier_def reduceTo_member_chain identifier_node_def)
      (simp add: reduceTo.simps is_type_def)
  have node: "isIdentifier (identifier_node i x) []" "name_of (identifier_node i x) = Some x"
    by (simp_all add: isIdentifier_def identifier_node_def is_type_def name_of_def)
  have "fqn_body scopeOf ctx (member_chain (identifier_node i x) ps) [] None [] =
      FqnResult (Some (join_with (CHR ''.'') (split_on (CHR ''/'') m @ qs @ ps)))"
    using assms reduced node
    by (simp add: fqn_body_def ident checkFqnFromImport_def checkFqnFromRequire_def)
  then show ?thesis
    by (simp add: getFullyQualifiedName_def) (subst getFullyQualifiedNameRaw.simps, simp)
qed

definition require_node :: "string \<Rightarrow> node" where
  "require_node m = JObj 5 None None [(''type'', JStr ''CallExpression''), (''callee'', identifier_node 6 ''require''),
     (''arguments'', JArr [JObj 7 None None [(''type'', JStr ''Literal''), (''value'', JStr m)]])]"

definition context_of_require :: "string \<Rightarrow> string \<Rightarrow> rule_context" where
  "context_of_require x m = (context_of_write x (require_node m))\<lparr>rx_scope := Some (Scope [\<lparr>var_id = 0, var_name = x,
     var_defs = [\<lparr>def_type = ''Variable'', def_name = identifier_node 0 x, def_node = JUndefined, def_parent = JUndefined\<rparr>],
     var_references = [\<lparr>ref_id = 0, ref_identifier = identifier_node 0 x, ref_isRead = False,
       ref_isWrite = True, ref_writeExpr = Some (require_node m), ref_resolved = Some 0\<rparr>],
     var_writeable = None\<rparr>] [] None)\<rparr>"

lemma getFullyQualifiedName_require_witness:
  "getFullyQualifiedName (\<lambda>_. None) (context_of_require ''foo'' ''node:fs/promises'')
     (member_chain (identifier_node 1 ''foo'') [''bar'', ''baz'']) = Some (Some ''fs.promises.bar.baz'')"
proof -
  let ?ctx = "context_of_require ''foo'' ''node:fs/promises''"
  have var: "getVariableFromScope (rx_scope ?ctx) ''foo'' = Some \<lparr>var_id = 0, var_name = ''foo'',
     var_defs = [\<lparr>def_type = ''Variable'', def_name = identifier_node 0 ''foo'', def_node = JUndefined, def_parent = JUndefined\<rparr>],
     var_references = [\<lparr>ref_id = 0, ref_identifier = identifier_node 0 ''foo'', ref_isRead = False,
       ref_isWrite = True, ref_writeExpr = Some (require_node ''node:fs/promises''), ref_resolved = Some 0\<rparr>],
     var_writeable = None\<rparr>" (is "_ = Some ?v")
    by (simp add: context_of_require_def)
  have "string_value (getModuleNameFromRequire (require_node ''node:fs/promises'')) = Some ''node:fs/promises''"
    "getUniqueWriteReference (Some ?v) = Some (member_chain (require_node ''node:fs/promises'') [])"
    by (simp_all add: require_node_def identifier_node_def string_value_def getModuleNameFromRequire_def
        isRequire_def is_type_def getUniqueWriteReference_def)
  with getFullyQualifiedName_require [OF var, of _ "require_node ''node:fs/promises''" "[]" "''node:fs/promises''"
      "\<lambda>_. None" 1 "[''bar'', ''baz'']"]
  show ?thesis by (simp add: is_type_def removeNodePrefixIfExists_def)
qed

end
