(* ===== verification/Results.thy ===== *)
theory Results
  imports Module_Names
begin

text \<open>
  Three-valued results of resolving expressions, \<^verbatim>\<open>src/linting/eslint/rules/helpers/result.ts\<close>:
  a value that was found, one that is certainly missing, or nothing known. Resolving follows
  unique writes to the end and may not return; the outer option is that.
\<close>

section \<open>The class\<close>

datatype result_status = Missing | Unknown | Found

record result =
  rs_node :: node
  rs_status :: result_status

definition unknown :: "node \<Rightarrow> result" where
  "unknown n = \<lparr>rs_node = n, rs_status = Unknown\<rparr>"

definition missing :: "node \<Rightarrow> result" where
  "missing n = \<lparr>rs_node = n, rs_status = Missing\<rparr>"

definition found :: "node \<Rightarrow> result" where
  "found n = \<lparr>rs_node = n, rs_status = Found\<rparr>"

definition isFound :: "result \<Rightarrow> bool" where
  "isFound r \<longleftrightarrow> rs_status r = Found"

definition isMissing :: "result \<Rightarrow> bool" where
  "isMissing r \<longleftrightarrow> rs_status r = Missing"

definition isTrue :: "result \<Rightarrow> bool" where
  "isTrue r \<longleftrightarrow> isFound r \<and> isBooleanLiteral (rs_node r) \<and> truthy (fld (rs_node r) ''value'')"

definition ofType :: "result \<Rightarrow> string \<Rightarrow> bool" where
  "ofType r type \<longleftrightarrow> isFound r \<and> is_type (rs_node r) type"

definition getResultOfExpression :: "rule_context \<Rightarrow> node \<Rightarrow> result option" where
  "getResultOfExpression ctx n =
     map_option (\<lambda>value. if isUndefined value then missing value else found value)
       (getUniqueWriteUsageOrNode ctx n True)"

definition result_filter :: "(node \<Rightarrow> bool) \<Rightarrow> result \<Rightarrow> result" where
  "result_filter closure r =
     (if \<not> isFound r then r else if \<not> closure (rs_node r) then unknown (rs_node r) else r)"

definition result_map :: "(node \<Rightarrow> 'v option) \<Rightarrow> result \<Rightarrow> 'v option" where
  "result_map closure r = (if \<not> isFound r then None else closure (rs_node r))"

definition getArgument :: "rule_context \<Rightarrow> nat \<Rightarrow> result \<Rightarrow> result option" where
  "getArgument ctx position r =
     (if \<not> isFound r then Some r
      else if \<not> is_type (rs_node r) ''NewExpression'' \<and> \<not> is_type (rs_node r) ''CallExpression''
      then Some (unknown (rs_node r))
      else let args = elems (fld (rs_node r) ''arguments'') in
           if length args \<le> position \<or> nullish (args ! position) then Some (missing (rs_node r))
           else getResultOfExpression ctx (args ! position))"

definition result_getProperty :: "rule_context \<Rightarrow> string \<Rightarrow> result \<Rightarrow> result option" where
  "result_getProperty ctx propertyName r =
     (if \<not> isFound r then Some r
      else if \<not> is_type (rs_node r) ''ObjectExpression'' then Some (unknown (rs_node r))
      else Option.bind (getProperty (rs_node r) propertyName ctx) (\<lambda>property.
        case property of
          PropertyUndefined \<Rightarrow> Some (unknown (rs_node r))
        | PropertyNull \<Rightarrow> Some (missing (rs_node r))
        | PropertyFound p \<Rightarrow> getResultOfExpression ctx (fld p ''value'')))"

definition getMemberObject :: "rule_context \<Rightarrow> result \<Rightarrow> result option" where
  "getMemberObject ctx r =
     (if \<not> isFound r then Some r
      else if \<not> is_type (rs_node r) ''MemberExpression'' then Some (unknown (rs_node r))
      else map_option (result_filter (\<lambda>n. \<not> is_type n ''Super''))
             (getResultOfExpression ctx (fld (rs_node r) ''object'')))"

text \<open>The closure may return \<^verbatim>\<open>null\<close>, the inner \<open>None\<close>.\<close>

fun findInArray_loop ::
  "rule_context \<Rightarrow> (result \<Rightarrow> result option option) \<Rightarrow> node \<Rightarrow> node list \<Rightarrow> bool \<Rightarrow> result option" where
  "findInArray_loop ctx closure arr [] miss = Some (if miss then missing arr else unknown arr)"
| "findInArray_loop ctx closure arr (element # rest) miss =
     Option.bind (if \<not> nullish element then Option.bind (getResultOfExpression ctx element) closure else Some None)
       (\<lambda>result. case result of
          Some r \<Rightarrow> if isFound r then Some r else findInArray_loop ctx closure arr rest (miss \<and> isMissing r)
        | None \<Rightarrow> findInArray_loop ctx closure arr rest miss)"

definition findInArray :: "rule_context \<Rightarrow> (result \<Rightarrow> result option option) \<Rightarrow> result \<Rightarrow> result option" where
  "findInArray ctx closure r =
     (if \<not> isFound r then Some r
      else if \<not> isArrayExpression (rs_node r) then Some (unknown (rs_node r))
      else findInArray_loop ctx closure (rs_node r) (elems (fld (rs_node r) ''elements'')) True)"

fun every_loop :: "rule_context \<Rightarrow> (node \<Rightarrow> bool) \<Rightarrow> node list \<Rightarrow> bool option" where
  "every_loop ctx closure [] = Some True"
| "every_loop ctx closure (element # rest) =
     (if nullish element then Some False
      else Option.bind (getResultOfExpression ctx element) (\<lambda>child.
        if \<not> isFound child \<or> \<not> isStringLiteral (rs_node child) \<or> \<not> closure (rs_node child) then Some False
        else every_loop ctx closure rest))"

definition everyStringLiteral :: "rule_context \<Rightarrow> (node \<Rightarrow> bool) \<Rightarrow> result \<Rightarrow> bool option" where
  "everyStringLiteral ctx closure r =
     (if \<not> isFound r then Some False
      else if isStringLiteral (rs_node r) then Some (closure (rs_node r))
      else if \<not> isArrayExpression (rs_node r) then Some False
      else every_loop ctx closure (elems (fld (rs_node r) ''elements'')))"

fun literals_loop :: "rule_context \<Rightarrow> node list \<Rightarrow> node list option" where
  "literals_loop ctx [] = Some []"
| "literals_loop ctx (arg # rest) =
     Option.bind (if nullish arg then Some [] else
         map_option (\<lambda>r. if isFound r \<and> isStringLiteral (rs_node r) then [rs_node r] else [])
           (getResultOfExpression ctx arg))
       (\<lambda>vs. map_option ((@) vs) (literals_loop ctx rest))"

definition asStringLiterals :: "rule_context \<Rightarrow> result \<Rightarrow> node list option" where
  "asStringLiterals ctx r =
     (if \<not> isFound r then Some []
      else if isArrayExpression (rs_node r) then literals_loop ctx (elems (fld (rs_node r) ''elements''))
      else if isStringLiteral (rs_node r) then Some [rs_node r] else Some [])"

section \<open>Correctness\<close>

lemmas status_simps = isFound_def isMissing_def found_def missing_def unknown_def

text \<open>What the closure gives on an element, \<open>None\<close> for \<^verbatim>\<open>null\<close>.\<close>

definition element_result ::
  "rule_context \<Rightarrow> (result \<Rightarrow> result option option) \<Rightarrow> node \<Rightarrow> result option option" where
  "element_result ctx closure element =
     (if \<not> nullish element then Option.bind (getResultOfExpression ctx element) closure else Some None)"

lemma findInArray_loop_cases:
  assumes "\<forall>e \<in> set es. element_result ctx closure e \<noteq> None"
  shows "findInArray_loop ctx closure arr es miss = Some (
    case List.find (\<lambda>e. case element_result ctx closure e of Some (Some r) \<Rightarrow> isFound r | _ \<Rightarrow> False) es of
      Some e \<Rightarrow> the (the (element_result ctx closure e))
    | None \<Rightarrow>
        if miss \<and> (\<forall>e \<in> set es. case element_result ctx closure e of Some (Some r) \<Rightarrow> isMissing r | _ \<Rightarrow> True)
        then missing arr else unknown arr)"
  using assms
proof (induction es arbitrary: miss)
  case (Cons e es)
  then obtain x where x: "element_result ctx closure e = Some x" by auto
  then have step: "findInArray_loop ctx closure arr (e # es) miss =
      (case x of Some r \<Rightarrow> if isFound r then Some r else findInArray_loop ctx closure arr es (miss \<and> isMissing r)
        | None \<Rightarrow> findInArray_loop ctx closure arr es miss)"
    by (simp add: element_result_def split: if_splits)
  from Cons show ?case unfolding step by (cases x) (simp_all add: x)
qed simp

text \<open>
  Searching an array with a closure that returns on every element: the answer is the first
  found result; without one it is missing exactly when every element gives a missing result or
  nothing, and unknown otherwise.
\<close>

lemma findInArray_correct:
  assumes "isFound r" and "isArrayExpression (rs_node r)"
    and "\<forall>e \<in> set (elems (fld (rs_node r) ''elements'')). element_result ctx closure e \<noteq> None"
  shows "\<exists>answer. findInArray ctx closure r = Some answer \<and>
    (if \<exists>e \<in> set (elems (fld (rs_node r) ''elements'')). \<exists>f. element_result ctx closure e = Some (Some f) \<and> isFound f
     then \<exists>us e vs. elems (fld (rs_node r) ''elements'') = us @ e # vs \<and>
        element_result ctx closure e = Some (Some answer) \<and> isFound answer \<and>
        (\<forall>u \<in> set us. \<forall>f. element_result ctx closure u = Some (Some f) \<longrightarrow> \<not> isFound f)
     else answer = (if \<forall>e \<in> set (elems (fld (rs_node r) ''elements'')).
          \<forall>f. element_result ctx closure e = Some (Some f) \<longrightarrow> isMissing f
        then missing (rs_node r) else unknown (rs_node r)))"
proof -
  let ?es = "elems (fld (rs_node r) ''elements'')"
  let ?P = "\<lambda>e. case element_result ctx closure e of Some (Some f) \<Rightarrow> isFound f | _ \<Rightarrow> False"
  have run: "findInArray ctx closure r = findInArray_loop ctx closure (rs_node r) ?es True"
    using assms by (simp add: findInArray_def)
  note cases = findInArray_loop_cases [OF assms(3), of "rs_node r" True]
  have P: "?P e \<longleftrightarrow> (\<exists>f. element_result ctx closure e = Some (Some f) \<and> isFound f)" for e
    by (auto split: option.split)
  have M: "(case element_result ctx closure e of Some (Some f) \<Rightarrow> isMissing f | _ \<Rightarrow> True) \<longleftrightarrow>
      (\<forall>f. element_result ctx closure e = Some (Some f) \<longrightarrow> isMissing f)" for e
    by (auto split: option.split)
  show ?thesis
  proof (cases "List.find ?P ?es")
    case None
    then have none: "\<not> (\<exists>e \<in> set ?es. \<exists>f. element_result ctx closure e = Some (Some f) \<and> isFound f)"
      unfolding find_eq_None P by blast
    show ?thesis unfolding if_not_P [OF none] using None cases run by (simp add: M)
  next
    case (Some e)
    then obtain us vs where split: "?es = us @ e # vs" "?P e" "\<forall>u \<in> set us. \<not> ?P u"
      unfolding find_Some_split by blast
    from split(2) obtain f where f: "element_result ctx closure e = Some (Some f)" "isFound f"
      unfolding P by blast
    have "findInArray ctx closure r = Some f" using cases run Some f by simp
    moreover have "e \<in> set ?es" using split(1) by simp
    moreover have "\<forall>u \<in> set us. \<forall>f. element_result ctx closure u = Some (Some f) \<longrightarrow> \<not> isFound f"
      using split(3) unfolding P by blast
    ultimately show ?thesis using split(1) f by auto
  qed
qed

lemma getResultOfExpression_found:
  assumes "getResultOfExpression ctx n = Some r"
  shows "(isFound r \<longleftrightarrow> \<not> isUndefined (rs_node r)) \<and> (isMissing r \<longleftrightarrow> isUndefined (rs_node r)) \<and>
    follow ctx (rs_node r) = None"
proof -
  from assms obtain m where m: "getUniqueWriteUsageOrNode ctx n True = Some m"
    "r = (if isUndefined m then missing m else found m)"
    by (auto simp: getResultOfExpression_def)
  have "resolves ctx n m" using m(1) returns_resolves by blast
  then have "follow ctx m = None" by induction
  with m(2) show ?thesis by (simp add: status_simps)
qed

definition example_array :: result where
  "example_array = found (JObj 0 None None [(''type'', JStr ''ArrayExpression''),
     (''elements'', JArr [JNull, identifier_node 1 ''y'', identifier_node 2 ''undefined''])])"

lemma findInArray_example:
  "findInArray (context_of_write ''x'' JNull) (\<lambda>r. Some (Some r)) example_array =
     Some (found (identifier_node 1 ''y''))"
proof -
  let ?ctx = "context_of_write ''x'' JNull"
  let ?es = "[JNull, identifier_node 1 ''y'', identifier_node 2 ''undefined'']"
  have es: "elems (fld (rs_node example_array) ''elements'') = ?es"
    by (simp add: example_array_def found_def)
  have arr: "isFound example_array" "isArrayExpression (rs_node example_array)"
    by (simp_all add: example_array_def status_simps isArrayExpression_def is_type_def)
  have "resolves ?ctx (identifier_node 1 ''y'') (identifier_node 1 ''y'')"
    "resolves ?ctx (identifier_node 2 ''undefined'') (identifier_node 2 ''undefined'')"
    by (rule resolves_stop, code_simp)+
  then have y: "element_result ?ctx (\<lambda>r. Some (Some r)) (identifier_node 1 ''y'') = Some (Some (found (identifier_node 1 ''y'')))"
    and u: "element_result ?ctx (\<lambda>r. Some (Some r)) (identifier_node 2 ''undefined'') =
      Some (Some (missing (identifier_node 2 ''undefined'')))"
    and n: "element_result ?ctx (\<lambda>r. Some (Some r)) JNull = Some None"
    by (simp_all add: element_result_def getResultOfExpression_def resolves_returns isUndefined_def
        identifier_node_def is_type_def nullish_def)
  have all: "\<forall>e \<in> set (elems (fld (rs_node example_array) ''elements'')).
      element_result ?ctx (\<lambda>r. Some (Some r)) e \<noteq> None"
    using y u n by (simp add: es)
  from findInArray_correct [OF arr all] obtain answer where
    answer: "findInArray ?ctx (\<lambda>r. Some (Some r)) example_array = Some answer"
    and spec: "\<exists>us e vs. ?es = us @ e # vs \<and> element_result ?ctx (\<lambda>r. Some (Some r)) e = Some (Some answer) \<and> isFound answer"
    using y by (auto simp: es status_simps)
  from spec have "answer = found (identifier_node 1 ''y'')"
    using y u n by (auto simp: Cons_eq_append_conv status_simps)
  with answer show ?thesis by simp
qed

end
