(* ===== verification/Recognizers.thy ===== *)
theory Recognizers
  imports Prelude
begin

text \<open>
  The recognition of commented-out code, \<^verbatim>\<open>src/linting/eslint/linter/recognizers/\<close>:
  detectors that count matches in a line, the probability a detector gives a line, and their
  combination. Probabilities are exact rationals where the code has doubles. The locale
  \<open>detectors\<close> is what the recognizer relies on: detectors whose probability is in the unit
  interval.
\<close>

section \<open>Detectors\<close>

record detector =
  det_probability :: rat
  det_scan :: "string \<Rightarrow> nat"

definition new_Detector :: "rat \<Rightarrow> (string \<Rightarrow> nat) \<Rightarrow> detector res" where
  "new_Detector probability scan =
     (if probability < 0 \<or> 1 < probability
      then Inl (JsError ''probability should be between [0 .. 1]'' [])
      else Inr \<lparr>det_probability = probability, det_scan = scan\<rparr>)"

definition det_recognition :: "detector \<Rightarrow> string \<Rightarrow> rat" where
  "det_recognition d line =
     (let matchers = det_scan d line in
      if matchers = 0 then 0 else 1 - (1 - det_probability d) ^ matchers)"

subsection \<open>End of line\<close>

fun scan_end :: "string list \<Rightarrow> string \<Rightarrow> nat" where
  "scan_end endOfLines [] = 0"
| "scan_end endOfLines (c # reversed) =
     (if [c] \<in> set endOfLines then 1
      else if \<not> is_space c \<and> c \<noteq> CHR ''*'' \<and> c \<noteq> CHR ''/'' then 0
      else scan_end endOfLines reversed)"

definition EndWithDetector :: "rat \<Rightarrow> string list \<Rightarrow> detector res" where
  "EndWithDetector probability endOfLines =
     new_Detector probability (\<lambda>line. scan_end endOfLines (rev line))"

subsection \<open>Keywords\<close>

definition is_word_separator :: "char \<Rightarrow> bool" where
  "is_word_separator c \<longleftrightarrow> c \<in> set '' (),{}'' \<or> c = CHR 0x09"

fun split_by :: "(char \<Rightarrow> bool) \<Rightarrow> string \<Rightarrow> string list" where
  "split_by sep [] = [[]]"
| "split_by sep (c # cs) =
     (if sep c then [] # split_by sep cs
      else case split_by sep cs of [] \<Rightarrow> [[c]] | w # ws \<Rightarrow> (c # w) # ws)"

definition scan_keywords :: "string list \<Rightarrow> string \<Rightarrow> nat" where
  "scan_keywords keywords line =
     fold (\<lambda>word matchers. if word \<in> set keywords then matchers + 1 else matchers)
       (split_by is_word_separator line) 0"

definition KeywordsDetector :: "rat \<Rightarrow> string list \<Rightarrow> detector res" where
  "KeywordsDetector probability keywords = new_Detector probability (scan_keywords keywords)"

subsection \<open>Substrings\<close>

text \<open>
  A pattern is a text, of which all matches that do not overlap count, or the expression
  \<^verbatim>\<open>/;\s+\/\//\<close>, which has no \<^verbatim>\<open>g\<close> flag and counts at most once.
\<close>

datatype contains_pattern = PatternString string | PatternSemicolonComment

text \<open>\<^verbatim>\<open>line.replace(/\s+/, '')\<close> removes the first run of white space only.\<close>

fun remove_first_spaces :: "string \<Rightarrow> string" where
  "remove_first_spaces [] = []"
| "remove_first_spaces (c # cs) =
     (if is_space c then dropWhile is_space cs else c # remove_first_spaces cs)"

function count_matches :: "string \<Rightarrow> string \<Rightarrow> nat" where
  "count_matches p s =
     (if p = [] \<or> s = [] then 0
      else if starts_with s p then 1 + count_matches p (drop (length p) s)
      else count_matches p (tl s))"
  by auto
termination by (relation "measure (\<lambda>(p, s). length s)") auto

declare count_matches.simps [simp del]

fun semicolon_comment :: "string \<Rightarrow> bool" where
  "semicolon_comment [] = False"
| "semicolon_comment (c # cs) \<longleftrightarrow>
     (c = CHR '';'' \<and> cs \<noteq> [] \<and> is_space (hd cs) \<and> starts_with (dropWhile is_space cs) ''//'') \<or>
     semicolon_comment cs"

definition matches_of :: "contains_pattern \<Rightarrow> string \<Rightarrow> nat" where
  "matches_of p s =
     (case p of
        PatternString str \<Rightarrow> count_matches str s
      | PatternSemicolonComment \<Rightarrow> if semicolon_comment s then 1 else 0)"

definition scan_contains :: "contains_pattern list \<Rightarrow> string \<Rightarrow> nat" where
  "scan_contains strings line =
     (let lineWithoutSpaces = remove_first_spaces line in
      fold (\<lambda>str matchers. matchers + matches_of str lineWithoutSpaces) strings 0)"

definition ContainsDetector :: "rat \<Rightarrow> contains_pattern list \<Rightarrow> detector res" where
  "ContainsDetector probability strings = new_Detector probability (scan_contains strings)"

subsection \<open>Camel case\<close>

text \<open>
  The characters below 256 that \<^verbatim>\<open>toLowerCase\<close> and \<^verbatim>\<open>toUpperCase\<close> change: the letters
  of the other case. The sharp s, the micro sign and y with diaeresis have an upper case
  outside this range.
\<close>

definition is_upper_letter :: "char \<Rightarrow> bool" where
  "is_upper_letter c \<longleftrightarrow> (let n = (of_char c :: nat) in 65 \<le> n \<and> n \<le> 90 \<or> 192 \<le> n \<and> n \<le> 222 \<and> n \<noteq> 215)"

definition is_lower_letter :: "char \<Rightarrow> bool" where
  "is_lower_letter c \<longleftrightarrow>
     (let n = (of_char c :: nat) in 97 \<le> n \<and> n \<le> 122 \<or> 223 \<le> n \<and> n \<le> 255 \<and> n \<noteq> 247 \<or> n = 181)"

definition isLowercase :: "char \<Rightarrow> bool" where
  "isLowercase c \<longleftrightarrow> \<not> is_upper_letter c"

definition isUpprcase :: "char \<Rightarrow> bool" where
  "isUpprcase c \<longleftrightarrow> \<not> is_lower_letter c"

definition isLowerCaseThenUpperCase :: "char \<Rightarrow> char \<Rightarrow> bool" where
  "isLowerCaseThenUpperCase previousChar c \<longleftrightarrow> isLowercase previousChar \<and> isUpprcase c"

fun scan_camel :: "char \<Rightarrow> string \<Rightarrow> nat" where
  "scan_camel previousChar [] = 0"
| "scan_camel previousChar (c # cs) =
     (if isLowerCaseThenUpperCase previousChar c then 1 else scan_camel c cs)"

definition CamelCaseDetector :: "rat \<Rightarrow> detector res" where
  "CamelCaseDetector probability = new_Detector probability (scan_camel (CHR '' ''))"

section \<open>The recognizer\<close>

definition recognition :: "detector list \<Rightarrow> string \<Rightarrow> rat" where
  "recognition detectors line =
     fold (\<lambda>pattern probability. 1 - (1 - probability) * (1 - det_recognition pattern line)) detectors 0"

definition extractCodeLines :: "rat \<Rightarrow> detector list \<Rightarrow> string list \<Rightarrow> string list" where
  "extractCodeLines threshold detectors lines = filter (\<lambda>line. threshold \<le> recognition detectors line) lines"

definition isLineOfCode :: "rat \<Rightarrow> detector list \<Rightarrow> string \<Rightarrow> bool" where
  "isLineOfCode threshold detectors line \<longleftrightarrow> 0 < recognition detectors line - threshold"

definition JavaScriptFootPrint :: "detector list res" where
  "JavaScriptFootPrint = map_res id
     [EndWithDetector (95 / 100) [''}'', '';'', ''{''],
      KeywordsDetector (7 / 10) [''++'', ''||'', ''&&'', ''==='', ''?.'', ''??''],
      KeywordsDetector (3 / 10)
        [''public'', ''abstract'', ''class'', ''implements'', ''extends'', ''return'', ''throw'', ''private'',
         ''protected'', ''enum'', ''continue'', ''assert'', ''boolean'', ''this'', ''instanceof'',
         ''interface'', ''static'', ''void'', ''super'', ''true'', ''case:'', ''let'', ''const'', ''var'',
         ''async'', ''await'', ''break'', ''yield'', ''typeof'', ''import'', ''export''],
      ContainsDetector (95 / 100)
        [PatternString ''for('', PatternString ''if('', PatternString ''while('', PatternString ''catch('',
         PatternString ''switch('', PatternString ''try{'', PatternString ''else{'', PatternString ''this.'',
         PatternString ''window.'', PatternSemicolonComment,
         PatternString (''import '' @ [CHR 0x27]), PatternString (''import '' @ [CHR 0x22]),
         PatternString ''require(''],
      CamelCaseDetector (1 / 2)]"

section \<open>Correctness\<close>

locale detectors =
  fixes ds :: "detector list"
  assumes unit_interval: "d \<in> set ds \<Longrightarrow> 0 \<le> det_probability d \<and> det_probability d \<le> 1"
begin

lemma recognition_unit:
  assumes "d \<in> set ds"
  shows "0 \<le> det_recognition d line \<and> det_recognition d line \<le> 1"
  using unit_interval [OF assms] by (auto simp: det_recognition_def Let_def power_le_one)

lemma recognition_certain:
  assumes "d \<in> set ds" "0 < det_scan d line"
  shows "det_probability d \<le> det_recognition d line"
proof -
  obtain k where k: "det_scan d line = Suc k" using assms(2) gr0_implies_Suc by blast
  have "(1 - det_probability d) ^ Suc k \<le> 1 - det_probability d"
    using unit_interval [OF assms(1)] by (simp add: mult_left_le power_le_one)
  with k show ?thesis by (simp add: det_recognition_def)
qed

lemma complement_product: "0 \<le> (\<Prod>d \<leftarrow> xs. 1 - det_recognition d line) \<and> (\<Prod>d \<leftarrow> xs. 1 - det_recognition d line) \<le> 1"
  if "set xs \<subseteq> set ds"
  using that
proof (induction xs)
  case (Cons x xs)
  then have "0 \<le> 1 - det_recognition x line" "1 - det_recognition x line \<le> 1"
    using recognition_unit [of x line] by auto
  with Cons show ?case by (auto simp: mult_le_one)
qed simp

lemma complement_le:
  assumes "d \<in> set xs" "set xs \<subseteq> set ds"
  shows "(\<Prod>d \<leftarrow> xs. 1 - det_recognition d line) \<le> 1 - det_recognition d line"
  using assms
proof (induction xs)
  case (Cons x xs)
  have unit: "0 \<le> 1 - det_recognition x line" "1 - det_recognition x line \<le> 1"
    using recognition_unit [of x line] Cons.prems by auto
  have prod: "0 \<le> (\<Prod>d \<leftarrow> xs. 1 - det_recognition d line)" "(\<Prod>d \<leftarrow> xs. 1 - det_recognition d line) \<le> 1"
    using complement_product [of xs line] Cons.prems by auto
  show ?case
  proof (cases "d = x")
    case True
    with unit prod show ?thesis by (simp add: mult_left_le)
  next
    case False
    with Cons have "(\<Prod>d \<leftarrow> xs. 1 - det_recognition d line) \<le> 1 - det_recognition d line" by auto
    moreover have "(1 - det_recognition x line) * (\<Prod>d \<leftarrow> xs. 1 - det_recognition d line) \<le>
        (\<Prod>d \<leftarrow> xs. 1 - det_recognition d line)"
      using mult_left_le_one_le [OF prod(1) unit] by simp
    ultimately show ?thesis by simp
  qed
qed simp

end

lemma recognition_product:
  "recognition ds line = 1 - (\<Prod>d \<leftarrow> ds. 1 - det_recognition d line)"
proof -
  have "fold (\<lambda>d p. 1 - (1 - p) * (1 - det_recognition d line)) ds p =
      1 - (1 - p) * (\<Prod>d \<leftarrow> ds. 1 - det_recognition d line)" for p
    by (induction ds arbitrary: p) (simp_all add: mult.assoc)
  then show ?thesis by (simp add: recognition_def)
qed


definition javascript_detectors :: "detector list" where
  "javascript_detectors = (case JavaScriptFootPrint of Inr ds \<Rightarrow> ds | Inl _ \<Rightarrow> [])"

lemma JavaScriptFootPrint_eq: "JavaScriptFootPrint = Inr javascript_detectors"
  by (simp add: javascript_detectors_def JavaScriptFootPrint_def EndWithDetector_def KeywordsDetector_def
      ContainsDetector_def CamelCaseDetector_def new_Detector_def)

lemma javascript_detectors_list:
  "javascript_detectors = map (\<lambda>(p, scan). \<lparr>det_probability = p, det_scan = scan\<rparr>)
     [(95 / 100, \<lambda>line. scan_end [''}'', '';'', ''{''] (rev line)),
      (7 / 10, det_scan (javascript_detectors ! 1)), (3 / 10, det_scan (javascript_detectors ! 2)),
      (95 / 100, det_scan (javascript_detectors ! 3)), (1 / 2, scan_camel (CHR '' ''))]"
  by (simp add: javascript_detectors_def JavaScriptFootPrint_def EndWithDetector_def KeywordsDetector_def
      ContainsDetector_def CamelCaseDetector_def new_Detector_def)

interpretation footprint: detectors javascript_detectors
proof
  fix d assume "d \<in> set javascript_detectors"
  then show "0 \<le> det_probability d \<and> det_probability d \<le> 1"
    by (subst (asm) javascript_detectors_list) auto
qed


definition skipped :: "char \<Rightarrow> bool" where
  "skipped c \<longleftrightarrow> is_space c \<or> c = CHR ''*'' \<or> c = CHR ''/''"

lemma scan_end_iff:
  assumes "\<forall>c. skipped c \<longrightarrow> [c] \<notin> set ends"
  shows "0 < scan_end ends s \<longleftrightarrow> (\<exists>vs c us. s = vs @ c # us \<and> [c] \<in> set ends \<and> (\<forall>v \<in> set vs. skipped v))"
proof (induction s)
  case (Cons c s)
  show ?case
  proof (cases "[c] \<in> set ends")
    case True
    then have "c # s = [] @ c # s \<and> [c] \<in> set ends \<and> (\<forall>v \<in> set []. skipped v)" by simp
    with True show ?thesis by (metis scan_end.simps(2) zero_less_one)
  next
    case False
    have "(\<exists>vs d us. c # s = vs @ d # us \<and> [d] \<in> set ends \<and> (\<forall>v \<in> set vs. skipped v)) \<longleftrightarrow>
        skipped c \<and> (\<exists>vs d us. s = vs @ d # us \<and> [d] \<in> set ends \<and> (\<forall>v \<in> set vs. skipped v))"
    proof
      assume "\<exists>vs d us. c # s = vs @ d # us \<and> [d] \<in> set ends \<and> (\<forall>v \<in> set vs. skipped v)"
      with False obtain vs d us where "s = vs @ d # us" "[d] \<in> set ends" "\<forall>v \<in> set (c # vs). skipped v"
        by (auto simp: Cons_eq_append_conv)
      then show "skipped c \<and> (\<exists>vs d us. s = vs @ d # us \<and> [d] \<in> set ends \<and> (\<forall>v \<in> set vs. skipped v))"
        by auto
    next
      assume "skipped c \<and> (\<exists>vs d us. s = vs @ d # us \<and> [d] \<in> set ends \<and> (\<forall>v \<in> set vs. skipped v))"
      then obtain vs d us where "c # s = (c # vs) @ d # us" "[d] \<in> set ends" "\<forall>v \<in> set (c # vs). skipped v"
        by auto
      then show "\<exists>vs d us. c # s = vs @ d # us \<and> [d] \<in> set ends \<and> (\<forall>v \<in> set vs. skipped v)" by blast
    qed
    with Cons False show ?thesis by (simp add: skipped_def)
  qed
qed simp

lemma skipped_not_end: "skipped c \<Longrightarrow> [c] \<notin> set [''}'', '';'', ''{'']"
  by (auto simp: skipped_def is_space_def)

text \<open>
  A line that ends with a brace or a semicolon, whatever white space, stars and slashes
  follow it, is taken for a line of code by the JavaScript footprint at every threshold below
  0.95, 0.9 among them; and the end-of-line detector matches exactly such lines.
\<close>

lemma line_end_is_code:
  assumes "line = us @ c # vs" and "c \<in> set ''};{''" and "\<forall>v \<in> set vs. skipped v" and "threshold < 95 / 100"
  shows "isLineOfCode threshold javascript_detectors line \<and>
    (\<forall>l. 0 < scan_end [''}'', '';'', ''{''] (rev l) \<longleftrightarrow>
       (\<exists>us c vs. l = us @ c # vs \<and> c \<in> set ''};{'' \<and> (\<forall>v \<in> set vs. skipped v)))"
proof
  have split: "rev l = vs @ c # us \<longleftrightarrow> l = rev us @ c # rev vs" for l vs us :: string and c
    by (metis append.assoc append_Cons append_Nil rev.simps(2) rev_append rev_rev_ident)
  have iff: "0 < scan_end [''}'', '';'', ''{''] (rev l) \<longleftrightarrow>
       (\<exists>us c vs. l = us @ c # vs \<and> c \<in> set ''};{'' \<and> (\<forall>v \<in> set vs. skipped v))" for l
  proof -
    have "[c] \<in> set [''}'', '';'', ''{''] \<longleftrightarrow> c \<in> set ''};{''" for c by auto
    then have "0 < scan_end [''}'', '';'', ''{''] (rev l) \<longleftrightarrow>
        (\<exists>vs c us. rev l = vs @ c # us \<and> c \<in> set ''};{'' \<and> (\<forall>v \<in> set vs. skipped v))"
      using scan_end_iff [of "[''}'', '';'', ''{'']" "rev l"] skipped_not_end by simp
    also have "\<dots> \<longleftrightarrow> (\<exists>us c vs. l = us @ c # vs \<and> c \<in> set ''};{'' \<and> (\<forall>v \<in> set vs. skipped v))"
      unfolding split by (metis rev_rev_ident set_rev)
    finally show ?thesis .
  qed
  then show "\<forall>l. 0 < scan_end [''}'', '';'', ''{''] (rev l) \<longleftrightarrow>
       (\<exists>us c vs. l = us @ c # vs \<and> c \<in> set ''};{'' \<and> (\<forall>v \<in> set vs. skipped v))" ..
  let ?d = "\<lparr>det_probability = 95 / 100, det_scan = \<lambda>line. scan_end [''}'', '';'', ''{''] (rev line)\<rparr>"
  have d: "?d \<in> set javascript_detectors" by (subst javascript_detectors_list) simp
  have "0 < det_scan ?d line" using iff [of line] assms(1-3) by auto
  then have "95 / 100 \<le> det_recognition ?d line"
    using footprint.recognition_certain [OF d] by fastforce
  also have "\<dots> \<le> recognition javascript_detectors line"
    using footprint.complement_le [OF d, of line] by (simp add: recognition_product)
  finally show "isLineOfCode threshold javascript_detectors line"
    using assms(4) by (simp add: isLineOfCode_def)
qed

lemma line_end_is_code_witness:
  "isLineOfCode (9 / 10) javascript_detectors ''foo(); */''"
  using line_end_is_code [of "''foo(); */''" "''foo()''" "CHR '';''" "'' */''" "9 / 10"]
  by (simp add: skipped_def is_space_def)

text \<open>
  The camel case detector takes a character for upper case if \<^verbatim>\<open>toUpperCase\<close> leaves it
  alone: it matches every line that does not start with a lower case letter.
\<close>

lemma camel_case_matches_non_letters:
  "line \<noteq> [] \<Longrightarrow> \<not> is_lower_letter (hd line) \<Longrightarrow> scan_camel (CHR '' '') line = 1"
  by (cases line) (simp_all add: isLowerCaseThenUpperCase_def isLowercase_def isUpprcase_def is_upper_letter_def)

lemma contains_needs_first_space:
  "scan_contains [PatternString ''for(''] ''for (;;)'' = 1" "scan_contains [PatternString ''for(''] ''a; for (;;)'' = 0"
  by code_simp+

end
