(* ===== verification/Programs.thy ===== *)
theory Programs
  imports Helpers Objects Json
begin

text \<open>
  The TypeScript services: the cache of programs of \<^verbatim>\<open>src/services/program/program.ts\<close> and the
  TSConfig files of \<^verbatim>\<open>src/services/tsconfig/tsconfig.ts\<close>. The TypeScript compiler, the file
  system and the functions on paths are parameters. A function of the compiler that calls back
  into the host gives, with its result, the files it read through the host, in order.
\<close>

section \<open>The compiler\<close>

record diagnostic =
  dg_messageText :: "string + string"
  dg_file :: "string option"
  dg_start :: "int option"

record parsed_config =
  pc_fileNames :: "string list"
  pc_options :: "jsval dict"
  pc_projectReferences :: "string list option"
  pc_errors :: "diagnostic list"

record program_options =
  po_rootNames :: "string list"
  po_options :: "jsval dict"
  po_projectReferences :: "string list option"
  po_missingTsConfig :: bool

record config_host =
  ch_fileExists :: "string \<Rightarrow> bool"
  ch_readFile :: "string \<Rightarrow> string option"

record 'p typescript =
  ts_sys :: config_host
  ts_readConfigFile :: "string \<Rightarrow> (string \<Rightarrow> string option) \<Rightarrow> string list \<times> (diagnostic + jsval)"
  ts_parseJsonConfigFileContent ::
    "jsval \<Rightarrow> config_host \<Rightarrow> string \<Rightarrow> jsval dict \<Rightarrow> string option \<Rightarrow> string list \<Rightarrow> string list \<times> parsed_config"
  ts_createProgram :: "program_options \<Rightarrow> 'p"
  ts_getProjectReferences :: "'p \<Rightarrow> string list option"
  ts_getSourceFiles :: "'p \<Rightarrow> string list"

record platform =
  pl_win32 :: bool
  pl_basename :: "string \<Rightarrow> string"
  pl_dirname :: "string \<Rightarrow> string"
  pl_resolve :: "string \<Rightarrow> string"
  pl_join :: "string \<Rightarrow> string \<Rightarrow> string"
  pl_lstat :: "string \<Rightarrow> bool res"

section \<open>Programs\<close>

text \<open>The messages of a chain of diagnostics are cut to the first one.\<close>

definition message_text :: "diagnostic \<Rightarrow> string" where
  "message_text d = (case dg_messageText d of Inl s \<Rightarrow> s | Inr s \<Rightarrow> s)"

definition program_diagnosticToString :: "diagnostic \<Rightarrow> string" where
  "program_diagnosticToString d =
     (case dg_file d of
        Some fileName \<Rightarrow> message_text d @ ''  '' @ fileName @ '':'' @
          (case dg_start d of None \<Rightarrow> ''undefined'' | Some i \<Rightarrow> show_int i)
      | None \<Rightarrow> message_text d)"

definition isRootNodeModules :: "platform \<Rightarrow> string \<Rightarrow> bool" where
  "isRootNodeModules pl file =
     (let root = (if pl_win32 pl then
            (if CHR '':'' \<in> set file then takeWhile (\<lambda>c. c \<noteq> CHR '':'') file @ '':'' else [])
          else ''/'');
          normalizedFile = toUnixPath file;
          topNodeModules = toUnixPath (pl_resolve pl (pl_join pl root ''node_modules''))
      in starts_with normalizedFile topNodeModules)"

definition isLastTsConfigCheck :: "platform \<Rightarrow> string \<Rightarrow> bool" where
  "isLastTsConfigCheck pl file \<longleftrightarrow> pl_basename pl file = ''tsconfig.json'' \<and> isRootNodeModules pl file"

text \<open>
  The host that is given to the compiler. Reading a file also sets the flag
  \<^verbatim>\<open>missingTsConfig\<close> when the configuration falls back to an empty one.
\<close>

definition falls_back :: "platform \<Rightarrow> config_host \<Rightarrow> string \<Rightarrow> bool" where
  "falls_back pl sys file \<longleftrightarrow>
     (ch_readFile sys file = None \<or> ch_readFile sys file = Some []) \<and> isLastTsConfigCheck pl file"

definition parseConfigHost :: "platform \<Rightarrow> config_host \<Rightarrow> config_host" where
  "parseConfigHost pl sys =
     \<lparr>ch_fileExists = (\<lambda>file. if isLastTsConfigCheck pl file then True else ch_fileExists sys file),
      ch_readFile = (\<lambda>file. if falls_back pl sys file then Some ''{}'' else ch_readFile sys file)\<rparr>"

fun join_strings :: "string \<Rightarrow> string list \<Rightarrow> string" where
  "join_strings sep [] = []"
| "join_strings sep [s] = s"
| "join_strings sep (s # t # ss) = s @ sep @ join_strings sep (t # ss)"

definition createProgramOptions :: "platform \<Rightarrow> 'p typescript \<Rightarrow> string \<Rightarrow> program_options res" where
  "createProgramOptions pl ts tsConfig =
     (let host = parseConfigHost pl (ts_sys ts);
          (reads, config) = ts_readConfigFile ts tsConfig (ch_readFile host)
      in case config of
           Inl e \<Rightarrow> Inl (JsError (program_diagnosticToString e) [])
         | Inr config \<Rightarrow>
             let (reads', parsed) = ts_parseJsonConfigFileContent ts config host
                   (pl_resolve pl (pl_dirname pl tsConfig)) [(''noEmit'', JBool True)] (Some tsConfig) []
             in if pc_errors parsed \<noteq> []
                then Inl (JsError (join_strings ''; '' (map program_diagnosticToString (pc_errors parsed))) [])
                else Inr
                  \<lparr>po_rootNames = pc_fileNames parsed,
                   po_options = dict_set ''allowNonTsExtensions'' (JBool True) (pc_options parsed),
                   po_projectReferences = pc_projectReferences parsed,
                   po_missingTsConfig = (\<exists>file \<in> set (reads @ reads'). falls_back pl (ts_sys ts) file)\<rparr>)"

subsection \<open>The cache\<close>

record 'p program_cache =
  programs :: "(string \<times> 'p) list"
  programCount :: nat

definition empty_cache :: "'p program_cache" where
  "empty_cache = \<lparr>programs = [], programCount = 0\<rparr>"

definition nextId :: "'p program_cache \<Rightarrow> string \<times> 'p program_cache" where
  "nextId c = (let n = programCount c + 1 in (show_nat n, c\<lparr>programCount := n\<rparr>))"

definition getProgramById :: "'p program_cache \<Rightarrow> string \<Rightarrow> 'p res" where
  "getProgramById c programId =
     (case dict_get (programs c) programId of
        None \<Rightarrow> Inl (JsError (''Failed to find program '' @ programId) [])
      | Some program \<Rightarrow> Inr program)"

text \<open>The end of \<^verbatim>\<open>createProgram\<close>: between the two effects on the cache nothing is awaited.\<close>

definition register :: "'p \<Rightarrow> 'p program_cache \<Rightarrow> string \<times> 'p program_cache" where
  "register program c =
     (let (programId, c) = nextId c
      in (programId, c\<lparr>programs := dict_set programId program (programs c)\<rparr>))"

record created_program =
  cp_programId :: string
  cp_files :: "string list"
  cp_projectReferences :: "string list"
  cp_missingTsConfig :: bool

definition createProgram ::
  "platform \<Rightarrow> 'p typescript \<Rightarrow> string \<Rightarrow> 'p program_cache \<Rightarrow> created_program res \<times> 'p program_cache" where
  "createProgram pl ts tsConfig c =
     (case createProgramOptions pl ts tsConfig of
        Inl e \<Rightarrow> (Inl e, c)
      | Inr programOptions \<Rightarrow>
          let program = ts_createProgram ts programOptions;
              inputProjectReferences = (case ts_getProjectReferences ts program of None \<Rightarrow> [] | Some rs \<Rightarrow> rs);
              projectReferences = List.map_filter (\<lambda>path.
                case addTsConfigIfDirectory (pl_lstat pl) (pl_join pl) path of
                  Some sanitizedReference \<Rightarrow> if sanitizedReference = [] then None else Some sanitizedReference
                | None \<Rightarrow> None) inputProjectReferences;
              files = ts_getSourceFiles ts program;
              (programId, c) = register program c
          in (Inr \<lparr>cp_programId = programId, cp_files = files, cp_projectReferences = projectReferences,
                   cp_missingTsConfig = po_missingTsConfig programOptions\<rparr>, c))"

definition deleteProgram :: "string \<Rightarrow> 'p program_cache \<Rightarrow> 'p program_cache" where
  "deleteProgram programId c = c\<lparr>programs := dict_del programId (programs c)\<rparr>"

section \<open>TSConfig files\<close>

definition diagnosticToString :: "diagnostic \<Rightarrow> string" where
  "diagnosticToString d = (case dg_messageText d of Inl s \<Rightarrow> s | Inr s \<Rightarrow> s)"

text \<open>The compiler is told of the extension \<^verbatim>\<open>.vue\<close>, but not of the name of the file.\<close>

definition getFilesForTsConfig ::
  "platform \<Rightarrow> 'p typescript \<Rightarrow> string \<Rightarrow> config_host \<Rightarrow> (string list \<times> string list) res" where
  "getFilesForTsConfig pl ts tsConfig host =
     (case snd (ts_readConfigFile ts tsConfig (ch_readFile host)) of
        Inl e \<Rightarrow> Inl (JsError (diagnosticToString e) [])
      | Inr config \<Rightarrow>
          let parsed = snd (ts_parseJsonConfigFileContent ts config host
                (pl_resolve pl (pl_dirname pl tsConfig)) [(''noEmit'', JBool True)] None [''.vue''])
          in if pc_errors parsed \<noteq> []
             then Inl (JsError (concat (map diagnosticToString (pc_errors parsed))) [])
             else Inr (pc_fileNames parsed,
                       case pc_projectReferences parsed of None \<Rightarrow> [] | Some ps \<Rightarrow> ps))"

text \<open>
  \<^verbatim>\<open>tmp.file\<close> gives a new name or rejects, and \<^verbatim>\<open>fs.writeFile\<close> either rejects or changes the
  files.
\<close>

definition writeTSConfigFile ::
  "string res \<Rightarrow> (string \<Rightarrow> unit res) \<Rightarrow> json \<Rightarrow> (string \<rightharpoonup> string) \<Rightarrow> string res \<times> (string \<rightharpoonup> string)" where
  "writeTSConfigFile tmp_file writable tsConfig files =
     (case tmp_file of
        Inl e \<Rightarrow> (Inl e, files)
      | Inr filename \<Rightarrow>
          (case writable filename of
             Inl e \<Rightarrow> (Inl e, files)
           | Inr _ \<Rightarrow> (Inr filename, files(filename \<mapsto> stringify tsConfig))))"

section \<open>Correctness\<close>

subsection \<open>The cache\<close>

datatype 'p cache_op = Create 'p | Delete string

fun run_op :: "'p cache_op \<Rightarrow> 'p program_cache \<Rightarrow> 'p program_cache" where
  "run_op (Create p) c = snd (register p c)"
| "run_op (Delete i) c = deleteProgram i c"

abbreviation is_create :: "'p cache_op \<Rightarrow> bool" where
  "is_create op \<equiv> (case op of Create p \<Rightarrow> True | Delete i \<Rightarrow> False)"

abbreviation creations :: "'p cache_op list \<Rightarrow> nat" where
  "creations ops \<equiv> length (filter is_create ops)"

lemma show_nat_inj: "show_nat m = show_nat n \<longleftrightarrow> m = n"
proof
  assume eq: "show_nat m = show_nat n"
  have nil: "no_digit []" by (simp add: no_digit_def)
  have "Some (m, [] :: string) = Some (n, [])"
    using parse_nat_show [OF nil, of m, unfolded eq] parse_nat_show [OF nil, of n]
    by (rule trans [OF sym])
  then show "m = n" by blast
qed (rule arg_cong)

declare show_nat.simps [simp del]

lemma register_simps [simp]:
  "fst (register p c) = show_nat (Suc (programCount c))"
  "programCount (snd (register p c)) = Suc (programCount c)"
  "dict_get (programs (snd (register p c))) k =
     (if k = show_nat (Suc (programCount c)) then Some p else dict_get (programs c) k)"
  by (simp_all add: register_def nextId_def Let_def dict.get_put)

lemma deleteProgram_simps [simp]:
  "programCount (deleteProgram i c) = programCount c"
  "dict_get (programs (deleteProgram i c)) k = (if k = i then None else dict_get (programs c) k)"
  by (simp_all add: deleteProgram_def dict.get_del)

lemma programCount_run: "programCount (fold run_op ops c) = programCount c + creations ops"
proof (induction ops arbitrary: c)
  case (Cons op ops)
  then show ?case by (cases op) simp_all
qed simp

text \<open>What a history of operations holds under an identifier.\<close>

definition live_at :: "'p cache_op list \<Rightarrow> string \<Rightarrow> 'p \<Rightarrow> bool" where
  "live_at ops programId p \<longleftrightarrow> (\<exists>before after. ops = before @ Create p # after \<and>
     programId = show_nat (Suc (creations before)) \<and> Delete programId \<notin> set after)"

lemma live_at_creations: "live_at ops programId p \<Longrightarrow> \<exists>n. programId = show_nat n \<and> n \<le> creations ops"
  by (auto simp: live_at_def)

lemma live_at_snoc:
  "live_at (ops @ [op]) i p \<longleftrightarrow>
     (case op of
        Create q \<Rightarrow> if i = show_nat (Suc (creations ops)) then p = q else live_at ops i p
      | Delete j \<Rightarrow> i \<noteq> j \<and> live_at ops i p)"
proof -
  have split: "live_at (ops @ [op]) i p \<longleftrightarrow>
      (op = Create p \<and> i = show_nat (Suc (creations ops))) \<or> (live_at ops i p \<and> op \<noteq> Delete i)"
    (is "?l \<longleftrightarrow> ?new \<or> ?old")
  proof
    assume ?l
    then obtain before after where eq: "ops @ [op] = before @ Create p # after"
      and i: "i = show_nat (Suc (creations before))" "Delete i \<notin> set after"
      unfolding live_at_def by blast
    show "?new \<or> ?old"
    proof (cases after rule: rev_cases)
      case Nil
      with eq i show ?thesis by auto
    next
      case (snoc after' op')
      with eq i show ?thesis by (auto simp: live_at_def)
    qed
  next
    assume "?new \<or> ?old"
    then show ?l
    proof
      assume ?new
      then show ?l unfolding live_at_def by (intro exI [of _ ops] exI [of _ "[]"]) auto
    next
      assume ?old
      then obtain before after where "ops = before @ Create p # after"
        "i = show_nat (Suc (creations before))" "Delete i \<notin> set after" "op \<noteq> Delete i"
        unfolding live_at_def by blast
      then show ?l unfolding live_at_def by (intro exI [of _ before] exI [of _ "after @ [op]"]) auto
    qed
  qed
  have fresh: "\<not> live_at ops (show_nat (Suc (creations ops))) p"
    using live_at_creations [of ops "show_nat (Suc (creations ops))" p] by (auto simp: show_nat_inj)
  show ?thesis unfolding split using fresh by (cases op) auto
qed

lemma cache_get: "dict_get (programs (fold run_op ops empty_cache)) i = Some p \<longleftrightarrow> live_at ops i p"
proof (induction ops rule: rev_induct)
  case Nil
  show ?case by (simp add: live_at_def empty_cache_def dict_get_def)
next
  case (snoc op ops)
  have count: "programCount (fold run_op ops empty_cache) = creations ops"
    by (simp add: programCount_run) (simp add: empty_cache_def)
  show ?case
    using snoc.IH by (cases op) (auto simp: live_at_snoc count)
qed

text \<open>
  C31: the cache of programs after any history of creations and deletions: an identifier gives
  a program exactly if this program was created under it and the identifier was not deleted
  since. The \<open>n\<close>-th creation has the identifier \<open>n\<close>: identifiers are never used again, and
  the next creation gets one that no program had before.
\<close>

theorem program_cache_correct:
  "(getProgramById (fold run_op ops empty_cache) programId = Inr p \<longleftrightarrow> live_at ops programId p) \<and>
   fst (register q (fold run_op ops empty_cache)) = show_nat (Suc (creations ops)) \<and>
   (\<nexists>before r. (\<exists>after. ops = before @ Create r # after) \<and>
      fst (register r (fold run_op before empty_cache)) = fst (register q (fold run_op ops empty_cache)))"
proof -
  have count: "programCount (fold run_op h empty_cache) = creations h" for h :: "'a cache_op list"
    by (simp add: programCount_run) (simp add: empty_cache_def)
  have "getProgramById c programId = Inr p \<longleftrightarrow> dict_get (programs c) programId = Some p" for c
    by (simp add: getProgramById_def split: option.split)
  then show ?thesis by (auto simp: cache_get count show_nat_inj)
qed

subsection \<open>Creation\<close>

lemma createProgramOptions_error:
  "createProgramOptions pl ts tsConfig = Inl e \<Longrightarrow> \<exists>message. e = JsError message []"
  by (auto simp: createProgramOptions_def Let_def split: prod.splits sum.splits if_splits)

text \<open>
  C32: the creation of a program. When the configuration has an error the cache is unchanged.
  Otherwise the program that the compiler creates is found under the new identifier, every
  other identifier gives what it gave before, and the answer has the files of the program and
  the references that exist, directories completed with \<^verbatim>\<open>tsconfig.json\<close>.
\<close>

theorem createProgram_correct:
  assumes "createProgram pl ts tsConfig c = (result, c')"
  shows "case result of
     Inl e \<Rightarrow> createProgramOptions pl ts tsConfig = Inl e \<and> c' = c
   | Inr created \<Rightarrow> \<exists>options. createProgramOptions pl ts tsConfig = Inr options \<and>
       getProgramById c' (cp_programId created) = Inr (ts_createProgram ts options) \<and>
       (\<forall>other. other \<noteq> cp_programId created \<longrightarrow> getProgramById c' other = getProgramById c other) \<and>
       cp_files created = ts_getSourceFiles ts (ts_createProgram ts options) \<and>
       cp_missingTsConfig created = po_missingTsConfig options \<and>
       set (cp_projectReferences created) =
         {if pl_lstat pl r = Inr True then pl_join pl r ''tsconfig.json'' else r |r rs.
            ts_getProjectReferences ts (ts_createProgram ts options) = Some rs \<and> r \<in> set rs \<and>
            (pl_lstat pl r = Inr True \<and> pl_join pl r ''tsconfig.json'' \<noteq> [] \<or>
             pl_lstat pl r = Inr False \<and> r \<noteq> [])}"
proof (cases "createProgramOptions pl ts tsConfig")
  case (Inl e)
  with assms show ?thesis by (auto simp: createProgram_def)
next
  case (Inr options)
  let ?rs = "case ts_getProjectReferences ts (ts_createProgram ts options) of None \<Rightarrow> [] | Some rs \<Rightarrow> rs"
  let ?add = "\<lambda>path. case addTsConfigIfDirectory (pl_lstat pl) (pl_join pl) path of
      Some s \<Rightarrow> if s = [] then None else Some s | None \<Rightarrow> None"
  obtain i c1 where reg: "register (ts_createProgram ts options) c = (i, c1)" by fastforce
  with Inr assms have out: "result = Inr \<lparr>cp_programId = i, cp_files = ts_getSourceFiles ts (ts_createProgram ts options),
      cp_projectReferences = List.map_filter ?add ?rs, cp_missingTsConfig = po_missingTsConfig options\<rparr>" "c' = c1"
    by (auto simp: createProgram_def Let_def)
  have get: "dict_get (programs c1) k = (if k = i then Some (ts_createProgram ts options) else dict_get (programs c) k)"
    for k using register_simps(1, 3) [of "ts_createProgram ts options" c] by (simp add: reg)
  have add: "?add r = Some s \<longleftrightarrow> s = (if pl_lstat pl r = Inr True then pl_join pl r ''tsconfig.json'' else r) \<and>
      (pl_lstat pl r = Inr True \<and> pl_join pl r ''tsconfig.json'' \<noteq> [] \<or> pl_lstat pl r = Inr False \<and> r \<noteq> [])"
    for r s by (auto simp: addTsConfigIfDirectory_def split: sum.split bool.splits)
  have "set (List.map_filter ?add ?rs) = {s. \<exists>r \<in> set ?rs. ?add r = Some s}"
    by (force simp: List.map_filter_def)
  then have "set (List.map_filter ?add ?rs) =
      {if pl_lstat pl r = Inr True then pl_join pl r ''tsconfig.json'' else r |r rs.
            ts_getProjectReferences ts (ts_createProgram ts options) = Some rs \<and> r \<in> set rs \<and>
            (pl_lstat pl r = Inr True \<and> pl_join pl r ''tsconfig.json'' \<noteq> [] \<or>
             pl_lstat pl r = Inr False \<and> r \<noteq> [])}"
    unfolding add by (auto split: option.splits)
  with Inr out get show ?thesis by (simp add: getProgramById_def)
qed

definition example_platform :: platform where
  "example_platform = \<lparr>pl_win32 = False,
     pl_basename = (\<lambda>p. rev (takeWhile (\<lambda>c. c \<noteq> CHR ''/'') (rev p))),
     pl_dirname = (\<lambda>p. ''/p''), pl_resolve = id,
     pl_join = (\<lambda>a b. if a = ''/'' then a @ b else a @ ''/'' @ b),
     pl_lstat = (\<lambda>p. if p = ''/p/lib'' then Inr True else if p = ''/p/gone'' then Inl (JsError ''ENOENT'' []) else Inr False)\<rparr>"

definition example_typescript :: "string list typescript" where
  "example_typescript = \<lparr>
     ts_sys = \<lparr>ch_fileExists = (\<lambda>f. False), ch_readFile = (\<lambda>f. if f = ''/p/tsconfig.json'' then Some ''{}'' else None)\<rparr>,
     ts_readConfigFile = (\<lambda>f readFile. ([f], case readFile f of
        None \<Rightarrow> Inl \<lparr>dg_messageText = Inl ''Cannot read file'', dg_file = None, dg_start = None\<rparr>
      | Some s \<Rightarrow> Inr JNull)),
     ts_parseJsonConfigFileContent = (\<lambda>config host base opts name extra.
        ([''/node_modules/base/tsconfig.json''],
         \<lparr>pc_fileNames = [''/p/a.ts''], pc_options = opts, pc_projectReferences = None, pc_errors = []\<rparr>)),
     ts_createProgram = po_rootNames,
     ts_getProjectReferences = (\<lambda>p. Some [''/p/lib'', ''/p/gone'']),
     ts_getSourceFiles = id\<rparr>"

theorem createProgram_correct_witness:
  "\<exists>created c'. createProgram example_platform example_typescript ''/p/tsconfig.json'' empty_cache = (Inr created, c') \<and>
     getProgramById c' (cp_programId created) = Inr [''/p/a.ts''] \<and>
     set (cp_projectReferences created) = {''/p/lib/tsconfig.json''} \<and> cp_missingTsConfig created"
proof -
  have opts: "createProgramOptions example_platform example_typescript ''/p/tsconfig.json'' = Inr
      \<lparr>po_rootNames = [''/p/a.ts''], po_options = [(''noEmit'', JBool True), (''allowNonTsExtensions'', JBool True)],
       po_projectReferences = None, po_missingTsConfig = True\<rparr>"
    by code_simp
  have "\<not> isl (fst (createProgram example_platform example_typescript ''/p/tsconfig.json'' empty_cache))"
    unfolding createProgram_def opts by (simp add: Let_def split: prod.split)
  then obtain created c' where run:
    "createProgram example_platform example_typescript ''/p/tsconfig.json'' empty_cache = (Inr created, c')"
    by (metis prod.collapse sum.collapse(2))
  let ?f = "\<lambda>r. if pl_lstat example_platform r = Inr True then pl_join example_platform r ''tsconfig.json'' else r"
  let ?P = "\<lambda>r. pl_lstat example_platform r = Inr True \<and> pl_join example_platform r ''tsconfig.json'' \<noteq> [] \<or>
       pl_lstat example_platform r = Inr False \<and> r \<noteq> []"
  have refs: "{f r |r rs. Some xs = Some rs \<and> r \<in> set rs \<and> P r} = set (map f (filter P xs))"
    for f :: "string \<Rightarrow> string" and P xs by auto
  have only: "map ?f (filter ?P [''/p/lib'', ''/p/gone'']) = [''/p/lib/tsconfig.json'']"
    by (simp add: example_platform_def)
  have ts: "ts_getProjectReferences example_typescript p = Some [''/p/lib'', ''/p/gone'']"
    "ts_createProgram example_typescript = po_rootNames" for p
    by (simp_all add: example_typescript_def)
  from createProgram_correct [OF run] have
    "getProgramById c' (cp_programId created) = Inr [''/p/a.ts''] \<and> cp_missingTsConfig created \<and>
     set (cp_projectReferences created) = set (map ?f (filter ?P [''/p/lib'', ''/p/gone'']))"
    unfolding ts refs opts sum.case by auto
  with run only show ?thesis by (metis (no_types, lifting) list.simps(15) empty_set)
qed

text \<open>
  The root's \<^verbatim>\<open>node_modules\<close> is recognized by a prefix of the path that does not end at a
  separator, so a sibling directory whose name starts in the same way is taken for it.
\<close>

lemma isRootNodeModules_sibling:
  "isLastTsConfigCheck example_platform ''/node_modules_cache/x/tsconfig.json''"
  by code_simp

subsection \<open>TSConfig files\<close>

text \<open>The file that was written parses to the given configuration, and no other file changes.\<close>

lemma writeTSConfigFile_roundtrip:
  assumes "writeTSConfigFile tmp_file writable tsConfig files = (Inr filename, files')"
  shows "Option.bind (files' filename) json_parse = Some tsConfig \<and> (\<forall>f. f \<noteq> filename \<longrightarrow> files' f = files f)"
  using assms by (auto simp: writeTSConfigFile_def parse_stringify split: sum.splits)

end
