(* ===== verification/Parsers.thy ===== *)
theory Parsers
  imports Visitor Programs
begin

text \<open>
  Parsing JavaScript and TypeScript: the options and the calls of the parsers of
  \<^verbatim>\<open>src/parsing/jsts/parsers/\<close> and the attempts of \<^verbatim>\<open>src/parsing/jsts/builders/\<close>, with the
  errors of \<^verbatim>\<open>src/errors/error.ts\<close>. The three parsers and ESLint's constructor of source
  codes are parameters that give a result or throw.
\<close>

section \<open>Errors\<close>

definition failingTypeScriptError :: "string \<Rightarrow> js_error" where
  "failingTypeScriptError message = APIError FailingTypeScript message None"

definition linterError :: "string \<Rightarrow> js_error" where
  "linterError message = APIError LinterInitialization message None"

definition parsingError :: "string \<Rightarrow> error_data \<Rightarrow> js_error" where
  "parsingError message d = APIError Parsing message (Some d)"

definition unexpectedError :: "string \<Rightarrow> js_error" where
  "unexpectedError message = APIError Unexpected message None"

section \<open>Inputs and options\<close>

record jsts_input =
  ji_filePath :: string
  ji_fileContent :: string
  ji_linterId :: "string option"
  ji_fileType :: file_type
  ji_ignoreHeaderComments :: "bool option"
  ji_tsConfigs :: "string list option"
  ji_programId :: "string option"

datatype language = JS | TS

record babel_options =
  bo_presets :: "string list"
  bo_plugins :: "(string \<times> string) list"
  bo_babelrc :: bool
  bo_configFile :: bool
  bo_allowReturnOutsideFunction :: bool
  bo_requireConfigFile :: bool

record 'p parser_options =
  op_tokens :: bool
  op_comment :: bool
  op_loc :: bool
  op_range :: bool
  op_ecmaVersion :: nat
  op_sourceType :: string
  op_codeFrame :: bool
  op_jsx :: bool
  op_globalReturn :: bool
  op_legacyDecorators :: bool
  op_extraFileExtensions :: "string list"
  op_parser :: "string option"
  op_filePath :: string
  op_project :: "string list option"
  op_programs :: "'p list option"
  op_babelOptions :: "babel_options option"

record parse_exception =
  px_lineNumber :: "int option"
  px_message :: string

record ('p, 'r) parser_packages =
  pp_babel :: "string \<Rightarrow> 'p parser_options \<Rightarrow> parse_exception + 'r"
  pp_typescript :: "string \<Rightarrow> 'p parser_options \<Rightarrow> parse_exception + 'r"
  pp_vue :: "string \<Rightarrow> 'p parser_options \<Rightarrow> parse_exception + 'r"
  pp_SourceCode :: "'r \<Rightarrow> string \<Rightarrow> parse_exception + source_code"
  pp_dirname :: string

datatype eslint_parser = javascript | typescript | vuejs

fun parser_name :: "eslint_parser \<Rightarrow> string" where
  "parser_name javascript = CHR 0x40 # ''babel/eslint-parser''"
| "parser_name typescript = CHR 0x40 # ''typescript-eslint/parser''"
| "parser_name vuejs = ''vue-eslint-parser''"

fun parser_parse ::
  "('p, 'r) parser_packages \<Rightarrow> eslint_parser \<Rightarrow> string \<Rightarrow> 'p parser_options \<Rightarrow> parse_exception + 'r" where
  "parser_parse pp javascript = pp_babel pp"
| "parser_parse pp typescript = pp_typescript pp"
| "parser_parse pp vuejs = pp_vue pp"

definition babelParserOptions :: "string \<Rightarrow> 'p parser_options \<Rightarrow> 'p parser_options" where
  "babelParserOptions dirname options =
     (let pluginPath = dirname @ ''/../../../../node_modules'' in
      options\<lparr>op_babelOptions := Some
        \<lparr>bo_presets = [pluginPath @ ''/'' @ CHR 0x40 # ''babel/preset-react'',
                       pluginPath @ ''/'' @ CHR 0x40 # ''babel/preset-flow'',
                       pluginPath @ ''/'' @ CHR 0x40 # ''babel/preset-env''],
         bo_plugins = [(pluginPath @ ''/'' @ CHR 0x40 # ''babel/plugin-proposal-decorators'', ''2022-03'')],
         bo_babelrc = False, bo_configFile = False, bo_allowReturnOutsideFunction = True,
         bo_requireConfigFile = False\<rparr>\<rparr>)"

definition buildParserOptions ::
  "string \<Rightarrow> 'p program_cache \<Rightarrow> jsts_input \<Rightarrow> bool \<Rightarrow> string option \<Rightarrow> string \<Rightarrow> 'p parser_options res" where
  "buildParserOptions dirname cache input usingBabel parser sourceType =
     bind_res (case ji_programId input of
         None \<Rightarrow> Inr None
       | Some programId \<Rightarrow> bind_res (getProgramById cache programId) (\<lambda>p. Inr (Some [p])))
       (\<lambda>programs.
        let options =
          \<lparr>op_tokens = True, op_comment = True, op_loc = True, op_range = True, op_ecmaVersion = 2018,
           op_sourceType = sourceType, op_codeFrame = False, op_jsx = True, op_globalReturn = False,
           op_legacyDecorators = True, op_extraFileExtensions = [''.vue''], op_parser = parser,
           op_filePath = ji_filePath input, op_project = ji_tsConfigs input, op_programs = programs,
           op_babelOptions = None\<rparr>
        in Inr (if usingBabel then babelParserOptions dirname options else options))"

section \<open>Parsing\<close>

definition parseForESLint ::
  "('p, 'r) parser_packages \<Rightarrow> string \<Rightarrow> (string \<Rightarrow> 'p parser_options \<Rightarrow> parse_exception + 'r) \<Rightarrow>
   'p parser_options \<Rightarrow> source_code res" where
  "parseForESLint pp code parse options =
     (case (case parse code options of Inl e \<Rightarrow> Inl e | Inr result \<Rightarrow> pp_SourceCode pp result code) of
        Inr sc \<Rightarrow> Inr sc
      | Inl e \<Rightarrow>
          if starts_with (px_message e) ''Debug Failure'' then Inl (failingTypeScriptError (px_message e))
          else Inl (parsingError (px_message e) \<lparr>data_line = px_lineNumber e\<rparr>))"

section \<open>Builders\<close>

definition buildTs ::
  "('p, 'r) parser_packages \<Rightarrow> 'p program_cache \<Rightarrow> jsts_input \<Rightarrow> bool \<Rightarrow> source_code res" where
  "buildTs pp cache input isVueFile =
     bind_res (buildParserOptions (pp_dirname pp) cache input False
         (if isVueFile then Some (parser_name typescript) else None) ''module'') (\<lambda>options.
       let parse = (if isVueFile then parser_parse pp vuejs else parser_parse pp typescript)
       in parseForESLint pp (ji_fileContent input) parse options)"

definition buildVue ::
  "('p, 'r) parser_packages \<Rightarrow> 'p program_cache \<Rightarrow> jsts_input \<Rightarrow> bool \<Rightarrow> source_code res" where
  "buildVue pp cache input tryTypeScriptESLintParser =
     (let withBabel = bind_res (buildParserOptions (pp_dirname pp) cache input True
            (Some (parser_name javascript)) ''module'')
            (parseForESLint pp (ji_fileContent input) (parser_parse pp vuejs))
      in if tryTypeScriptESLintParser
         then (case bind_res (buildParserOptions (pp_dirname pp) cache input False
                 (Some (parser_name typescript)) ''module'')
                 (parseForESLint pp (ji_fileContent input) (parser_parse pp vuejs)) of
                 Inr sc \<Rightarrow> Inr sc
               | Inl error \<Rightarrow> withBabel)
         else withBabel)"

definition buildJs ::
  "('p, 'r) parser_packages \<Rightarrow> 'p program_cache \<Rightarrow> jsts_input \<Rightarrow> bool \<Rightarrow> source_code res" where
  "buildJs pp cache input tryTypeScriptESLintParser =
     (let withBabel =
        (case bind_res (buildParserOptions (pp_dirname pp) cache input True None ''module'')
           (parseForESLint pp (ji_fileContent input) (parser_parse pp javascript)) of
           Inr sc \<Rightarrow> Inr sc
         | Inl moduleError \<Rightarrow>
             (case bind_res (buildParserOptions (pp_dirname pp) cache input True None ''script'')
                (parseForESLint pp (ji_fileContent input) (parser_parse pp javascript)) of
                Inr sc \<Rightarrow> Inr sc
              | Inl _ \<Rightarrow> Inl moduleError))
      in if tryTypeScriptESLintParser
         then (case bind_res (buildParserOptions (pp_dirname pp) cache input False None ''module'')
                 (parseForESLint pp (ji_fileContent input) (parser_parse pp typescript)) of
                 Inr sc \<Rightarrow> Inr sc
               | Inl error \<Rightarrow> withBabel)
         else withBabel)"

definition shouldTryTypeScriptParser :: "context_info option \<Rightarrow> bool" where
  "shouldTryTypeScriptParser ctx =
     (case getContext ctx of Some c \<Rightarrow> shouldUseTypeScriptParserForJS c | None \<Rightarrow> True)"

definition buildSourceCode ::
  "('p, 'r) parser_packages \<Rightarrow> context_info option \<Rightarrow> 'p program_cache \<Rightarrow> jsts_input \<Rightarrow> language \<Rightarrow>
   source_code res" where
  "buildSourceCode pp ctx cache input language =
     (let isVueFile = ends_with (ji_filePath input) ''.vue'' in
      if language = TS then buildTs pp cache input isVueFile
      else let tryTypeScriptParser = shouldTryTypeScriptParser ctx in
           if isVueFile then buildVue pp cache input tryTypeScriptParser
           else buildJs pp cache input tryTypeScriptParser)"

section \<open>Correctness\<close>

text \<open>
  An attempt to parse: the parser that is called, the one that it is told to use for scripts,
  whether the options are Babel's, and the type of source.
\<close>

record attempt =
  at_parse :: eslint_parser
  at_parser :: "eslint_parser option"
  at_babel :: bool
  at_sourceType :: string

definition run_attempt ::
  "('p, 'r) parser_packages \<Rightarrow> 'p program_cache \<Rightarrow> jsts_input \<Rightarrow> attempt \<Rightarrow> source_code res" where
  "run_attempt pp cache input a =
     bind_res (buildParserOptions (pp_dirname pp) cache input (at_babel a)
         (map_option parser_name (at_parser a)) (at_sourceType a))
       (parseForESLint pp (ji_fileContent input) (parser_parse pp (at_parse a)))"

text \<open>The attempts for an input, in order; the last one that parses a module gives the error.\<close>

definition attempts :: "context_info option \<Rightarrow> jsts_input \<Rightarrow> language \<Rightarrow> attempt list" where
  "attempts ctx input language =
     (let vue = ends_with (ji_filePath input) ''.vue'';
          withTypeScript = \<lparr>at_parse = if vue then vuejs else typescript,
            at_parser = if vue then Some typescript else None, at_babel = False, at_sourceType = ''module''\<rparr>;
          withBabel = \<lparr>at_parse = if vue then vuejs else javascript,
            at_parser = if vue then Some javascript else None, at_babel = True, at_sourceType = ''module''\<rparr>
      in if language = TS then [withTypeScript]
         else (if shouldTryTypeScriptParser ctx then [withTypeScript] else []) @
           [withBabel] @ (if vue then [] else [withBabel\<lparr>at_sourceType := ''script''\<rparr>]))"

fun first_success :: "('a \<Rightarrow> 'b res) \<Rightarrow> 'a list \<Rightarrow> 'b option" where
  "first_success f [] = None"
| "first_success f (x # xs) = (case f x of Inr y \<Rightarrow> Some y | Inl e \<Rightarrow> first_success f xs)"

text \<open>
  C33: building a source code gives the result of the first attempt that succeeds: the
  TypeScript parser first (for JavaScript only when the context allows it, and always when
  there is no context), then, for JavaScript, Babel on a module and, outside of Vue files,
  Babel on a script. When all fail, the error is the one of the last attempt on a module.
\<close>

theorem buildSourceCode_correct:
  "buildSourceCode pp ctx cache input language =
     (case first_success (run_attempt pp cache input) (attempts ctx input language) of
        Some sc \<Rightarrow> Inr sc
      | None \<Rightarrow> run_attempt pp cache input
          (last (filter (\<lambda>a. at_sourceType a = ''module'') (attempts ctx input language))))"
  by (auto simp: buildSourceCode_def buildTs_def buildVue_def buildJs_def attempts_def run_attempt_def Let_def
      split: sum.split)

lemma buildParserOptions_Inr:
  "(\<exists>options. buildParserOptions dirname cache input babel parser sourceType = Inr options) \<longleftrightarrow>
     (case ji_programId input of None \<Rightarrow> True | Some i \<Rightarrow> \<exists>p. getProgramById cache i = Inr p)"
  by (auto simp: buildParserOptions_def bind_res_eq_Inr Let_def split: option.split)

lemma buildParserOptions_Inl:
  "buildParserOptions dirname cache input babel parser sourceType = Inl e \<longleftrightarrow>
     (\<exists>i. ji_programId input = Some i \<and> getProgramById cache i = Inl e)"
  by (auto simp: buildParserOptions_def bind_res_eq_Inl Let_def split: option.split)

lemma run_attempt_missing:
  "ji_programId input = Some i \<Longrightarrow> getProgramById cache i = Inl e \<Longrightarrow> run_attempt pp cache input a = Inl e"
  by (simp add: run_attempt_def buildParserOptions_def)

lemma parseForESLint_error:
  "parseForESLint pp code parse options = Inl e \<Longrightarrow>
   (\<exists>message line. e = APIError Parsing message (Some \<lparr>data_line = line\<rparr>) \<and> \<not> starts_with message ''Debug Failure'') \<or>
   (\<exists>message. e = APIError FailingTypeScript message None \<and> starts_with message ''Debug Failure'')"
  by (auto simp: parseForESLint_def failingTypeScriptError_def parsingError_def simp del: starts_with.simps
      split: sum.splits if_splits)

lemma run_attempt_error:
  assumes "run_attempt pp cache input a = Inl e" "\<forall>i. ji_programId input = Some i \<longrightarrow> \<not> isl (getProgramById cache i)"
  shows "(\<exists>message line. e = APIError Parsing message (Some \<lparr>data_line = line\<rparr>) \<and> \<not> starts_with message ''Debug Failure'') \<or>
   (\<exists>message. e = APIError FailingTypeScript message None \<and> starts_with message ''Debug Failure'')"
  using assms by (auto simp: run_attempt_def bind_res_eq_Inl buildParserOptions_Inl simp del: starts_with.simps
      dest: parseForESLint_error)

lemma buildSourceCode_error_attempt:
  "buildSourceCode pp ctx cache input language = Inl e \<Longrightarrow> \<exists>a \<in> set (attempts ctx input language). run_attempt pp cache input a = Inl e"
  by (auto simp: buildSourceCode_def buildTs_def buildVue_def buildJs_def attempts_def run_attempt_def Let_def
      split: sum.splits if_splits)

text \<open>
  C34: how building a source code fails. An unknown program makes it fail with the error of
  the cache. Otherwise every failure is an \<^verbatim>\<open>APIError\<close>: a failing TypeScript error for the
  messages that start with \<^verbatim>\<open>Debug Failure\<close>, and a parsing error with the line for all others.
\<close>

theorem buildSourceCode_errors:
  assumes "buildSourceCode pp ctx cache input language = Inl e"
  shows "case Option.bind (ji_programId input) (\<lambda>i. if isl (getProgramById cache i) then Some i else None) of
      Some i \<Rightarrow> e = JsError (''Failed to find program '' @ i) []
    | None \<Rightarrow>
       (\<exists>message line. e = APIError Parsing message (Some \<lparr>data_line = line\<rparr>) \<and> \<not> starts_with message ''Debug Failure'') \<or>
       (\<exists>message. e = APIError FailingTypeScript message None \<and> starts_with message ''Debug Failure'')"
proof -
  from buildSourceCode_error_attempt [OF assms] obtain a where a: "run_attempt pp cache input a = Inl e"
    by blast
  show ?thesis
  proof (cases "Option.bind (ji_programId input) (\<lambda>i. if isl (getProgramById cache i) then Some i else None)")
    case None
    then have "\<forall>i. ji_programId input = Some i \<longrightarrow> \<not> isl (getProgramById cache i)" by auto
    with None run_attempt_error [OF a] show ?thesis by (simp del: starts_with.simps)
  next
    case (Some i)
    then have "ji_programId input = Some i" "isl (getProgramById cache i)"
      by (auto simp: bind_eq_Some_conv split: if_splits)
    moreover from this obtain e' where "getProgramById cache i = Inl e'" by (auto simp: isl_def)
    ultimately show ?thesis
      using a Some run_attempt_missing [of input i cache e' pp a]
      by (auto simp: getProgramById_def split: option.splits)
  qed
qed

definition example_parsers :: "(unit, unit) parser_packages" where
  "example_parsers =
     (let fail = (\<lambda>code options. Inl \<lparr>px_lineNumber = Some 1, px_message = ''Unexpected token (1:3)''\<rparr>)
      in \<lparr>pp_babel = fail, pp_typescript = fail, pp_vue = fail,
          pp_SourceCode = (\<lambda>r code. Inl \<lparr>px_lineNumber = None, px_message = []\<rparr>), pp_dirname = ''/lib''\<rparr>)"

definition example_input :: "string option \<Rightarrow> jsts_input" where
  "example_input programId = \<lparr>ji_filePath = ''a.js'', ji_fileContent = ''if!'', ji_linterId = None, ji_fileType = MAIN,
     ji_ignoreHeaderComments = None, ji_tsConfigs = None, ji_programId = programId\<rparr>"

theorem buildSourceCode_errors_witness:
  "(\<exists>message line. buildSourceCode example_parsers None empty_cache (example_input None) JS =
      Inl (APIError Parsing message (Some \<lparr>data_line = line\<rparr>))) \<and>
   buildSourceCode example_parsers None empty_cache (example_input (Some ''7'')) JS =
      Inl (JsError ''Failed to find program 7'' [])"
proof
  obtain e where e: "buildSourceCode example_parsers None empty_cache (example_input None) JS = Inl e"
    "(case e of APIError c m d \<Rightarrow> c \<noteq> FailingTypeScript | _ \<Rightarrow> True)"
    by (simp add: buildSourceCode_def buildJs_def shouldTryTypeScriptParser_def getContext_def example_input_def
        ends_with_def buildParserOptions_def parseForESLint_def example_parsers_def parsingError_def Let_def)
  from buildSourceCode_errors [OF e(1)] e show
    "\<exists>message line. buildSourceCode example_parsers None empty_cache (example_input None) JS =
      Inl (APIError Parsing message (Some \<lparr>data_line = line\<rparr>))"
    by (auto simp: example_input_def simp del: starts_with.simps)
  have missing: "getProgramById empty_cache ''7'' = (Inl (JsError ''Failed to find program 7'' []) :: unit res)"
    by (simp add: getProgramById_def empty_cache_def dict_get_def)
  then have "isl (buildSourceCode example_parsers None empty_cache (example_input (Some ''7'')) JS)"
    by (simp add: buildSourceCode_def buildJs_def shouldTryTypeScriptParser_def getContext_def example_input_def
        ends_with_def buildParserOptions_def)
  then obtain e where e: "buildSourceCode example_parsers None empty_cache (example_input (Some ''7'')) JS = Inl e"
    by (auto simp: isl_def)
  from buildSourceCode_errors [OF e] e missing show
    "buildSourceCode example_parsers None empty_cache (example_input (Some ''7'')) JS =
      Inl (JsError ''Failed to find program 7'' [])"
    by (simp add: example_input_def)
qed

end
