(* ===== verification/Embedded.thy ===== *)
theory Embedded
  imports Linter Parsers
begin

text \<open>
  JavaScript embedded in other files: the extraction from HTML and YAML of
  \<^verbatim>\<open>src/parsing/embedded/parser/\<close>, the AWS contexts of \<^verbatim>\<open>aws/parsingContexts.ts\<close>, the
  patching of locations and errors of \<^verbatim>\<open>builder/patch.ts\<close>, the building of source codes of
  \<^verbatim>\<open>builder/build.ts\<close>, and the analyzer of \<^verbatim>\<open>src/services/analysis/analyzers/embedded/\<close>.
  The HTML and YAML parsers are parameters: what they report is a list of events, and the nodes
  of YAML are values.
\<close>

section \<open>Lines\<close>

text \<open>The offsets after the matches of \<^verbatim>\<open>/\r\n|\r|\n/g\<close>.\<close>

abbreviation "CR \<equiv> CHR 0x0D"
abbreviation "LF \<equiv> CHR 0x0A"

fun line_starts_from :: "nat \<Rightarrow> string \<Rightarrow> nat list" where
  "line_starts_from i [] = []"
| "line_starts_from i [c] = (if c = CR \<or> c = LF then [i + 1] else [])"
| "line_starts_from i (c # d # cs) =
     (if c = CR \<and> d = LF then (i + 2) # line_starts_from (i + 2) cs
      else if c = CR \<or> c = LF then (i + 1) # line_starts_from (i + 1) (d # cs)
      else line_starts_from (i + 1) (d # cs))"

definition computeLineStarts :: "string \<Rightarrow> nat list" where
  "computeLineStarts str = 0 # line_starts_from 0 str"

text \<open>The loop variable ends at the first line start beyond the offset, or at the end.\<close>

fun line_index :: "nat \<Rightarrow> nat list \<Rightarrow> nat" where
  "line_index offset [] = 0"
| "line_index offset (s # ss) = (if offset < s then 0 else Suc (line_index offset ss))"

definition computeLine :: "nat \<Rightarrow> nat list \<Rightarrow> nat" where
  "computeLine offset fileLineStarts = line_index offset fileLineStarts"

definition computeCol :: "nat \<Rightarrow> nat list \<Rightarrow> int" where
  "computeCol offset fileLineStarts =
     (let i = line_index offset fileLineStarts in int offset - int (fileLineStarts ! (i - 1)) + 1)"

section \<open>Snippets\<close>

datatype embedded_format = PLAIN | BLOCK_FOLDED | BLOCK_LITERAL

record embedded_js =
  ej_code :: string
  ej_line :: int
  ej_column :: int
  ej_offset :: int
  ej_lineStarts :: "nat list"
  ej_text :: string
  ej_format :: embedded_format
  ej_resourceName :: "string option"

subsection \<open>HTML\<close>

text \<open>
  What the parser reports: an opening tag with its name, its \<^verbatim>\<open>src\<close> attribute and the index
  of its last character, or a closing tag with its name and the index of its first character.
\<close>

datatype html_event = OpenTag string "string option" nat | CloseTag string nat

record html_state =
  hs_start :: nat
  hs_end :: nat
  hs_inScript :: bool
  hs_snippets :: "embedded_js list"

definition slice :: "nat \<Rightarrow> nat \<Rightarrow> 'a list \<Rightarrow> 'a list" where
  "slice i j xs = take (j - i) (drop i xs)"

fun html_step :: "string \<Rightarrow> nat list \<Rightarrow> html_event \<Rightarrow> html_state \<Rightarrow> html_state" where
  "html_step code lineStarts (OpenTag name src endIndex) s =
     (if name \<noteq> ''script'' then s
      else if src \<noteq> None \<and> src \<noteq> Some [] then s
      else s\<lparr>hs_inScript := True, hs_start := endIndex + 1\<rparr>)"
| "html_step code lineStarts (CloseTag name startIndex) s =
     (if name \<noteq> ''script'' \<or> \<not> hs_inScript s then s
      else s\<lparr>hs_inScript := False, hs_end := startIndex,
             hs_snippets := hs_snippets s @
               [\<lparr>ej_code = slice (hs_start s) startIndex code,
                 ej_line = int (computeLine (hs_start s) lineStarts),
                 ej_column = computeCol (hs_start s) lineStarts,
                 ej_offset = int (hs_start s), ej_lineStarts = lineStarts, ej_text = code,
                 ej_format = PLAIN, ej_resourceName = None\<rparr>],
             hs_start := startIndex\<rparr>)"

definition parseHTML :: "(string \<Rightarrow> html_event list) \<Rightarrow> string \<Rightarrow> embedded_js list" where
  "parseHTML htmlparser code =
     (if code = [] then []
      else hs_snippets (fold (html_step code (computeLineStarts code)) (htmlparser code)
        \<lparr>hs_start = 0, hs_end = 0, hs_inScript = False, hs_snippets = []\<rparr>))"

subsection \<open>YAML\<close>

text \<open>
  What the YAML library gives: documents with their errors (message and offset) and the calls
  of the visitor on pairs, each with the ancestors of the pair; the position of an offset and
  the line starts.
\<close>

record yaml_doc =
  yd_errors :: "(string \<times> int) list"
  yd_pairs :: "(jsval \<times> jsval \<times> jsval list) list"

record yaml_parser =
  yp_docs :: "string \<Rightarrow> yaml_doc list"
  yp_linePos :: "string \<Rightarrow> int \<Rightarrow> int \<times> int"
  yp_lineStarts :: "string \<Rightarrow> nat list"

record parsing_context =
  pc_predicate :: "jsval \<Rightarrow> jsval \<Rightarrow> jsval list \<Rightarrow> bool res"
  pc_picker :: "jsval \<Rightarrow> jsval \<Rightarrow> jsval list \<Rightarrow> string option res"

definition format_of :: "jsval \<Rightarrow> embedded_format option" where
  "format_of v =
     (if v = JStr ''PLAIN'' then Some PLAIN
      else if v = JStr ''BLOCK_FOLDED'' then Some BLOCK_FOLDED
      else if v = JStr ''BLOCK_LITERAL'' then Some BLOCK_LITERAL
      else None)"

definition isSupportedFormat :: "jsval \<Rightarrow> bool" where
  "isSupportedFormat pair \<longleftrightarrow> format_of (fld (fld pair ''value'') ''type'') \<noteq> None"

definition fixOffset :: "int \<Rightarrow> embedded_format \<Rightarrow> int" where
  "fixOffset offset fmt = (if fmt \<in> {BLOCK_FOLDED, BLOCK_LITERAL} then offset + 2 else offset)"

definition range_start :: "jsval \<Rightarrow> int" where
  "range_start v = (case elems (fld v ''range'') of JNum q # _ \<Rightarrow> \<lfloor>q\<rfloor> | _ \<Rightarrow> 0)"

definition yaml_snippet ::
  "yaml_parser \<Rightarrow> string \<Rightarrow> parsing_context \<Rightarrow> jsval \<times> jsval \<times> jsval list \<Rightarrow> embedded_js list res" where
  "yaml_snippet yaml text ctx visited =
     (case visited of (key, pair, ancestors) \<Rightarrow>
        bind_res (pc_predicate ctx key pair ancestors) (\<lambda>selected.
          case (selected, format_of (fld (fld pair ''value'') ''type'')) of
            (True, Some fmt) \<Rightarrow>
              (case fld (fld (fld pair ''srcToken'') ''value'') ''source'' of
                 JStr code \<Rightarrow>
                   let offsetStart = range_start (fld pair ''value'');
                       (line, column) = yp_linePos yaml text offsetStart
                   in bind_res (pc_picker ctx key pair ancestors) (\<lambda>name. Inr
                        [\<lparr>ej_code = code, ej_line = line, ej_column = column,
                          ej_offset = fixOffset offsetStart fmt, ej_lineStarts = yp_lineStarts yaml text,
                          ej_text = text, ej_format = fmt, ej_resourceName = name\<rparr>])
               | _ \<Rightarrow> Inl (JsError ''An extracted embedded JavaScript snippet should be defined.'' []))
          | _ \<Rightarrow> Inr []))"

definition parse_doc :: "yaml_parser \<Rightarrow> parsing_context list \<Rightarrow> string \<Rightarrow> yaml_doc \<Rightarrow> embedded_js list res" where
  "parse_doc yaml parsingContexts text doc =
     (case yd_errors doc of
        (message, pos) # _ \<Rightarrow>
          Inl (APIError Parsing message (Some \<lparr>data_line = Some (fst (yp_linePos yaml text pos))\<rparr>))
      | [] \<Rightarrow>
          bind_res (map_res (\<lambda>visited. bind_res (map_res (\<lambda>ctx. yaml_snippet yaml text ctx visited) parsingContexts)
            (\<lambda>js. Inr (concat js))) (yd_pairs doc)) (\<lambda>js. Inr (concat js)))"

definition parseYaml :: "yaml_parser \<Rightarrow> parsing_context list \<Rightarrow> string \<Rightarrow> embedded_js list res" where
  "parseYaml yaml parsingContexts text =
     bind_res (map_res (parse_doc yaml parsingContexts text) (yp_docs yaml text)) (\<lambda>js. Inr (concat js))"

subsection \<open>AWS\<close>

definition ancestor_at :: "jsval list \<Rightarrow> nat \<Rightarrow> jsval" where
  "ancestor_at ancestors level =
     (if level \<le> length ancestors \<and> 0 < level then ancestors ! (length ancestors - level) else JUndefined)"

definition not_a_property :: js_error where
  "not_a_property = JsError ''Cannot read properties of undefined'' []"

text \<open>\<^verbatim>\<open>some\<close> stops at the first item that satisfies the test, or that throws.\<close>

fun some_res :: "('a \<Rightarrow> bool res) \<Rightarrow> 'a list \<Rightarrow> bool res" where
  "some_res f [] = Inr False"
| "some_res f (x # xs) = bind_res (f x) (\<lambda>b. if b then Inr True else some_res f xs)"

text \<open>\<^verbatim>\<open>item?.key.value\<close>: a present item without a key throws.\<close>

definition item_key :: "jsval \<Rightarrow> jsval res" where
  "item_key item =
     (if nullish item then Inr JUndefined
      else if nullish (fld item ''key'') then Inl not_a_property
      else Inr (fld (fld item ''key'') ''value''))"

definition hasNodeJsRuntime :: "jsval list \<Rightarrow> nat \<Rightarrow> bool res" where
  "hasNodeJsRuntime ancestors level =
     some_res (\<lambda>item. bind_res (item_key item) (\<lambda>key.
       if key \<noteq> JStr ''Runtime'' then Inr False
       else if nullish (fld item ''value'') then Inr False
       else (case fld (fld item ''value'') ''value'' of
               JStr s \<Rightarrow> Inr (starts_with s ''nodejs'')
             | _ \<Rightarrow> Inl not_a_property)))
       (elems (fld (ancestor_at ancestors level) ''items''))"

definition hasType :: "jsval list \<Rightarrow> string \<Rightarrow> nat \<Rightarrow> bool res" where
  "hasType ancestors type level =
     some_res (\<lambda>item. bind_res (item_key item) (\<lambda>key.
       if key \<noteq> JStr ''Type'' then Inr False
       else if nullish (fld item ''value'') then Inl not_a_property
       else Inr (fld (fld item ''value'') ''value'' = JStr type)))
       (elems (fld (ancestor_at ancestors level) ''items''))"

definition and_res :: "bool res \<Rightarrow> bool res \<Rightarrow> bool res" where
  "and_res a b = bind_res a (\<lambda>x. if x then b else Inr False)"

text \<open>\<^verbatim>\<open>pair.key.value\<close> throws on a pair without a key.\<close>

definition pair_key_is :: "jsval \<Rightarrow> string \<Rightarrow> bool res" where
  "pair_key_is pair name =
     (if nullish (fld pair ''key'') then Inl not_a_property
      else Inr (fld (fld pair ''key'') ''value'' = JStr name))"

definition isInlineAwsLambda :: "jsval \<Rightarrow> jsval \<Rightarrow> jsval list \<Rightarrow> bool res" where
  "isInlineAwsLambda key pair ancestors =
     and_res (and_res (and_res
       (pair_key_is pair ''ZipFile'')
       (Inr (fld (fld (ancestor_at ancestors 2) ''key'') ''value'' = JStr ''Code'')))
       (hasNodeJsRuntime ancestors 3))
       (hasType ancestors ''AWS::Lambda::Function'' 5)"

definition isInlineAwsServerless :: "jsval \<Rightarrow> jsval \<Rightarrow> jsval list \<Rightarrow> bool res" where
  "isInlineAwsServerless key pair ancestors =
     and_res (and_res
       (pair_key_is pair ''InlineCode'')
       (hasNodeJsRuntime ancestors 1))
       (hasType ancestors ''AWS::Serverless::Function'' 3)"

definition pickResourceName :: "nat \<Rightarrow> jsval \<Rightarrow> jsval \<Rightarrow> jsval list \<Rightarrow> string option res" where
  "pickResourceName level key pair ancestors =
     (let ancestorsAtResourcesLevel = ancestor_at ancestors level in
      if nullish ancestorsAtResourcesLevel \<or> nullish (fld ancestorsAtResourcesLevel ''key'')
      then Inl not_a_property
      else Inr (case fld (fld ancestorsAtResourcesLevel ''key'') ''value'' of JStr s \<Rightarrow> Some s | _ \<Rightarrow> None))"

definition lambdaParsingContext :: parsing_context where
  "lambdaParsingContext = \<lparr>pc_predicate = isInlineAwsLambda, pc_picker = pickResourceName 6\<rparr>"

definition serverlessParsingContext :: parsing_context where
  "serverlessParsingContext = \<lparr>pc_predicate = isInlineAwsServerless, pc_picker = pickResourceName 4\<rparr>"

definition parseAwsFromYaml :: "yaml_parser \<Rightarrow> string \<Rightarrow> embedded_js list res" where
  "parseAwsFromYaml yaml text = parseYaml yaml [lambdaParsingContext, serverlessParsingContext] text"

section \<open>Patching\<close>

subsection \<open>Locations\<close>

text \<open>
  The nodes of the tree are changed in place: a store holds the range and the location of every
  node under its identity, and a node that is reached twice is changed twice.
\<close>

type_synonym place = "range option \<times> source_loc option"
type_synonym node_store = "nat \<Rightarrow> place"

definition fixNodeLocation :: "(int \<Rightarrow> position) \<Rightarrow> int \<Rightarrow> place \<Rightarrow> place" where
  "fixNodeLocation getLocFromIndex offset pl =
     (case pl of
        (Some (s, e), loc) \<Rightarrow>
          (Some (s + offset, e + offset),
           if loc \<noteq> None
           then Some \<lparr>loc_start = getLocFromIndex (s + offset), loc_end = getLocFromIndex (e + offset)\<rparr>
           else loc)
      | (None, loc) \<Rightarrow> (None, loc))"

definition patch_node :: "(int \<Rightarrow> position) \<Rightarrow> int \<Rightarrow> node \<Rightarrow> node_store \<Rightarrow> node_store" where
  "patch_node getLocFromIndex offset n store =
     (case node_id n of None \<Rightarrow> store | Some i \<Rightarrow> store(i := fixNodeLocation getLocFromIndex offset (store i)))"

definition patch_token :: "(int \<Rightarrow> position) \<Rightarrow> int \<Rightarrow> token \<Rightarrow> token" where
  "patch_token getLocFromIndex offset t =
     (case fixNodeLocation getLocFromIndex offset (Some (tok_range t), Some (tok_loc t)) of
        (Some r, Some l) \<Rightarrow> t\<lparr>tok_range := r, tok_loc := l\<rparr>
      | _ \<Rightarrow> t)"

definition patch_comment :: "(int \<Rightarrow> position) \<Rightarrow> int \<Rightarrow> comment \<Rightarrow> comment" where
  "patch_comment getLocFromIndex offset c =
     (case fixNodeLocation getLocFromIndex offset (Some (com_range c), com_loc c) of
        (Some r, l) \<Rightarrow> c\<lparr>com_range := r, com_loc := l\<rparr>
      | _ \<Rightarrow> c)"

definition patchASTLocations ::
  "source_code \<Rightarrow> int \<Rightarrow> node_store \<Rightarrow> node_store \<times> comment list \<times> token list" where
  "patchASTLocations sc offset store =
     (visit sc (patch_node (sc_getLocFromIndex sc) offset) store,
      map (patch_comment (sc_getLocFromIndex sc) offset) (sc_comments sc),
      map (patch_token (sc_getLocFromIndex sc) offset) (sc_tokens sc))"

text \<open>The line breaks of \<^verbatim>\<open>computeLines\<close>, below code unit 256.\<close>

fun line_breaks_from :: "nat \<Rightarrow> string \<Rightarrow> nat list" where
  "line_breaks_from i [] = []"
| "line_breaks_from i [c] = (if c = CR \<or> c = LF then [i] else [])"
| "line_breaks_from i (c # d # cs) =
     (if c = CR \<and> d = LF then i # line_breaks_from (i + 2) cs
      else if c = CR \<or> c = LF then i # line_breaks_from (i + 1) (d # cs)
      else line_breaks_from (i + 1) (d # cs))"

definition computeLines :: "embedded_js \<Rightarrow> string list" where
  "computeLines js =
     map (\<lambda>(start, stop). slice start stop (ej_text js))
       (zip (ej_lineStarts js) (line_breaks_from 0 (ej_text js))) @
     [drop (last (ej_lineStarts js)) (ej_text js)]"

text \<open>
  The places of the objects of a tree, and the tree in which each object has the place of the
  store.
\<close>

function all_places :: "jsval \<Rightarrow> (nat \<times> place) list" where
  "all_places (JArr vs) = concat (map all_places vs)"
| "all_places (JObj i r l fs) = (i, (r, l)) # concat (map (\<lambda>(k, v). all_places v) fs)"
| "all_places JUndefined = []"
| "all_places JNull = []"
| "all_places (JBool b) = []"
| "all_places (JNum q) = []"
| "all_places (JStr s) = []"
| "all_places (JRegExp p f) = []"
  by pat_completeness auto
termination
  by (relation "measure size") (auto simp: size_elem_less size_field_less simp del: jsval.size)

definition store_of :: "jsval \<Rightarrow> node_store" where
  "store_of v i = (case map_of (all_places v) i of None \<Rightarrow> (None, None) | Some pl \<Rightarrow> pl)"

function relocate :: "node_store \<Rightarrow> jsval \<Rightarrow> jsval" where
  "relocate store (JArr vs) = JArr (map (relocate store) vs)"
| "relocate store (JObj i r l fs) =
     JObj i (fst (store i)) (snd (store i)) (map (\<lambda>(k, v). (k, relocate store v)) fs)"
| "relocate store JUndefined = JUndefined"
| "relocate store JNull = JNull"
| "relocate store (JBool b) = JBool b"
| "relocate store (JNum q) = JNum q"
| "relocate store (JStr s) = JStr s"
| "relocate store (JRegExp p f) = JRegExp p f"
  by pat_completeness auto
termination
  by (relation "measure (\<lambda>(store, v). size v)") (auto simp: size_elem_less size_field_less simp del: jsval.size)

text \<open>
  \<^verbatim>\<open>Object.create\<close> on a source code with other lines, and ESLint's constructor of source codes
  on the patched tree, are the parameters \<open>override\<close> and \<open>rebuild\<close>.
\<close>

definition patchSourceCode ::
  "(source_code \<Rightarrow> nat list \<Rightarrow> string \<Rightarrow> string list \<Rightarrow> source_code) \<Rightarrow> (string \<Rightarrow> source_code \<Rightarrow> source_code) \<Rightarrow>
   source_code \<Rightarrow> embedded_js \<Rightarrow> source_code" where
  "patchSourceCode override rebuild originalSourceCode js =
     (let lines = computeLines js;
          patchedSourceCode = override originalSourceCode (ej_lineStarts js) (ej_text js) lines;
          (store, comments, tokens) = patchASTLocations patchedSourceCode (ej_offset js) (store_of (sc_ast patchedSourceCode))
      in rebuild (ej_text js)
           (patchedSourceCode\<lparr>sc_ast := relocate store (sc_ast patchedSourceCode),
              sc_comments := comments, sc_tokens := tokens\<rparr>))"

subsection \<open>Parsing errors\<close>

definition is_digit :: "char \<Rightarrow> bool" where
  "is_digit c \<longleftrightarrow> digit_val c \<noteq> None"

text \<open>
  The leftmost match of \<^verbatim>\<open>/((?<line>\d+):(?<column>\d+))/\<close>; the parentheses of the pattern are
  groups.
\<close>

function find_location :: "string \<Rightarrow> (string \<times> string) option" where
  "find_location [] = None"
| "find_location (c # cs) =
     (if is_digit c then
        let ds = takeWhile is_digit (c # cs); rest = dropWhile is_digit (c # cs) in
        (case rest of
           [] \<Rightarrow> None
         | d # ds2 \<Rightarrow>
             if d = CHR '':'' \<and> takeWhile is_digit ds2 \<noteq> [] then Some (ds, takeWhile is_digit ds2)
             else find_location rest)
      else find_location cs)"
  by pat_completeness auto
termination
proof (relation "measure length", goal_cases)
  case (2 c cs ds rest d ds2)
  then have "length (dropWhile is_digit (c # cs)) \<le> length cs" by (simp add: length_dropWhile_le)
  with 2 show ?case by simp
qed auto

fun replace_first :: "string \<Rightarrow> string \<Rightarrow> string \<Rightarrow> string" where
  "replace_first pat rep [] = (if pat = [] then rep else [])"
| "replace_first pat rep (c # cs) =
     (if starts_with (c # cs) pat then rep @ drop (length pat) (c # cs) else c # replace_first pat rep cs)"

definition paren_location :: "string \<Rightarrow> string \<Rightarrow> string" where
  "paren_location line column = ''('' @ line @ '':'' @ column @ '')''"

definition patchParsingErrorMessage :: "string \<Rightarrow> int \<Rightarrow> embedded_js \<Rightarrow> string" where
  "patchParsingErrorMessage message patchedLine js =
     (case find_location message of
        None \<Rightarrow> message
      | Some (line, columnText) \<Rightarrow>
          let column = int (fst (parse_digits 0 columnText));
              patchedColumn = (if ej_format js = PLAIN then column + ej_column js - 1 else column)
          in replace_first (paren_location line (show_int column))
               (paren_location (show_int patchedLine) (show_int patchedColumn)) message)"

definition patchParsingError :: "js_error \<Rightarrow> embedded_js \<Rightarrow> js_error" where
  "patchParsingError error js =
     (case error of
        APIError code message (Some d) \<Rightarrow>
          (case data_line d of
             Some line \<Rightarrow>
               let patchedLine = (if ej_format js = PLAIN then ej_line js else ej_line js + line)
               in APIError code (patchParsingErrorMessage message patchedLine js) (Some \<lparr>data_line = Some patchedLine\<rparr>)
           | None \<Rightarrow> error)
      | _ \<Rightarrow> error)"

section \<open>Building and analyzing\<close>

datatype embedded_language = HTML | YAML

record embedded_input =
  ei_filePath :: string
  ei_fileContent :: string
  ei_linterId :: "string option"

record extended_source_code =
  es_source :: source_code
  es_syntheticFilePath :: string

text \<open>
  \<^verbatim>\<open>path.parse\<close> and \<^verbatim>\<open>path.format\<close> of Node.js, the parsers and the two parameters of
  \<^verbatim>\<open>patchSourceCode\<close>.
\<close>

record ('p, 'r) embedded_env =
  ee_path_parse :: "string \<Rightarrow> string \<times> string \<times> string"
  ee_path_format :: "string \<times> string \<times> string \<Rightarrow> string"
  ee_htmlparser :: "string \<Rightarrow> html_event list"
  ee_yaml :: yaml_parser
  ee_parsers :: "('p, 'r) parser_packages"
  ee_override :: "source_code \<Rightarrow> nat list \<Rightarrow> string \<Rightarrow> string list \<Rightarrow> source_code"
  ee_construct :: "string \<Rightarrow> source_code \<Rightarrow> source_code"

definition composeSyntheticFilePath :: "('p, 'r) embedded_env \<Rightarrow> string \<Rightarrow> string \<Rightarrow> string" where
  "composeSyntheticFilePath env filePath resourceName =
     (case ee_path_parse env filePath of (dir, name, ext) \<Rightarrow>
        ee_path_format env (dir, name @ ''-'' @ resourceName, ext))"

definition build_snippet ::
  "('p, 'r) embedded_env \<Rightarrow> context_info option \<Rightarrow> 'p program_cache \<Rightarrow> embedded_input \<Rightarrow> embedded_js \<Rightarrow>
   extended_source_code res" where
  "build_snippet env ctx cache input js =
     (let syntheticFilePath = (case ej_resourceName js of
            None \<Rightarrow> ei_filePath input
          | Some name \<Rightarrow> composeSyntheticFilePath env (ei_filePath input) name);
          jsTsAnalysisInput = \<lparr>ji_filePath = [], ji_fileContent = ej_code js, ji_linterId = None,
            ji_fileType = MAIN, ji_ignoreHeaderComments = None, ji_tsConfigs = None, ji_programId = None\<rparr>
      in case buildSourceCode (ee_parsers env) ctx cache jsTsAnalysisInput JS of
           Inr sc \<Rightarrow> Inr \<lparr>es_source = patchSourceCode (ee_override env) (ee_construct env) sc js,
             es_syntheticFilePath = syntheticFilePath\<rparr>
         | Inl e \<Rightarrow> Inl (patchParsingError e js))"

definition buildSourceCodes ::
  "('p, 'r) embedded_env \<Rightarrow> context_info option \<Rightarrow> 'p program_cache \<Rightarrow> embedded_input \<Rightarrow> embedded_language \<Rightarrow>
   extended_source_code list res" where
  "buildSourceCodes env ctx cache input language =
     bind_res (case language of
         HTML \<Rightarrow> Inr (parseHTML (ee_htmlparser env) (ei_fileContent input))
       | YAML \<Rightarrow> parseAwsFromYaml (ee_yaml env) (ei_fileContent input))
       (map_res (build_snippet env ctx cache input))"

definition isBeforeOrEqual :: "position \<Rightarrow> position \<Rightarrow> bool" where
  "isBeforeOrEqual a b =
     (if pos_line a < pos_line b then True
      else if pos_line b < pos_line a then False
      else pos_column a \<le> pos_column b)"

definition removeNonJsIssues :: "source_code \<Rightarrow> issue list \<Rightarrow> issue list" where
  "removeNonJsIssues sc issues =
     (case node_range (sc_ast sc) of
        None \<Rightarrow> []
      | Some (s, e) \<Rightarrow>
          filter (\<lambda>i. let issueStart = \<lparr>pos_line = is_line i, pos_column = is_column i\<rparr> in
              isBeforeOrEqual (sc_getLocFromIndex sc s) issueStart \<and>
              isBeforeOrEqual issueStart (sc_getLocFromIndex sc e)) issues)"

definition analyzeEmbedded ::
  "('c, 'h) verifier \<Rightarrow> ('p, 'r) embedded_env \<Rightarrow> context_info option \<Rightarrow> 'p program_cache \<Rightarrow> ('c, 'h) linters \<Rightarrow>
   embedded_input \<Rightarrow> embedded_language \<Rightarrow> (issue list \<times> string list) res" where
  "analyzeEmbedded verify env ctx cache linters input language =
     bind_res (getLinter linters (ei_linterId input)) (\<lambda>linter.
     bind_res (buildSourceCodes env ctx cache input language) (\<lambda>extendedSourceCodes.
     fold_res (\<lambda>ext (issues, ucfgPaths).
         bind_res (lint verify linter (es_source ext) (es_syntheticFilePath ext) MAIN) (\<lambda>result.
         Inr (issues @ removeNonJsIssues (es_source ext) (lr_issues result),
              ucfgPaths @ lr_ucfgPaths result)))
       extendedSourceCodes ([], [])))"

section \<open>Correctness\<close>

subsection \<open>Lines and columns\<close>

text \<open>The end of a line break: a line feed, or a carriage return without one.\<close>

definition ends_line :: "string \<Rightarrow> nat \<Rightarrow> bool" where
  "ends_line s i \<longleftrightarrow> i < length s \<and>
     (s ! i = LF \<or> s ! i = CR \<and> \<not> (Suc i < length s \<and> s ! Suc i = LF))"

lemma ends_line_Cons:
  "ends_line (c # s) i \<longleftrightarrow>
     (case i of 0 \<Rightarrow> c = LF \<or> c = CR \<and> \<not> (s \<noteq> [] \<and> hd s = LF) | Suc j \<Rightarrow> ends_line s j)"
  by (auto simp: ends_line_def hd_conv_nth split: nat.split)

lemma ends_line_set:
  "{k + Suc j |j. ends_line (c # s) j} =
     (if c = LF \<or> c = CR \<and> \<not> (s \<noteq> [] \<and> hd s = LF) then {Suc k} else {}) \<union> {Suc k + Suc j |j. ends_line s j}"
proof -
  have ex: "(\<exists>j. P j) \<longleftrightarrow> P 0 \<or> (\<exists>j. P (Suc j))" for P :: "nat \<Rightarrow> bool"
    by (metis not0_implies_Suc)
  have "x \<in> {k + Suc j |j. ends_line (c # s) j} \<longleftrightarrow>
      x = Suc k \<and> ends_line (c # s) 0 \<or> (\<exists>j. x = Suc k + Suc j \<and> ends_line s j)" for x
    using ex [of "\<lambda>j. x = k + Suc j \<and> ends_line (c # s) j"] by (simp add: ends_line_Cons)
  then show ?thesis by (auto simp: ends_line_Cons)
qed

lemma set_line_starts_from: "set (line_starts_from i s) = {i + Suc j |j. ends_line s j}"
proof (induction i s rule: line_starts_from.induct)
  case (1 i)
  show ?case by (simp add: ends_line_def)
next
  case (2 i c)
  show ?case by (auto simp: ends_line_def)
next
  case (3 i c d cs)
  show ?case
  proof (cases "c = CR \<and> d = LF")
    case True
    with 3(1) have "set (line_starts_from i (c # d # cs)) = insert (i + 2) {i + 2 + Suc j |j. ends_line cs j}" by simp
    also have "\<dots> = {i + Suc j |j. ends_line (c # d # cs) j}"
      using True ends_line_set [of i c "d # cs"] ends_line_set [of "Suc i" d cs] by simp
    finally show ?thesis .
  next
    case False
    with 3(2,3) ends_line_set [of i c "d # cs"] show ?thesis by auto
  qed
qed

lemma line_starts_from_bounds: "x \<in> set (line_starts_from i s) \<Longrightarrow> i < x \<and> x \<le> i + length s"
  unfolding set_line_starts_from by (auto simp: ends_line_def)

lemma sorted_line_starts_from: "sorted_wrt (<) (line_starts_from i s)"
  by (induction i s rule: line_starts_from.induct) (auto dest: line_starts_from_bounds)

lemma line_index_bounds:
  "line_index x ss \<le> length ss \<and> (\<forall>j < line_index x ss. ss ! j \<le> x) \<and>
   (line_index x ss = length ss \<or> x < ss ! line_index x ss)"
  by (induction ss) (auto simp: less_Suc_eq_0_disj)

text \<open>
  The lines of a text start at 0 and after each line feed and each carriage return that no
  line feed follows, in increasing order; and the line and column of an offset are those of
  the line it is in: they lie within the text's lines, the column counts from 1, and the
  start of the line and the column give the offset back.
\<close>

lemma computeLine_computeCol_correct:
  "sorted_wrt (<) (computeLineStarts str) \<and>
   set (computeLineStarts str) = insert 0 {Suc j |j. ends_line str j} \<and>
   1 \<le> computeLine offset (computeLineStarts str) \<and>
   computeLine offset (computeLineStarts str) \<le> length (computeLineStarts str) \<and>
   1 \<le> computeCol offset (computeLineStarts str) \<and>
   int (computeLineStarts str ! (computeLine offset (computeLineStarts str) - 1)) +
     (computeCol offset (computeLineStarts str) - 1) = int offset \<and>
   (computeLine offset (computeLineStarts str) = length (computeLineStarts str) \<or>
    offset < computeLineStarts str ! computeLine offset (computeLineStarts str))"
proof -
  let ?ss = "computeLineStarts str"
  have sorted: "sorted_wrt (<) ?ss"
    using sorted_line_starts_from [of 0 str] line_starts_from_bounds [of _ 0 str] by (auto simp: computeLineStarts_def)
  have set: "set ?ss = insert 0 {Suc j |j. ends_line str j}"
    by (simp add: computeLineStarts_def set_line_starts_from)
  have pos: "1 \<le> line_index offset ?ss" by (simp add: computeLineStarts_def)
  then have "?ss ! (line_index offset ?ss - 1) \<le> offset"
    using line_index_bounds [of offset ?ss] by simp
  with sorted set pos line_index_bounds [of offset ?ss] show ?thesis
    by (simp add: computeLine_def computeCol_def Let_def)
qed

subsection \<open>HTML snippets\<close>

fun event_pos :: "html_event \<Rightarrow> nat" where
  "event_pos (OpenTag name src endIndex) = Suc endIndex"
| "event_pos (CloseTag name startIndex) = startIndex"

definition snippet_end :: "embedded_js \<Rightarrow> nat" where
  "snippet_end js = nat (ej_offset js) + length (ej_code js)"

text \<open>A snippet of a text: its code stands there at its offset, on its line and column.\<close>

definition snippet_of :: "string \<Rightarrow> embedded_js \<Rightarrow> bool" where
  "snippet_of code js \<longleftrightarrow> 0 \<le> ej_offset js \<and> snippet_end js \<le> length code \<and>
     ej_code js = slice (nat (ej_offset js)) (snippet_end js) code \<and> ej_text js = code \<and>
     ej_lineStarts js = computeLineStarts code \<and>
     ej_line js = int (computeLine (nat (ej_offset js)) (computeLineStarts code)) \<and>
     ej_column js = computeCol (nat (ej_offset js)) (computeLineStarts code)"

definition html_inv :: "string \<Rightarrow> nat \<Rightarrow> html_state \<Rightarrow> bool" where
  "html_inv code pos s \<longleftrightarrow> hs_start s \<le> pos \<and>
     (\<forall>js \<in> set (hs_snippets s). snippet_of code js \<and> snippet_end js \<le> hs_start s) \<and>
     sorted_wrt (\<lambda>a b. snippet_end a \<le> nat (ej_offset b)) (hs_snippets s)"

lemma length_slice: "i \<le> j \<Longrightarrow> j \<le> length xs \<Longrightarrow> length (slice i j xs) = j - i"
  by (simp add: slice_def)

lemma html_step_inv:
  assumes "html_inv code pos s" "pos \<le> event_pos e" "event_pos e \<le> length code"
  shows "html_inv code (event_pos e) (html_step code (computeLineStarts code) e s)"
proof (cases e)
  case (OpenTag name src i)
  with assms show ?thesis by (auto simp: html_inv_def intro: order_trans)
next
  case (CloseTag name i)
  show ?thesis
  proof (cases "name = ''script'' \<and> hs_inScript s")
    case True
    let ?js = "\<lparr>ej_code = slice (hs_start s) i code,
                 ej_line = int (computeLine (hs_start s) (computeLineStarts code)),
                 ej_column = computeCol (hs_start s) (computeLineStarts code),
                 ej_offset = int (hs_start s), ej_lineStarts = computeLineStarts code, ej_text = code,
                 ej_format = PLAIN, ej_resourceName = None\<rparr>"
    have start: "hs_start s \<le> i" "i \<le> length code" using assms CloseTag by (auto simp: html_inv_def)
    then have stop: "snippet_end ?js = i" by (simp add: snippet_end_def length_slice)
    then have "snippet_of code ?js" using start by (simp add: snippet_of_def)
    with True CloseTag assms start stop show ?thesis
      by (auto simp: html_inv_def sorted_wrt_append intro: order_trans)
  next
    case False
    with CloseTag assms show ?thesis by (auto simp: html_inv_def)
  qed
qed

lemma html_fold_inv:
  assumes "html_inv code pos s" "sorted (pos # map event_pos es)" "\<forall>e \<in> set es. event_pos e \<le> length code"
  shows "\<exists>pos'. html_inv code pos' (fold (html_step code (computeLineStarts code)) es s)"
  using assms
proof (induction es arbitrary: pos s)
  case (Cons e es)
  then have "html_inv code (event_pos e) (html_step code (computeLineStarts code) e s)"
    using html_step_inv by simp
  with Cons show ?case by simp
qed auto


definition html_example :: string where
  "html_example = ''<script>f();</script>''"

definition html_example_events :: "string \<Rightarrow> html_event list" where
  "html_example_events code = [OpenTag ''script'' None 7, CloseTag ''script'' 12]"


subsection \<open>Patched locations\<close>

lemma fold_patch_node:
  "fold (patch_node g off) ns store i =
     (fixNodeLocation g off ^^ length (filter (\<lambda>n. node_id n = Some i) ns)) (store i)"
  by (induction ns arbitrary: store) (auto simp: patch_node_def funpow_swap1 split: option.splits)

lemma distinct_count_list: "distinct xs \<Longrightarrow> x \<in> set xs \<Longrightarrow> count_list xs x = 1"
  by (induction xs) (auto simp: count_list_0_iff)

lemma filter_id_once:
  assumes "distinct (map node_id ns)" "Some i \<in> set (map node_id ns)"
  shows "length (filter (\<lambda>n. node_id n = Some i) ns) = 1"
proof -
  have "length (filter (\<lambda>n. node_id n = Some i) ns) = count_list (map node_id ns) (Some i)"
    by (induction ns) auto
  also have "\<dots> = 1"
    using assms by (simp add: distinct_count_list)
  finally show ?thesis .
qed

text \<open>
  C28: patching a snippet moves every node of the tree exactly once when no node is shared: its
  range is shifted by the snippet's offset, and its location is recomputed at the shifted
  range; a node outside of the tree is left alone. Tokens and comments move in the same way.
\<close>

theorem patchASTLocations_correct:
  assumes "distinct (map node_id (all_nodes sc))" and "patchASTLocations sc offset store = (store', comments, tokens)"
  shows "store' i = (if Some i \<in> node_id ` set (all_nodes sc)
      then fixNodeLocation (sc_getLocFromIndex sc) offset (store i) else store i) \<and>
    (\<forall>s e l. store i = (Some (s, e), Some l) \<and> Some i \<in> node_id ` set (all_nodes sc) \<longrightarrow>
       store' i = (Some (s + offset, e + offset),
         Some \<lparr>loc_start = sc_getLocFromIndex sc (s + offset), loc_end = sc_getLocFromIndex sc (e + offset)\<rparr>)) \<and>
    map tok_range tokens = map (\<lambda>t. (fst (tok_range t) + offset, snd (tok_range t) + offset)) (sc_tokens sc) \<and>
    map com_range comments = map (\<lambda>c. (fst (com_range c) + offset, snd (com_range c) + offset)) (sc_comments sc)"
proof (intro conjI)
  let ?f = "fixNodeLocation (sc_getLocFromIndex sc) offset"
  have store': "store' i = (?f ^^ length (filter (\<lambda>n. node_id n = Some i) (all_nodes sc))) (store i)"
    using assms(2) by (auto simp: patchASTLocations_def sv.visits_in_order fold_patch_node)
  show main: "store' i = (if Some i \<in> node_id ` set (all_nodes sc) then ?f (store i) else store i)"
  proof (cases "Some i \<in> node_id ` set (all_nodes sc)")
    case True
    then show ?thesis using filter_id_once [OF assms(1), of i] by (simp add: store')
  next
    case False
    then have "filter (\<lambda>n. node_id n = Some i) (all_nodes sc) = []" by (force simp: filter_empty_conv)
    with False show ?thesis by (simp add: store')
  qed
  show "\<forall>s e l. store i = (Some (s, e), Some l) \<and> Some i \<in> node_id ` set (all_nodes sc) \<longrightarrow>
       store' i = (Some (s + offset, e + offset),
         Some \<lparr>loc_start = sc_getLocFromIndex sc (s + offset), loc_end = sc_getLocFromIndex sc (e + offset)\<rparr>)"
    by (simp add: main fixNodeLocation_def)
  show "map tok_range tokens = map (\<lambda>t. (fst (tok_range t) + offset, snd (tok_range t) + offset)) (sc_tokens sc)"
    using assms(2) by (auto simp: patchASTLocations_def patch_token_def fixNodeLocation_def split: prod.splits)
  show "map com_range comments = map (\<lambda>c. (fst (com_range c) + offset, snd (com_range c) + offset)) (sc_comments sc)"
    using assms(2) by (auto simp: patchASTLocations_def patch_comment_def fixNodeLocation_def split: prod.splits)
qed

definition patch_example :: source_code where
  "patch_example = (example_source [])\<lparr>sc_ast := JObj 3 None None []\<rparr>"

theorem patchASTLocations_correct_witness:
  "fst (patchASTLocations patch_example 10 (\<lambda>_. (Some (1, 2), None))) 3 = (Some (11, 12), None) \<and>
   fst (patchASTLocations patch_example 10 (\<lambda>_. (Some (1, 2), None))) 4 = (Some (1, 2), None)"
proof -
  have nodes: "all_nodes patch_example = [JObj 3 None None []]"
    by (simp add: all_nodes_def patch_example_def preorder.simps childrenOf_def keys_of_def example_source_def)
  obtain st cs ts where run: "patchASTLocations patch_example 10 (\<lambda>_. (Some (1, 2), None)) = (st, cs, ts)"
    by (cases "patchASTLocations patch_example 10 (\<lambda>_. (Some (1, 2), None))") auto
  have dist: "distinct (map node_id (all_nodes patch_example))" by (simp add: nodes)
  from patchASTLocations_correct [OF dist run, of 3] patchASTLocations_correct [OF dist run, of 4] show ?thesis
    by (simp add: run nodes fixNodeLocation_def)
qed

text \<open>
  The tree of the patched source code: an object that is not shared has the place that the
  store gives it, and reading the places back changes nothing.
\<close>

lemma store_of_root: "store_of (JObj i r l fs) i = (r, l)"
  by (simp add: store_of_def)

lemma relocate_id: "(\<And>i pl. (i, pl) \<in> set (all_places v) \<Longrightarrow> store i = pl) \<Longrightarrow> relocate store v = v"
proof (induction v rule: all_places.induct)
  case (1 vs)
  have "map (relocate store) vs = vs"
  proof (rule map_idI)
    fix v assume v: "v \<in> set vs"
    show "relocate store v = v"
    proof (rule 1(1) [OF v])
      fix j pl assume "(j, pl) \<in> set (all_places v)"
      with v show "store j = pl" by (intro 1(2)) auto
    qed
  qed
  then show ?case by simp
next
  case (2 i r l fs)
  have "map (\<lambda>(k, v). (k, relocate store v)) fs = fs"
  proof (rule map_idI)
    fix kv assume kv: "kv \<in> set fs"
    have "relocate store (snd kv) = snd kv"
    proof (rule 2(1) [of kv "fst kv" "snd kv"])
      fix j pl assume "(j, pl) \<in> set (all_places (snd kv))"
      with kv have "(j, pl) \<in> set (all_places (JObj i r l fs))"
        by (auto simp: case_prod_unfold intro!: bexI [of _ kv])
      then show "store j = pl" by (rule 2(2))
    qed (use kv in auto)
    then show "(case kv of (k, v) \<Rightarrow> (k, relocate store v)) = kv" by (cases kv) simp
  qed
  moreover have "store i = (r, l)" by (rule 2(2)) simp
  ultimately show ?case by simp
qed simp_all

lemma relocate_store_of: "distinct (map fst (all_places v)) \<Longrightarrow> relocate (store_of v) v = v"
  by (rule relocate_id) (simp add: store_of_def map_of_is_SomeI)

subsection \<open>Patched errors\<close>

lemma find_location_prefix:
  "\<forall>c \<in> set pre. \<not> is_digit c \<Longrightarrow> find_location (pre @ s) = find_location s"
  by (induction pre) auto

lemma digits_of_show: "c \<in> set (show_nat n) \<Longrightarrow> is_digit c"
proof (induction n rule: show_nat.induct)
  case (1 n)
  show ?case
  proof (cases "n < 10")
    case True
    then have "show_nat n = [char_of (48 + n)]" by (subst show_nat.simps) simp
    with True "1.prems" show ?thesis by (simp add: is_digit_def digit_char_val)
  next
    case False
    then have "show_nat n = show_nat (n div 10) @ [char_of (48 + n mod 10)]"
      by (subst show_nat.simps) simp
    moreover have "is_digit (char_of (48 + n mod 10))" by (simp add: is_digit_def digit_char_val)
    ultimately show ?thesis using "1.IH" [OF False] "1.prems" by auto
  qed
qed

lemma show_nat_Cons: "\<exists>c t. show_nat n = c # t \<and> is_digit c"
  using show_nat_digit [of n] by (auto simp: is_digit_def)

lemma not_digits [simp]: "\<not> is_digit (CHR ''('')" "\<not> is_digit (CHR '':'')" "\<not> is_digit (CHR '')'')"
  by (simp_all add: is_digit_def digit_val_def)

lemma takeWhile_digits: "takeWhile is_digit (show_nat n @ c # s) = show_nat n \<and>
    dropWhile is_digit (show_nat n @ c # s) = c # s" if "\<not> is_digit c"
  using that digits_of_show by (simp add: takeWhile_append2 dropWhile_append2)

lemma find_location_paren:
  "find_location (paren_location (show_nat l) (show_nat c) @ post) = Some (show_nat l, show_nat c)"
proof -
  obtain d t where l: "show_nat l = d # t" "is_digit d" using show_nat_Cons by blast
  obtain d2 t2 where c: "show_nat c = d2 # t2" "is_digit d2" using show_nat_Cons by blast
  let ?s = "show_nat l @ CHR '':'' # show_nat c @ CHR '')'' # post"
  have "find_location (paren_location (show_nat l) (show_nat c) @ post) = find_location ?s"
    by (simp add: paren_location_def)
  moreover have "takeWhile is_digit ?s = show_nat l" "dropWhile is_digit ?s = CHR '':'' # show_nat c @ CHR '')'' # post"
    "takeWhile is_digit (show_nat c @ CHR '')'' # post) = show_nat c"
    using takeWhile_digits [of "CHR '':''" l] takeWhile_digits [of "CHR '')''" c] by simp_all
  moreover have "find_location ?s = Some (show_nat l, show_nat c)"
    using calculation(2-4) l c by (simp add: Let_def)
  ultimately show ?thesis by simp
qed

lemma replace_first_here:
  assumes "pat \<noteq> []"
  shows "replace_first pat rep (pat @ s) = rep @ s"
proof -
  have "starts_with (pat @ s) pat" by (simp add: starts_with_iff)
  moreover obtain c cs where "pat @ s = c # cs" using assms by (cases pat) auto
  ultimately show ?thesis by (metis append_eq_conv_conj replace_first.simps(2))
qed

lemma replace_first_skip:
  assumes "\<forall>c \<in> set pre. \<not> is_digit c" "is_digit d" "\<not> is_digit p"
  shows "replace_first (p # d # pat) rep (pre @ p # d # s) = pre @ replace_first (p # d # pat) rep (p # d # s)"
  using assms
proof (induction pre)
  case (Cons c pre)
  have "\<not> starts_with ((c # pre) @ p # d # s) (p # d # pat)"
    using Cons.prems by (cases pre) (auto simp: starts_with_iff)
  then have "replace_first (p # d # pat) rep ((c # pre) @ p # d # s) = c # replace_first (p # d # pat) rep (pre @ p # d # s)"
    unfolding append_Cons replace_first.simps(2) by (simp del: starts_with.simps replace_first.simps)
  with Cons show ?case by (simp del: replace_first.simps)
qed simp


definition example_snippet :: "embedded_format \<Rightarrow> embedded_js" where
  "example_snippet fmt = \<lparr>ej_code = [], ej_line = 7, ej_column = 22, ej_offset = 0, ej_lineStarts = [0],
     ej_text = [], ej_format = fmt, ej_resourceName = None\<rparr>"


text \<open>
  A snippet of an HTML file is plain whatever its number of lines, so an error on any of its
  lines is moved to its first one.
\<close>

lemma html_snippets_plain: "js \<in> set (parseHTML htmlparser code) \<Longrightarrow> ej_format js = PLAIN"
proof -
  have keep: "\<forall>js \<in> set (hs_snippets (fold (html_step code ls) es s)). ej_format js = PLAIN"
    if "\<forall>js \<in> set (hs_snippets s). ej_format js = PLAIN" for es s ls
    using that
  proof (induction es arbitrary: s)
    case (Cons e es)
    have "\<forall>js \<in> set (hs_snippets (html_step code ls e s)). ej_format js = PLAIN"
      using Cons.prems by (cases e) auto
    with Cons.IH show ?case by simp
  qed simp
  show "js \<in> set (parseHTML htmlparser code) \<Longrightarrow> ej_format js = PLAIN"
    using keep [of "\<lparr>hs_start = 0, hs_end = 0, hs_inScript = False, hs_snippets = []\<rparr>"]
    by (auto simp: parseHTML_def split: if_splits)
qed

lemma html_error_line:
  "js \<in> set (parseHTML htmlparser code) \<Longrightarrow>
   \<exists>msg. patchParsingError (APIError c m (Some \<lparr>data_line = Some line\<rparr>)) js = APIError c msg (Some \<lparr>data_line = Some (ej_line js)\<rparr>)"
  by (simp add: patchParsingError_def html_snippets_plain Let_def)

subsection \<open>The analysis\<close>

text \<open>Positions are ordered by line, then column.\<close>

lemma isBeforeOrEqual_total: "isBeforeOrEqual a b \<or> isBeforeOrEqual b a"
  by (auto simp: isBeforeOrEqual_def)

lemma isBeforeOrEqual_trans: "isBeforeOrEqual a b \<Longrightarrow> isBeforeOrEqual b c \<Longrightarrow> isBeforeOrEqual a c"
  by (auto simp: isBeforeOrEqual_def split: if_splits)

definition inside_snippet :: "source_code \<Rightarrow> issue \<Rightarrow> bool" where
  "inside_snippet sc i \<longleftrightarrow> (\<exists>s e. node_range (sc_ast sc) = Some (s, e) \<and>
     isBeforeOrEqual (sc_getLocFromIndex sc s) \<lparr>pos_line = is_line i, pos_column = is_column i\<rparr> \<and>
     isBeforeOrEqual \<lparr>pos_line = is_line i, pos_column = is_column i\<rparr> (sc_getLocFromIndex sc e))"

lemma removeNonJsIssues_iff: "removeNonJsIssues sc issues = filter (inside_snippet sc) issues"
  by (auto simp: removeNonJsIssues_def inside_snippet_def Let_def split: option.split intro!: filter_cong)

lemma embedded_loop:
  assumes "fold_res (\<lambda>ext (issues, ucfgPaths).
         bind_res (lint verify linter (es_source ext) (es_syntheticFilePath ext) MAIN) (\<lambda>result.
         Inr (issues @ removeNonJsIssues (es_source ext) (lr_issues result),
              ucfgPaths @ lr_ucfgPaths result))) exts (issues0, paths0) = Inr (issues, paths)"
  shows "\<exists>results. list_all2 (\<lambda>ext result.
        lint verify linter (es_source ext) (es_syntheticFilePath ext) MAIN = Inr result) exts results \<and>
      issues = issues0 @ concat (map2 (\<lambda>ext result. filter (inside_snippet (es_source ext)) (lr_issues result)) exts results) \<and>
      paths = paths0 @ concat (map lr_ucfgPaths results)"
  using assms
proof (induction exts arbitrary: issues0 paths0)
  case (Cons ext exts)
  then obtain result where r: "lint verify linter (es_source ext) (es_syntheticFilePath ext) MAIN = Inr result"
    and rest: "fold_res (\<lambda>ext (issues, ucfgPaths).
         bind_res (lint verify linter (es_source ext) (es_syntheticFilePath ext) MAIN) (\<lambda>result.
         Inr (issues @ removeNonJsIssues (es_source ext) (lr_issues result),
              ucfgPaths @ lr_ucfgPaths result))) exts
         (issues0 @ filter (inside_snippet (es_source ext)) (lr_issues result), paths0 @ lr_ucfgPaths result) =
       Inr (issues, paths)"
    by (auto simp: bind_res_eq_Inr removeNonJsIssues_iff)
  from Cons.IH [OF rest] obtain results where
    "list_all2 (\<lambda>ext result. lint verify linter (es_source ext) (es_syntheticFilePath ext) MAIN = Inr result) exts results"
    "issues = issues0 @ filter (inside_snippet (es_source ext)) (lr_issues result) @
       concat (map2 (\<lambda>ext result. filter (inside_snippet (es_source ext)) (lr_issues result)) exts results)"
    "paths = paths0 @ lr_ucfgPaths result @ concat (map lr_ucfgPaths results)" by auto
  with r show ?case by (intro exI [of _ "result # results"]) simp
qed simp


definition embedded_parsers :: "(unit, unit) parser_packages" where
  "embedded_parsers = example_parsers\<lparr>pp_babel := (\<lambda>code options. Inr ()),
     pp_SourceCode := (\<lambda>r code. Inr ((example_source [])\<lparr>sc_ast := JObj 0 (Some (0, int (length code))) None [],
       sc_getLocFromIndex := (\<lambda>i. \<lparr>pos_line = 1, pos_column = i\<rparr>)\<rparr>))\<rparr>"

definition embedded_example :: "(unit, unit) embedded_env" where
  "embedded_example = \<lparr>ee_path_parse = (\<lambda>p. ([], p, [])), ee_path_format = (\<lambda>(d, n, e). d @ n @ e),
     ee_htmlparser = (\<lambda>_. [OpenTag ''script'' None 7, CloseTag ''script'' 12]),
     ee_yaml = \<lparr>yp_docs = (\<lambda>_. []), yp_linePos = (\<lambda>_ i. (1, i)), yp_lineStarts = (\<lambda>_. [0])\<rparr>,
     ee_parsers = embedded_parsers, ee_override = (\<lambda>sc starts text lines. sc), ee_construct = (\<lambda>text sc. sc)\<rparr>"

definition embedded_html :: embedded_input where
  "embedded_html = \<lparr>ei_filePath = ''a.html'', ei_fileContent = ''<script>f();</script>'', ei_linterId = None\<rparr>"

definition embedded_linters :: "(unit, unit) linters" where
  "embedded_linters = (let config = \<lparr>cfg_env = [], cfg_globals = [], cfg_sourceType = ''module'',
       cfg_ecmaVersion = 2018, cfg_rules = [], cfg_reactVersion = [], cfg_fileType = None\<rparr>
     in [(''default'', \<lparr>lw_linter = [], lw_main = config, lw_test = config\<rparr>)])"

definition embedded_verify :: "(unit, unit) verifier" where
  "embedded_verify = (\<lambda>_ _ _ _. Inr [(example_message ''max-len'')\<lparr>lm_column := 10\<rparr>, (example_message ''max-len'')\<lparr>lm_column := 20\<rparr>])"

definition embedded_run :: "(issue list \<times> string list) res" where
  "embedded_run = analyzeEmbedded embedded_verify embedded_example None empty_cache embedded_linters embedded_html HTML"

lemma embedded_run_columns: "(case embedded_run of Inr (issues, paths) \<Rightarrow> map is_column issues = [9] | Inl e \<Rightarrow> False)"
  by code_simp


end
