(* ===== verification/Stylelint.thy ===== *)
theory Stylelint
  imports Objects Json "HOL-Library.Multiset"
begin

text \<open>
  The linter of stylesheets of \<^verbatim>\<open>src/linting/stylelint/\<close>: its configuration, the issues it
  gives, and the rule \<^verbatim>\<open>function-calc-no-invalid\<close>. Stylelint and the parser of values are
  parameters.
\<close>

section \<open>Configuration\<close>

record css_rule_config =
  cr_key :: string
  cr_configurations :: "jsval list"

datatype css_setting = Enabled | Configured "jsval list"

record stylelint_config =
  sl_customSyntax :: string
  sl_rules :: "css_setting dict"

definition createStylelintConfig :: "css_rule_config list \<Rightarrow> stylelint_config" where
  "createStylelintConfig rules =
     \<lparr>sl_customSyntax = ''postcss-syntax'',
      sl_rules = fold (\<lambda>r configRules. dict_set (cr_key r)
        (if length (cr_configurations r) = 0 then Enabled else Configured (cr_configurations r)) configRules) rules []\<rparr>"

section \<open>Issues\<close>

record css_warning =
  cw_rule :: string
  cw_line :: int
  cw_column :: int
  cw_text :: string

record css_result =
  cl_source :: "string option"
  cl_warnings :: "css_warning list"

record css_issue =
  ci_ruleId :: string
  ci_line :: int
  ci_column :: int
  ci_message :: string

definition transform :: "css_result list \<Rightarrow> string \<Rightarrow> css_issue list" where
  "transform results filePath =
     fold (\<lambda>result issues.
       if cl_source result \<noteq> Some filePath then issues
       else fold (\<lambda>w issues. issues @ [\<lparr>ci_ruleId = cw_rule w, ci_line = cw_line w,
              ci_column = cw_column w, ci_message = cw_text w\<rparr>]) (cl_warnings result) issues) results []"

record stylelint_options =
  so_code :: string
  so_codeFilename :: string
  so_config :: stylelint_config

definition css_lint ::
  "(stylelint_options \<Rightarrow> css_result list res) \<Rightarrow> string \<Rightarrow> stylelint_options \<Rightarrow> css_issue list res" where
  "css_lint stylelint filePath options =
     bind_res (stylelint options) (\<lambda>results. Inr (transform results filePath))"

definition defineRules :: "'r dict \<Rightarrow> 'r dict \<Rightarrow> 'r dict" where
  "defineRules rules stylelintRules = fold (\<lambda>(key, r) d. dict_set key r d) rules stylelintRules"

section \<open>The rule function-calc-no-invalid\<close>

datatype css_node = CssNode (cn_type: string) (cn_value: string) (cn_nodes: "css_node list")

definition ruleName :: string where
  "ruleName = ''function-calc-no-invalid''"

definition operators :: "string list" where
  "operators = [''+'', ''-'', ''*'', ''/'']"

datatype calc_message = Empty | Malformed | DivByZero

fun message_of :: "calc_message \<Rightarrow> string" where
  "message_of Empty = ''Fix this empty '' @ [CHR 0x27] @ ''calc'' @ [CHR 0x27] @ '' expression.''"
| "message_of Malformed = ''Fix this malformed '' @ [CHR 0x27] @ ''calc'' @ [CHR 0x27] @ '' expression.''"
| "message_of DivByZero = ''Fix this '' @ [CHR 0x27] @ ''calc'' @ [CHR 0x27] @ '' expression with division by zero.''"

subsection \<open>Numbers\<close>

text \<open>
  \<^verbatim>\<open>parseFloat\<close>: the longest prefix, after white space, that is a decimal number. The result
  is the exact number; it is the double zero when it is closer to zero than half the smallest
  double.
\<close>

definition is_digit_char :: "char \<Rightarrow> bool" where
  "is_digit_char c \<longleftrightarrow> digit_val c \<noteq> None"

definition digits_of :: "string \<Rightarrow> string \<times> string" where
  "digits_of s = (takeWhile is_digit_char s, dropWhile is_digit_char s)"

definition sign_of :: "string \<Rightarrow> bool \<times> string" where
  "sign_of s = (case s of
      c # cs \<Rightarrow> if c = CHR ''-'' then (True, cs) else if c = CHR ''+'' then (False, cs) else (False, s)
    | [] \<Rightarrow> (False, s))"

definition exponent_of :: "string \<Rightarrow> int" where
  "exponent_of s = (case s of
      c # cs \<Rightarrow> if c = CHR ''e'' \<or> c = CHR ''E''
        then (let (neg, t) = sign_of cs; ds = fst (digits_of t)
              in if ds = [] then 0 else (if neg then -1 else 1) * int (fst (parse_digits 0 ds)))
        else 0
    | [] \<Rightarrow> 0)"

definition scale10 :: "rat \<Rightarrow> int \<Rightarrow> rat" where
  "scale10 q e = (if e \<ge> 0 then q * 10 ^ nat e else q / 10 ^ nat (- e))"

definition parseFloat :: "string \<Rightarrow> rat option" where
  "parseFloat s =
     (let (neg, t) = sign_of (dropWhile is_space s);
          (whole, rest) = digits_of t;
          (frac, rest) = (case rest of
             c # cs \<Rightarrow> if c = CHR ''.'' then digits_of cs else ([], rest)
           | [] \<Rightarrow> ([], rest))
      in if whole @ frac = [] then None
         else Some ((if neg then -1 else 1) *
           scale10 (of_nat (fst (parse_digits 0 (whole @ frac)))) (exponent_of rest - int (length frac))))"

definition double_zero :: "rat \<Rightarrow> bool" where
  "double_zero q \<longleftrightarrow> \<bar>q\<bar> \<le> 1 / 2 ^ 1075"

subsection \<open>Tests on nodes\<close>

definition isCalcFunction :: "css_node \<Rightarrow> bool" where
  "isCalcFunction n \<longleftrightarrow> cn_type n = ''function'' \<and> to_lower (cn_value n) = ''calc''"

definition isParenthesizedExpression :: "css_node \<Rightarrow> bool" where
  "isParenthesizedExpression n \<longleftrightarrow> cn_type n = ''function'' \<and> to_lower (cn_value n) \<noteq> ''calc''"

definition isSpaceOrComment :: "css_node \<Rightarrow> bool" where
  "isSpaceOrComment n \<longleftrightarrow> cn_type n = ''space'' \<or> cn_type n = ''comment''"

definition isOperator :: "css_node \<Rightarrow> bool" where
  "isOperator n \<longleftrightarrow> cn_type n = ''word'' \<and> cn_value n \<in> set operators \<or> cn_type n = ''div''"

definition isDivision :: "css_node \<Rightarrow> bool" where
  "isDivision n \<longleftrightarrow> (cn_type n = ''word'' \<or> cn_type n = ''div'') \<and> cn_value n = ''/''"

definition isZero :: "css_node \<Rightarrow> bool" where
  "isZero n \<longleftrightarrow> cn_type n = ''word'' \<and> (case parseFloat (cn_value n) of None \<Rightarrow> False | Some q \<Rightarrow> double_zero q)"

definition siblings_of :: "css_node list \<Rightarrow> css_node list" where
  "siblings_of nodes = filter (\<lambda>n. \<not> isSpaceOrComment n) nodes"

subsection \<open>Checks\<close>

lemma size_cn_nodes: "size_list size (cn_nodes n) < size n"
  by (cases n) simp

lemma size_siblings: "size_list size (siblings_of nodes) \<le> size_list size nodes"
  unfolding siblings_of_def by (induction nodes) auto

lemma size_sibling: "n \<in> set (siblings_of nodes) \<Longrightarrow> size n < size_list size nodes + 1"
  using size_siblings [of nodes] size_list_estimation' [of n "siblings_of nodes" "size n" size] by simp

text \<open>The messages that are reported, in order.\<close>

function checkDivisionByZero :: "css_node list \<Rightarrow> calc_message list" where
  "checkDivisionByZero nodes =
     (let siblings = siblings_of nodes in
      concat (map (\<lambda>(node, operand).
        if isDivision node then
          (case operand of Some z \<Rightarrow> if isZero z then [DivByZero] else [] | None \<Rightarrow> [])
        else if isParenthesizedExpression node then checkDivisionByZero (cn_nodes node)
        else []) (zip siblings (map Some (drop 1 siblings) @ [None]))))"
  by pat_completeness auto
termination
proof (relation "measure (size_list size)", goal_cases)
  case (2 nodes siblings pr node operand)
  then have "node \<in> set (siblings_of nodes)" by (auto dest: set_zip_leftD)
  from size_sibling [OF this] size_cn_nodes [of node] show ?case by simp
qed simp

fun missing_operators :: "css_node list \<Rightarrow> calc_message list" where
  "missing_operators (a # b # rest) = (if isOperator b then [] else [Malformed]) @ missing_operators rest"
| "missing_operators _ = []"

function checkMissingOperator :: "css_node list \<Rightarrow> calc_message list" where
  "checkMissingOperator nodes =
     (let siblings = siblings_of nodes in
      missing_operators siblings @
      concat (map (\<lambda>node. if isParenthesizedExpression node then checkMissingOperator (cn_nodes node) else []) siblings))"
  by pat_completeness auto
termination
proof (relation "measure (size_list size)", goal_cases)
  case (2 nodes siblings node)
  then have "node \<in> set (siblings_of nodes)" by simp
  from size_sibling [OF this] size_cn_nodes [of node] show ?case by simp
qed simp

definition checkEmpty :: "css_node list \<Rightarrow> calc_message list" where
  "checkEmpty nodes = (if length (siblings_of nodes) = 0 then [Empty] else [])"

definition checkNode :: "css_node \<Rightarrow> calc_message list" where
  "checkNode node =
     (if \<not> isCalcFunction node then []
      else checkDivisionByZero (cn_nodes node) @ checkMissingOperator (cn_nodes node) @ checkEmpty (cn_nodes node))"

text \<open>
  The rule on a stylesheet: the declarations that are walked, each with its value; the parser
  of values and its walk, which never skips a node here, are parameters.
\<close>

definition ruleImpl ::
  "(string \<Rightarrow> css_node list) \<Rightarrow> (css_node list \<Rightarrow> css_node list) \<Rightarrow> string list \<Rightarrow> (string \<times> calc_message) list" where
  "ruleImpl valueParser walk decls =
     concat (map (\<lambda>decl. map (Pair decl) (concat (map checkNode (walk (valueParser decl))))) decls)"

section \<open>Correctness\<close>

subsection \<open>Configuration and issues\<close>

lemma transform_concat:
  "transform results filePath = concat (map (\<lambda>result.
     map (\<lambda>w. \<lparr>ci_ruleId = cw_rule w, ci_line = cw_line w, ci_column = cw_column w, ci_message = cw_text w\<rparr>)
       (cl_warnings result)) (filter (\<lambda>result. cl_source result = Some filePath) results))"
proof -
  have inner: "fold (\<lambda>w issues. issues @ [f w]) ws issues = issues @ map f ws"
    for f :: "css_warning \<Rightarrow> css_issue" and ws issues
    by (induction ws arbitrary: issues) auto
  have "fold (\<lambda>result issues. if cl_source result \<noteq> Some filePath then issues
       else fold (\<lambda>w issues. issues @ [f w]) (cl_warnings result) issues) results issues =
     issues @ concat (map (\<lambda>result. map f (cl_warnings result)) (filter (\<lambda>result. cl_source result = Some filePath) results))"
    for f and issues :: "css_issue list"
    unfolding inner by (induction results arbitrary: issues) auto
  then show ?thesis by (simp add: transform_def)
qed

text \<open>
  The analysis of a stylesheet: a rule is configured exactly if the profile has it, with
  the configurations of its last occurrence and \<^verbatim>\<open>true\<close> for none, and the issues are the warnings of the results for the file
  itself, in order.
\<close>

lemma css_lint_correct:
  assumes "css_lint stylelint filePath
      \<lparr>so_code = code, so_codeFilename = filePath, so_config = createStylelintConfig rules\<rparr> = Inr issues"
  shows "(\<exists>results. stylelint \<lparr>so_code = code, so_codeFilename = filePath, so_config = createStylelintConfig rules\<rparr> = Inr results \<and>
      issues = concat (map (\<lambda>result.
        map (\<lambda>w. \<lparr>ci_ruleId = cw_rule w, ci_line = cw_line w, ci_column = cw_column w, ci_message = cw_text w\<rparr>)
          (cl_warnings result)) (filter (\<lambda>result. cl_source result = Some filePath) results))) \<and>
    (\<forall>key. dict_get (sl_rules (createStylelintConfig rules)) key =
      map_option (\<lambda>r. if cr_configurations r = [] then Enabled else Configured (cr_configurations r))
        (List.find (\<lambda>r. cr_key r = key) (rev rules)))"
proof
  from assms obtain results where
    "stylelint \<lparr>so_code = code, so_codeFilename = filePath, so_config = createStylelintConfig rules\<rparr> = Inr results"
    "issues = transform results filePath"
    by (auto simp: css_lint_def bind_res_eq_Inr)
  then show "\<exists>results. stylelint \<lparr>so_code = code, so_codeFilename = filePath, so_config = createStylelintConfig rules\<rparr> = Inr results \<and>
      issues = concat (map (\<lambda>result.
        map (\<lambda>w. \<lparr>ci_ruleId = cw_rule w, ci_line = cw_line w, ci_column = cw_column w, ci_message = cw_text w\<rparr>)
          (cl_warnings result)) (filter (\<lambda>result. cl_source result = Some filePath) results))"
    unfolding transform_concat by blast
  show "\<forall>key. dict_get (sl_rules (createStylelintConfig rules)) key =
      map_option (\<lambda>r. if cr_configurations r = [] then Enabled else Configured (cr_configurations r))
        (List.find (\<lambda>r. cr_key r = key) (rev rules))"
    by (simp add: createStylelintConfig_def dict.get_fold dict_get_def [of "[]"] split: option.split)
qed

subsection \<open>Nested expressions\<close>

lemma sum_list_map_concat:
  "sum_list (map f (concat (map g xs))) = sum_list (map (\<lambda>x. sum_list (map f (g x))) xs)"
  for f :: "'b \<Rightarrow> nat"
  by (induction xs) auto

fun subnodes :: "css_node \<Rightarrow> css_node list" where
  "subnodes (CssNode t v ns) = CssNode t v ns # concat (map subnodes ns)"

text \<open>
  The expressions of a value: the contents of every \<^verbatim>\<open>calc\<close>, and the contents of the other
  functions, which parentheses are too, directly inside an expression.
\<close>

fun expressions :: "bool \<Rightarrow> css_node \<Rightarrow> css_node list list" where
  "expressions inside (CssNode t v ns) =
     (let n = CssNode t v ns; here = isCalcFunction n \<or> inside \<and> isParenthesizedExpression n
      in (if here then [ns] else []) @ concat (map (expressions here) ns))"

locale expression_check =
  fixes own :: "css_node list \<Rightarrow> nat" and total :: "css_node list \<Rightarrow> nat"
  assumes total: "total nodes =
    own nodes + sum_list (map (\<lambda>n. if isParenthesizedExpression n then total (cn_nodes n) else 0) nodes)"
begin

definition walked :: "css_node \<Rightarrow> nat" where
  "walked n = sum_list (map (\<lambda>m. if isCalcFunction m then total (cn_nodes m) else 0) (subnodes n))"

lemma walked_Node:
  "walked (CssNode t v ns) = (if isCalcFunction (CssNode t v ns) then total ns else 0) + sum_list (map walked ns)"
  by (simp add: walked_def [abs_def] sum_list_map_concat)

lemma each_once:
  "sum_list (map own (expressions inside n)) =
     (if inside \<and> isParenthesizedExpression n then total (cn_nodes n) else 0) + walked n"
proof (induction n arbitrary: inside)
  case (CssNode t v ns)
  let ?n = "CssNode t v ns"
  let ?here = "isCalcFunction ?n \<or> inside \<and> isParenthesizedExpression ?n"
  have excl: "isCalcFunction ?n \<Longrightarrow> \<not> isParenthesizedExpression ?n"
    by (simp add: isCalcFunction_def isParenthesizedExpression_def)
  have "sum_list (map own (concat (map (expressions ?here) ns))) =
      sum_list (map (\<lambda>c. sum_list (map own (expressions ?here c))) ns)"
    by (rule sum_list_map_concat)
  also have "\<dots> = sum_list (map (\<lambda>c. (if ?here \<and> isParenthesizedExpression c then total (cn_nodes c) else 0) + walked c) ns)"
    using CssNode by (intro arg_cong [where f = sum_list] map_cong) auto
  also have "\<dots> = (if ?here then sum_list (map (\<lambda>c. if isParenthesizedExpression c then total (cn_nodes c) else 0) ns) else 0) +
      sum_list (map walked ns)"
    by (cases ?here) (simp_all only: sum_list_addf simp_thms if_True if_False sum_list_0 add_0)
  finally show ?case
    using excl total [of ns] by (auto simp: Let_def walked_Node)
qed

lemma each_once_all:
  "sum_list (map own (concat (map (expressions False) ns))) =
     sum_list (map (\<lambda>m. if isCalcFunction m then total (cn_nodes m) else 0) (concat (map subnodes ns)))"
  by (simp add: sum_list_map_concat each_once walked_def)

end

definition zero_divisions :: "css_node list \<Rightarrow> nat" where
  "zero_divisions nodes =
     length (filter (\<lambda>(a, b). isDivision a \<and> isZero b) (zip (siblings_of nodes) (tl (siblings_of nodes))))"

definition misplaced :: "css_node list \<Rightarrow> nat" where
  "misplaced nodes =
     length (filter (\<lambda>i. odd i \<and> \<not> isOperator (siblings_of nodes ! i)) [0..<length (siblings_of nodes)])"

lemma sum_list_siblings:
  "sum_list (map (\<lambda>n. if isParenthesizedExpression n then f n else 0) (siblings_of nodes)) =
   sum_list (map (\<lambda>n. if isParenthesizedExpression n then f n else (0 :: nat)) nodes)"
  by (induction nodes) (auto simp: siblings_of_def isSpaceOrComment_def isParenthesizedExpression_def)

lemma division_not_parenthesized: "isDivision n \<Longrightarrow> \<not> isParenthesizedExpression n"
  by (auto simp: isDivision_def isParenthesizedExpression_def)

lemma count_division_pairs:
  "count_list (concat (map (\<lambda>(node, operand).
        if isDivision node then
          (case operand of Some z \<Rightarrow> if isZero z then [DivByZero] else [] | None \<Rightarrow> [])
        else if isParenthesizedExpression node then f (cn_nodes node)
        else []) (zip ss (map Some (drop 1 ss) @ [None])))) DivByZero =
   length (filter (\<lambda>(a, b). isDivision a \<and> isZero b) (zip ss (tl ss))) +
   sum_list (map (\<lambda>n. if isParenthesizedExpression n then count_list (f (cn_nodes n)) DivByZero else 0) ss)"
proof (induction ss)
  case (Cons s ss)
  then show ?case
    by (cases ss) (auto simp: division_not_parenthesized)
qed simp

interpretation division: expression_check zero_divisions "\<lambda>nodes. count_list (checkDivisionByZero nodes) DivByZero"
proof
  fix nodes
  show "count_list (checkDivisionByZero nodes) DivByZero = zero_divisions nodes +
    sum_list (map (\<lambda>n. if isParenthesizedExpression n then count_list (checkDivisionByZero (cn_nodes n)) DivByZero else 0) nodes)"
    unfolding checkDivisionByZero.simps [of nodes] Let_def count_division_pairs zero_divisions_def
    by (simp add: sum_list_siblings)
qed

lemma count_missing_operators:
  "count_list (missing_operators ss) Malformed = length (filter (\<lambda>i. odd i \<and> \<not> isOperator (ss ! i)) [0..<length ss])"
proof (induction ss rule: missing_operators.induct)
  case (1 a b rest)
  have "map (\<lambda>i. i + 2) [0..<length rest] = [2..<length rest + 2]"
    by (rule map_add_upt)
  moreover have "[0..<length (a # b # rest)] = 0 # 1 # [2..<length rest + 2]"
    by (simp add: upt_rec [of 0] upt_rec [of "Suc 0"] numeral_2_eq_2 del: upt_Suc)
  ultimately have "[0..<length (a # b # rest)] = 0 # 1 # map (\<lambda>i. i + 2) [0..<length rest]" by simp
  with 1 show ?case by (simp add: filter_map comp_def del: upt_Suc)
qed simp_all

lemma count_list_concat: "count_list (concat xss) x = sum_list (map (\<lambda>xs. count_list xs x) xss)"
  by (induction xss) auto

interpretation missing: expression_check misplaced "\<lambda>nodes. count_list (checkMissingOperator nodes) Malformed"
proof
  fix nodes
  have "(\<lambda>n. count_list (if isParenthesizedExpression n then checkMissingOperator (cn_nodes n) else []) Malformed) =
      (\<lambda>n. if isParenthesizedExpression n then count_list (checkMissingOperator (cn_nodes n)) Malformed else 0)"
    by auto
  then show "count_list (checkMissingOperator nodes) Malformed = misplaced nodes +
    sum_list (map (\<lambda>n. if isParenthesizedExpression n then count_list (checkMissingOperator (cn_nodes n)) Malformed else 0) nodes)"
    unfolding checkMissingOperator.simps [of nodes] Let_def misplaced_def
    by (simp add: count_missing_operators count_list_concat comp_def sum_list_siblings del: checkMissingOperator.simps)
qed

lemma set_checkDivisionByZero: "set (checkDivisionByZero nodes) \<subseteq> {DivByZero}"
proof (induction nodes rule: checkDivisionByZero.induct)
  case (1 nodes)
  have "m = DivByZero" if "m \<in> set (checkDivisionByZero nodes)" for m
  proof -
    from that obtain node operand where "(node, operand) \<in> set (zip (siblings_of nodes) (map Some (drop 1 (siblings_of nodes)) @ [None]))"
      and m: "m \<in> set (if isDivision node then
          (case operand of Some z \<Rightarrow> if isZero z then [DivByZero] else [] | None \<Rightarrow> [])
        else if isParenthesizedExpression node then checkDivisionByZero (cn_nodes node) else [])"
      unfolding checkDivisionByZero.simps [of nodes] Let_def by auto
    with 1 [of "siblings_of nodes" "(node, operand)" node operand] show ?thesis
      by (auto split: if_splits option.splits simp del: checkDivisionByZero.simps)
  qed
  then show ?case by blast
qed

lemma set_missing_operators: "set (missing_operators ss) \<subseteq> {Malformed}"
  by (induction ss rule: missing_operators.induct) auto

lemma set_checkMissingOperator: "set (checkMissingOperator nodes) \<subseteq> {Malformed}"
proof (induction nodes rule: checkMissingOperator.induct)
  case (1 nodes)
  have "set (if isParenthesizedExpression n then checkMissingOperator (cn_nodes n) else []) \<subseteq> {Malformed}"
    if "n \<in> set (siblings_of nodes)" for n
    using 1 [OF refl that] by (auto simp del: checkMissingOperator.simps)
  then show ?case
    unfolding checkMissingOperator.simps [of nodes] Let_def
    using set_missing_operators [of "siblings_of nodes"] by auto
qed

lemma count_list_single: "set xs \<subseteq> {y} \<Longrightarrow> x \<noteq> y \<Longrightarrow> count_list xs x = 0"
  by (auto simp: count_list_0_iff)

lemma count_checkNode:
  "count_list (checkNode n) DivByZero = (if isCalcFunction n then count_list (checkDivisionByZero (cn_nodes n)) DivByZero else 0)"
  "count_list (checkNode n) Malformed = (if isCalcFunction n then count_list (checkMissingOperator (cn_nodes n)) Malformed else 0)"
  "count_list (checkNode n) Empty = (if isCalcFunction n \<and> siblings_of (cn_nodes n) = [] then 1 else 0)"
  using count_list_single [OF set_checkDivisionByZero] count_list_single [OF set_checkMissingOperator]
  by (simp_all add: checkNode_def checkEmpty_def del: checkDivisionByZero.simps checkMissingOperator.simps)

lemma count_over_walk:
  assumes "mset (walk (valueParser value)) = mset (concat (map subnodes (valueParser value)))"
  shows "count_list (map snd (ruleImpl valueParser walk [value])) m =
    sum_list (map (\<lambda>n. count_list (checkNode n) m) (concat (map subnodes (valueParser value))))"
proof -
  have "count_list (map snd (ruleImpl valueParser walk [value])) m =
      sum_list (map (\<lambda>n. count_list (checkNode n) m) (walk (valueParser value)))"
    by (simp add: ruleImpl_def count_list_concat comp_def)
  also have "\<dots> = sum_mset (image_mset (\<lambda>n. count_list (checkNode n) m) (mset (walk (valueParser value))))"
    by (metis mset_map sum_mset_sum_list)
  also have "\<dots> = sum_list (map (\<lambda>n. count_list (checkNode n) m) (concat (map subnodes (valueParser value))))"
    unfolding assms by (metis mset_map sum_mset_sum_list)
  finally show ?thesis .
qed

text \<open>
  C35: the rule on \<^verbatim>\<open>calc\<close> reports every problem exactly once however deep its expression is
  nested, when the walk over a value visits each node once: one division by zero for each
  division sign of an expression that a zero follows, one malformed expression for each second
  operand that is not an operator, and one empty expression for each \<^verbatim>\<open>calc\<close> without contents.
\<close>

theorem calc_reports_correct:
  assumes "mset (walk (valueParser value)) = mset (concat (map subnodes (valueParser value)))"
  shows "let reports = map snd (ruleImpl valueParser walk [value]);
             exprs = concat (map (expressions False) (valueParser value))
    in count_list reports DivByZero = sum_list (map zero_divisions exprs) \<and>
       count_list reports Malformed = sum_list (map misplaced exprs) \<and>
       count_list reports Empty = length (filter (\<lambda>n. isCalcFunction n \<and> siblings_of (cn_nodes n) = [])
         (concat (map subnodes (valueParser value))))"
proof -
  have "sum_list (map (\<lambda>n. if P n then 1 else 0) ns) = length (filter P ns)" for P and ns :: "css_node list"
    by (induction ns) auto
  then show ?thesis
    unfolding Let_def count_over_walk [of walk valueParser "value", OF assms] count_checkNode
      division.each_once_all missing.each_once_all
    by simp
qed

fun depth_first :: "css_node list \<Rightarrow> css_node list" where
  "depth_first ns = concat (map subnodes ns)"

definition example_value :: "css_node list" where
  "example_value =
     [CssNode ''function'' ''calc''
        [CssNode ''word'' ''1px'' [], CssNode ''space'' '' '' [], CssNode ''word'' ''+'' [], CssNode ''space'' '' '' [],
         CssNode ''function'' [] [CssNode ''word'' ''2'' [], CssNode ''div'' ''/'' [], CssNode ''word'' ''0.0'' []]]]"

lemma example_zero: "isZero (CssNode ''word'' ''0.0'' [])"
proof -
  have "parseFloat ''0.0'' = Some 0" by code_simp
  then show ?thesis by (simp add: isZero_def double_zero_def)
qed

lemmas node_defs = isCalcFunction_def isParenthesizedExpression_def isSpaceOrComment_def isDivision_def isOperator_def

theorem calc_reports_correct_witness:
  "count_list (map snd (ruleImpl (\<lambda>_. example_value) depth_first [[]])) DivByZero = 1 \<and>
   count_list (map snd (ruleImpl (\<lambda>_. example_value) depth_first [[]])) Malformed = 0"
proof -
  have exprs: "concat (map (expressions False) example_value) =
      [cn_nodes (hd example_value), [CssNode ''word'' ''2'' [], CssNode ''div'' ''/'' [], CssNode ''word'' ''0.0'' []]]"
    by (simp add: example_value_def node_defs to_lower_def to_lower_char_def)
  have "sum_list (map zero_divisions (concat (map (expressions False) example_value))) = 1"
    unfolding exprs
    by (simp add: zero_divisions_def siblings_of_def example_zero) (simp add: example_value_def node_defs)
  moreover have "sum_list (map misplaced (concat (map (expressions False) example_value))) = 0"
    by code_simp
  ultimately show ?thesis
    using calc_reports_correct [of depth_first "\<lambda>_. example_value" "[]"] by (simp add: Let_def)
qed

end
