(* ===== verification/Analyzers.thy ===== *)
theory Analyzers
  imports Embedded Stylelint
begin

text \<open>
  The analyses of \<^verbatim>\<open>src/services/analysis/\<close>: of JavaScript and TypeScript files, of
  stylesheets, and the runner that reads the file of an input that has no content, with the
  measures of \<^verbatim>\<open>src/services/monitoring/\<close>. The clock and the file system are parameters.
\<close>

section \<open>Monitoring\<close>

record perf =
  pf_parseTime :: int
  pf_analysisTime :: int

text \<open>The clock gives nanoseconds, the duration is rounded to microseconds.\<close>

definition measureDuration :: "int \<Rightarrow> int \<Rightarrow> 'a \<Rightarrow> 'a \<times> int" where
  "measureDuration start stop result = (result, (stop - start + 500) div 1000)"

section \<open>JavaScript and TypeScript\<close>

record jsts_output =
  jo_issues :: "issue list"
  jo_highlights :: "syntax_highlight list option"
  jo_highlightedSymbols :: "symbol_highlight list option"
  jo_metrics :: "metrics option"
  jo_cpdTokens :: "cpd_token list option"
  jo_perf :: "perf option"
  jo_ucfgPaths :: "string list option"

definition nosonar_metrics :: "source_code \<Rightarrow> metrics" where
  "nosonar_metrics sc =
     \<lparr>m_ncloc = None, m_commentLines = None, m_nosonarLines = findNoSonarLines sc, m_executableLines = None,
      m_functions = None, m_statements = None, m_classes = None, m_complexity = None, m_cognitiveComplexity = None\<rparr>"

definition no_context :: js_error where
  "no_context = JsError ''Cannot read properties of undefined'' []"

definition computeExtendedMetrics ::
  "context_info option \<Rightarrow> jsts_input \<Rightarrow> source_code \<Rightarrow> symbol_highlight list \<Rightarrow> int option \<Rightarrow> jsts_output res" where
  "computeExtendedMetrics ctx input sc highlightedSymbols cognitiveComplexity =
     (let nothing = \<lparr>jo_issues = [], jo_highlights = None, jo_highlightedSymbols = None, jo_metrics = None,
            jo_cpdTokens = None, jo_perf = None, jo_ucfgPaths = None\<rparr>
      in case getContext ctx of
           None \<Rightarrow> Inl no_context
         | Some c \<Rightarrow>
             if sonarlint c then Inr (nothing\<lparr>jo_metrics := Some (nosonar_metrics sc)\<rparr>)
             else if ji_fileType input = MAIN then
               Inr (nothing\<lparr>jo_highlightedSymbols := Some highlightedSymbols,
                      jo_highlights := Some (getSyntaxHighlighting sc),
                      jo_metrics := Some (computeMetrics sc (or_default False (ji_ignoreHeaderComments input)) cognitiveComplexity),
                      jo_cpdTokens := Some (getCpdTokens sc)\<rparr>)
             else
               Inr (nothing\<lparr>jo_highlightedSymbols := Some highlightedSymbols,
                      jo_highlights := Some (getSyntaxHighlighting sc),
                      jo_metrics := Some (nosonar_metrics sc)\<rparr>))"

text \<open>
  The stack of an error; the one of an \<^verbatim>\<open>APIError\<close>, which is created by the bridge, has
  its message and frames of the bridge only.
\<close>

fun error_stack :: "js_error \<Rightarrow> string" where
  "error_stack (JsError message stack) = stack"
| "error_stack (APIError code message d) = message"

fun error_message :: "js_error \<Rightarrow> string" where
  "error_message (JsError message stack) = message"
| "error_message (APIError code message d) = message"

fun has_substring :: "string \<Rightarrow> string \<Rightarrow> bool" where
  "has_substring p [] \<longleftrightarrow> p = []"
| "has_substring p (c # cs) \<longleftrightarrow> starts_with (c # cs) p \<or> has_substring p cs"

definition analyzeFile ::
  "('c, 'h) verifier \<Rightarrow> context_info option \<Rightarrow> ('c, 'h) linter_wrapper \<Rightarrow> jsts_input \<Rightarrow> source_code \<Rightarrow>
   jsts_output res" where
  "analyzeFile verify ctx linter input sc =
     (case bind_res (lint verify linter sc (ji_filePath input) (ji_fileType input)) (\<lambda>result.
        bind_res (computeExtendedMetrics ctx input sc (lr_highlightedSymbols result) (lr_cognitiveComplexity result))
          (\<lambda>extended. Inr (extended\<lparr>jo_issues := lr_issues result, jo_ucfgPaths := Some (lr_ucfgPaths result)\<rparr>))) of
        Inr output \<Rightarrow> Inr output
      | Inl e \<Rightarrow>
          if has_substring ''typescript.js:'' (error_stack e)
          then Inl (failingTypeScriptError (error_message e))
          else Inl e)"

text \<open>The four readings of the clock.\<close>

record clock =
  ck_parseStart :: int
  ck_parseStop :: int
  ck_analysisStart :: int
  ck_analysisStop :: int

definition analyzeJSTS ::
  "('c, 'h) verifier \<Rightarrow> ('p, 'r) parser_packages \<Rightarrow> context_info option \<Rightarrow> 'p program_cache \<Rightarrow> ('c, 'h) linters \<Rightarrow>
   clock \<Rightarrow> jsts_input \<Rightarrow> language \<Rightarrow> jsts_output res" where
  "analyzeJSTS verify pp ctx cache linters clk input language =
     bind_res (getLinter linters (ji_linterId input)) (\<lambda>linter.
     bind_res (buildSourceCode pp ctx cache input language) (\<lambda>sc.
     let (built, parseTime) = measureDuration (ck_parseStart clk) (ck_parseStop clk) sc in
     bind_res (analyzeFile verify ctx linter input built) (\<lambda>out.
     let (output, analysisTime) = measureDuration (ck_analysisStart clk) (ck_analysisStop clk) out in
     Inr (output\<lparr>jo_perf := Some \<lparr>pf_parseTime = parseTime, pf_analysisTime = analysisTime\<rparr>\<rparr>))))"

section \<open>Stylesheets\<close>

record css_input =
  ca_filePath :: string
  ca_fileContent :: string
  ca_rules :: "css_rule_config list"

definition analyzeCSS :: "(stylelint_options \<Rightarrow> css_result list res) \<Rightarrow> css_input \<Rightarrow> css_issue list res" where
  "analyzeCSS stylelint input =
     (let config = createStylelintConfig (ca_rules input);
          options = \<lparr>so_code = ca_fileContent input, so_codeFilename = ca_filePath input, so_config = config\<rparr>
      in css_lint stylelint (ca_filePath input) options)"

section \<open>The runner\<close>

text \<open>
  The input is changed in place when its content is absent or empty; \<open>content\<close> and
  \<open>set_content\<close> read and write this field of the input, and \<open>text_of\<close> is the text of the code
  units that were read.
\<close>

definition runner ::
  "(string \<Rightarrow> code_units res) \<Rightarrow> (code_units \<Rightarrow> string) \<Rightarrow> ('i \<Rightarrow> string) \<Rightarrow> ('i \<Rightarrow> string) \<Rightarrow> (string \<Rightarrow> 'i \<Rightarrow> 'i) \<Rightarrow>
   ('i \<Rightarrow> 'o res) \<Rightarrow> 'i \<Rightarrow> 'o res" where
  "runner fs text_of filePath fileContent set_content analysis input =
     bind_res
       (if filePath input \<noteq> [] \<and> fileContent input = []
        then bind_res (readFile fs (filePath input)) (\<lambda>units. Inr (set_content (text_of units) input))
        else Inr input)
       analysis"

section \<open>Correctness\<close>

text \<open>
  C36: the analysis of a file: a result has the issues and paths of the linter on the parsed
  source. Its metrics depend on the context alone: in SonarLint only the lines of \<^verbatim>\<open>NOSONAR\<close> comments,
  otherwise highlighting and symbols for every file, and all metrics and the tokens for
  duplication exactly for main files. A failure is the missing linter's, the parser's, or the linting's,
  and only an error whose stack is in the TypeScript compiler becomes a failing TypeScript
  error; without a context the analysis never succeeds.
\<close>

theorem analyzeJSTS_correct:
  "case analyzeJSTS verify pp ctx cache linters clk input language of
     Inr out \<Rightarrow> \<exists>linter sc result c. getLinter linters (ji_linterId input) = Inr linter \<and>
       buildSourceCode pp ctx cache input language = Inr sc \<and>
       lint verify linter sc (ji_filePath input) (ji_fileType input) = Inr result \<and> ctx = Some c \<and>
       jo_issues out = lr_issues result \<and> jo_ucfgPaths out = Some (lr_ucfgPaths result) \<and>
       jo_highlights out = (if sonarlint c then None else Some (getSyntaxHighlighting sc)) \<and>
       jo_highlightedSymbols out = (if sonarlint c then None else Some (lr_highlightedSymbols result)) \<and>
       jo_cpdTokens out = (if \<not> sonarlint c \<and> ji_fileType input = MAIN then Some (getCpdTokens sc) else None) \<and>
       jo_metrics out = Some (if \<not> sonarlint c \<and> ji_fileType input = MAIN
         then computeMetrics sc (ji_ignoreHeaderComments input = Some True) (lr_cognitiveComplexity result)
         else nosonar_metrics sc)
   | Inl e \<Rightarrow> getLinter linters (ji_linterId input) = Inl e \<or>
       (\<exists>linter. getLinter linters (ji_linterId input) = Inr linter \<and>
         (buildSourceCode pp ctx cache input language = Inl e \<or>
          (\<exists>sc. buildSourceCode pp ctx cache input language = Inr sc \<and>
            (\<exists>e'. (lint verify linter sc (ji_filePath input) (ji_fileType input) = Inl e' \<or> ctx = None \<and> e' = no_context) \<and>
              e = (if has_substring ''typescript.js:'' (error_stack e')
                   then APIError FailingTypeScript (error_message e') None else e')))))"
proof (cases "getLinter linters (ji_linterId input)")
  case (Inl e)
  then show ?thesis by (simp add: analyzeJSTS_def)
next
  case linter: (Inr linter)
  show ?thesis
  proof (cases "buildSourceCode pp ctx cache input language")
    case (Inl e)
    with linter show ?thesis by (simp add: analyzeJSTS_def)
  next
    case sc: (Inr sc)
    show ?thesis
    proof (cases "lint verify linter sc (ji_filePath input) (ji_fileType input)")
      case (Inl e)
      with linter sc show ?thesis
        by (auto simp: analyzeJSTS_def analyzeFile_def measureDuration_def failingTypeScriptError_def)
    next
      case (Inr result)
      have header: "or_default False b = (b = Some True)" for b
        by (cases b) (simp_all add: or_default_def)
      from Inr linter sc show ?thesis
        by (cases ctx; cases "ji_fileType input")
          (simp_all add: analyzeJSTS_def analyzeFile_def computeExtendedMetrics_def getContext_def
            measureDuration_def failingTypeScriptError_def Let_def header no_context_def)
    qed
  qed
qed

text \<open>The duration is the rounded number of microseconds.\<close>

lemma measureDuration_rounds:
  "snd (measureDuration start stop x) = \<lfloor>(of_int (stop - start) / 1000 :: rat) + 1 / 2\<rfloor>"
proof -
  have "(of_int (stop - start) / 1000 :: rat) + 1 / 2 = of_int (stop - start + 500) / of_int 1000"
    by (simp add: field_simps)
  then show ?thesis unfolding measureDuration_def by (simp only: snd_conv floor_divide_of_int_eq)
qed

text \<open>The runner leaves an input with a content alone, and reads the file of any other.\<close>

lemma runner_cases:
  "fileContent input \<noteq> [] \<Longrightarrow> runner fs text_of filePath fileContent set_content analysis input = analysis input"
  "filePath input \<noteq> [] \<Longrightarrow> fileContent input = [] \<Longrightarrow> fs (filePath input) = Inr (BOM_BYTE # units) \<Longrightarrow>
   runner fs text_of filePath fileContent set_content analysis input = analysis (set_content (text_of units) input)"
  by (simp_all add: runner_def readFile_def stripBOM_def)

end
