(* ===== verification/Server.thy ===== *)
theory Server
  imports Analyzers
begin

text \<open>
  Requests to the bridge: the router and the handlers of \<^verbatim>\<open>src/routing/\<close> and the error
  middleware of \<^verbatim>\<open>src/routing/errors/middleware.ts\<close>. The state of the bridge is the
  context, the linters, the programs and the files it wrote. Express gives a handler's
  exception, thrown or passed to \<^verbatim>\<open>next\<close>, to the error middleware.
\<close>

section \<open>The state and the environment\<close>

record ('c, 'h, 'p) bridge =
  br_context :: "context_info option"
  br_linters :: "('c, 'h) linters"
  br_programs :: "'p program_cache"
  br_files :: "string \<rightharpoonup> string"

record ('c, 'h, 'p, 'r) world =
  wd_packages :: "('c, 'h) packages"
  wd_verify :: "('c, 'h) verifier"
  wd_embedded :: "('p, 'r) embedded_env"
  wd_stylelint :: "stylelint_options \<Rightarrow> css_result list res"
  wd_typescript :: "'p typescript"
  wd_platform :: platform
  wd_fs :: "string \<Rightarrow> code_units res"
  wd_text_of :: "code_units \<Rightarrow> string"
  wd_tmp_file :: "string res"
  wd_writable :: "string \<Rightarrow> unit res"
  wd_clock :: clock

text \<open>The fields of a request's body that the handlers read.\<close>

record request_body =
  rb_filePath :: string
  rb_fileContent :: string
  rb_linterId :: "string option"
  rb_fileType :: file_type
  rb_ignoreHeaderComments :: "bool option"
  rb_tsConfigs :: "string list option"
  rb_programId :: "string option"
  rb_cssRules :: "css_rule_config list"
  rb_rules :: "rule_config list"
  rb_environments :: "string list option"
  rb_globals :: "string list option"
  rb_tsConfig :: string
  rb_json :: json

datatype response =
    Text string
  | CssOutput "css_issue list"
  | JsTsOutput jsts_output
  | EmbeddedOutput "issue list" "string list"
  | ProgramOutput created_program
  | FilesOutput "string list" "string list"
  | FilenameOutput string
  | ParsingErrorResponse string error_code "int option" "jsts_output option"
  | ErrorResponse string
  | NotFound

section \<open>Errors\<close>

definition EMPTY_JSTS_ANALYSIS_OUTPUT :: jsts_output where
  "EMPTY_JSTS_ANALYSIS_OUTPUT =
     \<lparr>jo_issues = [], jo_highlights = Some [], jo_highlightedSymbols = Some [],
      jo_metrics = Some
        \<lparr>m_ncloc = Some [], m_commentLines = Some [], m_nosonarLines = [], m_executableLines = Some [],
         m_functions = Some 0, m_statements = Some 0, m_classes = Some 0, m_complexity = Some 0,
         m_cognitiveComplexity = Some 0\<rparr>,
      jo_cpdTokens = Some [], jo_perf = Some \<lparr>pf_parseTime = 0, pf_analysisTime = 0\<rparr>, jo_ucfgPaths = None\<rparr>"

definition errorMiddleware :: "js_error \<Rightarrow> response" where
  "errorMiddleware error =
     (case (case error of APIError c m d \<Rightarrow> (c, m, d) | JsError m s \<Rightarrow> (Unexpected, m, None)) of
        (code, message, d) \<Rightarrow>
          (case code of
             Parsing \<Rightarrow> ParsingErrorResponse message code (Option.bind d data_line) (Some EMPTY_JSTS_ANALYSIS_OUTPUT)
           | FailingTypeScript \<Rightarrow> ParsingErrorResponse message code None None
           | LinterInitialization \<Rightarrow> ParsingErrorResponse message code None None
           | Unexpected \<Rightarrow> ErrorResponse (error_message error)))"

section \<open>Routes\<close>

datatype http_method = GET | POST

datatype endpoint =
    OnAnalyzeCss | OnAnalyzeJs | OnAnalyzeHtml | OnAnalyzeTs | OnAnalyzeYaml | OnCreateProgram
  | OnDeleteProgram | OnInitLinter | OnNewTSConfig | OnStatus | OnTSConfigFiles | OnCreateTSConfigFile

definition router :: "((http_method \<times> string) \<times> endpoint) list" where
  "router =
     [((POST, ''/analyze-css''), OnAnalyzeCss),
      ((POST, ''/analyze-js''), OnAnalyzeJs),
      ((POST, ''/analyze-html''), OnAnalyzeHtml),
      ((POST, ''/analyze-ts''), OnAnalyzeTs),
      ((POST, ''/analyze-with-program''), OnAnalyzeTs),
      ((POST, ''/analyze-yaml''), OnAnalyzeYaml),
      ((POST, ''/create-program''), OnCreateProgram),
      ((POST, ''/delete-program''), OnDeleteProgram),
      ((POST, ''/init-linter''), OnInitLinter),
      ((POST, ''/new-tsconfig''), OnNewTSConfig),
      ((GET, ''/status''), OnStatus),
      ((POST, ''/tsconfig-files''), OnTSConfigFiles),
      ((POST, ''/create-tsconfig-file''), OnCreateTSConfigFile)]"

section \<open>Handlers\<close>

text \<open>The parts of the body that a handler takes as its input.\<close>

definition jsts_input_of :: "request_body \<Rightarrow> jsts_input" where
  "jsts_input_of b = \<lparr>ji_filePath = rb_filePath b, ji_fileContent = rb_fileContent b, ji_linterId = rb_linterId b,
     ji_fileType = rb_fileType b, ji_ignoreHeaderComments = rb_ignoreHeaderComments b,
     ji_tsConfigs = rb_tsConfigs b, ji_programId = rb_programId b\<rparr>"

definition embedded_input_of :: "request_body \<Rightarrow> embedded_input" where
  "embedded_input_of b = \<lparr>ei_filePath = rb_filePath b, ei_fileContent = rb_fileContent b, ei_linterId = rb_linterId b\<rparr>"

definition css_input_of :: "request_body \<Rightarrow> css_input" where
  "css_input_of b = \<lparr>ca_filePath = rb_filePath b, ca_fileContent = rb_fileContent b, ca_rules = rb_cssRules b\<rparr>"

definition run_on :: "('c, 'h, 'p, 'r) world \<Rightarrow> (request_body \<Rightarrow> 'o res) \<Rightarrow> request_body \<Rightarrow> 'o res" where
  "run_on w analysis body =
     runner (wd_fs w) (wd_text_of w) rb_filePath rb_fileContent (\<lambda>text b. b\<lparr>rb_fileContent := text\<rparr>) analysis body"

definition onAnalyzeCss :: "('c, 'h, 'p, 'r) world \<Rightarrow> request_body \<Rightarrow> response res" where
  "onAnalyzeCss w body =
     run_on w (\<lambda>b. bind_res (analyzeCSS (wd_stylelint w) (css_input_of b)) (\<lambda>issues. Inr (CssOutput issues))) body"

definition onAnalyzeJsTs ::
  "('c, 'h, 'p, 'r) world \<Rightarrow> ('c, 'h, 'p) bridge \<Rightarrow> language \<Rightarrow> request_body \<Rightarrow> response res" where
  "onAnalyzeJsTs w s language body =
     run_on w (\<lambda>b. bind_res (analyzeJSTS (wd_verify w) (ee_parsers (wd_embedded w)) (br_context s) (br_programs s)
       (br_linters s) (wd_clock w) (jsts_input_of b) language) (\<lambda>out. Inr (JsTsOutput out))) body"

definition onAnalyzeEmbedded ::
  "('c, 'h, 'p, 'r) world \<Rightarrow> ('c, 'h, 'p) bridge \<Rightarrow> embedded_language \<Rightarrow> request_body \<Rightarrow> response res" where
  "onAnalyzeEmbedded w s language body =
     run_on w (\<lambda>b. bind_res (analyzeEmbedded (wd_verify w) (wd_embedded w) (br_context s) (br_programs s)
       (br_linters s) (embedded_input_of b) language) (\<lambda>(issues, paths). Inr (EmbeddedOutput issues paths))) body"

definition onCreateProgram ::
  "('c, 'h, 'p, 'r) world \<Rightarrow> request_body \<Rightarrow> ('c, 'h, 'p) bridge \<Rightarrow> response res \<times> ('c, 'h, 'p) bridge" where
  "onCreateProgram w body s =
     (case createProgram (wd_platform w) (wd_typescript w) (rb_tsConfig body) (br_programs s) of
        (result, cache) \<Rightarrow> (bind_res result (\<lambda>created. Inr (ProgramOutput created)), s\<lparr>br_programs := cache\<rparr>))"

definition onDeleteProgram :: "request_body \<Rightarrow> ('c, 'h, 'p) bridge \<Rightarrow> response res \<times> ('c, 'h, 'p) bridge" where
  "onDeleteProgram body s =
     (Inr (Text ''OK!''),
      case rb_programId body of
        None \<Rightarrow> s
      | Some programId \<Rightarrow> s\<lparr>br_programs := deleteProgram programId (br_programs s)\<rparr>)"

definition onInitLinter ::
  "('c, 'h, 'p, 'r) world \<Rightarrow> request_body \<Rightarrow> ('c, 'h, 'p) bridge \<Rightarrow> response res \<times> ('c, 'h, 'p) bridge" where
  "onInitLinter w body s =
     (case initializeLinter (wd_packages w) (br_context s) (rb_rules body) (rb_environments body) (rb_globals body)
         (rb_linterId body) (br_linters s) of
        Inl e \<Rightarrow> (Inl e, s)
      | Inr linters \<Rightarrow> (Inr (Text ''OK!''), s\<lparr>br_linters := linters\<rparr>))"

definition onTSConfigFiles :: "('c, 'h, 'p, 'r) world \<Rightarrow> request_body \<Rightarrow> response res" where
  "onTSConfigFiles w body =
     bind_res (getFilesForTsConfig (wd_platform w) (wd_typescript w) (rb_tsConfig body) (ts_sys (wd_typescript w)))
       (\<lambda>(files, projectReferences). Inr (FilesOutput files projectReferences))"

definition onCreateTSConfigFile ::
  "('c, 'h, 'p, 'r) world \<Rightarrow> request_body \<Rightarrow> ('c, 'h, 'p) bridge \<Rightarrow> response res \<times> ('c, 'h, 'p) bridge" where
  "onCreateTSConfigFile w body s =
     (case writeTSConfigFile (wd_tmp_file w) (wd_writable w) (rb_json body) (br_files s) of
        (result, files) \<Rightarrow> (bind_res result (\<lambda>filename. Inr (FilenameOutput filename)), s\<lparr>br_files := files\<rparr>))"

text \<open>The handlers that differ in the language only, and the two that answer at once.\<close>

definition onAnalyzeJs :: "('c, 'h, 'p, 'r) world \<Rightarrow> ('c, 'h, 'p) bridge \<Rightarrow> request_body \<Rightarrow> response res" where
  [simp]: "onAnalyzeJs w s body = onAnalyzeJsTs w s JS body"

definition onAnalyzeTs :: "('c, 'h, 'p, 'r) world \<Rightarrow> ('c, 'h, 'p) bridge \<Rightarrow> request_body \<Rightarrow> response res" where
  [simp]: "onAnalyzeTs w s body = onAnalyzeJsTs w s TS body"

definition onAnalyzeHtml :: "('c, 'h, 'p, 'r) world \<Rightarrow> ('c, 'h, 'p) bridge \<Rightarrow> request_body \<Rightarrow> response res" where
  [simp]: "onAnalyzeHtml w s body = onAnalyzeEmbedded w s HTML body"

definition onAnalyzeYaml :: "('c, 'h, 'p, 'r) world \<Rightarrow> ('c, 'h, 'p) bridge \<Rightarrow> request_body \<Rightarrow> response res" where
  [simp]: "onAnalyzeYaml w s body = onAnalyzeEmbedded w s YAML body"

definition onNewTSConfig :: "request_body \<Rightarrow> response res" where
  [simp]: "onNewTSConfig body = Inr (Text ''OK!'')"

definition onStatus :: "request_body \<Rightarrow> response res" where
  [simp]: "onStatus body = Inr (Text ''OK!'')"

fun handle ::
  "('c, 'h, 'p, 'r) world \<Rightarrow> endpoint \<Rightarrow> request_body \<Rightarrow> ('c, 'h, 'p) bridge \<Rightarrow> response res \<times> ('c, 'h, 'p) bridge" where
  "handle w OnAnalyzeCss body s = (onAnalyzeCss w body, s)"
| "handle w OnAnalyzeJs body s = (onAnalyzeJs w s body, s)"
| "handle w OnAnalyzeTs body s = (onAnalyzeTs w s body, s)"
| "handle w OnAnalyzeHtml body s = (onAnalyzeHtml w s body, s)"
| "handle w OnAnalyzeYaml body s = (onAnalyzeYaml w s body, s)"
| "handle w OnCreateProgram body s = onCreateProgram w body s"
| "handle w OnDeleteProgram body s = onDeleteProgram body s"
| "handle w OnInitLinter body s = onInitLinter w body s"
| "handle w OnNewTSConfig body s = (onNewTSConfig body, s)"
| "handle w OnStatus body s = (onStatus body, s)"
| "handle w OnTSConfigFiles body s = (onTSConfigFiles w body, s)"
| "handle w OnCreateTSConfigFile body s = onCreateTSConfigFile w body s"

definition serve ::
  "('c, 'h, 'p, 'r) world \<Rightarrow> http_method \<Rightarrow> string \<Rightarrow> request_body \<Rightarrow> ('c, 'h, 'p) bridge \<Rightarrow>
   response \<times> ('c, 'h, 'p) bridge" where
  "serve w meth path body s =
     (case map_of router (meth, path) of
        None \<Rightarrow> (NotFound, s)
      | Some endpoint \<Rightarrow>
          (case handle w endpoint body s of
             (Inr response, s') \<Rightarrow> (response, s')
           | (Inl error, s') \<Rightarrow> (errorMiddleware error, s')))"

section \<open>Correctness\<close>

text \<open>The routes are unambiguous, and a path has one method.\<close>

lemma router_distinct: "distinct (map (snd \<circ> fst) router)"
  by code_simp

lemmas handler_defs = onCreateProgram_def onDeleteProgram_def onInitLinter_def onCreateTSConfigFile_def

definition is_failure :: "response \<Rightarrow> bool" where
  "is_failure r = (case r of ParsingErrorResponse m c l out \<Rightarrow> True | ErrorResponse m \<Rightarrow> True | NotFound \<Rightarrow> True | _ \<Rightarrow> False)"

lemma errorMiddleware_failure: "is_failure (errorMiddleware e)"
  by (cases e) (auto simp: errorMiddleware_def is_failure_def split: error_code.split)

lemma handle_frame:
  assumes "handle w endpoint body s = (result, s')"
  shows "br_context s' = br_context s \<and>
    (endpoint \<noteq> OnInitLinter \<longrightarrow> br_linters s' = br_linters s) \<and>
    (endpoint \<notin> {OnCreateProgram, OnDeleteProgram} \<longrightarrow> br_programs s' = br_programs s) \<and>
    (endpoint \<noteq> OnCreateTSConfigFile \<longrightarrow> br_files s' = br_files s)"
  using assms by (cases endpoint) (auto simp: handler_defs split: prod.splits sum.splits option.splits)

lemma createProgram_error: "createProgram pl ts tsConfig c = (Inl e, c') \<Longrightarrow> c' = c"
  by (auto simp: createProgram_def Let_def split: sum.splits prod.splits)

lemma writeTSConfigFile_error: "writeTSConfigFile tmp_file writable tsConfig files = (Inl e, files') \<Longrightarrow> files' = files"
  by (auto simp: writeTSConfigFile_def split: sum.splits)

lemma handle_error: "handle w endpoint body s = (Inl e, s') \<Longrightarrow> s' = s"
  by (cases endpoint)
    (auto simp: handler_defs bind_res_eq_Inl split: prod.splits sum.splits
      dest: createProgram_error writeTSConfigFile_error)

lemma run_on_success:
  "run_on w (\<lambda>b. bind_res (f b) (\<lambda>out. Inr (g out))) body = Inr r \<Longrightarrow> \<exists>out. r = g out"
  by (auto simp: run_on_def runner_def bind_res_eq_Inr split: if_splits)

lemma analysis_success:
  "onAnalyzeCss w body = Inr r \<Longrightarrow> \<not> is_failure r"
  "onAnalyzeJsTs w s language body = Inr r \<Longrightarrow> \<not> is_failure r"
  "onAnalyzeEmbedded w s lang body = Inr r \<Longrightarrow> \<not> is_failure r"
  "onTSConfigFiles w body = Inr r \<Longrightarrow> \<not> is_failure r"
  unfolding onAnalyzeCss_def onAnalyzeJsTs_def onAnalyzeEmbedded_def case_prod_unfold
  by (drule run_on_success, force simp: is_failure_def)+
    (auto simp: onTSConfigFiles_def bind_res_eq_Inr is_failure_def)

lemma update_success:
  "onCreateProgram w body s = (Inr r, s') \<Longrightarrow> \<not> is_failure r"
  "onDeleteProgram body s = (Inr r, s') \<Longrightarrow> \<not> is_failure r"
  "onInitLinter w body s = (Inr r, s') \<Longrightarrow> \<not> is_failure r"
  "onCreateTSConfigFile w body s = (Inr r, s') \<Longrightarrow> \<not> is_failure r"
  by (auto simp: handler_defs bind_res_eq_Inr is_failure_def split: sum.splits prod.splits)

lemma handle_success: "handle w endpoint body s = (Inr r, s') \<Longrightarrow> \<not> is_failure r"
proof (cases endpoint)
  case OnNewTSConfig
  moreover assume "handle w endpoint body s = (Inr r, s')"
  ultimately show ?thesis by (auto simp: is_failure_def)
next
  case OnStatus
  moreover assume "handle w endpoint body s = (Inr r, s')"
  ultimately show ?thesis by (auto simp: is_failure_def)
qed (auto dest: analysis_success update_success)

lemma serve_cases:
  assumes "serve w meth path body s = (r, s')"
  obtains "map_of router (meth, path) = None" "r = NotFound" "s' = s"
  | endpoint where "map_of router (meth, path) = Some endpoint" "handle w endpoint body s = (Inr r, s')"
  | endpoint e where "map_of router (meth, path) = Some endpoint" "handle w endpoint body s = (Inl e, s')"
      "r = errorMiddleware e" "s' = s"
  using assms by (auto simp: serve_def split: option.splits prod.splits sum.splits dest: handle_error)

lemma route_found: "map_of router (meth, path) = Some endpoint \<Longrightarrow> (meth, path) \<in> fst ` set router"
  by (metis map_of_eq_None_iff option.distinct(1))

lemma errorMiddleware_found: "errorMiddleware e \<noteq> NotFound"
  by (cases e) (auto simp: errorMiddleware_def split: error_code.split)

definition owns_path :: "endpoint \<Rightarrow> string \<Rightarrow> bool" where
  "owns_path e p \<longleftrightarrow> (e = OnInitLinter \<longleftrightarrow> p = ''/init-linter'') \<and>
     (e \<in> {OnCreateProgram, OnDeleteProgram} \<longleftrightarrow> p \<in> {''/create-program'', ''/delete-program''}) \<and>
     (e = OnCreateTSConfigFile \<longleftrightarrow> p = ''/create-tsconfig-file'')"

lemma router_owns: "\<forall>r \<in> set router. owns_path (snd r) (snd (fst r))"
  by code_simp

lemma serve_endpoints: "map_of router (meth, path) = Some endpoint \<Longrightarrow> owns_path endpoint path"
  using router_owns [rule_format, OF map_of_SomeD, of "(meth, path)" endpoint] by simp


subsection \<open>Linters\<close>

type_synonym request = "http_method \<times> string \<times> request_body"

definition start_bridge :: "context_info option \<Rightarrow> ('c, 'h, 'p) bridge" where
  "start_bridge ctx = \<lparr>br_context = ctx, br_linters = [], br_programs = empty_cache, br_files = Map.empty\<rparr>"

lemma start_bridge_simps [simp]:
  "br_context (start_bridge ctx) = ctx" "br_linters (start_bridge ctx) = []"
  by (simp_all add: start_bridge_def)

definition serve_all :: "('c, 'h, 'p, 'r) world \<Rightarrow> request list \<Rightarrow> ('c, 'h, 'p) bridge \<Rightarrow> ('c, 'h, 'p) bridge" where
  "serve_all w reqs s = fold (\<lambda>(meth, path, body) s. snd (serve w meth path body s)) reqs s"

definition wrapper_of :: "('c, 'h, 'p, 'r) world \<Rightarrow> context_info option \<Rightarrow> request_body \<Rightarrow> ('c, 'h) linter_wrapper res" where
  "wrapper_of w ctx b = LinterWrapper (wd_packages w) ctx
     \<lparr>wo_inputRules = Some (rb_rules b), wo_environments = Some (or_default [] (rb_environments b)),
      wo_globals = Some (or_default [] (rb_globals b)), wo_ruleBundles = None, wo_customRules = None\<rparr>"

definition linter_key :: "request_body \<Rightarrow> string" where
  "linter_key b = or_default ''default'' (rb_linterId b)"

definition initializes :: "('c, 'h, 'p, 'r) world \<Rightarrow> context_info option \<Rightarrow> string \<Rightarrow> request \<Rightarrow> bool" where
  "initializes w ctx k req = (case req of (meth, path, b) \<Rightarrow>
     meth = POST \<and> path = ''/init-linter'' \<and> linter_key b = k \<and> \<not> isl (wrapper_of w ctx b))"

lemma route_init: "map_of router (meth, path) = Some OnInitLinter \<longleftrightarrow> meth = POST \<and> path = ''/init-linter''"
proof
  assume route: "map_of router (meth, path) = Some OnInitLinter"
  have "\<forall>r \<in> set router. snd r = OnInitLinter \<longrightarrow> fst r = (POST, ''/init-linter'')" by code_simp
  with map_of_SomeD [OF route] show "meth = POST \<and> path = ''/init-linter''" by force
next
  assume "meth = POST \<and> path = ''/init-linter''"
  moreover have "map_of router (POST, ''/init-linter'') = Some OnInitLinter" by code_simp
  ultimately show "map_of router (meth, path) = Some OnInitLinter" by simp
qed

lemma init_serve:
  "br_linters (snd (serve w POST ''/init-linter'' b s)) =
     (case wrapper_of w (br_context s) b of Inl e \<Rightarrow> br_linters s | Inr l \<Rightarrow> dict_set (linter_key b) l (br_linters s))"
  using route_init [THEN iffD2]
  by (simp add: serve_def onInitLinter_def initializeLinter_def wrapper_of_def linter_key_def split: sum.split)

lemma serve_frame:
  "br_context (snd (serve w meth path b s)) = br_context s"
  "\<not> (meth = POST \<and> path = ''/init-linter'') \<Longrightarrow> br_linters (snd (serve w meth path b s)) = br_linters s"
proof -
  obtain r s' where run: "serve w meth path b s = (r, s')" by fastforce
  show "br_context (snd (serve w meth path b s)) = br_context s"
    using run by (cases rule: serve_cases) (auto simp: run dest: handle_frame)
  show "br_linters (snd (serve w meth path b s)) = br_linters s" if "\<not> (meth = POST \<and> path = ''/init-linter'')"
    using run that
    by (cases rule: serve_cases) (auto simp: run dest!: handle_frame simp flip: route_init)
qed

lemma serve_get:
  "dict_get (br_linters (snd (serve w meth path b s))) k =
     (if initializes w (br_context s) k (meth, path, b) then Some (projr (wrapper_of w (br_context s) b))
      else dict_get (br_linters s) k)"
proof (cases "meth = POST \<and> path = ''/init-linter''")
  case True
  then show ?thesis
    by (auto simp: init_serve initializes_def dict.get_put split: sum.split)
next
  case False
  then have "\<not> initializes w (br_context s) k (meth, path, b)" by (auto simp: initializes_def)
  then show ?thesis by (simp add: serve_frame(2) [OF False])
qed

lemma serve_all_context: "br_context (serve_all w reqs s) = br_context s"
  unfolding serve_all_def by (induction reqs arbitrary: s) (auto simp: serve_frame(1))

lemma serve_all_linters:
  "dict_get (br_linters (serve_all w reqs s)) k =
     (case List.find (initializes w (br_context s) k) (rev reqs) of
        Some (meth, path, b) \<Rightarrow> Some (projr (wrapper_of w (br_context s) b))
      | None \<Rightarrow> dict_get (br_linters s) k)"
proof (induction reqs rule: rev_induct)
  case Nil
  show ?case by (simp add: serve_all_def)
next
  case (snoc req reqs)
  obtain meth path b where req: "req = (meth, path, b)" by (cases req)
  have "serve_all w (reqs @ [req]) s = snd (serve w meth path b (serve_all w reqs s))"
    by (simp add: serve_all_def req)
  with snoc show ?case by (simp add: serve_get serve_all_context req)
qed

lemma no_linter_answer:
  assumes "path \<in> {''/analyze-js'', ''/analyze-ts'', ''/analyze-with-program'', ''/analyze-html'', ''/analyze-yaml''}"
    and "rb_fileContent body \<noteq> []" and "dict_get (br_linters s) (linter_key body) = None"
  shows "serve w POST path body s = (ParsingErrorResponse
    (''Linter '' @ linter_key body @ '' does not exist. Did you call /init-linter?'') LinterInitialization None None, s)"
proof -
  let ?e = "APIError LinterInitialization (''Linter '' @ linter_key body @ '' does not exist. Did you call /init-linter?'') None"
  have none: "getLinter (br_linters s) (rb_linterId body) = Inl ?e"
    using assms(3) by (simp add: getLinter_def linter_key_def Let_def)
  have "onAnalyzeJsTs w s language body = Inl ?e" "onAnalyzeEmbedded w s lang body = Inl ?e" for language lang
    using assms(2) none
    by (simp_all add: onAnalyzeJsTs_def onAnalyzeEmbedded_def run_on_def runner_def analyzeJSTS_def analyzeEmbedded_def
        jsts_input_of_def embedded_input_of_def)
  moreover have "map_of router (POST, path) \<in> {Some OnAnalyzeJs, Some OnAnalyzeTs, Some OnAnalyzeHtml, Some OnAnalyzeYaml}"
    using assms(1) by (auto simp: router_def)
  ultimately show ?thesis by (auto simp: serve_def errorMiddleware_def)
qed


definition example_world :: "(bool, nat, unit, unit) world" where
  "example_world = \<lparr>wd_packages = example_packages, wd_verify = (\<lambda>_ _ _ _. Inr []), wd_embedded = embedded_example,
     wd_stylelint = (\<lambda>_. Inr []),
     wd_typescript = \<lparr>ts_sys = \<lparr>ch_fileExists = (\<lambda>_. False), ch_readFile = (\<lambda>_. None)\<rparr>,
       ts_readConfigFile = (\<lambda>f readFile. ([f], Inl \<lparr>dg_messageText = Inl ''Cannot read file'', dg_file = None, dg_start = None\<rparr>)),
       ts_parseJsonConfigFileContent = (\<lambda>config host base opts name extra.
         ([], \<lparr>pc_fileNames = [], pc_options = opts, pc_projectReferences = None, pc_errors = []\<rparr>)),
       ts_createProgram = (\<lambda>_. ()), ts_getProjectReferences = (\<lambda>_. None), ts_getSourceFiles = (\<lambda>_. [])\<rparr>,
     wd_platform = example_platform, wd_fs = (\<lambda>_. Inl (JsError ''ENOENT'' [])), wd_text_of = (\<lambda>_. []),
     wd_tmp_file = Inr ''/tmp/a'', wd_writable = (\<lambda>_. Inr ()),
     wd_clock = \<lparr>ck_parseStart = 0, ck_parseStop = 0, ck_analysisStart = 0, ck_analysisStop = 0\<rparr>\<rparr>"

definition example_body :: "string option \<Rightarrow> request_body" where
  "example_body linterId = \<lparr>rb_filePath = ''a.js'', rb_fileContent = ''f();'', rb_linterId = linterId, rb_fileType = MAIN,
     rb_ignoreHeaderComments = None, rb_tsConfigs = None, rb_programId = None, rb_cssRules = [], rb_rules = [],
     rb_environments = None, rb_globals = None, rb_tsConfig = ''/p/tsconfig.json'', rb_json = JsonNull\<rparr>"



end
