(* ===== verification/Lifecycle.thy ===== *)
theory Lifecycle
  imports Prelude
begin

text \<open>
  The life of the bridge's server: the timeout of \<^verbatim>\<open>src/routing/timeout/timeout.ts\<close>, the
  middleware of \<^verbatim>\<open>src/routing/timeout/middleware.ts\<close> that stops it during a request and starts
  it when the response is finished, and the server of \<^verbatim>\<open>src/server.ts\<close> that closes when the
  timeout expires. What Node.js and Express do is the environment: time passes, requests arrive
  and responses finish in any order.
\<close>

section \<open>The state\<close>

text \<open>
  Active timers have an identity and a deadline in milliseconds. A pending request is one whose
  response is not finished, with a flag for the requests to close the server.
\<close>

record server_state =
  sv_now :: nat
  sv_nextTimer :: nat
  sv_timers :: "(nat \<times> nat) list"
  sv_timeout :: "nat option"
  sv_started :: bool
  sv_listening :: bool
  sv_closed :: bool
  sv_pending :: "(nat \<times> bool) list"

definition setTimeout :: "nat \<Rightarrow> server_state \<Rightarrow> nat \<times> server_state" where
  "setTimeout delay s =
     (sv_nextTimer s,
      s\<lparr>sv_timers := (sv_nextTimer s, sv_now s + delay) # sv_timers s, sv_nextTimer := sv_nextTimer s + 1\<rparr>)"

definition clearTimeout :: "nat \<Rightarrow> server_state \<Rightarrow> server_state" where
  "clearTimeout i s = s\<lparr>sv_timers := filter (\<lambda>t. fst t \<noteq> i) (sv_timers s)\<rparr>"

section \<open>The timeout\<close>

definition timeout_stop :: "server_state \<Rightarrow> server_state" where
  "timeout_stop s =
     (case sv_timeout s of
        Some i \<Rightarrow> (clearTimeout i s)\<lparr>sv_timeout := None\<rparr>
      | None \<Rightarrow> s)"

definition timeout_start :: "nat \<Rightarrow> server_state \<Rightarrow> server_state" where
  "timeout_start delay s =
     (case setTimeout delay (timeout_stop s) of (i, s') \<Rightarrow> s'\<lparr>sv_timeout := Some i\<rparr>)"

section \<open>The middleware and the server\<close>

definition middleware :: "nat \<Rightarrow> bool \<Rightarrow> server_state \<Rightarrow> server_state" where
  "middleware request closing s =
     (let s' = timeout_stop s in s'\<lparr>sv_pending := (request, closing) # sv_pending s'\<rparr>)"

definition server_close :: "server_state \<Rightarrow> server_state" where
  "server_close s = s\<lparr>sv_listening := False\<rparr>"

text \<open>The listeners of a finished response, in the order of their registration.\<close>

definition on_finish :: "nat \<Rightarrow> nat \<Rightarrow> bool \<Rightarrow> server_state \<Rightarrow> server_state" where
  "on_finish delay request closing s =
     (let s' = timeout_start delay (s\<lparr>sv_pending := filter (\<lambda>p. fst p \<noteq> request) (sv_pending s)\<rparr>)
      in if closing then server_close s' else s')"

definition orphan_expired :: "server_state \<Rightarrow> server_state" where
  "orphan_expired s = (if sv_listening s then server_close s else s)"

definition on_close :: "server_state \<Rightarrow> server_state" where
  "on_close s = (timeout_stop s)\<lparr>sv_closed := True\<rparr>"

definition start :: "nat \<Rightarrow> server_state" where
  "start delay = timeout_start delay
     \<lparr>sv_now = 0, sv_nextTimer = 0, sv_timers = [], sv_timeout = None, sv_started = False, sv_listening = False,
      sv_closed = False, sv_pending = []\<rparr>"

section \<open>Steps\<close>

text \<open>
  A request whose body is refused never reaches the middleware. A request is aborted when its
  connection ends before the response is finished. A timer that is due expires before more time passes.
\<close>

datatype event = Tick | Listen | Receive nat bool | Reject | Finish nat | Abort nat | Expire | Closed

inductive step :: "nat \<Rightarrow> server_state \<Rightarrow> event \<Rightarrow> server_state \<Rightarrow> bool" for delay where
  tick: "list_all (\<lambda>t. sv_now s < snd t) (sv_timers s) \<Longrightarrow> step delay s Tick (s\<lparr>sv_now := sv_now s + 1\<rparr>)"
| listen: "\<not> sv_started s \<Longrightarrow> step delay s Listen (s\<lparr>sv_started := True, sv_listening := True\<rparr>)"
| receive: "sv_started s \<Longrightarrow> \<not> sv_closed s \<Longrightarrow> r \<notin> fst ` set (sv_pending s) \<Longrightarrow>
    step delay s (Receive r c) (middleware r c s)"
| reject: "sv_started s \<Longrightarrow> \<not> sv_closed s \<Longrightarrow> step delay s Reject s"
| finish: "(r, c) \<in> set (sv_pending s) \<Longrightarrow> step delay s (Finish r) (on_finish delay r c s)"
| abort: "(r, c) \<in> set (sv_pending s) \<Longrightarrow>
    step delay s (Abort r) (s\<lparr>sv_pending := filter (\<lambda>p. fst p \<noteq> r) (sv_pending s)\<rparr>)"
| expire: "(i, d) \<in> set (sv_timers s) \<Longrightarrow> d \<le> sv_now s \<Longrightarrow> step delay s Expire (orphan_expired (clearTimeout i s))"
| closed: "sv_started s \<Longrightarrow> \<not> sv_listening s \<Longrightarrow> \<not> sv_closed s \<Longrightarrow> sv_pending s = [] \<Longrightarrow>
    step delay s Closed (on_close s)"

inductive_cases tickE: "step delay s Tick s'"
inductive_cases expireE: "step delay s Expire s'"

inductive run :: "nat \<Rightarrow> server_state \<Rightarrow> event list \<Rightarrow> server_state \<Rightarrow> bool" for delay s0 where
  nil: "run delay s0 [] s0"
| snoc: "run delay s0 es s \<Longrightarrow> step delay s e s' \<Longrightarrow> run delay s0 (es @ [e]) s'"

section \<open>Correctness\<close>

lemmas server_defs = setTimeout_def clearTimeout_def timeout_stop_def timeout_start_def middleware_def
  server_close_def on_finish_def orphan_expired_def on_close_def

definition ticks :: "event list \<Rightarrow> nat" where
  "ticks es = length (filter (\<lambda>e. e = Tick) es)"

fun is_traffic :: "event \<Rightarrow> bool" where
  "is_traffic (Receive r c) = True"
| "is_traffic (Finish r) = True"
| "is_traffic _ = False"

lemma ticks_simps [simp]: "ticks [] = 0" "ticks (es @ [e]) = ticks es + (if e = Tick then 1 else 0)"
  by (simp_all add: ticks_def)

text \<open>At most one timer is active, the one that the wrapper refers to.\<close>

definition one_timer :: "nat \<Rightarrow> server_state \<Rightarrow> bool" where
  "one_timer delay s \<longleftrightarrow>
     (sv_timers s = [] \<or>
      (\<exists>d. sv_timers s = [(the (sv_timeout s), d)] \<and> sv_timeout s \<noteq> None \<and> sv_now s \<le> d \<and> d \<le> sv_now s + delay)) \<and>
     (sv_closed s \<longrightarrow> sv_timers s = [] \<and> sv_pending s = [] \<and> \<not> sv_listening s \<and> sv_started s) \<and>
     (\<not> sv_started s \<longrightarrow> sv_pending s = [] \<and> \<not> sv_listening s)"

lemma one_timer_start: "one_timer delay (start delay)"
  by (simp add: one_timer_def start_def server_defs)

lemma timers_stop: "one_timer delay s \<Longrightarrow> sv_timers (timeout_stop s) = []"
  by (auto simp: one_timer_def timeout_stop_def clearTimeout_def split: option.split)

lemma stop_frame [simp]:
  "sv_now (timeout_stop s) = sv_now s" "sv_started (timeout_stop s) = sv_started s"
  "sv_listening (timeout_stop s) = sv_listening s" "sv_closed (timeout_stop s) = sv_closed s"
  "sv_pending (timeout_stop s) = sv_pending s" "sv_nextTimer (timeout_stop s) = sv_nextTimer s"
  by (simp_all add: timeout_stop_def clearTimeout_def split: option.split)

lemma start_frame [simp]:
  "sv_now (timeout_start delay s) = sv_now s" "sv_started (timeout_start delay s) = sv_started s"
  "sv_listening (timeout_start delay s) = sv_listening s" "sv_closed (timeout_start delay s) = sv_closed s"
  "sv_pending (timeout_start delay s) = sv_pending s" "sv_timeout (timeout_start delay s) = Some (sv_nextTimer s)"
  "sv_timers (timeout_start delay s) = (sv_nextTimer s, sv_now s + delay) # sv_timers (timeout_stop s)"
  by (simp_all add: timeout_start_def setTimeout_def)

lemma stop_pending [simp]: "sv_timers (timeout_stop (s\<lparr>sv_pending := ps\<rparr>)) = sv_timers (timeout_stop s)"
  by (simp add: timeout_stop_def clearTimeout_def split: option.split)

lemma one_timer_step:
  assumes "step delay s e s'" "one_timer delay s"
  shows "one_timer delay s'"
  using assms
proof (induction rule: step.induct)
  case (tick s)
  then show ?case by (auto simp: one_timer_def)
next
  case (finish r c s)
  then show ?case
    using timers_stop [OF finish.prems]
    by (auto simp: one_timer_def on_finish_def server_close_def Let_def)
next
  case (receive s r c)
  then show ?case
    using timers_stop [OF receive.prems] by (auto simp: one_timer_def middleware_def Let_def)
next
  case (closed s)
  then show ?case
    using timers_stop [OF closed.prems] by (auto simp: one_timer_def on_close_def)
next
  case (expire i d s)
  then show ?case by (auto simp: one_timer_def orphan_expired_def clearTimeout_def server_close_def)
qed (auto simp: one_timer_def)

lemma one_timer_run: "run delay (start delay) es s \<Longrightarrow> one_timer delay s"
  by (induction rule: run.induct) (auto intro: one_timer_start one_timer_step)

text \<open>The timer that is active was started by the last event of the traffic, or with the server.\<close>

definition quiet_for :: "event list \<Rightarrow> nat \<Rightarrow> bool" where
  "quiet_for es n \<longleftrightarrow> (\<exists>before after. es = before @ after \<and> ticks after = n \<and> \<not> (\<exists>e \<in> set after. is_traffic e))"

lemma quiet_for_0: "quiet_for es 0"
  unfolding quiet_for_def by (intro exI [of _ es] exI [of _ "[]"]) simp

lemma quiet_for_snoc:
  assumes "quiet_for es n" "\<not> is_traffic e"
  shows "quiet_for (es @ [e]) (n + (if e = Tick then 1 else 0))"
proof -
  from assms obtain before after where "es = before @ after" "ticks after = n" "\<not> (\<exists>e \<in> set after. is_traffic e)"
    unfolding quiet_for_def by blast
  with assms(2) show ?thesis
    unfolding quiet_for_def by (intro exI [of _ before] exI [of _ "after @ [e]"]) auto
qed

lemma timer_age_step:
  assumes "step delay s e s'" and inv: "one_timer delay s"
    and age: "\<And>i d. (i, d) \<in> set (sv_timers s) \<Longrightarrow> quiet_for es (delay - (d - sv_now s))"
    and "(i, d) \<in> set (sv_timers s')"
  shows "quiet_for (es @ [e]) (delay - (d - sv_now s'))"
  using assms
proof (induction rule: step.induct)
  case (tick s)
  then have "quiet_for es (delay - (d - sv_now s))" "d \<le> sv_now s + delay" "sv_now s < d"
    by (auto simp: one_timer_def list_all_iff)
  from quiet_for_snoc [OF this(1), of Tick] this(2, 3) show ?case
    by (simp add: Suc_diff_le [symmetric])
next
  case (finish r c s)
  then have "d = sv_now s + delay"
    using timers_stop [OF finish(2)] by (auto simp: on_finish_def Let_def server_close_def split: if_splits)
  then show ?case by (auto simp: on_finish_def Let_def server_close_def quiet_for_0)
next
  case (receive s r c)
  then show ?case using timers_stop [OF receive(4)] by (simp add: middleware_def Let_def)
next
  case (closed s)
  then show ?case using timers_stop [OF closed(5)] by (simp add: on_close_def)
next
  case (expire j d' s)
  then have "(i, d) \<in> set (sv_timers s)" "sv_now (orphan_expired (clearTimeout j s)) = sv_now s"
    by (auto simp: orphan_expired_def clearTimeout_def server_close_def split: if_splits)
  with quiet_for_snoc [OF expire(4) [OF this(1)], of Expire] show ?case by simp
next
  case (listen s)
  then have "quiet_for es (delay - (d - sv_now s))" by simp
  from quiet_for_snoc [OF this, of Listen] show ?case by simp
next
  case (reject s)
  then have "quiet_for es (delay - (d - sv_now s))" by simp
  from quiet_for_snoc [OF this, of Reject] show ?case by simp
next
  case (abort r c s)
  then have "quiet_for es (delay - (d - sv_now s))" by simp
  from quiet_for_snoc [OF this, of "Abort r"] show ?case by simp
qed

lemma timer_age:
  "run delay (start delay) es s \<Longrightarrow> (i, d) \<in> set (sv_timers s) \<Longrightarrow> quiet_for es (delay - (d - sv_now s))"
proof (induction arbitrary: i d rule: run.induct)
  case nil
  then have "d - sv_now (start delay) = delay" by (simp add: start_def server_defs)
  then show ?case by (simp add: quiet_for_0)
next
  case (snoc es s e s')
  show ?case by (rule timer_age_step [OF snoc(2) one_timer_run [OF snoc(1)] snoc.IH snoc.prems])
qed

text \<open>
  C39: the timeout of a server, after any history of events: at most one timer is active, the
  one that the wrapper refers to, and none after the server closed. When the timer expires, no
  request was received and no response finished during the last \<open>delay\<close> milliseconds.
\<close>

theorem timeout_safe:
  assumes "run delay (start delay) es s"
  shows "length (sv_timers s) \<le> 1 \<and> (\<forall>t \<in> set (sv_timers s). sv_timeout s = Some (fst t)) \<and>
    (sv_closed s \<longrightarrow> sv_timers s = []) \<and>
    (\<forall>s'. step delay s Expire s' \<longrightarrow> quiet_for es delay)"
proof -
  have inv: "one_timer delay s" using assms by (rule one_timer_run)
  have "quiet_for es delay" if exp: "step delay s Expire s'" for s'
  proof -
    from exp obtain i d where due: "(i, d) \<in> set (sv_timers s)" "d \<le> sv_now s" by (rule expireE)
    from timer_age [OF assms due(1)] due(2) show ?thesis by simp
  qed
  with inv show ?thesis by (auto simp: one_timer_def)
qed

subsection \<open>An executable check of runs\<close>

fun exec :: "nat \<Rightarrow> event \<Rightarrow> server_state \<Rightarrow> server_state option" where
  "exec delay Tick s = (if list_all (\<lambda>t. sv_now s < snd t) (sv_timers s) then Some (s\<lparr>sv_now := sv_now s + 1\<rparr>) else None)"
| "exec delay Listen s = (if sv_started s then None else Some (s\<lparr>sv_started := True, sv_listening := True\<rparr>))"
| "exec delay (Receive r c) s =
     (if sv_started s \<and> \<not> sv_closed s \<and> r \<notin> fst ` set (sv_pending s) then Some (middleware r c s) else None)"
| "exec delay Reject s = (if sv_started s \<and> \<not> sv_closed s then Some s else None)"
| "exec delay (Finish r) s = (case map_of (sv_pending s) r of None \<Rightarrow> None | Some c \<Rightarrow> Some (on_finish delay r c s))"
| "exec delay (Abort r) s = (case map_of (sv_pending s) r of None \<Rightarrow> None
     | Some c \<Rightarrow> Some (s\<lparr>sv_pending := filter (\<lambda>p. fst p \<noteq> r) (sv_pending s)\<rparr>))"
| "exec delay Expire s = (case List.find (\<lambda>t. snd t \<le> sv_now s) (sv_timers s) of None \<Rightarrow> None
     | Some t \<Rightarrow> Some (orphan_expired (clearTimeout (fst t) s)))"
| "exec delay Closed s =
     (if sv_started s \<and> \<not> sv_listening s \<and> \<not> sv_closed s \<and> sv_pending s = [] then Some (on_close s) else None)"

lemma exec_step: "exec delay e s = Some s' \<Longrightarrow> step delay s e s'"
proof (cases e)
  case Expire
  moreover assume "exec delay e s = Some s'"
  ultimately obtain t where "List.find (\<lambda>t. snd t \<le> sv_now s) (sv_timers s) = Some t"
    "s' = orphan_expired (clearTimeout (fst t) s)" by (auto split: option.splits)
  then show ?thesis using expire [of "fst t" "snd t" s delay] Expire by (auto dest: find_SomeD)
qed (auto split: if_splits option.splits intro: step.intros tick [simplified] dest: map_of_SomeD)

fun exec_all :: "nat \<Rightarrow> event list \<Rightarrow> server_state \<Rightarrow> server_state option" where
  "exec_all delay [] s = Some s"
| "exec_all delay (e # es) s = Option.bind (exec delay e s) (exec_all delay es)"

lemma run_append:
  assumes "run delay s es s'"
  shows "run delay s0 es0 s \<Longrightarrow> run delay s0 (es0 @ es) s'"
  using assms by (induction rule: run.induct) (auto intro: run.intros simp flip: append_assoc)

lemma exec_all_run: "exec_all delay es s = Some s' \<Longrightarrow> run delay s es s'"
proof (induction es arbitrary: s)
  case Nil
  then show ?case by (simp add: run.nil)
next
  case (Cons e es)
  then obtain s1 where s1: "exec delay e s = Some s1" "exec_all delay es s1 = Some s'"
    by (auto simp: bind_eq_Some_conv)
  have "run delay s ([] @ [e]) s1" by (rule run.snoc [OF run.nil exec_step [OF s1(1)]])
  from run_append [OF Cons.IH [OF s1(2)] this] show ?case by simp
qed

definition example_events :: "event list" where
  "example_events = [Listen, Receive 1 False, Tick, Receive 2 False, Tick, Finish 1, Tick, Tick, Tick]"

theorem timeout_safe_witness:
  "\<exists>s. run 3 (start 3) example_events s \<and> length (sv_timers s) \<le> 1 \<and> quiet_for example_events 3"
proof -
  have "exec_all 3 (example_events @ [Expire]) (start 3) \<noteq> None" by code_simp
  then obtain s s' where s: "exec_all 3 example_events (start 3) = Some s" "exec 3 Expire s = Some s'"
    unfolding example_events_def by (auto simp: bind_eq_Some_conv)
  have r: "run 3 (start 3) example_events s" by (rule exec_all_run [OF s(1)])
  from timeout_safe [OF r] exec_step [OF s(2)] r show ?thesis by blast
qed

subsection \<open>Shutdown\<close>

text \<open>
  A history without an aborted request, in which the timer did not expire before the server
  was listening.
\<close>

definition undisturbed :: "event list \<Rightarrow> bool" where
  "undisturbed es \<longleftrightarrow> (\<forall>r. Abort r \<notin> set es) \<and> Expire \<notin> set (takeWhile (\<lambda>e. e \<noteq> Listen) es)"

lemma undisturbed_snoc:
  "undisturbed (es @ [e]) \<Longrightarrow> undisturbed es \<and> (\<forall>r. e \<noteq> Abort r) \<and> (e = Expire \<longrightarrow> Listen \<in> set es)"
  unfolding undisturbed_def by (auto simp: takeWhile_append split: if_splits dest: set_takeWhileD)

lemma listen_started: "run delay (start delay) es s \<Longrightarrow> Listen \<in> set es \<longleftrightarrow> sv_started s"
proof (induction rule: run.induct)
  case nil
  show ?case by (simp add: start_def server_defs)
next
  case (snoc es s e s')
  from snoc(2, 3) show ?case
    by (induction rule: step.induct) (auto simp: server_defs Let_def split: option.split prod.split if_split)
qed

lemma timer_while_idle:
  assumes "run delay (start delay) es s" "undisturbed es" "sv_pending s = []" "sv_listening s \<or> \<not> sv_started s"
  shows "sv_timers s \<noteq> []"
  using assms
proof (induction rule: run.induct)
  case nil
  show ?case by (simp add: start_def server_defs)
next
  case (snoc es s e s')
  from undisturbed_snoc [OF snoc.prems(1)]
  have hist: "undisturbed es" "\<forall>r. e \<noteq> Abort r" "e = Expire \<longrightarrow> sv_started s"
    using listen_started [OF snoc(1)] by auto
  have inv: "one_timer delay s" using snoc(1) by (rule one_timer_run)
  from snoc(2) hist(2, 3) snoc.prems(2, 3) snoc.IH [OF hist(1)] inv show ?case
    by (induction rule: step.induct)
      (auto simp: middleware_def on_finish_def orphan_expired_def clearTimeout_def server_close_def on_close_def one_timer_def Let_def
        split: if_splits)
qed

lemma run_ticks:
  "list_all (\<lambda>t. sv_now s + n \<le> snd t) (sv_timers s) \<Longrightarrow> run delay s (replicate n Tick) (s\<lparr>sv_now := sv_now s + n\<rparr>)"
proof (induction n)
  case 0
  show ?case using run.nil by simp
next
  case (Suc n)
  let ?s = "s\<lparr>sv_now := sv_now s + n\<rparr>"
  have "list_all (\<lambda>t. sv_now s + n \<le> snd t) (sv_timers s)" using Suc.prems by (simp add: list_all_iff Suc_le_eq less_imp_le)
  then have r: "run delay s (replicate n Tick) ?s" by (rule Suc.IH)
  have "list_all (\<lambda>t. sv_now ?s < snd t) (sv_timers ?s)" using Suc.prems by (simp add: list_all_iff Suc_le_eq)
  from run.snoc [OF r tick [OF this]] show ?case by (simp add: replicate_append_same)
qed

lemma idle_run:
  assumes "run delay s es s'" "set es \<subseteq> {Tick, Expire}" "sv_listening s'"
  shows "sv_listening s \<and> sv_timers s' = sv_timers s \<and> sv_now s' = sv_now s + ticks es"
  using assms
proof (induction rule: run.induct)
  case (snoc es s' e s'')
  from snoc(2) snoc.prems have "e = Tick \<and> sv_listening s' \<and> sv_timers s'' = sv_timers s' \<and> sv_now s'' = sv_now s' + 1"
    by (induction rule: step.induct) (auto simp: orphan_expired_def clearTimeout_def server_close_def split: if_splits)
  with snoc show ?case by auto
qed simp

text \<open>
  C40: a server without clients stops: in any history without aborted requests, when
  the server listens and no request is pending, it can always go on to its end, and it is not listening any more
  once more than \<open>delay\<close> milliseconds passed without a request.
\<close>

theorem orphan_shutdown:
  assumes "run delay (start delay) es s" "undisturbed es" "sv_listening s" "sv_pending s = []"
  shows "(\<exists>n s'. n \<le> delay \<and> run delay s (replicate n Tick @ [Expire, Closed]) s' \<and> sv_closed s' \<and> sv_timers s' = []) \<and>
    (\<forall>es' s'. run delay s es' s' \<and> set es' \<subseteq> {Tick, Expire} \<and> delay < ticks es' \<longrightarrow> \<not> sv_listening s')"
proof -
  have inv: "one_timer delay s" using assms(1) by (rule one_timer_run)
  from timer_while_idle [OF assms(1, 2, 4)] assms(3) inv obtain i d where
    timer: "sv_timers s = [(i, d)]" "sv_timeout s = Some i" "sv_now s \<le> d" "d \<le> sv_now s + delay"
    by (auto simp: one_timer_def)
  have started: "sv_started s" "\<not> sv_closed s" using inv assms(3) by (auto simp: one_timer_def)
  let ?n = "d - sv_now s"
  let ?s1 = "s\<lparr>sv_now := sv_now s + ?n\<rparr>"
  let ?s2 = "orphan_expired (clearTimeout i ?s1)"
  have r1: "run delay s (replicate ?n Tick) ?s1" by (rule run_ticks) (simp add: timer)
  have "step delay ?s1 Expire ?s2" by (rule expire [of i d]) (simp_all add: timer)
  then have r2: "run delay s (replicate ?n Tick @ [Expire]) ?s2" by (rule run.snoc [OF r1])
  have s2: "sv_started ?s2" "\<not> sv_listening ?s2" "\<not> sv_closed ?s2" "sv_pending ?s2 = []" "sv_timers ?s2 = []"
    using started assms(3, 4) by (simp_all add: orphan_expired_def clearTimeout_def server_close_def timer)
  have "run delay s (replicate ?n Tick @ [Expire, Closed]) (on_close ?s2)"
    using run.snoc [OF r2 closed [OF s2(1-4)]] by simp
  moreover have "sv_timers (on_close ?s2) = []"
    using s2(5) by (simp add: on_close_def timeout_stop_def clearTimeout_def split: option.split)
  moreover have "sv_closed (on_close ?s2)" by (simp add: on_close_def)
  ultimately have "\<exists>n s'. n \<le> delay \<and> run delay s (replicate n Tick @ [Expire, Closed]) s' \<and> sv_closed s' \<and> sv_timers s' = []"
    using timer(3, 4) by (intro exI [of _ ?n] exI [of _ "on_close ?s2"]) simp
  moreover have "\<not> sv_listening s'" if r: "run delay s es' s'" "set es' \<subseteq> {Tick, Expire}" "delay < ticks es'" for es' s'
  proof
    assume "sv_listening s'"
    from idle_run [OF r(1, 2) this] have now: "sv_timers s' = [(i, d)]" "sv_now s' = sv_now s + ticks es'"
      by (simp_all add: timer)
    have "one_timer delay s'" by (rule one_timer_run [OF run_append [OF r(1) assms(1)]])
    with now have "sv_now s + ticks es' \<le> d" by (auto simp: one_timer_def)
    with timer(4) r(3) show False by simp
  qed
  ultimately show ?thesis by blast
qed

definition idle_events :: "event list" where
  "idle_events = [Listen, Receive 1 False, Tick, Receive 2 False, Tick, Finish 1, Finish 2, Tick]"

theorem orphan_shutdown_witness:
  "\<exists>s n s'. run 3 (start 3) idle_events s \<and> n \<le> 3 \<and> run 3 s (replicate n Tick @ [Expire, Closed]) s' \<and> sv_closed s'"
proof -
  have "(case exec_all 3 idle_events (start 3) of None \<Rightarrow> False | Some s \<Rightarrow> sv_listening s \<and> sv_pending s = [])"
    by code_simp
  then obtain s where s: "exec_all 3 idle_events (start 3) = Some s" "sv_listening s" "sv_pending s = []"
    by (auto split: option.splits)
  have r: "run 3 (start 3) idle_events s" by (rule exec_all_run [OF s(1)])
  have "undisturbed idle_events" by (simp add: undisturbed_def idle_events_def)
  from orphan_shutdown [OF r this s(2, 3)] r show ?thesis by blast
qed

text \<open>
  A client that ends during its request leaves the timer stopped: the response never
  finishes, and the server listens for ever.
\<close>

lemma aborted_request_orphan:
  "\<exists>s. run delay (start delay) [Listen, Receive 1 False, Abort 1] s \<and> sv_listening s \<and> sv_pending s = [] \<and>
     (\<forall>es s'. run delay s es s' \<and> set es \<subseteq> {Tick, Expire} \<longrightarrow> sv_listening s')"
proof -
  let ?s0 = "(start delay)\<lparr>sv_started := True, sv_listening := True\<rparr>"
  let ?s = "(middleware 1 False ?s0)\<lparr>sv_pending := []\<rparr>"
  have "exec_all delay [Listen, Receive 1 False, Abort 1] (start delay) = Some ?s"
    by (simp add: start_def server_defs)
  then have r: "run delay (start delay) [Listen, Receive 1 False, Abort 1] ?s" by (rule exec_all_run)
  have s: "sv_listening ?s" "sv_timers ?s = []" by (simp_all add: start_def server_defs)
  have "sv_listening s' \<and> sv_timers s' = []" if "run delay ?s es s'" "set es \<subseteq> {Tick, Expire}" for es s'
    using that
  proof (induction rule: run.induct)
    case (snoc es s e s')
    then have "sv_listening s \<and> sv_timers s = []" "e \<in> {Tick, Expire}" by auto
    with snoc(2) show ?case by (induction rule: step.induct) auto
  qed (use s in simp)
  with r s show ?thesis by (intro exI [of _ ?s]) auto
qed

text \<open>
  The first response that finishes starts the timer although another request is pending, so a
  server can stop listening during an analysis.
\<close>

lemma expires_during_request:
  "\<exists>s s'. run 3 (start 3) example_events s \<and> sv_pending s \<noteq> [] \<and> step 3 s Expire s' \<and> \<not> sv_listening s'"
proof -
  have "(case exec_all 3 example_events (start 3) of None \<Rightarrow> False
     | Some s \<Rightarrow> sv_pending s \<noteq> [] \<and> (case exec 3 Expire s of None \<Rightarrow> False | Some s' \<Rightarrow> \<not> sv_listening s'))"
    by code_simp
  then show ?thesis
    by (auto split: option.splits intro!: exec_all_run exec_step exI)
qed

end
