(* ===== verification/Regex_Tokens.thy ===== *)
theory Regex_Tokens
  imports Prelude
begin

text \<open>
  The tokens of string literals that hold regular expressions,
  \<^verbatim>\<open>src/linting/eslint/rules/helpers/regex/tokenizer.ts\<close>. Texts are lists of UTF-16 code units, numbers
  below \<open>0x10000\<close>. The tokenizer is compared with the values that the language gives to string
  literals.
\<close>

section \<open>Code points\<close>

type_synonym units = "nat list"

definition is_high :: "nat \<Rightarrow> bool" where
  "is_high u \<longleftrightarrow> 0xD800 \<le> u \<and> u \<le> 0xDBFF"

definition is_low :: "nat \<Rightarrow> bool" where
  "is_low u \<longleftrightarrow> 0xDC00 \<le> u \<and> u \<le> 0xDFFF"

fun cp_head :: "units \<Rightarrow> nat option" where
  "cp_head [] = None"
| "cp_head [u] = Some u"
| "cp_head (u # w # us) =
     (if is_high u \<and> is_low w then Some (0x10000 + (u - 0xD800) * 0x400 + (w - 0xDC00)) else Some u)"

definition cp :: "units \<Rightarrow> nat \<Rightarrow> nat option" where
  "cp s i = cp_head (drop i s)"

definition inc :: "nat \<Rightarrow> nat option \<Rightarrow> nat" where
  "inc pos c = pos + (case c of Some n \<Rightarrow> if 0x10000 \<le> n then 2 else 1 | None \<Rightarrow> 1)"

definition utf16 :: "nat \<Rightarrow> units" where
  "utf16 n = (if n < 0x10000 then [n] else [0xD800 + (n - 0x10000) div 0x400, 0xDC00 + (n - 0x10000) mod 0x400])"

text \<open>\<^verbatim>\<open>String.fromCodePoint\<close> throws outside of the code points, also on \<^verbatim>\<open>NaN\<close>, which is \<open>None\<close>.\<close>

definition fromCodePoint :: "int option \<Rightarrow> units res" where
  "fromCodePoint c =
     (case c of
        Some n \<Rightarrow> if 0 \<le> n \<and> n \<le> 0x10FFFF then Inr (utf16 (nat n)) else Inl (JsError ''Invalid code point'' [])
      | None \<Rightarrow> Inl (JsError ''Invalid code point'' []))"

text \<open>\<^verbatim>\<open>Number.parseInt\<close>: white space, a sign, the prefix \<^verbatim>\<open>0x\<close> of radix 16, and the digits.\<close>

definition is_ws_unit :: "nat \<Rightarrow> bool" where
  "is_ws_unit u \<longleftrightarrow> (9 \<le> u \<and> u \<le> 13) \<or> (0x2000 \<le> u \<and> u \<le> 0x200A) \<or>
     u \<in> {32, 0xA0, 0x1680, 0x2028, 0x2029, 0x202F, 0x205F, 0x3000, 0xFEFF}"

definition digit_of :: "nat \<Rightarrow> nat \<Rightarrow> nat option" where
  "digit_of radix u =
     (let d = (if 48 \<le> u \<and> u \<le> 57 then u - 48
               else if 97 \<le> u \<and> u \<le> 122 then u - 87
               else if 65 \<le> u \<and> u \<le> 90 then u - 55 else 36)
      in if d < radix then Some d else None)"

definition digits_value :: "nat \<Rightarrow> units \<Rightarrow> nat" where
  "digits_value radix ds = fold (\<lambda>u n. n * radix + the (digit_of radix u)) ds 0"

definition parse_int :: "nat \<Rightarrow> units \<Rightarrow> int option" where
  "parse_int radix s =
     (let t = dropWhile is_ws_unit s;
          (neg, t) = (case t of c # r \<Rightarrow> if c = 45 then (True, r) else if c = 43 then (False, r) else (False, t) | [] \<Rightarrow> (False, t));
          t = (if radix = 16 \<and> (take 2 t = [48, 120] \<or> take 2 t = [48, 88]) then drop 2 t else t);
          ds = takeWhile (\<lambda>u. digit_of radix u \<noteq> None) t
      in if ds = [] then None else Some ((if neg then -1 else 1) * int (digits_value radix ds)))"

section \<open>The tokenizer\<close>

record string_literal_token =
  slt_value :: units
  slt_range :: "nat \<times> nat"

definition UNICODE_ESCAPE_LENGTH :: nat where
  "UNICODE_ESCAPE_LENGTH = 4"

definition HEX_ESCAPE_LENGTH :: nat where
  "HEX_ESCAPE_LENGTH = 2"

abbreviation "CP_BACK_SLASH \<equiv> (92 :: nat)"
abbreviation "CP_FORWARD_SLASH \<equiv> (47 :: nat)"
abbreviation "CP_CR \<equiv> (13 :: nat)"
abbreviation "CP_LF \<equiv> (10 :: nat)"
abbreviation "CP_u \<equiv> (117 :: nat)"
abbreviation "CP_x \<equiv> (120 :: nat)"

definition isOctalDigit :: "nat option \<Rightarrow> bool" where
  "isOctalDigit c \<longleftrightarrow> (case c of Some n \<Rightarrow> 48 \<le> n \<and> n \<le> 55 | None \<Rightarrow> False)"

text \<open>The position of a closing brace from a position on.\<close>

definition close_index :: "units \<Rightarrow> nat \<Rightarrow> nat option" where
  "close_index s pos =
     (if 125 \<in> set (drop pos s) then Some (pos + length (takeWhile (\<lambda>u. u \<noteq> 125) (drop pos s))) else None)"

text \<open>
  The readers give the result and the new position. Without a closing brace \<^verbatim>\<open>indexOf\<close> is \<open>-1\<close>:
  the substring is the beginning of the text, and the position goes back to its start.
\<close>

definition readUnicode :: "units \<Rightarrow> nat \<Rightarrow> int option \<times> nat" where
  "readUnicode s pos =
     (if take 1 (drop pos s) = [123] then
        (let pos = pos + 1 in
         case close_index s pos of
           Some close \<Rightarrow> (parse_int 16 (take (close - pos) (drop pos s)), close + 1)
         | None \<Rightarrow> (parse_int 16 (take pos s), 0))
      else (parse_int 16 (take UNICODE_ESCAPE_LENGTH (drop pos s)), pos + UNICODE_ESCAPE_LENGTH))"

definition readHex :: "units \<Rightarrow> nat \<Rightarrow> int option \<times> nat" where
  "readHex s pos = (parse_int 16 (take HEX_ESCAPE_LENGTH (drop pos s)), pos + HEX_ESCAPE_LENGTH)"

definition readOctal :: "units \<Rightarrow> nat \<Rightarrow> nat \<Rightarrow> int option \<times> nat" where
  "readOctal s pos firstDigit =
     (let more = takeWhile (\<lambda>u. isOctalDigit (Some u)) (take 2 (drop pos s))
      in (parse_int 8 (firstDigit # more), pos + length more))"

definition escapes :: "(nat \<times> nat) list" where
  "escapes = [(110, 10), (114, 13), (116, 9), (98, 8), (118, 11), (102, 12), (92, 92)]"

definition readEscape :: "units \<Rightarrow> nat \<Rightarrow> (units \<times> nat) res" where
  "readEscape s pos =
     (let c = cp s pos; pos = inc pos c in
      case Option.bind c (map_of escapes) of
        Some v \<Rightarrow> Inr ([v], pos)
      | None \<Rightarrow>
          if c = Some CP_CR then Inr ([], if cp s pos = Some CP_LF then pos + 1 else pos)
          else if c = Some CP_LF then Inr ([], pos)
          else if c = Some CP_u then
            (case readUnicode s pos of (n, pos) \<Rightarrow> bind_res (fromCodePoint n) (\<lambda>v. Inr (v, pos)))
          else if c = Some CP_x then
            (case readHex s pos of (n, pos) \<Rightarrow> bind_res (fromCodePoint n) (\<lambda>v. Inr (v, pos)))
          else if isOctalDigit c then
            (case readOctal s pos (the c) of (n, pos) \<Rightarrow> bind_res (fromCodePoint n) (\<lambda>v. Inr (v, pos)))
          else bind_res (fromCodePoint (map_option int c)) (\<lambda>v. Inr (v, pos)))"

text \<open>One iteration of the loop: the tokens it pushes, and the new position.\<close>

definition token_step :: "units \<Rightarrow> nat \<Rightarrow> (string_literal_token list \<times> nat) res" where
  "token_step s start =
     (let c = cp s start; pos = inc start c in
      if c = Some CP_BACK_SLASH then
        bind_res (readEscape s pos) (\<lambda>(v, pos).
          Inr (if v \<noteq> [] then [\<lparr>slt_value = v, slt_range = (start, pos)\<rparr>] else [], pos))
      else bind_res (fromCodePoint (map_option int c)) (\<lambda>v.
        let token = \<lparr>slt_value = v, slt_range = (start, pos)\<rparr>
        in Inr (if c = Some CP_FORWARD_SLASH then [token, token] else [token], pos)))"

partial_function (option) tokenize_loop ::
  "units \<Rightarrow> nat \<Rightarrow> string_literal_token list \<Rightarrow> string_literal_token list res option" where
  "tokenize_loop s pos tokens =
     (if pos < length s then
        (case token_step s pos of
           Inl e \<Rightarrow> Some (Inl e)
         | Inr (ts, pos') \<Rightarrow> tokenize_loop s pos' (tokens @ ts))
      else Some (Inr tokens))"

definition tokenizeString :: "units \<Rightarrow> string_literal_token list res option" where
  "tokenizeString s = tokenize_loop s 0 []"

section \<open>Correctness\<close>

subsection \<open>Code points\<close>

lemma utf16_head:
  assumes "cp_head s = Some n" "\<forall>u \<in> set s. u < 0x10000"
  shows "n \<le> 0x10FFFF \<and> s = utf16 n @ drop (if 0x10000 \<le> n then 2 else 1) s"
  using assms
proof (cases s rule: cp_head.cases)
  case (3 u w us)
  show ?thesis
  proof (cases "is_high u \<and> is_low w")
    case True
    with assms 3 have n: "n = 0x10000 + (u - 0xD800) * 0x400 + (w - 0xDC00)" by simp
    moreover have "w - 0xDC00 < 0x400" "u - 0xD800 < 0x400" using True by (auto simp: is_high_def is_low_def)
    ultimately have "(n - 0x10000) div 0x400 = u - 0xD800" "(n - 0x10000) mod 0x400 = w - 0xDC00" "n \<le> 0x10FFFF"
      by simp_all
    with n True 3 show ?thesis by (simp add: utf16_def is_high_def is_low_def)
  qed (use assms 3 in \<open>auto simp: utf16_def\<close>)
qed (auto simp: utf16_def)

lemma cp_append [simp]: "cp (pre @ s) (length pre) = cp_head s"
  by (simp add: cp_def)

lemma cp_append_more [simp]: "cp (pre @ s) (length pre + k) = cp_head (drop k s)"
  by (simp add: cp_def)

lemma drop_append_more [simp]: "drop (length pre + k) (pre @ s) = drop k s"
  by simp

lemma fromCodePoint_nat: "n \<le> 0x10FFFF \<Longrightarrow> fromCodePoint (Some (int n)) = Inr (utf16 n)"
  by (simp add: fromCodePoint_def)

subsection \<open>Numbers\<close>

definition all_digits :: "nat \<Rightarrow> units \<Rightarrow> bool" where
  "all_digits radix ds \<longleftrightarrow> ds \<noteq> [] \<and> (\<forall>u \<in> set ds. digit_of radix u \<noteq> None)"

lemma digit_not_space: "digit_of radix u \<noteq> None \<Longrightarrow> radix \<le> 16 \<Longrightarrow> \<not> is_ws_unit u \<and> u \<noteq> 45 \<and> u \<noteq> 43 \<and> u \<noteq> 120 \<and> u \<noteq> 88"
  by (auto simp: digit_of_def is_ws_unit_def Let_def split: if_splits)

lemma parse_int_digits:
  assumes "all_digits radix ds" "radix \<le> 16"
  shows "parse_int radix ds = Some (int (digits_value radix ds))"
proof -
  from assms obtain d ds' where ds: "ds = d # ds'" by (cases ds) (auto simp: all_digits_def)
  have each: "\<not> is_ws_unit u \<and> u \<noteq> 45 \<and> u \<noteq> 43 \<and> u \<noteq> 120 \<and> u \<noteq> 88" if "u \<in> set ds" for u
    using digit_not_space [of radix u] assms that unfolding all_digits_def by blast
  have "take 2 ds \<noteq> [48, 120]" "take 2 ds \<noteq> [48, 88]" using each by (metis in_set_takeD list.set_intros)+
  moreover have "dropWhile is_ws_unit ds = ds" using each [of d] by (simp add: ds)
  moreover have "d \<noteq> 45" "d \<noteq> 43" using each [of d] by (simp_all add: ds)
  moreover have "takeWhile (\<lambda>u. digit_of radix u \<noteq> None) ds = ds" using assms by (auto simp: all_digits_def)
  ultimately show ?thesis by (auto simp: parse_int_def ds Let_def split: if_splits)
qed

subsection \<open>The values of string literals\<close>

text \<open>
  The value that the language gives to the text between the quotes of a string literal, as a list of
  pieces: the text and the value of each source character or escape sequence. Octal escapes are
  those of at most \<^verbatim>\<open>377\<close>, with as many digits as there are; the other line separators do not continue a line.
\<close>

inductive piece :: "units \<Rightarrow> units \<Rightarrow> units \<Rightarrow> bool" where
  char: "cp_head s = Some n \<Longrightarrow> n \<noteq> CP_BACK_SLASH \<Longrightarrow> s = utf16 n @ rest \<Longrightarrow> piece s (utf16 n) rest"
| single: "(e, v) \<in> set escapes \<Longrightarrow> piece (CP_BACK_SLASH # e # rest) [v] rest"
| crlf: "piece (CP_BACK_SLASH # CP_CR # CP_LF # rest) [] rest"
| cr: "take 1 rest \<noteq> [CP_LF] \<Longrightarrow> piece (CP_BACK_SLASH # CP_CR # rest) [] rest"
| lf: "piece (CP_BACK_SLASH # CP_LF # rest) [] rest"
| hex: "all_digits 16 [a, b] \<Longrightarrow> piece (CP_BACK_SLASH # CP_x # a # b # rest) [digits_value 16 [a, b]] rest"
| unicode: "all_digits 16 [a, b, c, d] \<Longrightarrow>
    piece (CP_BACK_SLASH # CP_u # a # b # c # d # rest) [digits_value 16 [a, b, c, d]] rest"
| braces: "all_digits 16 ds \<Longrightarrow> digits_value 16 ds \<le> 0x10FFFF \<Longrightarrow>
    piece (CP_BACK_SLASH # CP_u # 123 # ds @ 125 # rest) (utf16 (digits_value 16 ds)) rest"
| octal: "all_digits 8 ds \<Longrightarrow> length ds \<le> 3 \<Longrightarrow> digits_value 8 ds \<le> 255 \<Longrightarrow>
    length ds = 3 \<or> (case rest of [] \<Rightarrow> True | u # us \<Rightarrow> digit_of 8 u = None) \<Longrightarrow>
    piece (CP_BACK_SLASH # ds @ rest) [digits_value 8 ds] rest"
| other: "cp_head s = Some n \<Longrightarrow> n \<notin> fst ` set escapes \<union> {48..55} \<union> {CP_x, CP_u, CP_CR, CP_LF} \<Longrightarrow>
    s = utf16 n @ rest \<Longrightarrow> piece (CP_BACK_SLASH # s) (utf16 n) rest"

text \<open>The pieces of a whole text, each with its value and its length.\<close>

inductive pieces :: "units \<Rightarrow> (units \<times> nat) list \<Rightarrow> bool" where
  nil: "pieces [] []"
| cons: "piece s v rest \<Longrightarrow> pieces rest vs \<Longrightarrow> pieces s ((v, length s - length rest) # vs)"

text \<open>
  The tokens of pieces: nothing for a piece without a value, two tokens for a slash that
  is not escaped, one for every other, each with the range of its piece.
\<close>

fun tokens_of :: "nat \<Rightarrow> (units \<times> nat) list \<Rightarrow> string_literal_token list" where
  "tokens_of pos [] = []"
| "tokens_of pos ((v, n) # vs) =
     (let token = \<lparr>slt_value = v, slt_range = (pos, pos + n)\<rparr>
      in (if v = [] then [] else if v = [CP_FORWARD_SLASH] \<and> n = 1 then [token, token] else [token]) @
         tokens_of (pos + n) vs)"

lemma isOctalDigit_iff: "isOctalDigit (Some u) \<longleftrightarrow> digit_of 8 u \<noteq> None"
  by (auto simp: isOctalDigit_def digit_of_def Let_def)

lemma cp_head_small: "u < 0xD800 \<Longrightarrow> cp_head (u # us) = Some u"
  by (cases us) (simp_all add: is_high_def)

lemma token_step_char:
  assumes "cp_head s = Some n" "s = utf16 n @ rest" "n \<le> 0x10FFFF" "n \<noteq> CP_BACK_SLASH"
  shows "token_step (pre @ s) (length pre) =
    Inr (tokens_of (length pre) [(utf16 n, length s - length rest)], length pre + (length s - length rest))"
proof -
  have len: "length s - length rest = (if 0x10000 \<le> n then 2 else 1)" using assms(2) by (simp add: utf16_def)
  have slash: "utf16 n = [CP_FORWARD_SLASH] \<longleftrightarrow> n = CP_FORWARD_SLASH" "utf16 n \<noteq> []"
    "length (utf16 n) = (if 0x10000 \<le> n then 2 else 1)" by (simp_all add: utf16_def)
  show ?thesis
    using assms fromCodePoint_nat [OF assms(3)]
    by (simp add: token_step_def inc_def len slash Let_def)
qed

lemma token_step_escape:
  assumes "readEscape ((pre @ [CP_BACK_SLASH]) @ s) (length (pre @ [CP_BACK_SLASH])) = Inr (v, length pre + n)" "1 < n"
  shows "token_step (pre @ CP_BACK_SLASH # s) (length pre) = Inr (tokens_of (length pre) [(v, n)], length pre + n)"
  using assms by (simp add: token_step_def cp_head_small inc_def Let_def)

text \<open>The escape of a single unit below the surrogates, which is followed by \<open>t\<close>.\<close>

lemma readEscape_unit:
  assumes "c < 0xD800"
  shows "readEscape (p @ c # t) (length p) =
    (let s = (p @ [c]) @ t; pos = length (p @ [c]) in
      case map_of escapes c of
        Some v \<Rightarrow> Inr ([v], pos)
      | None \<Rightarrow>
          if c = CP_CR then Inr ([], if cp_head t = Some CP_LF then pos + 1 else pos)
          else if c = CP_LF then Inr ([], pos)
          else if c = CP_u then
            (case readUnicode s pos of (n, pos) \<Rightarrow> bind_res (fromCodePoint n) (\<lambda>v. Inr (v, pos)))
          else if c = CP_x then
            (case readHex s pos of (n, pos) \<Rightarrow> bind_res (fromCodePoint n) (\<lambda>v. Inr (v, pos)))
          else if isOctalDigit (Some c) then
            (case readOctal s pos c of (n, pos) \<Rightarrow> bind_res (fromCodePoint n) (\<lambda>v. Inr (v, pos)))
          else Inr ([c], pos))"
proof -
  have following: "cp ((p @ [c]) @ t) (length (p @ [c])) = cp_head t" by (rule cp_append)
  have same: "p @ c # t = (p @ [c]) @ t" by simp
  have inc: "inc (length p) (Some c) = length (p @ [c])" using assms by (simp add: inc_def)
  have code: "fromCodePoint (map_option int (Some c)) = Inr [c]"
    using assms fromCodePoint_nat [of c] by (simp add: utf16_def)
  have first: "cp ((p @ [c]) @ t) (length p) = Some c" using assms by (simp add: cp_head_small)
  show ?thesis
    unfolding same readEscape_def Let_def first inc code following
    by (simp only: Option.bind.simps option.inject bind_res_Inr option.sel)
qed

lemma readHex_append: "readHex (p @ a # b # t) (length p) = (parse_int 16 [a, b], length p + 2)"
  by (simp add: readHex_def HEX_ESCAPE_LENGTH_def)

lemma readUnicode_append: "a \<noteq> 123 \<Longrightarrow> readUnicode (p @ a # b # c # d # t) (length p) = (parse_int 16 [a, b, c, d], length p + 4)"
  by (simp add: readUnicode_def UNICODE_ESCAPE_LENGTH_def)

lemma readUnicode_braces:
  assumes "125 \<notin> set ds"
  shows "readUnicode (p @ 123 # ds @ 125 # t) (length p) = (parse_int 16 ds, length p + 1 + length ds + 1)"
proof -
  have tw: "takeWhile (\<lambda>u. u \<noteq> 125) (ds @ 125 # t) = ds" using assms by (induction ds) auto
  have "drop (Suc (length p)) (p @ 123 # ds @ 125 # t) = ds @ 125 # t" by simp
  then show ?thesis by (simp add: readUnicode_def close_index_def tw Let_def)
qed

lemma readOctal_append:
  "takeWhile (\<lambda>u. isOctalDigit (Some u)) (take 2 t) = ds \<Longrightarrow>
   readOctal (p @ t) (length p) d = (parse_int 8 (d # ds), length p + length ds)"
  by (simp add: readOctal_def)

lemma escape_value_range: "(e, v) \<in> set escapes \<Longrightarrow> e < 0xD800 \<and> map_of escapes e = Some v"
  by (auto simp: escapes_def)

lemma map_of_escapes_None: "map_of escapes n = None \<longleftrightarrow> n \<notin> fst ` set escapes"
  by (simp add: map_of_eq_None_iff)

lemma octal_more:
  assumes "all_digits 8 (d # ds)" "length (d # ds) \<le> 3"
    "length (d # ds) = 3 \<or> (case rest of [] \<Rightarrow> True | u # us \<Rightarrow> digit_of 8 u = None)"
  shows "takeWhile (\<lambda>u. isOctalDigit (Some u)) (take 2 (ds @ rest)) = ds"
proof -
  have all: "\<forall>u \<in> set ds. isOctalDigit (Some u)" using assms(1) by (simp add: all_digits_def isOctalDigit_iff)
  have take: "take 2 (ds @ rest) = ds @ take (2 - length ds) rest" using assms(2) by simp
  have stop: "takeWhile (\<lambda>u. isOctalDigit (Some u)) (take (2 - length ds) rest) = []"
    using assms(3) by (cases rest; cases "2 - length ds") (auto simp: isOctalDigit_iff)
  show ?thesis unfolding take using all stop by simp
qed

lemma cp_head_first: "cp_head s = Some n \<Longrightarrow> n < 0xD800 \<Longrightarrow> take 1 s = [n]"
  by (cases s rule: cp_head.cases) (auto split: if_splits)

lemma digits_value_snoc: "digits_value radix (ds @ [d]) = digits_value radix ds * radix + the (digit_of radix d)"
  by (simp add: digits_value_def)

lemma digits_value_less:
  "\<forall>u \<in> set ds. digit_of radix u \<noteq> None \<Longrightarrow> digits_value radix ds < radix ^ length ds"
proof (induction ds rule: rev_induct)
  case Nil
  show ?case by (simp add: digits_value_def)
next
  case (snoc d ds)
  then have "the (digit_of radix d) < radix" by (auto simp: digit_of_def Let_def split: if_splits)
  moreover have "digits_value radix ds + 1 \<le> radix ^ length ds" using snoc by simp
  then have "(digits_value radix ds + 1) * radix \<le> radix ^ length ds * radix" by (rule mult_right_mono) simp
  ultimately show ?case by (simp add: digits_value_snoc algebra_simps)
qed

lemma digits_code_point:
  assumes "all_digits radix ds" "radix \<le> 16" "digits_value radix ds \<le> 0x10FFFF"
  shows "fromCodePoint (parse_int radix ds) = Inr (utf16 (digits_value radix ds))"
  using assms by (simp add: parse_int_digits fromCodePoint_nat)

lemma readEscape_special:
  "readEscape (p @ CP_CR # CP_LF # rest) (length p) = Inr ([], length p + 2)"
  "take 1 rest \<noteq> [CP_LF] \<Longrightarrow> readEscape (p @ CP_CR # rest) (length p) = Inr ([], length p + 1)"
  "readEscape (p @ CP_LF # rest) (length p) = Inr ([], length p + 1)"
  using cp_head_first [of rest CP_LF]
  by (simp_all add: readEscape_unit cp_head_small Let_def, auto simp: escapes_def)

lemma readEscape_number:
  assumes "n < 0x10000"
  shows "all_digits 16 [a, b] \<Longrightarrow> digits_value 16 [a, b] = n \<Longrightarrow>
      readEscape (p @ CP_x # a # b # rest) (length p) = Inr ([n], length p + 3)"
    "all_digits 16 [a, b, c, d] \<Longrightarrow> digits_value 16 [a, b, c, d] = n \<Longrightarrow>
      readEscape (p @ CP_u # a # b # c # d # rest) (length p) = Inr ([n], length p + 5)"
proof -
  have none: "map_of escapes CP_x = None" "map_of escapes CP_u = None" by (simp_all add: escapes_def)
  show "readEscape (p @ CP_x # a # b # rest) (length p) = Inr ([n], length p + 3)"
    if "all_digits 16 [a, b]" "digits_value 16 [a, b] = n"
    using digits_code_point [OF that(1)] that(2) assms readHex_append [of "p @ [CP_x]" a b rest] none
    by (simp add: readEscape_unit utf16_def Let_def)
  show "readEscape (p @ CP_u # a # b # c # d # rest) (length p) = Inr ([n], length p + 5)"
    if "all_digits 16 [a, b, c, d]" "digits_value 16 [a, b, c, d] = n"
  proof -
    have "a \<noteq> 123" using that(1) by (auto simp: all_digits_def digit_of_def Let_def split: if_splits)
    then show ?thesis
      using digits_code_point [OF that(1)] that(2) assms readUnicode_append [of a "p @ [CP_u]" b c d rest] none
      by (simp add: readEscape_unit utf16_def Let_def)
  qed
qed

lemma readEscape_braces:
  assumes "all_digits 16 ds" "digits_value 16 ds \<le> 0x10FFFF"
  shows "readEscape (p @ CP_u # 123 # ds @ 125 # rest) (length p) = Inr (utf16 (digits_value 16 ds), length p + 3 + length ds)"
proof -
  have none: "map_of escapes CP_u = None" by (simp add: escapes_def)
  have "125 \<notin> set ds" using assms(1) by (auto simp: all_digits_def digit_of_def Let_def split: if_splits)
  from readUnicode_braces [OF this, of "p @ [CP_u]" rest] digits_code_point [OF assms(1) _ assms(2)] none show ?thesis
    by (simp add: readEscape_unit Let_def)
qed

lemma readEscape_octal:
  assumes "all_digits 8 ds" "length ds \<le> 3" "digits_value 8 ds \<le> 255"
    "length ds = 3 \<or> (case rest of [] \<Rightarrow> True | u # us \<Rightarrow> digit_of 8 u = None)"
  shows "readEscape (p @ ds @ rest) (length p) = Inr ([digits_value 8 ds], length p + length ds)"
proof -
  from assms(1) obtain d ds' where ds: "ds = d # ds'" by (cases ds) (auto simp: all_digits_def)
  have d: "48 \<le> d" "d \<le> 55" using assms(1) by (auto simp: ds all_digits_def digit_of_def Let_def split: if_splits)
  then have none: "map_of escapes d = None" "d < 0xD800" "d \<notin> {CP_CR, CP_LF, CP_u, CP_x}" "isOctalDigit (Some d)"
    by (auto simp: escapes_def isOctalDigit_def)
  have "readOctal ((p @ [d]) @ ds' @ rest) (length (p @ [d])) d = (parse_int 8 (d # ds'), length (p @ [d]) + length ds')"
    using octal_more assms by (intro readOctal_append) (simp add: ds)
  moreover have "fromCodePoint (parse_int 8 ds) = Inr [digits_value 8 ds]"
    using digits_code_point [OF assms(1)] assms(3) by (simp add: utf16_def)
  ultimately show ?thesis using none by (simp add: ds readEscape_unit Let_def)
qed

lemma readEscape_other:
  assumes "cp_head s = Some n" "n \<notin> fst ` set escapes \<union> {48..55} \<union> {CP_x, CP_u, CP_CR, CP_LF}" "n \<le> 0x10FFFF"
  shows "readEscape (p @ s) (length p) = Inr (utf16 n, length p + length (utf16 n))"
proof -
  have len: "inc (length p) (Some n) = length p + length (utf16 n)" by (simp add: inc_def utf16_def)
  have "map_of escapes n = None" using assms(2) by (simp add: map_of_eq_None_iff)
  moreover have "\<not> isOctalDigit (Some n)" using assms(2) by (auto simp: isOctalDigit_def)
  moreover have "cp (p @ s) (length p) = Some n" using assms(1) by simp
  ultimately show ?thesis
    using assms(2) fromCodePoint_nat [OF assms(3)] unfolding readEscape_def Let_def
    by (simp add: len)
qed


lemma utf16_length_pos: "0 < length (utf16 n)"
  by (simp add: utf16_def)

lemma piece_escape:
  assumes "piece s v rest" "take 1 s = [CP_BACK_SLASH]" "\<forall>u \<in> set s. u < 0x10000"
  shows "\<exists>t n. s = CP_BACK_SLASH # t \<and> 1 < n \<and> length s = n + length rest \<and>
    readEscape (p @ t) (length p) = Inr (v, length p + (n - 1))"
  using assms
proof (cases rule: piece.cases)
  case (char n)
  from assms(2) obtain t where "s = CP_BACK_SLASH # t" by (cases s) auto
  then have "cp_head s = Some CP_BACK_SLASH" by (simp add: cp_head_small)
  with char show ?thesis by simp
next
  case (single e w)
  then show ?thesis using escape_value_range [of e w]
    by (intro exI [of _ "e # rest"] exI [of _ 2]) (simp add: readEscape_unit Let_def)
next
  case crlf
  then show ?thesis by (intro exI [of _ "CP_CR # CP_LF # rest"] exI [of _ 3]) (simp add: readEscape_special)
next
  case cr
  then show ?thesis by (intro exI [of _ "CP_CR # rest"] exI [of _ 2]) (simp add: readEscape_special)
next
  case lf
  then show ?thesis by (intro exI [of _ "CP_LF # rest"] exI [of _ 2]) (simp add: readEscape_special)
next
  case (hex a b)
  have "digits_value 16 [a, b] < 16 ^ 2" using hex digits_value_less [of "[a, b]" 16] by (simp add: all_digits_def)
  then show ?thesis using hex
    by (intro exI [of _ "CP_x # a # b # rest"] exI [of _ 4]) (simp add: readEscape_number)
next
  case (unicode a b c d)
  have "digits_value 16 [a, b, c, d] < 16 ^ 4"
    using unicode digits_value_less [of "[a, b, c, d]" 16] by (simp add: all_digits_def)
  then show ?thesis using unicode
    by (intro exI [of _ "CP_u # a # b # c # d # rest"] exI [of _ 6]) (simp add: readEscape_number)
next
  case (braces ds)
  then show ?thesis
    by (intro exI [of _ "CP_u # 123 # ds @ 125 # rest"] exI [of _ "length ds + 4"]) (simp add: readEscape_braces)
next
  case (octal ds)
  then have "ds \<noteq> []" by (simp add: all_digits_def)
  then show ?thesis using octal
    by (intro exI [of _ "ds @ rest"] exI [of _ "length ds + 1"]) (simp add: readEscape_octal)
next
  case (other t n)
  have "n \<le> 0x10FFFF" using utf16_head [of t n] other assms(3) by simp
  then show ?thesis using readEscape_other [of t n p] other utf16_length_pos [of n]
    by (intro exI [of _ t] exI [of _ "length (utf16 n) + 1"]) simp
qed

text \<open>One iteration reads one piece.\<close>

lemma piece_step:
  assumes "piece s v rest" "\<forall>u \<in> set s. u < 0x10000"
  shows "0 < length s - length rest \<and> rest = drop (length s - length rest) s \<and>
    token_step (pre @ s) (length pre) =
      Inr (tokens_of (length pre) [(v, length s - length rest)], length pre + (length s - length rest))"
proof -
  have rest: "rest = drop (length s - length rest) s"
    using assms(1) by (cases rule: piece.cases) (simp_all add: Suc_diff_le)
  show ?thesis
  proof (cases "take 1 s = [CP_BACK_SLASH]")
    case True
    from piece_escape [OF assms(1) True assms(2), of "pre @ [CP_BACK_SLASH]"] obtain t n
      where t: "s = CP_BACK_SLASH # t" "1 < n" "length s = n + length rest"
        "readEscape ((pre @ [CP_BACK_SLASH]) @ t) (length (pre @ [CP_BACK_SLASH])) =
           Inr (v, length (pre @ [CP_BACK_SLASH]) + (n - 1))"
      by blast
    have "length (pre @ [CP_BACK_SLASH]) + (n - 1) = length pre + n" using t(2) by simp
    with t have "token_step (pre @ CP_BACK_SLASH # t) (length pre) =
        Inr (tokens_of (length pre) [(v, n)], length pre + n)" by (intro token_step_escape) simp_all
    with t rest show ?thesis by simp
  next
    case False
    with assms(1) obtain n where n: "cp_head s = Some n" "n \<noteq> CP_BACK_SLASH" "s = utf16 n @ rest" "v = utf16 n"
      by (cases rule: piece.cases) auto
    have "n \<le> 0x10FFFF" using utf16_head [OF n(1) assms(2)] by simp
    from token_step_char [OF n(1,3) this n(2), of pre] rest n(3,4) utf16_length_pos [of n]
    show ?thesis by simp
  qed
qed

lemma tokens_of_append:
  "tokens_of pos (p # ps) = tokens_of pos [p] @ tokens_of (pos + snd p) ps"
  by (cases p) (simp add: Let_def)

lemma tokenize_loop_pieces:
  assumes "pieces s vs" "\<forall>u \<in> set s. u < 0x10000"
  shows "tokenize_loop (pre @ s) (length pre) tokens = Some (Inr (tokens @ tokens_of (length pre) vs))"
  using assms
proof (induction arbitrary: pre tokens rule: pieces.induct)
  case nil
  show ?case by (subst tokenize_loop.simps) simp
next
  case (cons s v rest vs)
  let ?n = "length s - length rest"
  have step: "0 < ?n" "rest = drop ?n s" "token_step (pre @ s) (length pre) =
      Inr (tokens_of (length pre) [(v, ?n)], length pre + ?n)"
    using piece_step [OF cons(1) cons.prems] by blast+
  have s: "s = take ?n s @ rest" using step(2) by (metis append_take_drop_id)
  have len: "length (pre @ take ?n s) = length pre + ?n" using step(1) by simp
  have "\<forall>u \<in> set rest. u < 0x10000" using cons.prems step(2) by (metis in_set_dropD)
  from cons.IH [OF this, of "pre @ take ?n s" "tokens @ tokens_of (length pre) [(v, ?n)]"]
  have "tokenize_loop (pre @ s) (length pre + ?n) (tokens @ tokens_of (length pre) [(v, ?n)]) =
      Some (Inr (tokens @ tokens_of (length pre) ((v, ?n) # vs)))"
    unfolding len by (metis append.assoc s tokens_of_append snd_conv)
  moreover have "length pre < length (pre @ s)" using step(1) by (cases s) auto
  ultimately show ?case using step(3) by (subst tokenize_loop.simps) simp
qed


lemma pieces_length: "piece s v rest \<Longrightarrow> pieces rest vs \<Longrightarrow> length s - length rest = n \<Longrightarrow> pieces s ((v, n) # vs)"
  using pieces.cons by blast

lemma piece_unit:
  assumes "c \<noteq> CP_BACK_SLASH" "c < 0xD800"
  shows "piece (c # r) [c] r"
proof -
  have "utf16 c = [c]" using assms by (simp add: utf16_def)
  moreover have "piece (c # r) (utf16 c) r"
    using assms by (intro piece.char) (simp_all add: cp_head_small utf16_def)
  ultimately show ?thesis by simp
qed



subsection \<open>Where the tokenizer differs from the language\<close>

text \<open>
  The octal escape \<^verbatim>\<open>\400\<close> is two characters for the language, \<^verbatim>\<open>\40\<close> and the digit \<^verbatim>\<open>0\<close>, since octal escapes
  stop at \<^verbatim>\<open>377\<close>. The tokenizer gives one token with the code point 256. A backslash before the line separator
  \<open>0x2028\<close> continues the line for the language, and is a token for the tokenizer.
\<close>

lemma octal_over_byte:
  "tokenizeString [92, 52, 48, 48] = Some (Inr [\<lparr>slt_value = [256], slt_range = (0, 4)\<rparr>])"
  "tokenizeString [92, 0x2028] = Some (Inr [\<lparr>slt_value = [0x2028], slt_range = (0, 2)\<rparr>])"
  unfolding tokenizeString_def
  by (subst tokenize_loop.simps, subst tokenize_loop.simps,
      simp add: token_step_def readEscape_def cp_def inc_def escapes_def readOctal_def isOctalDigit_def parse_int_def
        digits_value_def digit_of_def is_ws_unit_def fromCodePoint_def utf16_def is_high_def)+

end
