(* ===== verification/Regex_Helpers.thy ===== *)
theory Regex_Helpers
  imports Regex_Tokens Ast_Helpers
begin

text \<open>
  The helpers of the rules on regular expressions, \<^verbatim>\<open>src/linting/eslint/rules/helpers/regex/\<close>: recognizing
  and extracting patterns (\<^verbatim>\<open>ast.ts\<close>, \<^verbatim>\<open>flags.ts\<close>, \<^verbatim>\<open>extract.ts\<close>), group references (\<^verbatim>\<open>group.ts\<close>), the
  locations of nodes of a pattern (\<^verbatim>\<open>range.ts\<close>, \<^verbatim>\<open>location.ts\<close>) and the template of the rules
  (\<^verbatim>\<open>rule-template.ts\<close>). The type checker, the constructor \<^verbatim>\<open>RegExp\<close>, the parser \<^verbatim>\<open>regexpp\<close> with its
  visitor, and ESLint's \<^verbatim>\<open>getLocFromIndex\<close> are parameters.
\<close>

section \<open>Recognizing regular expressions\<close>

definition args_of :: "node \<Rightarrow> node list" where
  "args_of n = elems (fld n ''arguments'')"

definition isRegExpWithGlobalThis :: "node \<Rightarrow> bool" where
  "isRegExpWithGlobalThis n \<longleftrightarrow>
     is_type n ''NewExpression'' \<and> is_type (fld n ''callee'') ''MemberExpression'' \<and>
     isIdentifier (fld (fld n ''callee'') ''object'') [''globalThis''] \<and>
     isIdentifier (fld (fld n ''callee'') ''property'') [''RegExp''] \<and> 0 < length (args_of n)"

definition isRegExpConstructor :: "node \<Rightarrow> bool" where
  "isRegExpConstructor n \<longleftrightarrow>
     (is_type n ''CallExpression'' \<or> is_type n ''NewExpression'') \<and> is_type (fld n ''callee'') ''Identifier'' \<and>
       fld (fld n ''callee'') ''name'' = JStr ''RegExp'' \<and> 0 < length (args_of n) \<or>
     isRegExpWithGlobalThis n"

text \<open>A method call on a property that is not computed, with one of the names.\<close>

definition calls_method :: "string list \<Rightarrow> node \<Rightarrow> bool" where
  "calls_method names call \<longleftrightarrow>
     (let callee = fld call ''callee'' in
      is_type callee ''MemberExpression'' \<and> is_type (fld callee ''property'') ''Identifier'' \<and>
      \<not> truthy (fld callee ''computed'') \<and> list_ex (\<lambda>m. fld (fld callee ''property'') ''name'' = JStr m) names)"

definition isStringReplaceCall :: "(node \<Rightarrow> bool) \<Rightarrow> node \<Rightarrow> bool" where
  "isStringReplaceCall isString call \<longleftrightarrow>
     calls_method [''replace'', ''replaceAll''] call \<and> 1 < length (args_of call) \<and>
     isString (fld (fld call ''callee'') ''object'')"

definition isStringRegexMethodCall :: "(node \<Rightarrow> bool) \<Rightarrow> node \<Rightarrow> bool" where
  "isStringRegexMethodCall isString call \<longleftrightarrow>
     calls_method [''match'', ''matchAll'', ''search''] call \<and> 0 < length (args_of call) \<and>
     isString (fld (fld call ''callee'') ''object'') \<and> isString (args_of call ! 0)"

section \<open>Patterns\<close>

definition getFlags :: "node \<Rightarrow> string option" where
  "getFlags callExpr =
     (if length (args_of callExpr) < 2 then Some []
      else let flags = args_of callExpr ! 1 in
        case fld flags ''value'' of
          JStr s \<Rightarrow> if is_type flags ''Literal'' then Some s else None
        | _ \<Rightarrow> None)"

text \<open>
  The outer option is returning at all, the inner one is \<^verbatim>\<open>null\<close>; a pattern comes with its flags. The
  parents of nodes are those that the parser sets.
\<close>

definition with_flags :: "(string \<times> string) option \<Rightarrow> string option \<Rightarrow> (string \<times> string) option" where
  "with_flags patternOnly flags =
     (case (patternOnly, flags) of (Some (pattern, _), Some flags) \<Rightarrow> Some (pattern, flags) | _ \<Rightarrow> None)"

definition concatenated :: "(string \<times> string) option \<Rightarrow> (string \<times> string) option \<Rightarrow> (string \<times> string) option" where
  "concatenated left right =
     (case (left, right) of (Some (l, _), Some (r, _)) \<Rightarrow> Some (l @ r, []) | _ \<Rightarrow> None)"

definition regex_of :: "node \<Rightarrow> (string \<times> string) option" where
  "regex_of n =
     (case (fld (fld n ''regex'') ''pattern'', fld (fld n ''regex'') ''flags'') of
        (JStr pattern, JStr flags) \<Rightarrow> Some (pattern, flags)
      | _ \<Rightarrow> None)"

definition string_pattern :: "jsval \<Rightarrow> (string \<times> string) option" where
  "string_pattern v = (case v of JStr pattern \<Rightarrow> Some (pattern, []) | _ \<Rightarrow> None)"

definition declared_with :: "(node \<Rightarrow> node option) \<Rightarrow> node \<Rightarrow> bool" where
  "declared_with parent n = (case parent n of Some p \<Rightarrow> is_type p ''VariableDeclarator'' | None \<Rightarrow> False)"

partial_function (option) getPatternFromNode ::
  "(node \<Rightarrow> node option) \<Rightarrow> rule_context \<Rightarrow> node \<Rightarrow> (string \<times> string) option option" where
  "getPatternFromNode parent ctx n =
     (if isRegExpConstructor n then
        Option.bind (getPatternFromNode parent ctx (args_of n ! 0)) (\<lambda>patternOnly. Some (with_flags patternOnly (getFlags n)))
      else if isRegexLiteral n then Some (regex_of n)
      else if isStringLiteral n then Some (string_pattern (fld n ''value''))
      else if isStaticTemplateLiteral n then
        Some (string_pattern (fld (fld (elems (fld n ''quasis'') ! 0) ''value'') ''raw''))
      else if isIdentifier n [] then
        (case usage_of ctx n of
           None \<Rightarrow> Some None
         | Some assignedExpression \<Rightarrow>
             if declared_with parent assignedExpression then getPatternFromNode parent ctx assignedExpression else Some None)
      else if isBinaryPlus n then
        Option.bind (getPatternFromNode parent ctx (fld n ''left'')) (\<lambda>left.
        Option.bind (getPatternFromNode parent ctx (fld n ''right'')) (\<lambda>right. Some (concatenated left right)))
      else Some None)"

declare getPatternFromNode.simps [code]

text \<open>The constructor \<^verbatim>\<open>RegExp\<close> and the parser may throw, which is caught.\<close>

definition getParsedRegex ::
  "(string \<Rightarrow> string \<Rightarrow> 'r res) \<Rightarrow> ('r \<Rightarrow> 'a res) \<Rightarrow> (node \<Rightarrow> node option) \<Rightarrow> rule_context \<Rightarrow> node \<Rightarrow>
   'a option option" where
  "getParsedRegex new_RegExp parseRegExpLiteral parent ctx n =
     Option.bind (getPatternFromNode parent ctx n) (\<lambda>patternAndFlags.
       Some (case patternAndFlags of
               None \<Rightarrow> None
             | Some (pattern, flags) \<Rightarrow>
                 (case bind_res (new_RegExp pattern flags) parseRegExpLiteral of Inr a \<Rightarrow> Some a | Inl _ \<Rightarrow> None)))"

section \<open>References to groups\<close>

record group_reference =
  gr_raw :: string
  gr_value :: string

definition ref_digit :: "char \<Rightarrow> bool" where
  "ref_digit c \<longleftrightarrow> (of_char c :: nat) \<in> {48..57}"

definition ref_letter :: "char \<Rightarrow> bool" where
  "ref_letter c \<longleftrightarrow> (of_char c :: nat) \<in> {97..122} \<union> {65..90}"

text \<open>
  A match of the pattern of \<^verbatim>\<open>extractReferences\<close> at the beginning of a text: a dollar with digits, or with a
  name in angle brackets.
\<close>

definition match_reference :: "string \<Rightarrow> group_reference option" where
  "match_reference s =
     (case s of
        [] \<Rightarrow> None
      | c # r \<Rightarrow>
          if c \<noteq> CHR ''$'' then None
          else
            (let digits = takeWhile ref_digit r;
                 name = takeWhile (\<lambda>c. ref_letter c \<or> ref_digit c \<or> c = CHR ''_'') (drop 1 r)
             in if digits \<noteq> [] then Some \<lparr>gr_raw = c # digits, gr_value = digits\<rparr>
                else if take 1 r = ''<'' \<and> name \<noteq> [] \<and> ref_letter (hd name) \<and> take 1 (drop (1 + length name) r) = ''>''
                then Some \<lparr>gr_raw = c # ''<'' @ name @ ''>'', gr_value = name\<rparr>
                else None))"

function references_from :: "string \<Rightarrow> group_reference list" where
  "references_from s =
     (if s = [] then []
      else case match_reference s of
        Some r \<Rightarrow> r # references_from (drop (max 1 (length (gr_raw r))) s)
      | None \<Rightarrow> references_from (drop 1 s))"
  by pat_completeness auto
termination by (relation "measure length") auto

declare references_from.simps [simp del]

definition extractReferences :: "node \<Rightarrow> group_reference list" where
  "extractReferences n =
     (if isStringLiteral n then (case fld n ''value'' of JStr str \<Rightarrow> references_from str | _ \<Rightarrow> []) else [])"

section \<open>Locations\<close>

text \<open>The positions of a node of the parsed pattern, which count from the opening slash of the literal.\<close>

record regexp_node =
  rn_start :: int
  rn_end :: int

abbreviation "undefined_error \<equiv> JsError ''Cannot read properties of undefined'' []"

definition nodeRange :: "node \<Rightarrow> range res" where
  "nodeRange n = (case node_range n of Some (a, b) \<Rightarrow> Inr (0, b - a) | None \<Rightarrow> Inl undefined_error)"

text \<open>\<^verbatim>\<open>substring\<close> swaps its arguments, so that a single quote is left as it is.\<close>

definition unquote :: "string \<Rightarrow> string res" where
  "unquote s =
     (if take 1 s \<noteq> [CHR 0x27] \<and> take 1 s \<noteq> [CHR 0x22]
      then Inl (JsError (''invalid string to unquote: '' @ s) [])
      else Inr (if length s < 2 then s else take (length s - 2) (drop 1 s)))"

definition token_at :: "string_literal_token list \<Rightarrow> int \<Rightarrow> string_literal_token option" where
  "token_at tokens i = (if 0 \<le> i \<and> nat i < length tokens then Some (tokens ! nat i) else None)"

definition range_of_tokens :: "node \<Rightarrow> string_literal_token list \<Rightarrow> regexp_node \<Rightarrow> range res" where
  "range_of_tokens n tokens regexpNode =
     (if rn_start regexpNode = rn_end regexpNode then
        if rn_start regexpNode - 1 < int (length tokens) then
          (case token_at tokens (rn_start regexpNode - 1) of
             Some t \<Rightarrow> Inr (int (fst (slt_range t)) + 1, int (fst (slt_range t)) + 1)
           | None \<Rightarrow> Inl undefined_error)
        else
          (case token_at tokens (int (length tokens) - 1) of
             Some t \<Rightarrow> Inr (int (snd (slt_range t)) + 1, int (snd (slt_range t)) + 1)
           | None \<Rightarrow> Inl undefined_error)
      else
        (case token_at tokens (rn_start regexpNode - 1) of
           None \<Rightarrow> nodeRange n
         | Some startToken \<Rightarrow>
             (case token_at tokens (min (rn_end regexpNode - 2) (int (length tokens) - 1)) of
                None \<Rightarrow> nodeRange n
              | Some endToken \<Rightarrow> Inr (int (fst (slt_range startToken)) + 1, int (snd (slt_range endToken)) + 1))))"

definition units_of :: "string \<Rightarrow> units" where
  "units_of s = map of_char s"

definition getRegexpRange :: "node \<Rightarrow> regexp_node \<Rightarrow> range res option" where
  "getRegexpRange n regexpNode =
     (if isRegexLiteral n then Some (Inr (rn_start regexpNode, rn_end regexpNode))
      else if isStringLiteral n then
        if fld n ''value'' = JStr [] then Some (Inr (0, 2))
        else
          (case fld n ''raw'' of
             JStr s \<Rightarrow>
               (case unquote s of
                  Inl e \<Rightarrow> Some (Inl e)
                | Inr u \<Rightarrow> Option.bind (tokenizeString (units_of u)) (\<lambda>r.
                    Some (bind_res r (\<lambda>tokens. range_of_tokens n tokens regexpNode))))
           | _ \<Rightarrow> Some (Inl undefined_error))
      else if is_type n ''TemplateLiteral'' then Some (nodeRange n)
      else Some (Inl (JsError (''Expected regexp or string literal, got '' @
        (case fld n ''type'' of JStr t \<Rightarrow> t | _ \<Rightarrow> ''undefined'')) [])))"

definition getRegexpLocation ::
  "(int \<Rightarrow> position) \<Rightarrow> node \<Rightarrow> regexp_node \<Rightarrow> int \<times> int \<Rightarrow> source_loc option res option" where
  "getRegexpLocation getLocFromIndex n regexpNode offset =
     (if isRegexLiteral n \<or> isStringLiteral n then
        (case node_range n of
           None \<Rightarrow> Some (Inl undefined_error)
         | Some (start, _) \<Rightarrow>
             Option.bind (getRegexpRange n regexpNode) (\<lambda>r. Some (bind_res r (\<lambda>(reStart, reEnd).
               Inr (Some \<lparr>loc_start = getLocFromIndex (start + reStart + fst offset),
                          loc_end = getLocFromIndex (start + reEnd + snd offset)\<rparr>)))))
      else Some (Inr (node_loc n)))"

section \<open>The template of the rules\<close>

datatype regex_message = Message string | MessageId string

record regex_descriptor =
  rd_regexpNode :: regexp_node
  rd_node :: node
  rd_offset :: "(int \<times> int) option"
  rd_message :: "regex_message option"

record regex_report =
  rr_message :: regex_message
  rr_loc :: "source_loc option"

text \<open>
  What the template takes from outside: the type checker, if there is one, the constructor and parser of
  regular expressions, the visit of a parsed pattern with the handlers of the rule, which gives the
  descriptors that the handlers report, and positions of the source code.
\<close>

record ('r, 'a) regex_world =
  rw_isString :: "(node \<Rightarrow> bool) option"
  rw_new_RegExp :: "string \<Rightarrow> string \<Rightarrow> 'r res"
  rw_parse :: "'r \<Rightarrow> 'a res"
  rw_visit :: "node \<Rightarrow> 'a \<Rightarrow> regex_descriptor list"
  rw_parent :: "node \<Rightarrow> node option"
  rw_getLocFromIndex :: "int \<Rightarrow> position"

definition reportRegExpNode :: "('r, 'a) regex_world \<Rightarrow> regex_descriptor \<Rightarrow> regex_report list res option" where
  "reportRegExpNode w descriptor =
     (let offset = (case rd_offset descriptor of Some p \<Rightarrow> p | None \<Rightarrow> (0, 0)) in
      Option.bind (getRegexpLocation (rw_getLocFromIndex w) (rd_node descriptor) (rd_regexpNode descriptor) offset) (\<lambda>r.
        Some (bind_res r (\<lambda>loc.
          Inr (case rd_message descriptor of
                 Some m \<Rightarrow> [\<lparr>rr_message = m, rr_loc = loc\<rparr>]
               | None \<Rightarrow> [])))))"

fun report_all :: "('r, 'a) regex_world \<Rightarrow> regex_descriptor list \<Rightarrow> regex_report list res option" where
  "report_all w [] = Some (Inr [])"
| "report_all w (d # ds) =
     Option.bind (reportRegExpNode w d) (\<lambda>r.
       case r of
         Inl e \<Rightarrow> Some (Inl e)
       | Inr rs \<Rightarrow> Option.bind (report_all w ds) (\<lambda>r. Some (bind_res r (\<lambda>more. Inr (rs @ more)))))"

definition checkRegex :: "('r, 'a) regex_world \<Rightarrow> node \<Rightarrow> 'a option \<Rightarrow> regex_report list res option" where
  "checkRegex w n regExpAST =
     (case regExpAST of None \<Rightarrow> Some (Inr []) | Some a \<Rightarrow> report_all w (rw_visit w n a))"

definition checkLiteral :: "('r, 'a) regex_world \<Rightarrow> rule_context \<Rightarrow> node \<Rightarrow> regex_report list res option" where
  "checkLiteral w ctx literal =
     Option.bind (getParsedRegex (rw_new_RegExp w) (rw_parse w) (rw_parent w) ctx literal) (checkRegex w literal)"

definition checkCallExpression :: "('r, 'a) regex_world \<Rightarrow> rule_context \<Rightarrow> node \<Rightarrow> regex_report list res option" where
  "checkCallExpression w ctx callExpr =
     (let parsed = getParsedRegex (rw_new_RegExp w) (rw_parse w) (rw_parent w) ctx;
          argument = (case args_of callExpr of [] \<Rightarrow> JUndefined | a # _ \<Rightarrow> a) in
      Option.bind (parsed callExpr) (\<lambda>parsedRegex.
      Option.bind
        (if parsedRegex = None \<and> (case rw_isString w of Some isString \<Rightarrow> isStringRegexMethodCall isString callExpr | None \<Rightarrow> False)
         then parsed argument else Some parsedRegex) (\<lambda>parsedRegex.
      checkRegex w argument parsedRegex)))"

definition createRegExpRule :: "('r, 'a) regex_world \<Rightarrow> rule_context \<Rightarrow> node \<Rightarrow> regex_report list res option" where
  "createRegExpRule w ctx n =
     (if is_type n ''Literal'' \<and> \<not> nullish (fld n ''regex'') then checkLiteral w ctx n
      else if is_type n ''NewExpression'' \<or> is_type n ''CallExpression'' then checkCallExpression w ctx n
      else Some (Inr []))"


section \<open>Correctness\<close>

subsection \<open>Locations\<close>

text \<open>
  The source that a regular expression has when it is made of the value of a literal: the values of its pieces, with
  unescaped slashes escaped. Lengths of pieces add up.
\<close>

definition source_of :: "(units \<times> nat) list \<Rightarrow> units" where
  "source_of vs = concat (map (\<lambda>(v, n). if v = [CP_FORWARD_SLASH] \<and> n = 1 then [CP_BACK_SLASH, CP_FORWARD_SLASH] else v) vs)"

definition text_length :: "(units \<times> nat) list \<Rightarrow> nat" where
  "text_length vs = sum_list (map snd vs)"

lemma source_of_simps [simp]:
  "source_of [] = []"
  "source_of ((v, n) # vs) = (if v = [CP_FORWARD_SLASH] \<and> n = 1 then [CP_BACK_SLASH, CP_FORWARD_SLASH] else v) @ source_of vs"
  "source_of (us @ vs) = source_of us @ source_of vs"
  by (simp_all add: source_of_def)

lemma text_length_simps [simp]:
  "text_length [] = 0" "text_length (p # vs) = snd p + text_length vs"
  "text_length (us @ vs) = text_length us + text_length vs"
  by (simp_all add: text_length_def)

lemma tokens_of_append_list: "tokens_of pos (us @ vs) = tokens_of pos us @ tokens_of (pos + text_length us) vs"
  by (induction us arbitrary: pos) (auto simp: Let_def add.assoc)

lemma length_tokens_of:
  "\<forall>p \<in> set vs. length (fst p) \<le> 1 \<Longrightarrow> length (tokens_of pos vs) = length (source_of vs)"
  by (induction vs arbitrary: pos) (auto simp: Let_def le_Suc_eq)

text \<open>The first and the last token of pieces that start and end with a value.\<close>

lemma tokens_of_hd:
  assumes "vs \<noteq> []" "fst (hd vs) \<noteq> []"
  shows "tokens_of pos vs \<noteq> [] \<and> fst (slt_range (hd (tokens_of pos vs))) = pos"
  using assms by (cases vs) (auto simp: Let_def split: if_splits)

lemma tokens_of_last:
  assumes "vs \<noteq> []" "fst (last vs) \<noteq> []"
  shows "tokens_of pos vs \<noteq> [] \<and> snd (slt_range (last (tokens_of pos vs))) = pos + text_length vs"
  using assms by (cases vs rule: rev_cases) (auto simp: tokens_of_append_list Let_def split: if_splits)

text \<open>A string literal whose text between the quotes has the pieces \<open>vs\<close>, with at most one unit each.\<close>

definition literal_of_pieces :: "node \<Rightarrow> string \<Rightarrow> (units \<times> nat) list \<Rightarrow> bool" where
  "literal_of_pieces n inner vs \<longleftrightarrow>
     isStringLiteral n \<and> fld n ''value'' \<noteq> JStr [] \<and>
     (\<exists>q. q \<in> {CHR 0x27, CHR 0x22} \<and> fld n ''raw'' = JStr (q # inner @ [q])) \<and>
     pieces (units_of inner) vs \<and> (\<forall>p \<in> set vs. length (fst p) \<le> 1)"

lemma units_of_small: "u \<in> set (units_of s) \<Longrightarrow> u < 0x10000"
proof -
  assume "u \<in> set (units_of s)"
  then obtain c where "u = of_char c" by (auto simp: units_of_def)
  then have "u = u mod 256" by (metis of_char_mod_256)
  also have "\<dots> < 256" by simp
  finally show "u < 0x10000" by simp
qed

lemma literal_not_regex: "isStringLiteral n \<Longrightarrow> \<not> isRegexLiteral n"
  by (auto simp: isStringLiteral_def isRegexLiteral_def split: jsval.splits)

lemma getRegexpRange_tokens:
  assumes "literal_of_pieces n inner vs"
  shows "getRegexpRange n re = Some (range_of_tokens n (tokens_of 0 vs) re)"
proof -
  from assms obtain q where q: "q \<in> {CHR 0x27, CHR 0x22}" "fld n ''raw'' = JStr (q # inner @ [q])"
    by (auto simp: literal_of_pieces_def)
  have "unquote (q # inner @ [q]) = Inr inner" using q(1) by (auto simp: unquote_def)
  moreover have "tokenizeString (units_of inner) = Some (Inr (tokens_of 0 vs))"
    using tokenize_loop_pieces [of "units_of inner" vs "[]" "[]"] assms units_of_small
    by (auto simp: literal_of_pieces_def tokenizeString_def)
  ultimately show ?thesis
    using assms q(2) literal_not_regex [of n] by (simp add: getRegexpRange_def literal_of_pieces_def)
qed


text \<open>
  Tokens of a range of pieces in the middle: the first token of the pieces \<open>bs\<close> has as its index the length of
  the source before them, the last one that of the source including them, less one.
\<close>

lemma token_at_first:
  assumes "\<forall>p \<in> set as. length (fst p) \<le> 1" "bs \<noteq> []" "fst (hd bs) \<noteq> []"
  shows "\<exists>t. token_at (tokens_of 0 (as @ bs)) (int (length (source_of as))) = Some t \<and> fst (slt_range t) = text_length as"
proof -
  let ?ts = "tokens_of (text_length as) bs"
  have ts: "?ts \<noteq> []" "fst (slt_range (hd ?ts)) = text_length as" using tokens_of_hd [OF assms(2,3)] by simp_all
  have len: "length (source_of as) = length (tokens_of 0 as)" using length_tokens_of [OF assms(1)] by simp
  then have "tokens_of 0 (as @ bs) ! length (source_of as) = hd ?ts" "length (source_of as) < length (tokens_of 0 (as @ bs))"
    using ts(1) by (simp_all add: tokens_of_append_list nth_append hd_conv_nth)
  with ts(2) show ?thesis by (auto simp: token_at_def)
qed

lemma token_at_last:
  assumes "\<forall>p \<in> set bs. length (fst p) \<le> 1" "bs \<noteq> []" "fst (last bs) \<noteq> []"
  shows "\<exists>t. token_at (tokens_of 0 (bs @ cs)) (int (length (source_of bs)) - 1) = Some t \<and> snd (slt_range t) = text_length bs"
proof -
  let ?ts = "tokens_of 0 bs"
  have ts: "?ts \<noteq> []" "snd (slt_range (last ?ts)) = text_length bs" using tokens_of_last [OF assms(2,3), of 0] by simp_all
  have len: "length (source_of bs) = length ?ts" using length_tokens_of [OF assms(1)] by simp
  have pos: "0 < length ?ts" using ts(1) by simp
  then have i: "nat (int (length (source_of bs)) - 1) = length ?ts - 1" "0 \<le> int (length (source_of bs)) - 1"
    using len by simp_all
  have "tokens_of 0 (bs @ cs) ! (length ?ts - 1) = last ?ts" "length ?ts - 1 < length (tokens_of 0 (bs @ cs))"
    using ts(1) pos by (simp_all add: tokens_of_append_list nth_append last_conv_nth del: length_greater_0_conv)
  with ts(2) i show ?thesis by (auto simp: token_at_def)
qed

lemma source_length_le: "length (source_of bs) \<le> length (source_of (bs @ cs))"
  by simp

lemma source_of_nonempty: "bs \<noteq> [] \<Longrightarrow> fst (hd bs) \<noteq> [] \<Longrightarrow> 0 < length (source_of bs)"
  by (cases bs) (auto split: if_splits)

lemma literal_tokens_length:
  "literal_of_pieces n inner vs \<Longrightarrow> length (tokens_of 0 vs) = length (source_of vs)"
  using length_tokens_of by (simp add: literal_of_pieces_def)

lemma getRegexpRange_nonempty:
  assumes "literal_of_pieces n inner (as @ bs @ cs)" "bs \<noteq> []" "fst (hd bs) \<noteq> []" "fst (last bs) \<noteq> []"
  shows "getRegexpRange n \<lparr>rn_start = int (length (source_of as)) + 1, rn_end = int (length (source_of (as @ bs))) + 1\<rparr> =
    Some (Inr (int (text_length as) + 1, int (text_length (as @ bs)) + 1))"
proof -
  have "\<forall>p \<in> set as. length (fst p) \<le> 1" "\<forall>p \<in> set (as @ bs). length (fst p) \<le> 1"
    using assms(1) by (auto simp: literal_of_pieces_def)
  then obtain s t where tokens:
      "token_at (tokens_of 0 (as @ bs @ cs)) (int (length (source_of as))) = Some s" "fst (slt_range s) = text_length as"
      "token_at (tokens_of 0 (as @ bs @ cs)) (int (length (source_of (as @ bs))) - 1) = Some t"
      "snd (slt_range t) = text_length (as @ bs)"
    using token_at_first [of as "bs @ cs"] token_at_last [of "as @ bs" cs] assms(2-4) by fastforce
  have "min (int (length (source_of (as @ bs))) + 1 - 2) (int (length (tokens_of 0 (as @ bs @ cs))) - 1) =
      int (length (source_of (as @ bs))) - 1" using literal_tokens_length [OF assms(1)] by simp
  moreover have "0 < length (source_of bs)" using source_of_nonempty assms(2,3) by blast
  ultimately show ?thesis
    unfolding getRegexpRange_tokens [OF assms(1)] range_of_tokens_def using tokens by simp
qed

lemma getRegexpRange_empty:
  assumes "literal_of_pieces n inner (as @ cs)"
    "if cs = [] then as \<noteq> [] \<and> fst (last as) \<noteq> [] else fst (hd cs) \<noteq> []"
  shows "getRegexpRange n \<lparr>rn_start = int (length (source_of as)) + 1, rn_end = int (length (source_of as)) + 1\<rparr> =
    Some (Inr (int (text_length as) + 1, int (text_length as) + 1))"
proof -
  have one: "\<forall>p \<in> set as. length (fst p) \<le> 1" using assms(1) by (auto simp: literal_of_pieces_def)
  note total = literal_tokens_length [OF assms(1)]
  show ?thesis
  proof (cases "cs = []")
    case True
    with assms(2) token_at_last [OF one, of "[]"] obtain t
      where "token_at (tokens_of 0 as) (int (length (source_of as)) - 1) = Some t" "snd (slt_range t) = text_length as"
      by auto
    with True total show ?thesis by (simp add: getRegexpRange_tokens [OF assms(1)] range_of_tokens_def)
  next
    case False
    with assms(2) token_at_first [OF one, of cs] obtain t
      where "token_at (tokens_of 0 (as @ cs)) (int (length (source_of as))) = Some t" "fst (slt_range t) = text_length as"
      by auto
    moreover have "0 < length (source_of cs)" using source_of_nonempty False assms(2) by auto
    ultimately show ?thesis using total by (simp add: getRegexpRange_tokens [OF assms(1)] range_of_tokens_def)
  qed
qed


text \<open>The literal \<^verbatim>\<open>'a\t/b|'\<close>: the pattern has the tab at position 2 and the slash at 3 and 4.\<close>

definition example_literal :: node where
  "example_literal = JObj 0 (Some (10, 18)) None
     [(''type'', JStr ''Literal''), (''value'', JStr (''a'' @ [CHR 0x09] @ ''/b|'')),
      (''raw'', JStr ([CHR 0x27] @ ''a'' @ [CHR 0x5C] @ ''t/b|'' @ [CHR 0x27]))]"



subsection \<open>Patterns\<close>

text \<open>The nodes whose patterns the extraction needs.\<close>

definition examined :: "(node \<Rightarrow> node option) \<Rightarrow> rule_context \<Rightarrow> node \<Rightarrow> node list" where
  "examined parent ctx n =
     (if isRegExpConstructor n then [args_of n ! 0]
      else if isRegexLiteral n \<or> isStringLiteral n \<or> isStaticTemplateLiteral n then []
      else if isIdentifier n [] then
        (case usage_of ctx n of
           None \<Rightarrow> []
         | Some assigned \<Rightarrow>
             if declared_with parent assigned then [assigned] else [])
      else if isBinaryPlus n then [fld n ''left'', fld n ''right''] else [])"

lemma bind_Some_None_iff: "Option.bind a (\<lambda>x. Some (f x)) = None \<longleftrightarrow> a = None"
  by (cases a) simp_all

lemma bind_bind_Some_None_iff:
  "Option.bind a (\<lambda>x. Option.bind b (\<lambda>y. Some (f x y))) = None \<longleftrightarrow> a = None \<or> b = None"
  by (cases a; cases b) simp_all

lemma getPatternFromNode_examined:
  "getPatternFromNode parent ctx n = None \<longleftrightarrow> (\<exists>m \<in> set (examined parent ctx n). getPatternFromNode parent ctx m = None)"
  by (subst getPatternFromNode.simps)
    (auto simp: examined_def bind_Some_None_iff bind_bind_Some_None_iff simp del: not_None_eq split: option.splits if_splits)

lemma getPatternFromNode_accessible:
  assumes "getPatternFromNode parent ctx n = Some r"
  shows "Wellfounded.accp (\<lambda>m n. m \<in> set (examined parent ctx n)) n"
  using assms
proof (rule getPatternFromNode.raw_induct [rotated])
  fix loop :: "(node \<Rightarrow> node option) \<Rightarrow> rule_context \<Rightarrow> node \<Rightarrow> (string \<times> string) option option" and parent ctx n r
  assume IH: "\<And>parent ctx n r. loop parent ctx n = Some r \<Longrightarrow> Wellfounded.accp (\<lambda>m n. m \<in> set (examined parent ctx n)) n"
    and run: "(if isRegExpConstructor n then
        Option.bind (loop parent ctx (args_of n ! 0)) (\<lambda>patternOnly. Some (with_flags patternOnly (getFlags n)))
      else if isRegexLiteral n then Some (regex_of n)
      else if isStringLiteral n then Some (string_pattern (fld n ''value''))
      else if isStaticTemplateLiteral n then
        Some (string_pattern (fld (fld (elems (fld n ''quasis'') ! 0) ''value'') ''raw''))
      else if isIdentifier n [] then
        (case usage_of ctx n of
           None \<Rightarrow> Some None
         | Some assignedExpression \<Rightarrow>
             if declared_with parent assignedExpression then loop parent ctx assignedExpression else Some None)
      else if isBinaryPlus n then
        Option.bind (loop parent ctx (fld n ''left'')) (\<lambda>left.
        Option.bind (loop parent ctx (fld n ''right'')) (\<lambda>right. Some (concatenated left right)))
      else Some None) = Some r"
  have "\<exists>r. loop parent ctx m = Some r" if "m \<in> set (examined parent ctx n)" for m
    using run that by (auto simp: examined_def bind_eq_Some_conv split: if_splits option.splits)
  then show "Wellfounded.accp (\<lambda>m n. m \<in> set (examined parent ctx n)) n"
    using IH by (blast intro: accpI)
qed

text \<open>
  The extraction returns exactly for the nodes from which no infinite chain of examined nodes starts, and so never for
  a node that leads back to itself.
\<close>

lemma getPatternFromNode_returns_iff:
  "getPatternFromNode parent ctx n \<noteq> None \<longleftrightarrow> Wellfounded.accp (\<lambda>m n. m \<in> set (examined parent ctx n)) n"
proof
  assume "Wellfounded.accp (\<lambda>m n. m \<in> set (examined parent ctx n)) n"
  then show "getPatternFromNode parent ctx n \<noteq> None"
    proof (induction rule: accp_induct_rule)
    case (1 n)
    then show ?case using getPatternFromNode_examined [of parent ctx n] by blast
  qed
qed (use getPatternFromNode_accessible in blast)

lemma not_accessible_cycle:
  assumes "R\<^sup>+\<^sup>+ n n"
  shows "\<not> Wellfounded.accp R n"
proof
  assume "Wellfounded.accp R n"
  then show False using assms
  proof (induction rule: accp_induct_rule)
    case (1 n)
    from 1(3) obtain z where "R\<^sup>*\<^sup>* n z" "R z n"
      by (cases rule: tranclp.cases) (auto dest: tranclp_into_rtranclp)
    then have "R\<^sup>+\<^sup>+ z z" by (metis rtranclp_into_tranclp2)
    with 1 \<open>R z n\<close> show False by blast
  qed
qed


text \<open>
  The program \<^verbatim>\<open>var x = x + 'a'; new RegExp(x)\<close>: the extraction never returns. A pattern in a template literal is
  its raw text: in the program the value of \<^verbatim>\<open>`\\d`\<close> is a backslash and a letter.
\<close>

definition plus_node :: "node \<Rightarrow> node" where
  "plus_node left = JObj 7 None None
     [(''type'', JStr ''BinaryExpression''), (''operator'', JStr ''+''), (''left'', left),
      (''right'', JObj 8 None None [(''type'', JStr ''Literal''), (''value'', JStr ''a'')])]"

definition template_node :: "string \<Rightarrow> string \<Rightarrow> node" where
  "template_node raw cooked = JObj 9 None None
     [(''type'', JStr ''TemplateLiteral''), (''expressions'', JArr []),
      (''quasis'', JArr [JObj 10 None None [(''type'', JStr ''TemplateElement''),
         (''value'', JObj 11 None None [(''raw'', JStr raw), (''cooked'', JStr cooked)])]])]"

definition declarator_node :: node where
  "declarator_node = JObj 12 None None [(''type'', JStr ''VariableDeclarator'')]"

lemma getPatternFromNode_diverges:
  "getPatternFromNode (\<lambda>_. Some declarator_node) (context_of_write ''x'' (plus_node (identifier_node 1 ''x'')))
     (identifier_node 1 ''x'') = None"
proof -
  let ?x = "identifier_node 1 ''x''"
  let ?ctx = "context_of_write ''x'' (plus_node ?x)"
  let ?R = "\<lambda>m n. m \<in> set (examined (\<lambda>_. Some declarator_node) ?ctx n)"
  have "?R (plus_node ?x) ?x" "?R ?x (plus_node ?x)" by code_simp+
  then have "?R\<^sup>+\<^sup>+ ?x ?x" by (rule tranclp.trancl_into_trancl [OF tranclp.r_into_trancl, rotated])
  then have "\<not> Wellfounded.accp ?R ?x" by (rule not_accessible_cycle)
  then show ?thesis unfolding getPatternFromNode_returns_iff [symmetric] by (rule notnotD)
qed

lemma getPatternFromNode_template_raw:
  "getPatternFromNode parent ctx (template_node raw cooked) = Some (Some (raw, []))"
  by (subst getPatternFromNode.simps)
    (simp add: template_node_def isRegExpConstructor_def isRegExpWithGlobalThis_def isRegexLiteral_def isStringLiteral_def
      isLiteral_def isStaticTemplateLiteral_def is_type_def string_pattern_def)

subsection \<open>References to groups\<close>

text \<open>
  The references of a text are matches of the pattern, in their order, and the text between them contains no dollar
  where a match starts: the text is the references with gaps between them.
\<close>

inductive reference_split :: "string \<Rightarrow> group_reference list \<Rightarrow> bool" where
  no_text: "reference_split [] []"
| no_match: "match_reference (c # s) = None \<Longrightarrow> reference_split s rs \<Longrightarrow> reference_split (c # s) rs"
| a_match: "match_reference (gr_raw r @ s) = Some r \<Longrightarrow> reference_split s rs \<Longrightarrow> reference_split (gr_raw r @ s) (r # rs)"

lemma match_reference_prefix:
  assumes "match_reference s = Some r"
  shows "gr_raw r \<noteq> [] \<and> s = gr_raw r @ drop (length (gr_raw r)) s"
proof (cases s)
  case Nil
  with assms show ?thesis by (simp add: match_reference_def)
next
  case (Cons c t)
  let ?name = "takeWhile (\<lambda>c. ref_letter c \<or> ref_digit c \<or> c = CHR ''_'') (drop 1 t)"
  consider (digits) "r = \<lparr>gr_raw = c # takeWhile ref_digit t, gr_value = takeWhile ref_digit t\<rparr>"
    | (name) "r = \<lparr>gr_raw = c # ''<'' @ ?name @ ''>'', gr_value = ?name\<rparr>" "take 1 t = ''<''"
        "take 1 (drop (1 + length ?name) t) = ''>''"
    using assms Cons by (auto simp: match_reference_def Let_def split: if_splits)
  then show ?thesis
  proof cases
    case digits
    then show ?thesis using Cons by (simp flip: dropWhile_eq_drop)
  next
    case name
    define u where "u = drop 1 t"
    define k where "k = length ?name"
    have t: "t = ''<'' @ u" unfolding u_def using name(2) by (metis append_take_drop_id)
    have "take k u = ?name" unfolding u_def k_def by (metis takeWhile_eq_take)
    moreover have "take 1 (drop k u) = ''>''" using name(3) by (simp add: u_def k_def)
    ultimately have "u = ?name @ ''>'' @ drop (Suc k) u"
      by (metis append_take_drop_id drop_drop plus_1_eq_Suc)
    then show ?thesis unfolding Cons using name(1) t by (simp add: k_def)
  qed
qed

lemma extractReferences_split:
  assumes "isStringLiteral n" "fld n ''value'' = JStr s"
  shows "reference_split s (extractReferences n)"
proof -
  have "reference_split s (references_from s)"
  proof (induction s rule: references_from.induct)
    case (1 s)
    show ?case
    proof (cases s)
      case Nil
      then show ?thesis by (simp add: references_from.simps no_text)
    next
      case (Cons c t)
      show ?thesis
      proof (cases "match_reference s")
        case None
        then have "references_from s = references_from t" "reference_split t (references_from t)"
          using 1(1) Cons None by (simp_all add: references_from.simps [of "c # t"])
        then show ?thesis using None Cons no_match by simp
      next
        case (Some r)
        from match_reference_prefix [OF Some] have pre: "gr_raw r \<noteq> []" "s = gr_raw r @ drop (length (gr_raw r)) s" by simp_all
        have "max 1 (length (gr_raw r)) = length (gr_raw r)" using pre(1) by (cases "gr_raw r") auto
        then have "references_from s = r # references_from (drop (length (gr_raw r)) s)"
          "reference_split (drop (length (gr_raw r)) s) (references_from (drop (length (gr_raw r)) s))"
          using 1(2) Cons Some by (simp_all add: references_from.simps [of "c # t"])
        then show ?thesis using a_match [of r "drop (length (gr_raw r)) s"] pre(2) Some by simp
      qed
    qed
  qed
  with assms show ?thesis by (simp add: extractReferences_def)
qed

subsection \<open>Reports\<close>

text \<open>The reports of a rule are those of the descriptors that its handlers give, in their order.\<close>

lemma report_all_iff:
  "report_all w ds = Some (Inr rs) \<longleftrightarrow>
     (\<exists>rss. list_all2 (\<lambda>d r. reportRegExpNode w d = Some (Inr r)) ds rss \<and> rs = concat rss)"
proof (induction ds arbitrary: rs)
  case (Cons d ds)
  have "report_all w (d # ds) = Some (Inr rs) \<longleftrightarrow>
      (\<exists>r more. reportRegExpNode w d = Some (Inr r) \<and> report_all w ds = Some (Inr more) \<and> rs = r @ more)"
  proof (cases "reportRegExpNode w d")
    case (Some r)
    then show ?thesis by (cases r) (auto simp: bind_eq_Some_conv bind_res_eq_Inr)
  qed simp
  also have "\<dots> \<longleftrightarrow> (\<exists>rss. list_all2 (\<lambda>d r. reportRegExpNode w d = Some (Inr r)) (d # ds) rss \<and> rs = concat rss)"
    unfolding Cons.IH list_all2_Cons1 by (auto, metis concat.simps(2))
  finally show ?case .
qed auto

end
