(* ===== verification/Character_Classes.thy ===== *)
theory Character_Classes
  imports Regex_Helpers
begin

text \<open>
  The contents of a character class as intervals of code points,
  \<^verbatim>\<open>src/linting/eslint/rules/helpers/regex/simplified-regex-character-class.ts\<close>, and the rule
  \<^verbatim>\<open>src/linting/eslint/rules/duplicates-in-character-class.ts\<close> that uses it. The package
  \<^verbatim>\<open>functional-red-black-tree\<close> is a parameter with its documented behaviour, as are the
  case conversions of the Unicode tables.
\<close>

section \<open>Persistent ordered trees\<close>

text \<open>
  The operations of the package. What iterating from \<^verbatim>\<open>begin\<close> visits are the entries, a key with an optional value
  each; an iterator is an index into the entries of its tree, and \<open>None\<close> an iterator that is not
  valid. Updating at an iterator gives a new tree, and leaves the iterator at the old one.
\<close>

record ('t, 'v) tree_ops =
  t_empty :: 't
  t_entries :: "'t \<Rightarrow> (nat \<times> 'v option) list"
  t_insert :: "nat \<Rightarrow> 'v option \<Rightarrow> 't \<Rightarrow> 't"
  t_update :: "'t \<Rightarrow> nat \<Rightarrow> 'v option \<Rightarrow> 't"
  t_find :: "'t \<Rightarrow> nat \<Rightarrow> nat option"
  t_le :: "'t \<Rightarrow> nat \<Rightarrow> nat option"
  t_gt :: "'t \<Rightarrow> nat \<Rightarrow> nat option"
  t_between :: "'t \<Rightarrow> nat \<Rightarrow> nat \<Rightarrow> (nat \<times> 'v option) list"

text \<open>
  The documented behaviour, for trees whose keys are distinct: entries are in the order of their keys, \<^verbatim>\<open>find\<close>
  finds the entry of a key, \<^verbatim>\<open>le\<close> the last entry up to a key, \<^verbatim>\<open>gt\<close> the first entry after a key, and \<^verbatim>\<open>forEach\<close> visits
  the entries from a first key up to, and without, a second one.
\<close>

definition strict_keys :: "(nat \<times> 'v) list \<Rightarrow> bool" where
  "strict_keys es = sorted_wrt (<) (map fst es)"

definition first_index :: "('a \<Rightarrow> bool) \<Rightarrow> 'a list \<Rightarrow> nat option" where
  "first_index P xs = (let n = length (takeWhile (\<lambda>x. \<not> P x) xs) in if n < length xs then Some n else None)"

definition last_index_le :: "nat \<Rightarrow> (nat \<times> 'v) list \<Rightarrow> nat option" where
  "last_index_le k es = (case length (filter (\<lambda>e. fst e \<le> k) es) of 0 \<Rightarrow> None | Suc i \<Rightarrow> Some i)"

definition entries_insert :: "nat \<Rightarrow> 'v \<Rightarrow> (nat \<times> 'v) list \<Rightarrow> (nat \<times> 'v) list" where
  "entries_insert k v es = filter (\<lambda>e. fst e < k) es @ (k, v) # filter (\<lambda>e. k < fst e) es"

definition tree_laws :: "('t, 'v) tree_ops \<Rightarrow> bool" where
  "tree_laws ops \<longleftrightarrow>
     t_entries ops (t_empty ops) = [] \<and>
     (\<forall>t k v. strict_keys (t_entries ops t) \<and> k \<notin> fst ` set (t_entries ops t) \<longrightarrow>
        t_entries ops (t_insert ops k v t) = entries_insert k v (t_entries ops t)) \<and>
     (\<forall>t i v. i < length (t_entries ops t) \<longrightarrow>
        t_entries ops (t_update ops t i v) = (t_entries ops t)[i := (fst (t_entries ops t ! i), v)]) \<and>
     (\<forall>t k. strict_keys (t_entries ops t) \<longrightarrow>
        t_find ops t k = first_index (\<lambda>e. fst e = k) (t_entries ops t) \<and>
        t_le ops t k = last_index_le k (t_entries ops t) \<and>
        t_gt ops t k = first_index (\<lambda>e. k < fst e) (t_entries ops t)) \<and>
     (\<forall>t a b. strict_keys (t_entries ops t) \<longrightarrow>
        t_between ops t a b = filter (\<lambda>e. a \<le> fst e \<and> fst e < b) (t_entries ops t))"

section \<open>Character classes\<close>

definition MAX_CODE_POINT :: nat where
  "MAX_CODE_POINT = 0x10ffff"

record regex_flags =
  fl_unicode :: bool
  fl_ignoreCase :: bool

datatype set_kind = Digit | Space | Word_Set | Other_Set

datatype element_type =
    Character nat
  | CharacterClassRange nat nat
  | CharacterSet set_kind bool

text \<open>An element of a class: a node of the pattern with its identity and positions.\<close>

record class_element =
  ce_id :: nat
  ce_type :: element_type
  ce_node :: regexp_node

definition put :: "('t, 'v) tree_ops \<Rightarrow> nat \<Rightarrow> 'v option \<Rightarrow> 't \<Rightarrow> 't" where
  "put ops key v tree =
     (case t_find ops tree key of
        Some entry \<Rightarrow> t_update ops tree entry v
      | None \<Rightarrow> t_insert ops key v tree)"

text \<open>The loop over the entries of the tree with the new key: every update starts from that tree again.\<close>

definition fill_gaps :: "('t, 'v) tree_ops \<Rightarrow> nat \<Rightarrow> nat \<Rightarrow> 'v \<Rightarrow> 't \<Rightarrow> 't" where
  "fill_gaps ops from to element tree =
     fold (\<lambda>i contents.
        case t_entries ops tree ! i of (key, v) \<Rightarrow>
          if from < key \<and> key \<le> to \<and> v = None then t_update ops tree i (Some element) else contents)
      [0..<length (t_entries ops tree)] tree"

definition addRange :: "('t, 'v) tree_ops \<Rightarrow> nat \<Rightarrow> nat \<Rightarrow> 'v \<Rightarrow> 't \<Rightarrow> 't" where
  "addRange ops from to element contents =
     (let oldEntry = map_option (\<lambda>i. t_entries ops contents ! i) (t_le ops contents to);
          oldEnd = Option.bind oldEntry (\<lambda>e.
            map_option (\<lambda>i. fst (t_entries ops contents ! i)) (t_gt ops contents (fst e)));
          contents = fill_gaps ops from to element (put ops from (Some element) contents);
          following = to + 1;
          oldValue = Option.bind oldEntry snd
      in if following \<le> MAX_CODE_POINT then
           if oldValue \<noteq> None \<and> (case oldEnd of None \<Rightarrow> True | Some e \<Rightarrow> following < e)
           then put ops following oldValue contents
           else if t_find ops contents following = None then put ops following None contents
           else contents
         else contents)"

definition isRangeEmpty :: "('t, 'v) tree_ops \<Rightarrow> 't \<Rightarrow> nat \<Rightarrow> nat \<Rightarrow> bool" where
  "isRangeEmpty ops contents from to \<longleftrightarrow> t_between ops contents from to = []"

definition hasEntryBetween :: "('t, 'v) tree_ops \<Rightarrow> 't \<Rightarrow> nat \<Rightarrow> nat \<Rightarrow> bool" where
  "hasEntryBetween ops contents from to \<longleftrightarrow>
     (case t_le ops contents from of None \<Rightarrow> False | Some i \<Rightarrow> snd (t_entries ops contents ! i) \<noteq> None) \<or>
     \<not> isRangeEmpty ops contents (from + 1) (to + 1)"

text \<open>The loop of \<^verbatim>\<open>findIntersections\<close> over the entries of the other class.\<close>

fun intersections_from :: "(nat \<Rightarrow> nat \<Rightarrow> bool) \<Rightarrow> (nat \<times> 'v option) list \<Rightarrow> 'v list" where
  "intersections_from has [] = []"
| "intersections_from has [(key, v)] =
     (case v of Some e \<Rightarrow> if has key MAX_CODE_POINT then [e] else [] | None \<Rightarrow> [])"
| "intersections_from has ((key, v) # (key', v') # es) =
     (let to = (if v' \<noteq> None then key' else key' - 1) in
      (case v of Some e \<Rightarrow> if has key to then [e] else [] | None \<Rightarrow> []) @ intersections_from has ((key', v') # es))"

definition findIntersections :: "('t, 'v) tree_ops \<Rightarrow> 't \<Rightarrow> 't \<Rightarrow> 'v list" where
  "findIntersections ops this that = intersections_from (hasEntryBetween ops this) (t_entries ops that)"

section \<open>Building a class\<close>

definition codePoint :: "units \<Rightarrow> nat res" where
  "codePoint c = (case cp c 0 of None \<Rightarrow> Inl (JsError ''failed to compute code point for: '' []) | Some n \<Rightarrow> Inr n)"

definition isAscii :: "nat \<Rightarrow> bool" where
  "isAscii c \<longleftrightarrow> c < 128"

text \<open>The case conversions of texts.\<close>

record case_conversions =
  toUpperCase :: "units \<Rightarrow> units"
  toLowerCase :: "units \<Rightarrow> units"

definition converted :: "(units \<Rightarrow> units) \<Rightarrow> nat \<Rightarrow> nat res" where
  "converted f c = bind_res (fromCodePoint (Some (int c))) (\<lambda>s. codePoint (f s))"

definition builder_addRange ::
  "('t, 'v) tree_ops \<Rightarrow> case_conversions \<Rightarrow> regex_flags \<Rightarrow> nat \<Rightarrow> nat \<Rightarrow> 'v \<Rightarrow> 't \<Rightarrow> 't res" where
  "builder_addRange ops cc flags from to element contents =
     bind_res (converted (toUpperCase cc) from) (\<lambda>upperCaseFrom.
     bind_res (converted (toUpperCase cc) to) (\<lambda>upperCaseTo.
     bind_res (converted (toLowerCase cc) upperCaseFrom) (\<lambda>lowerCaseFrom.
     bind_res (converted (toLowerCase cc) upperCaseTo) (\<lambda>lowerCaseTo.
       if fl_ignoreCase flags \<and> lowerCaseFrom \<noteq> upperCaseFrom \<and> lowerCaseTo \<noteq> upperCaseTo \<and>
          ((isAscii from \<and> isAscii to) \<or> fl_unicode flags)
       then Inr (addRange ops lowerCaseFrom lowerCaseTo element (addRange ops upperCaseFrom upperCaseTo element contents))
       else Inr (addRange ops from to element contents)))))"

text \<open>The ranges of \<^verbatim>\<open>\d\<close>, \<^verbatim>\<open>\s\<close> and \<^verbatim>\<open>\w\<close> and their negations.\<close>

fun set_ranges :: "bool \<Rightarrow> set_kind \<Rightarrow> bool \<Rightarrow> (nat \<times> nat) list" where
  "set_ranges unicode Digit negate =
     (if negate then [(0, 48 - 1), if unicode then (57 + 1, 0xff) else (57 + 1, MAX_CODE_POINT)] else [(48, 57)])"
| "set_ranges unicode Space negate =
     (if negate then
        [(0, 9 - 1), (13 + 1, 32 - 1)] @
        (if unicode then
           [(32 + 1, 0x84), (0x86, 0x9f), (0xa1, 0x167f), (0x1681, 0x1fff), (0x200b, 0x2027), (0x202a, 0x202e),
            (0x2030, 0x205e), (0x2060, 0x2fff), (0x3001, MAX_CODE_POINT)]
         else [(32 + 1, MAX_CODE_POINT)])
      else
        [(9, 13), (32, 32)] @
        (if unicode then
           [(0x85, 0x85), (0xa0, 0xa0), (0x1680, 0x1680), (0x2000, 0x200a), (0x2028, 0x2029), (0x202f, 0x202f),
            (0x205f, 0x205f), (0x3000, 0x3000)]
         else []))"
| "set_ranges unicode Word_Set negate =
     (if negate then
        [(0, 48 - 1), (57 + 1, 65 - 1), (90 + 1, 95 - 1), (96, 96),
         if unicode then (122 + 1, 0xb5 - 1) else (122 + 1, MAX_CODE_POINT)]
      else [(48, 57), (65, 90), (95, 95), (97, 122)])"
| "set_ranges unicode Other_Set negate = []"

definition visitCharacterSet ::
  "('t, 'v) tree_ops \<Rightarrow> regex_flags \<Rightarrow> set_kind \<Rightarrow> bool \<Rightarrow> 'v \<Rightarrow> 't \<Rightarrow> 't" where
  "visitCharacterSet ops flags kind negate element contents =
     fold (\<lambda>(from, to) contents. addRange ops from to element contents) (set_ranges (fl_unicode flags) kind negate) contents"

definition visit_element ::
  "('t, class_element) tree_ops \<Rightarrow> case_conversions \<Rightarrow> regex_flags \<Rightarrow> class_element \<Rightarrow> 't \<Rightarrow> 't res" where
  "visit_element ops cc flags element contents =
     (case ce_type element of
        Character c \<Rightarrow> builder_addRange ops cc flags c c element contents
      | CharacterClassRange a b \<Rightarrow> builder_addRange ops cc flags a b element contents
      | CharacterSet kind negate \<Rightarrow> Inr (visitCharacterSet ops flags kind negate element contents))"

section \<open>The rule on duplicates\<close>

definition set_insert :: "class_element \<Rightarrow> class_element list \<Rightarrow> class_element list" where
  "set_insert e es = (if list_ex (\<lambda>x. ce_id x = ce_id e) es then es else es @ [e])"

definition duplicates_step ::
  "('t, class_element) tree_ops \<Rightarrow> case_conversions \<Rightarrow> regex_flags \<Rightarrow> class_element \<Rightarrow>
   class_element list \<times> 't \<Rightarrow> (class_element list \<times> 't) res" where
  "duplicates_step ops cc flags element st =
     (case st of (duplicates, characterClass) \<Rightarrow>
        bind_res (visit_element ops cc flags element (t_empty ops)) (\<lambda>single.
          let intersections = findIntersections ops single characterClass;
              duplicates = (if intersections \<noteq> [] then set_insert element (fold set_insert intersections duplicates)
                            else duplicates)
          in bind_res (visit_element ops cc flags element characterClass) (\<lambda>contents. Inr (duplicates, contents))))"

fun duplicates_from ::
  "('t, class_element) tree_ops \<Rightarrow> case_conversions \<Rightarrow> regex_flags \<Rightarrow> class_element list \<Rightarrow>
   class_element list \<times> 't \<Rightarrow> (class_element list \<times> 't) res" where
  "duplicates_from ops cc flags [] st = Inr st"
| "duplicates_from ops cc flags (element # elements) st =
     bind_res (duplicates_step ops cc flags element st) (duplicates_from ops cc flags elements)"

fun locations_of ::
  "(int \<Rightarrow> position) \<Rightarrow> node \<Rightarrow> class_element list \<Rightarrow> source_loc option list res option" where
  "locations_of getLocFromIndex n [] = Some (Inr [])"
| "locations_of getLocFromIndex n (e # es) =
     Option.bind (getRegexpLocation getLocFromIndex n (ce_node e) (0, 0)) (\<lambda>r.
       case r of
         Inl err \<Rightarrow> Some (Inl err)
       | Inr loc \<Rightarrow> Option.bind (locations_of getLocFromIndex n es) (\<lambda>r. Some (bind_res r (\<lambda>locs. Inr (loc # locs)))))"

definition onCharacterClassEnter ::
  "('t, class_element) tree_ops \<Rightarrow> case_conversions \<Rightarrow> regex_flags \<Rightarrow> (int \<Rightarrow> position) \<Rightarrow> node \<Rightarrow>
   class_element list \<Rightarrow> regex_descriptor list res option" where
  "onCharacterClassEnter ops cc flags getLocFromIndex n elements =
     (case duplicates_from ops cc flags elements ([], t_empty ops) of
        Inl e \<Rightarrow> Some (Inl e)
      | Inr ([], _) \<Rightarrow> Some (Inr [])
      | Inr (primary # secondaries, _) \<Rightarrow>
          Option.bind (locations_of getLocFromIndex n secondaries) (\<lambda>r. Some (bind_res r (\<lambda>locs.
            bind_res (toEncodedMessage ''Remove duplicates in this character class.'' locs
                (Some (map (\<lambda>_. Some ''Additional duplicate'') secondaries)) None) (\<lambda>message.
              Inr [\<lparr>rd_regexpNode = ce_node primary, rd_node = n, rd_offset = None, rd_message = Some (Message message)\<rparr>])))))"


section \<open>Correctness\<close>

subsection \<open>Entries\<close>

text \<open>
  The entry that governs a code point is the last one up to it. A code point is in the class if that entry
  has a value.
\<close>

definition governs :: "(nat \<times> 'v) list \<Rightarrow> nat \<Rightarrow> nat \<Rightarrow> 'v \<Rightarrow> bool" where
  "governs es c k v \<longleftrightarrow> (k, v) \<in> set es \<and> k \<le> c \<and> (\<forall>e \<in> set es. fst e \<le> c \<longrightarrow> fst e \<le> k)"

definition contains :: "(nat \<times> 'v option) list \<Rightarrow> nat \<Rightarrow> bool" where
  "contains es c \<longleftrightarrow> (\<exists>k v. governs es c k (Some v))"

lemma strict_keys_unique:
  assumes "strict_keys es" "(k, v) \<in> set es" "(k, v') \<in> set es"
  shows "v = v'"
proof -
  have "distinct (map fst es)" using assms(1) by (simp add: strict_keys_def strict_sorted_iff)
  then show ?thesis using assms(2,3) by (meson eq_key_imp_eq_value)
qed

lemma governs_unique: "strict_keys es \<Longrightarrow> governs es c k v \<Longrightarrow> governs es c k' v' \<Longrightarrow> k = k' \<and> v = v'"
  unfolding governs_def by (metis antisym fst_conv strict_keys_unique)

lemma governs_exists:
  assumes "e \<in> set es" "fst e \<le> c"
  shows "\<exists>k v. governs es c k v \<and> fst e \<le> k"
proof -
  let ?K = "{k \<in> fst ` set es. k \<le> c}"
  have K: "finite ?K" "fst e \<in> ?K" using assms by auto
  then have "Max ?K \<in> ?K" by (metis Max_in empty_iff)
  then obtain v where "(Max ?K, v) \<in> set es" "Max ?K \<le> c" by auto
  moreover have "\<forall>e \<in> set es. fst e \<le> c \<longrightarrow> fst e \<le> Max ?K" using K(1) by (auto intro: Max_ge)
  ultimately show ?thesis using Max_ge [OF K] unfolding governs_def by blast
qed

lemma contains_governs: "strict_keys es \<Longrightarrow> governs es c k v \<Longrightarrow> contains es c \<longleftrightarrow> v \<noteq> None"
  unfolding contains_def by (metis governs_unique not_None_eq)

lemma set_entries_insert [simp]: "set (entries_insert k v es) = insert (k, v) {e \<in> set es. fst e \<noteq> k}"
  by (auto simp: entries_insert_def)

lemma keys_entries_insert: "fst ` set (entries_insert k v es) = insert k (fst ` set es)"
proof -
  have "fst ` {e \<in> S. fst e \<noteq> k} = fst ` S - {k}" for S :: "(nat \<times> 'a) set" by auto
  then show ?thesis by simp
qed

lemma strict_entries_insert: "strict_keys es \<Longrightarrow> strict_keys (entries_insert k v es)"
  by (auto simp: strict_keys_def entries_insert_def sorted_wrt_append sorted_wrt_map intro: sorted_wrt_filter)

text \<open>Inserting an entry changes the code points from its key up to the next key.\<close>

lemma governs_insert_other:
  assumes "c < k \<or> (\<exists>e \<in> set es. k < fst e \<and> fst e \<le> c)"
  shows "governs (entries_insert k v es) c k' v' \<longleftrightarrow> governs es c k' v'"
  using assms unfolding governs_def by (auto dest: leD)

lemma governs_insert_same:
  assumes "\<not> c < k" "\<not> (\<exists>e \<in> set es. k < fst e \<and> fst e \<le> c)"
  shows "governs (entries_insert k v es) c k v"
  using assms unfolding governs_def by force

lemma contains_insert:
  assumes "strict_keys es"
  shows "contains (entries_insert k v es) c \<longleftrightarrow>
    (if c < k \<or> (\<exists>e \<in> set es. k < fst e \<and> fst e \<le> c) then contains es c else v \<noteq> None)"
proof (cases "c < k \<or> (\<exists>e \<in> set es. k < fst e \<and> fst e \<le> c)")
  case True
  then show ?thesis using governs_insert_other [OF True] by (simp add: contains_def)
next
  case False
  then have "governs (entries_insert k v es) c k v" by (intro governs_insert_same) auto
  with False show ?thesis using contains_governs [OF strict_entries_insert [OF assms]] by auto
qed

subsection \<open>Operations of the tree\<close>

lemma first_index_None: "first_index P xs = None \<longleftrightarrow> (\<forall>x \<in> set xs. \<not> P x)"
proof -
  have "length (takeWhile (\<lambda>x. \<not> P x) xs) < length xs \<longleftrightarrow> takeWhile (\<lambda>x. \<not> P x) xs \<noteq> xs"
    by (metis length_takeWhile_le le_neq_implies_less takeWhile_eq_take take_all_iff order_refl less_irrefl)
  then show ?thesis by (auto simp: first_index_def Let_def takeWhile_eq_all_conv)
qed

lemma first_index_Some:
  assumes "first_index P xs = Some i"
  shows "i < length xs \<and> P (xs ! i) \<and> (\<forall>j < i. \<not> P (xs ! j))"
proof -
  have i: "i = length (takeWhile (\<lambda>x. \<not> P x) xs)" "i < length xs"
    using assms by (auto simp: first_index_def Let_def split: if_splits)
  moreover have "\<not> P (xs ! j)" if "j < i" for j
    using that i by (metis nth_mem set_takeWhileD takeWhile_nth)
  ultimately show ?thesis using nth_length_takeWhile [of "\<lambda>x. \<not> P x" xs] by simp
qed

lemma strict_nth_less: "strict_keys es \<Longrightarrow> i < j \<Longrightarrow> j < length es \<Longrightarrow> fst (es ! i) < fst (es ! j)"
  by (simp add: strict_keys_def sorted_wrt_iff_nth_less)

lemma update_is_insert:
  assumes "strict_keys es" "i < length es"
  shows "es[i := (fst (es ! i), v)] = entries_insert (fst (es ! i)) v es"
proof -
  let ?k = "fst (es ! i)"
  have es: "es = take i es @ es ! i # drop (Suc i) es" using assms(2) by (rule id_take_nth_drop)
  have before: "fst e < ?k" if "e \<in> set (take i es)" for e
    using that assms by (auto simp: in_set_conv_nth intro: strict_nth_less)
  have after: "?k < fst e" if "e \<in> set (drop (Suc i) es)" for e
    using that assms by (auto simp: in_set_conv_nth intro!: strict_nth_less)
  have "filter (\<lambda>e. fst e < ?k) es = filter (\<lambda>e. fst e < ?k) (take i es) @ filter (\<lambda>e. fst e < ?k) (drop (Suc i) es)"
    "filter (\<lambda>e. ?k < fst e) es = filter (\<lambda>e. ?k < fst e) (take i es) @ filter (\<lambda>e. ?k < fst e) (drop (Suc i) es)"
    using arg_cong [OF es, of "filter (\<lambda>e. fst e < ?k)"] arg_cong [OF es, of "filter (\<lambda>e. ?k < fst e)"]
    by (simp_all only: filter_append filter.simps less_irrefl if_False)
  moreover have "filter (\<lambda>e. fst e < ?k) (take i es) = take i es" "filter (\<lambda>e. ?k < fst e) (take i es) = []"
    using before by (auto simp: filter_id_conv filter_empty_conv dest: less_asym)
  moreover have "filter (\<lambda>e. fst e < ?k) (drop (Suc i) es) = []" "filter (\<lambda>e. ?k < fst e) (drop (Suc i) es) = drop (Suc i) es"
    using after by (auto simp: filter_id_conv filter_empty_conv dest: less_asym)
  ultimately show ?thesis using assms(2) by (simp add: entries_insert_def upd_conv_take_nth_drop)
qed

text \<open>The laws, one by one.\<close>

lemma laws_insert:
  "tree_laws ops \<Longrightarrow> strict_keys (t_entries ops t) \<Longrightarrow> k \<notin> fst ` set (t_entries ops t) \<Longrightarrow>
     t_entries ops (t_insert ops k v t) = entries_insert k v (t_entries ops t)"
  by (simp add: tree_laws_def)

lemma laws_update:
  "tree_laws ops \<Longrightarrow> strict_keys (t_entries ops t) \<Longrightarrow> i < length (t_entries ops t) \<Longrightarrow>
     t_entries ops (t_update ops t i v) = entries_insert (fst (t_entries ops t ! i)) v (t_entries ops t)"
  using update_is_insert [of "t_entries ops t"] by (simp add: tree_laws_def)

lemma laws_query:
  assumes "tree_laws ops" "strict_keys (t_entries ops t)"
  shows "t_find ops t k = first_index (\<lambda>e. fst e = k) (t_entries ops t)"
    "t_le ops t k = last_index_le k (t_entries ops t)"
    "t_gt ops t k = first_index (\<lambda>e. k < fst e) (t_entries ops t)"
    "t_between ops t a b = filter (\<lambda>e. a \<le> fst e \<and> fst e < b) (t_entries ops t)"
  using assms by (simp_all add: tree_laws_def)

lemma put_entries:
  assumes "tree_laws ops" "strict_keys (t_entries ops t)"
  shows "t_entries ops (put ops k v t) = entries_insert k v (t_entries ops t)"
proof (cases "t_find ops t k")
  case None
  then have "k \<notin> fst ` set (t_entries ops t)" using laws_query(1) [OF assms] by (auto simp: first_index_None)
  then show ?thesis using laws_insert [OF assms] None by (simp add: put_def)
next
  case (Some i)
  then have "i < length (t_entries ops t)" "fst (t_entries ops t ! i) = k"
    using laws_query(1) [OF assms] first_index_Some by fastforce+
  then show ?thesis using laws_update [OF assms] Some by (simp add: put_def)
qed

text \<open>The last entry up to a key governs it; the next entry is the least one after it.\<close>

lemma last_index_le_governs:
  assumes "strict_keys es"
  shows "case last_index_le c es of
      None \<Rightarrow> \<forall>e \<in> set es. c < fst e
    | Some i \<Rightarrow> i < length es \<and> governs es c (fst (es ! i)) (snd (es ! i))"
proof -
  let ?n = "length (filter (\<lambda>e. fst e \<le> c) es)"
  have "sorted (map fst es)" using assms by (simp add: strict_keys_def strict_sorted_imp_sorted)
  then have prefix: "filter (\<lambda>e. fst e \<le> c) es = take ?n es"
  proof (induction es)
    case (Cons e es)
    have "filter (\<lambda>e. fst e \<le> c) es = []" if "\<not> fst e \<le> c"
      using Cons.prems that by (fastforce simp: filter_empty_conv)
    with Cons show ?case by (cases "fst e \<le> c") simp_all
  qed simp
  have n: "?n \<le> length es" by simp
  have le: "fst (es ! j) \<le> c \<longleftrightarrow> j < ?n" if "j < length es" for j
  proof
    assume "j < ?n"
    then have "es ! j \<in> set (filter (\<lambda>e. fst e \<le> c) es)" by (metis prefix nth_mem nth_take)
    then show "fst (es ! j) \<le> c" by simp
  next
    assume "fst (es ! j) \<le> c"
    then have "es ! j \<in> set (take ?n es)" using that by (simp flip: prefix)
    then obtain i where "i < ?n" "es ! i = es ! j" by (auto simp: in_set_conv_nth)
    then show "j < ?n" using strict_nth_less [OF assms, of i j] that by (metis less_irrefl linorder_neqE_nat order_less_trans)
  qed
  show ?thesis
  proof (cases ?n)
    case 0
    then show ?thesis by (simp add: last_index_le_def filter_empty_conv not_le)
  next
    case (Suc i)
    have i: "i < length es" using Suc n by simp
    have "fst e \<le> fst (es ! i)" if "e \<in> set es" "fst e \<le> c" for e
      using that le Suc strict_nth_less [OF assms, of _ i] i
      by (metis in_set_conv_nth less_Suc_eq_le nat_less_le order_refl less_imp_le)
    then have "governs es c (fst (es ! i)) (snd (es ! i))" using i le Suc by (simp add: governs_def)
    then show ?thesis using Suc i by (simp add: last_index_le_def)
  qed
qed


subsection \<open>Adding a range\<close>

text \<open>The entries without a value whose key is after the beginning of a range, up to its end.\<close>

definition gap_in :: "(nat \<times> 'v option) list \<Rightarrow> nat \<Rightarrow> nat \<Rightarrow> nat \<Rightarrow> bool" where
  "gap_in es from to k \<longleftrightarrow> (k, None) \<in> set es \<and> from < k \<and> k \<le> to"

text \<open>Filling the gaps fills the last gap only.\<close>

lemma fill_gaps_entries:
  assumes "tree_laws ops" "strict_keys (t_entries ops t)"
  shows "(\<nexists>k. gap_in (t_entries ops t) from to k) \<and> t_entries ops (fill_gaps ops from to el t) = t_entries ops t \<or>
    (\<exists>k. gap_in (t_entries ops t) from to k \<and> (\<forall>k'. gap_in (t_entries ops t) from to k' \<longrightarrow> k' \<le> k) \<and>
       t_entries ops (fill_gaps ops from to el t) = entries_insert k (Some el) (t_entries ops t))"
proof -
  let ?es = "t_entries ops t"
  let ?gap = "\<lambda>i. from < fst (?es ! i) \<and> fst (?es ! i) \<le> to \<and> snd (?es ! i) = None"
  let ?f = "\<lambda>i contents. case ?es ! i of (key, v) \<Rightarrow>
     if from < key \<and> key \<le> to \<and> v = None then t_update ops t i (Some el) else contents"
  have loop: "(\<nexists>i. i < n \<and> ?gap i) \<and> fold ?f [0..<n] t = t \<or>
      (\<exists>i < n. ?gap i \<and> (\<forall>j < n. ?gap j \<longrightarrow> j \<le> i) \<and> fold ?f [0..<n] t = t_update ops t i (Some el))" for n
  proof (induction n)
    case (Suc n)
    show ?case
    proof (cases "?gap n")
      case True
      then have "fold ?f [0..<Suc n] t = t_update ops t n (Some el)" by (simp add: case_prod_beta)
      with True show ?thesis by (auto simp: less_Suc_eq)
    next
      case False
      then have "fold ?f [0..<Suc n] t = fold ?f [0..<n] t" by (auto simp: case_prod_beta)
      with Suc False show ?thesis by (auto simp: less_Suc_eq)
    qed
  qed simp
  have gap: "gap_in ?es from to k \<longleftrightarrow> (\<exists>i < length ?es. ?gap i \<and> fst (?es ! i) = k)" for k
    by (auto simp: gap_in_def in_set_conv_nth) (metis prod.collapse)
  from loop [of "length ?es"] show ?thesis
  proof (elim disjE exE conjE)
    assume "\<nexists>i. i < length ?es \<and> ?gap i" "fold ?f [0..<length ?es] t = t"
    then show ?thesis using gap by (auto simp: fill_gaps_def)
  next
    fix i
    assume i: "i < length ?es" "from < fst (?es ! i)" "fst (?es ! i) \<le> to" "snd (?es ! i) = None"
      "\<forall>j < length ?es. ?gap j \<longrightarrow> j \<le> i" "fold ?f [0..<length ?es] t = t_update ops t i (Some el)"
    have "k' \<le> fst (?es ! i)" if "gap_in ?es from to k'" for k'
      using that i(1,5) strict_nth_less [OF assms(2)] unfolding gap by (metis nat_less_le less_imp_le order_refl)
    moreover have "gap_in ?es from to (fst (?es ! i))" using gap i(1-4) by blast
    moreover have "t_entries ops (fill_gaps ops from to el t) = entries_insert (fst (?es ! i)) (Some el) ?es"
      using laws_update [OF assms i(1)] i(6) by (simp add: fill_gaps_def)
    ultimately show ?thesis by blast
  qed
qed

lemma next_entry:
  assumes "strict_keys es" "governs es c k v"
  shows "case first_index (\<lambda>e. k < fst e) es of
      None \<Rightarrow> \<forall>e \<in> set es. fst e \<le> c
    | Some i \<Rightarrow> es ! i \<in> set es \<and> c < fst (es ! i) \<and> (\<forall>e \<in> set es. c < fst e \<longrightarrow> fst (es ! i) \<le> fst e)"
proof (cases "first_index (\<lambda>e. k < fst e) es")
  case None
  then have "\<forall>e \<in> set es. fst e \<le> k" by (auto simp: first_index_None)
  then show ?thesis using assms(2) None by (auto simp: governs_def)
next
  case (Some i)
  from first_index_Some [OF this] have i: "i < length es" "k < fst (es ! i)" "\<forall>j < i. \<not> k < fst (es ! j)" by auto
  have "c < fst (es ! i)" using i(1,2) assms(2) by (auto simp: governs_def not_le [symmetric])
  moreover have "fst (es ! i) \<le> fst e" if "e \<in> set es" "c < fst e" for e
  proof -
    from that(1) obtain j where j: "j < length es" "e = es ! j" by (auto simp: in_set_conv_nth)
    have "k < fst (es ! j)" using that(2) j(2) assms(2) by (auto simp: governs_def)
    then have "\<not> j < i" using i(3) by blast
    then show ?thesis using strict_nth_less [OF assms(1), of i j] j by (cases "i = j") auto
  qed
  ultimately show ?thesis using Some i(1) by simp
qed

text \<open>
  The end of the range: afterwards the code point after the range is governed as before. The old entry is the one that
  governed the end of the range.
\<close>

lemma addRange_entries:
  assumes laws: "tree_laws ops" and strict: "strict_keys (t_entries ops t)"
    and fs: "fs = t_entries ops (fill_gaps ops from to el (put ops from (Some el) t))" and sfs: "strict_keys fs"
    and keys: "fst ` set fs = insert from (fst ` set (t_entries ops t))" and range: "from \<le> to"
  shows "t_entries ops (addRange ops from to el t) = fs \<and>
      (to + 1 \<le> MAX_CODE_POINT \<longrightarrow> to + 1 \<in> fst ` set (t_entries ops t)) \<or>
    to + 1 \<le> MAX_CODE_POINT \<and> to + 1 \<notin> fst ` set (t_entries ops t) \<and>
      (\<exists>w. t_entries ops (addRange ops from to el t) = entries_insert (to + 1) w fs \<and>
         (w \<noteq> None \<longleftrightarrow> contains (t_entries ops t) to))"
proof (cases "to + 1 \<le> MAX_CODE_POINT")
  case False
  then show ?thesis using fs by (simp add: addRange_def Let_def)
next
  case True
  let ?es = "t_entries ops t"
  define oldEntry where "oldEntry = map_option (\<lambda>i. ?es ! i) (t_le ops t to)"
  define oldEnd where "oldEnd = Option.bind oldEntry (\<lambda>e. map_option (\<lambda>i. fst (?es ! i)) (t_gt ops t (fst e)))"
  have old: "case oldEntry of None \<Rightarrow> \<forall>e \<in> set ?es. to < fst e | Some e \<Rightarrow> governs ?es to (fst e) (snd e)"
    using last_index_le_governs [OF strict, of to] laws_query(2) [OF laws strict, of to]
    by (auto simp: oldEntry_def split: option.splits)
  then have val: "Option.bind oldEntry snd \<noteq> None \<longleftrightarrow> contains ?es to"
  proof (cases oldEntry)
    case None
    with old show ?thesis by (auto simp: contains_def governs_def)
  next
    case (Some e)
    with old have "governs ?es to (fst e) (snd e)" by simp
    from contains_governs [OF strict this] Some show ?thesis by simp
  qed
  have find: "t_find ops (fill_gaps ops from to el (put ops from (Some el) t)) (to + 1) = None \<longleftrightarrow> to + 1 \<notin> fst ` set ?es"
  proof -
    have "t_find ops (fill_gaps ops from to el (put ops from (Some el) t)) (to + 1) = first_index (\<lambda>e. fst e = to + 1) fs"
      using laws_query(1) [OF laws] sfs fs by simp
    also have "\<dots> = None \<longleftrightarrow> to + 1 \<notin> fst ` set fs" by (auto simp: first_index_None image_iff)
    finally show ?thesis using keys range by simp
  qed
  have beyond: "case oldEnd of None \<Rightarrow> \<forall>e \<in> set ?es. fst e \<le> to
      | Some k \<Rightarrow> k \<in> fst ` set ?es \<and> to < k \<and> (\<forall>e \<in> set ?es. to < fst e \<longrightarrow> k \<le> fst e)" if "oldEntry \<noteq> None"
  proof -
    from that old obtain e where e: "oldEntry = Some e" "governs ?es to (fst e) (snd e)" by auto
    then have "oldEnd = map_option (\<lambda>i. fst (?es ! i)) (first_index (\<lambda>x. fst e < fst x) ?es)"
      using laws_query(3) [OF laws strict] by (simp add: oldEnd_def)
    with next_entry [OF strict e(2)] show ?thesis
      by (cases "first_index (\<lambda>x. fst e < fst x) ?es") simp_all
  qed
  have cont: "(case oldEnd of None \<Rightarrow> True | Some e \<Rightarrow> to + 1 < e) \<longleftrightarrow> to + 1 \<notin> fst ` set ?es" if "oldEntry \<noteq> None"
    using beyond [OF that] by (force split: option.splits)
  have result: "addRange ops from to el t =
      (let contents = fill_gaps ops from to el (put ops from (Some el) t) in
       if Option.bind oldEntry snd \<noteq> None \<and> (case oldEnd of None \<Rightarrow> True | Some e \<Rightarrow> to + 1 < e)
       then put ops (to + 1) (Option.bind oldEntry snd) contents
       else if t_find ops contents (to + 1) = None then put ops (to + 1) None contents else contents)"
    using True by (simp only: addRange_def Let_def if_True oldEntry_def oldEnd_def)
  have put: "t_entries ops (put ops (to + 1) w (fill_gaps ops from to el (put ops from (Some el) t))) = entries_insert (to + 1) w fs" for w
    using put_entries [OF laws] sfs fs by simp
  show ?thesis
  proof (cases "to + 1 \<in> fst ` set ?es")
    case True
    then have "addRange ops from to el t = fill_gaps ops from to el (put ops from (Some el) t)"
      using result cont find by (cases oldEntry) (auto simp: Let_def)
    then show ?thesis using True fs by simp
  next
    case False
    then have "addRange ops from to el t =
        put ops (to + 1) (Option.bind oldEntry snd) (fill_gaps ops from to el (put ops from (Some el) t))"
      using result cont find by (cases oldEntry) (auto simp: Let_def)
    then have "t_entries ops (addRange ops from to el t) = entries_insert (to + 1) (Option.bind oldEntry snd) fs"
      using put by simp
    then show ?thesis using False val \<open>to + 1 \<le> MAX_CODE_POINT\<close> by blast
  qed
qed


text \<open>
  A code point of the range is lost if it is in a gap that starts in the range, and another gap of the range
  follows.
\<close>

definition lost :: "(nat \<times> 'v option) list \<Rightarrow> nat \<Rightarrow> nat \<Rightarrow> nat \<Rightarrow> bool" where
  "lost es from to c \<longleftrightarrow> (\<exists>k. governs es c k None \<and> from < k) \<and> (\<exists>k'. c < k' \<and> gap_in es from to k')"

lemma contains_first:
  assumes "strict_keys es"
  shows "contains (entries_insert from (Some el) es) c \<longleftrightarrow>
    contains es c \<or> from \<le> c \<and> \<not> (\<exists>k. governs es c k None \<and> from < k)"
proof (cases "c < from")
  case True
  then show ?thesis by (simp add: contains_insert [OF assms])
next
  case False
  show ?thesis
  proof (cases "\<exists>e \<in> set es. from < fst e \<and> fst e \<le> c")
    case True
    then obtain k v where "governs es c k v" "from < k" by (meson governs_exists less_le_trans)
    with assms have "contains es c \<longleftrightarrow> \<not> (\<exists>k. governs es c k None \<and> from < k)"
      using contains_governs governs_unique by (metis option.exhaust option.distinct(1))
    with True False show ?thesis by (auto simp: contains_insert [OF assms])
  next
    case none: False
    then have "\<not> (\<exists>k. governs es c k None \<and> from < k)" by (auto simp: governs_def)
    with none False show ?thesis by (auto simp: contains_insert [OF assms])
  qed
qed

text \<open>The class after the first key and the gaps, up to the end of the range and, where an entry follows, after it.\<close>

lemma filled_contains:
  assumes laws: "tree_laws ops" and strict: "strict_keys (t_entries ops t)" and range: "from \<le> to"
    and es_def: "es = t_entries ops t" and fs_def: "fs = t_entries ops (fill_gaps ops from to el (put ops from (Some el) t))"
  shows "strict_keys fs \<and> fst ` set fs = insert from (fst ` set es) \<and> (\<forall>k. (k, None) \<in> set fs \<longrightarrow> (k, None) \<in> set es) \<and>
    (\<forall>c \<le> to. contains fs c \<longleftrightarrow> contains es c \<or> from \<le> c \<and> \<not> lost es from to c) \<and>
    (\<forall>c. (\<exists>e \<in> set es. to < fst e \<and> fst e \<le> c) \<longrightarrow> (contains fs c \<longleftrightarrow> contains es c))"
proof -
  let ?gs = "entries_insert from (Some el) es"
  have es: "strict_keys es" using strict by (simp add: es_def)
  have put: "t_entries ops (put ops from (Some el) t) = ?gs" using put_entries [OF laws strict] by (simp add: es_def)
  have gs: "strict_keys ?gs" using strict_entries_insert [OF es] .
  have gap: "gap_in ?gs from to k \<longleftrightarrow> gap_in es from to k" for k by (auto simp: gap_in_def)
  from fill_gaps_entries [OF laws, of "put ops from (Some el) t" "from" to el] gs
  consider (none) "\<nexists>k. gap_in es from to k" "fs = ?gs"
    | (last) g where "gap_in es from to g" "\<forall>k. gap_in es from to k \<longrightarrow> k \<le> g" "fs = entries_insert g (Some el) ?gs"
    unfolding put gap fs_def by blast
  then show ?thesis
  proof cases
    case none
    have "\<not> lost es from to c" for c using none by (auto simp: lost_def)
    moreover have "\<not> (\<exists>k. governs es c k None \<and> from < k)" if "c \<le> to" for c
      using none(1) that unfolding gap_in_def governs_def by (metis le_trans)
    moreover have "contains fs c \<longleftrightarrow> contains es c" if "\<exists>e \<in> set es. to < fst e \<and> fst e \<le> c" for c
      using that range unfolding none(2) by (auto simp: contains_insert [OF es])
    ultimately show ?thesis using gs unfolding none(2) by (auto simp: contains_first [OF es])
  next
    case (last g)
    have g: "(g, None) \<in> set es" "from < g" "g \<le> to" using last(1) by (auto simp: gap_in_def)
    have le: "contains fs c \<longleftrightarrow> contains es c \<or> from \<le> c \<and> \<not> lost es from to c" if c: "c \<le> to" for c
    proof (cases "c < g")
      case True
      then have "contains fs c \<longleftrightarrow> contains ?gs c" unfolding last(3) by (simp add: contains_insert [OF gs])
      moreover have "lost es from to c \<longleftrightarrow> (\<exists>k. governs es c k None \<and> from < k)" using True last(1) by (auto simp: lost_def)
      ultimately show ?thesis by (simp add: contains_first [OF es])
    next
      case False
      have "\<not> lost es from to c" using False last(2) by (force simp: lost_def)
      moreover have "contains fs c"
      proof (cases "\<exists>e \<in> set ?gs. g < fst e \<and> fst e \<le> c")
        case True
        then have "\<exists>e \<in> set es. g < fst e \<and> fst e \<le> c" using g(2) by force
        then obtain k v where k: "governs es c k v" "g < k" by (meson governs_exists less_le_trans)
        have "v \<noteq> None" using k last(2) c g(2) unfolding governs_def gap_in_def by (metis less_le_trans less_trans not_le)
        then have "contains es c" using contains_governs [OF es k(1)] by simp
        then have "contains ?gs c" by (simp add: contains_first [OF es])
        with True show ?thesis unfolding last(3) by (auto simp: contains_insert [OF gs])
      qed (use False in \<open>auto simp: last(3) contains_insert [OF gs]\<close>)
      ultimately show ?thesis using False g(2) by simp
    qed
    have beyond: "contains fs c \<longleftrightarrow> contains es c" if e: "e \<in> set es" "to < fst e" "fst e \<le> c" for c e
    proof -
      have "e \<in> set ?gs" "g < fst e" "from < fst e" using e g range by auto
      then have later: "\<exists>x \<in> set ?gs. g < fst x \<and> fst x \<le> c" "\<exists>x \<in> set es. from < fst x \<and> fst x \<le> c" using e by blast+
      have "contains fs c \<longleftrightarrow> contains ?gs c" using later(1) unfolding last(3) contains_insert [OF gs] by simp
      also have "\<dots> \<longleftrightarrow> contains es c" using later(2) unfolding contains_insert [OF es] by simp
      finally show ?thesis .
    qed
    have "g \<in> fst ` set es" using g(1) by force
    then have "fst ` set fs = insert from (fst ` set es)" unfolding last(3) keys_entries_insert by auto
    moreover have "strict_keys fs" using strict_entries_insert [OF gs] by (simp add: last(3))
    moreover have "\<forall>k. (k, None) \<in> set fs \<longrightarrow> (k, None) \<in> set es" by (auto simp: last(3))
    ultimately show ?thesis using le beyond by blast
  qed
qed


lemma contains_no_entry:
  assumes "a \<le> b" "\<forall>e \<in> set es. a < fst e \<longrightarrow> b < fst e"
  shows "contains es a \<longleftrightarrow> contains es b"
proof -
  have "governs es a k v \<longleftrightarrow> governs es b k v" for k v
    using assms unfolding governs_def by (metis fst_conv le_trans not_le)
  then show ?thesis by (simp add: contains_def)
qed

lemma addRange_contains:
  assumes laws: "tree_laws ops" and strict: "strict_keys (t_entries ops t)" and range: "from \<le> to"
    and es: "es = t_entries ops t" and es': "es' = t_entries ops (addRange ops from to el t)"
  shows "strict_keys es' \<and> (\<forall>k. (k, None) \<in> set es' \<longrightarrow> (k, None) \<in> set es \<or> k = to + 1) \<and>
    fst ` set es' \<subseteq> fst ` set es \<union> {from} \<union> {k. k = to + 1 \<and> k \<le> MAX_CODE_POINT} \<and>
    (\<forall>c \<le> MAX_CODE_POINT. contains es' c \<longleftrightarrow> contains es c \<or> from \<le> c \<and> c \<le> to \<and> \<not> lost es from to c)"
proof -
  let ?fs = "t_entries ops (fill_gaps ops from to el (put ops from (Some el) t))"
  have fs: "strict_keys ?fs" "fst ` set ?fs = insert from (fst ` set es)" "\<forall>k. (k, None) \<in> set ?fs \<longrightarrow> (k, None) \<in> set es"
    "\<And>c. c \<le> to \<Longrightarrow> contains ?fs c \<longleftrightarrow> contains es c \<or> from \<le> c \<and> \<not> lost es from to c"
    "\<And>c e. e \<in> set es \<Longrightarrow> to < fst e \<Longrightarrow> fst e \<le> c \<Longrightarrow> contains ?fs c \<longleftrightarrow> contains es c"
    using filled_contains [OF laws strict range es refl] by blast+
  from addRange_entries [OF laws strict refl fs(1) fs(2) [unfolded es] range]
  consider (same) "es' = ?fs" "to + 1 \<le> MAX_CODE_POINT \<longrightarrow> to + 1 \<in> fst ` set es"
    | (ins) w where "es' = entries_insert (to + 1) w ?fs" "w \<noteq> None \<longleftrightarrow> contains es to" "to + 1 \<notin> fst ` set es" "to + 1 \<le> MAX_CODE_POINT"
    unfolding es es' by blast
  then show ?thesis
  proof cases
    case same
    have "contains es' c \<longleftrightarrow> contains es c" if "c \<le> MAX_CODE_POINT" "to < c" for c
    proof -
      from same(2) that obtain x where "x \<in> set es" "fst x = to + 1" by auto
      then show ?thesis using fs(5) [of x c] that(2) same(1) by simp
    qed
    then have "contains es' c \<longleftrightarrow> contains es c \<or> from \<le> c \<and> c \<le> to \<and> \<not> lost es from to c" if "c \<le> MAX_CODE_POINT" for c
      using fs(4) [of c] same(1) that by (cases "c \<le> to") auto
    then show ?thesis using fs(1-3) same(1) by auto
  next
    case (ins w)
    have "contains es' c \<longleftrightarrow> contains es c" if "to < c" for c
    proof (cases "\<exists>e \<in> set ?fs. to + 1 < fst e \<and> fst e \<le> c")
      case True
      then obtain e where e: "e \<in> set ?fs" "to + 1 < fst e" "fst e \<le> c" by blast
      then have "fst e \<in> fst ` set es" using fs(2) range by (metis imageI insertE add_lessD1 leD)
      then obtain x where "x \<in> set es" "to < fst x" "fst x \<le> c" using e by force
      then have "contains ?fs c \<longleftrightarrow> contains es c" by (rule fs(5))
      then show ?thesis using True unfolding ins(1) by (simp only: contains_insert [OF fs(1)] if_True simp_thms)
    next
      case False
      have "c < fst e" if "e \<in> set es" "to < fst e" for e
      proof -
        have "fst e \<in> fst ` set ?fs" using that(1) fs(2) by simp
        then obtain x where x: "x \<in> set ?fs" "fst x = fst e" by auto
        have "fst e \<noteq> to + 1" using that(1) ins(3) by force
        with that(2) x False show "c < fst e" by force
      qed
      then have "contains es to \<longleftrightarrow> contains es c" using \<open>to < c\<close> by (intro contains_no_entry) auto
      moreover have "contains es' c \<longleftrightarrow> w \<noteq> None"
        using False \<open>to < c\<close> unfolding ins(1) contains_insert [OF fs(1)] by (simp only: if_False not_less simp_thms) simp
      ultimately show ?thesis using ins(2) by simp
    qed
    moreover have "contains es' c \<longleftrightarrow> contains ?fs c" if "c \<le> to" for c
      using that unfolding ins(1) by (simp add: contains_insert [OF fs(1)])
    ultimately have cont: "contains es' c \<longleftrightarrow> contains es c \<or> from \<le> c \<and> c \<le> to \<and> \<not> lost es from to c" for c
      using fs(4) [of c] by (cases "c \<le> to") simp_all
    have sorted: "strict_keys es'" using strict_entries_insert [OF fs(1)] ins(1) by simp
    have gaps: "\<forall>k. (k, None) \<in> set es' \<longrightarrow> (k, None) \<in> set es \<or> k = to + 1" using fs(3) unfolding ins(1) by auto
    have "fst ` set es' = insert (to + 1) (fst ` set ?fs)" unfolding ins(1) by (rule keys_entries_insert)
    then have keys: "fst ` set es' \<subseteq> fst ` set es \<union> {from} \<union> {k. k = to + 1 \<and> k \<le> MAX_CODE_POINT}"
      unfolding fs(2) using ins(4) by (simp, blast)
    show ?thesis by (rule conjI [OF sorted conjI [OF gaps conjI [OF keys]]]) (simp only: cont simp_thms)
  qed
qed

text \<open>
  A well-formed class: keys are code points in their order, and every gap follows a code point of the class, so that no gap comes
  first and no two gaps are adjacent.
\<close>

definition class_wf :: "(nat \<times> 'v option) list \<Rightarrow> bool" where
  "class_wf es \<longleftrightarrow> strict_keys es \<and> fst ` set es \<subseteq> {..MAX_CODE_POINT} \<and>
     (\<forall>k. (k, None) \<in> set es \<longrightarrow> 0 < k \<and> contains es (k - 1))"

lemma class_wf_empty: "class_wf []"
  by (simp add: class_wf_def strict_keys_def)

lemma addRange_wf:
  assumes "tree_laws ops" "class_wf (t_entries ops t)" "from \<le> to" "to \<le> MAX_CODE_POINT"
  shows "class_wf (t_entries ops (addRange ops from to el t))"
proof -
  let ?es = "t_entries ops t" and ?es' = "t_entries ops (addRange ops from to el t)"
  have wf: "strict_keys ?es" "fst ` set ?es \<subseteq> {..MAX_CODE_POINT}" "\<And>k. (k, None) \<in> set ?es \<Longrightarrow> 0 < k \<and> contains ?es (k - 1)"
    using assms(2) by (auto simp: class_wf_def)
  note add = addRange_contains [OF assms(1) wf(1) assms(3) refl refl, of el]
  have keys: "fst ` set ?es' \<subseteq> {..MAX_CODE_POINT}" using add wf(2) assms(3,4) by fastforce
  have "0 < k \<and> contains ?es' (k - 1)" if "(k, None) \<in> set ?es'" for k
  proof (cases "(k, None) \<in> set ?es")
    case True
    then have "k - 1 \<le> MAX_CODE_POINT" using wf(2) by force
    with wf(3) [OF True] add show ?thesis by blast
  next
    case False
    then have k: "k = to + 1" using that add by blast
    have "\<not> lost ?es from to to" by (auto simp: lost_def gap_in_def)
    then show ?thesis using add assms(3,4) k by simp
  qed
  then show ?thesis using add keys unfolding class_wf_def by blast
qed


subsection \<open>Intersections\<close>

text \<open>A class has an entry in an interval exactly if it contains a code point of the interval.\<close>

lemma hasEntryBetween_iff:
  assumes "tree_laws ops" "class_wf (t_entries ops t)" "a \<le> b"
  shows "hasEntryBetween ops t a b \<longleftrightarrow> (\<exists>c. a \<le> c \<and> c \<le> b \<and> contains (t_entries ops t) c)"
proof -
  let ?es = "t_entries ops t"
  have wf: "strict_keys ?es" "\<And>k. (k, None) \<in> set ?es \<Longrightarrow> 0 < k \<and> contains ?es (k - 1)"
    using assms(2) by (auto simp: class_wf_def)
  have first: "(case t_le ops t a of None \<Rightarrow> False | Some i \<Rightarrow> snd (?es ! i) \<noteq> None) \<longleftrightarrow> contains ?es a"
  proof (cases "t_le ops t a")
    case None
    then have "\<forall>e \<in> set ?es. a < fst e"
      using last_index_le_governs [OF wf(1), of a] laws_query(2) [OF assms(1) wf(1)] by simp
    with None show ?thesis by (auto simp: contains_def governs_def)
  next
    case (Some i)
    then have "governs ?es a (fst (?es ! i)) (snd (?es ! i))"
      using last_index_le_governs [OF wf(1), of a] laws_query(2) [OF assms(1) wf(1)] by simp
    from contains_governs [OF wf(1) this] Some show ?thesis by simp
  qed
  have rest: "\<not> isRangeEmpty ops t (a + 1) (b + 1) \<longleftrightarrow> (\<exists>e \<in> set ?es. a < fst e \<and> fst e \<le> b)"
    using laws_query(4) [OF assms(1) wf(1)] by (simp add: isRangeEmpty_def filter_empty_conv Suc_le_eq less_Suc_eq_le)
  show ?thesis unfolding hasEntryBetween_def first rest
  proof (intro iffI; (elim disjE bexE exE conjE)?)
    fix e assume e: "e \<in> set ?es" "a < fst e" "fst e \<le> b"
    show "\<exists>c. a \<le> c \<and> c \<le> b \<and> contains ?es c"
    proof (cases "snd e")
      case None
      then have "contains ?es (fst e - 1)" using wf(2) [of "fst e"] e(1) by (cases e) auto
      then show ?thesis using e by (intro exI [of _ "fst e - 1"]) auto
    next
      case (Some v)
      then have "governs ?es (fst e) (fst e) (Some v)" using e(1) by (cases e) (auto simp: governs_def)
      then show ?thesis using e by (auto simp: contains_def intro!: exI [of _ "fst e"])
    qed
  next
    fix c assume c: "a \<le> c" "c \<le> b" "contains ?es c"
    show "contains ?es a \<or> (\<exists>e \<in> set ?es. a < fst e \<and> fst e \<le> b)"
    proof (cases "\<exists>e \<in> set ?es. a < fst e \<and> fst e \<le> c")
      case True
      then show ?thesis using c(2) by (meson le_trans)
    next
      case False
      then have "contains ?es a \<longleftrightarrow> contains ?es c" using c(1) by (intro contains_no_entry) auto
      then show ?thesis using c(3) by simp
    qed
  qed (use assms(3) in auto)
qed

text \<open>
  Where the search takes the interval of an entry to end: before the next entry if that is a gap, at its key if it has a
  value.
\<close>

definition interval_end :: "(nat \<times> 'v option) list \<Rightarrow> nat \<Rightarrow> nat" where
  "interval_end es i =
     (if Suc i < length es then if snd (es ! Suc i) \<noteq> None then fst (es ! Suc i) else fst (es ! Suc i) - 1
      else MAX_CODE_POINT)"

lemma interval_end_Cons: "interval_end (e # es) (Suc i) = interval_end es i"
  by (simp add: interval_end_def)

lemma ex_less_Suc_conv: "(\<exists>i < Suc n. P i) \<longleftrightarrow> P 0 \<or> (\<exists>i < n. P (Suc i))"
  by (metis less_Suc_eq_0_disj not0_implies_Suc zero_less_Suc Suc_less_eq)

lemma intersections_from_iff:
  "e \<in> set (intersections_from has es) \<longleftrightarrow>
     (\<exists>i < length es. snd (es ! i) = Some e \<and> has (fst (es ! i)) (interval_end es i))"
proof (induction has es rule: intersections_from.induct)
  case (2 has key v)
  then show ?case by (auto simp: interval_end_def split: option.splits)
next
  case (3 has key v key' v' es)
  have "(\<exists>i < length ((key, v) # (key', v') # es). snd (((key, v) # (key', v') # es) ! i) = Some e \<and>
        has (fst (((key, v) # (key', v') # es) ! i)) (interval_end ((key, v) # (key', v') # es) i)) \<longleftrightarrow>
      (v = Some e \<and> has key (if v' \<noteq> None then key' else key' - 1)) \<or>
      e \<in> set (intersections_from has ((key', v') # es))"
    unfolding 3 [OF refl] list.size(4) [of "(key, v)"] add_0_right add_Suc_right ex_less_Suc_conv
    by (simp add: interval_end_Cons, simp add: interval_end_def)
  then show ?case by (auto simp: Let_def split: option.splits)
qed simp

text \<open>Code points up to the end of an interval are governed by its entry, but for the key of a next entry with a value.\<close>

lemma interval_governed:
  assumes "strict_keys es" "fst ` set es \<subseteq> {..MAX_CODE_POINT}" "i < length es"
  shows "fst (es ! i) \<le> interval_end es i"
    "fst (es ! i) \<le> c \<and> c \<le> interval_end es i \<longleftrightarrow>
      c \<le> MAX_CODE_POINT \<and> governs es c (fst (es ! i)) (snd (es ! i)) \<or>
      Suc i < length es \<and> snd (es ! Suc i) \<noteq> None \<and> c = fst (es ! Suc i)"
proof -
  have le: "fst e \<le> MAX_CODE_POINT" if "e \<in> set es" for e using assms(2) that by auto
  have gov: "governs es c (fst (es ! i)) (snd (es ! i)) \<longleftrightarrow> fst (es ! i) \<le> c \<and> (Suc i < length es \<longrightarrow> c < fst (es ! Suc i))"
  proof
    assume "governs es c (fst (es ! i)) (snd (es ! i))"
    then show "fst (es ! i) \<le> c \<and> (Suc i < length es \<longrightarrow> c < fst (es ! Suc i))"
      using strict_nth_less [OF assms(1), of i "Suc i"] by (auto simp: governs_def not_less [symmetric])
  next
    assume r: "fst (es ! i) \<le> c \<and> (Suc i < length es \<longrightarrow> c < fst (es ! Suc i))"
    have "fst (es ! j) \<le> fst (es ! i)" if "j < length es" "fst (es ! j) \<le> c" for j
    proof (rule ccontr)
      assume "\<not> fst (es ! j) \<le> fst (es ! i)"
      then have "i < j" using strict_nth_less [OF assms(1), of j i] assms(3) by (metis le_eq_less_or_eq linorder_neqE_nat)
      then have "Suc i < length es" "Suc i = j \<or> Suc i < j" using that(1) by auto
      then have "fst (es ! Suc i) \<le> fst (es ! j)" using strict_nth_less [OF assms(1), of "Suc i" j] that(1) by auto
      then show False using r that(2) \<open>Suc i < length es\<close> by simp
    qed
    then have "fst e \<le> fst (es ! i)" if "e \<in> set es" "fst e \<le> c" for e using that by (metis in_set_conv_nth)
    then show "governs es c (fst (es ! i)) (snd (es ! i))" using r assms(3) by (simp add: governs_def)
  qed
  have "fst (es ! i) < fst (es ! Suc i)" "fst (es ! Suc i) \<le> MAX_CODE_POINT" if "Suc i < length es"
    using strict_nth_less [OF assms(1), of i "Suc i"] that le by auto
  then show "fst (es ! i) \<le> interval_end es i"
    "fst (es ! i) \<le> c \<and> c \<le> interval_end es i \<longleftrightarrow>
      c \<le> MAX_CODE_POINT \<and> governs es c (fst (es ! i)) (snd (es ! i)) \<or>
      Suc i < length es \<and> snd (es ! Suc i) \<noteq> None \<and> c = fst (es ! Suc i)"
    unfolding gov using le [of "es ! i"] assms(3) by (auto simp: interval_end_def)
qed


subsection \<open>The properties\<close>

text \<open>
  C10: adding a range keeps a class well-formed, and adds exactly the code points of the range, except for those in
  a gap that starts in the range and is followed by another gap of the range: each filled gap starts from the tree
  before the loop again, so only the last one is kept. With one gap at most, the result is the union.
\<close>

theorem addRange_correct:
  assumes "tree_laws ops" "class_wf (t_entries ops t)" "from \<le> to" "to \<le> MAX_CODE_POINT"
  shows "class_wf (t_entries ops (addRange ops from to el t)) \<and>
    {c. c \<le> MAX_CODE_POINT \<and> contains (t_entries ops (addRange ops from to el t)) c} =
      {c. c \<le> MAX_CODE_POINT \<and> contains (t_entries ops t) c} \<union> {c \<in> {from..to}. \<not> lost (t_entries ops t) from to c} \<and>
    (card {k. gap_in (t_entries ops t) from to k} \<le> 1 \<longrightarrow>
      {c. c \<le> MAX_CODE_POINT \<and> contains (t_entries ops (addRange ops from to el t)) c} =
        {c. c \<le> MAX_CODE_POINT \<and> contains (t_entries ops t) c} \<union> {from..to})"
proof -
  let ?es = "t_entries ops t" and ?es' = "t_entries ops (addRange ops from to el t)"
  have strict: "strict_keys ?es" using assms(2) by (simp add: class_wf_def)
  have "\<forall>c \<le> MAX_CODE_POINT. contains ?es' c \<longleftrightarrow> contains ?es c \<or> from \<le> c \<and> c \<le> to \<and> \<not> lost ?es from to c"
    using addRange_contains [OF assms(1) strict assms(3) refl refl] by blast
  then have exact: "{c. c \<le> MAX_CODE_POINT \<and> contains ?es' c} =
      {c. c \<le> MAX_CODE_POINT \<and> contains ?es c} \<union> {c \<in> {from..to}. \<not> lost ?es from to c}"
    using assms(4) by auto
  have "\<not> lost ?es from to c" if one: "card {k. gap_in ?es from to k} \<le> 1" for c
  proof
    assume l: "lost ?es from to c"
    then obtain k k' where k: "governs ?es c k None" "from < k" "c < k'" "gap_in ?es from to k'" by (auto simp: lost_def)
    then have "gap_in ?es from to k" "k < k'" by (auto simp: governs_def gap_in_def)
    moreover have "finite {k. gap_in ?es from to k}" by (rule finite_subset [of _ "{..to}"]) (auto simp: gap_in_def)
    ultimately show False using one k(4) card_le_Suc0_iff_eq [of "{k. gap_in ?es from to k}"] by auto
  qed
  with exact have "card {k. gap_in ?es from to k} \<le> 1 \<longrightarrow>
      {c. c \<le> MAX_CODE_POINT \<and> contains ?es' c} = {c. c \<le> MAX_CODE_POINT \<and> contains ?es c} \<union> {from..to}" by auto
  then show ?thesis using exact addRange_wf [OF assms] by blast
qed

text \<open>Trees as their lists of entries.\<close>

definition list_tree :: "((nat \<times> 'v option) list, 'v) tree_ops" where
  "list_tree = \<lparr>t_empty = [], t_entries = \<lambda>es. es, t_insert = entries_insert,
     t_update = \<lambda>es i v. es[i := (fst (es ! i), v)], t_find = \<lambda>es k. first_index (\<lambda>e. fst e = k) es,
     t_le = \<lambda>es k. last_index_le k es, t_gt = \<lambda>es k. first_index (\<lambda>e. k < fst e) es,
     t_between = \<lambda>es a b. filter (\<lambda>e. a \<le> fst e \<and> fst e < b) es\<rparr>"

lemma list_tree_laws: "tree_laws list_tree"
  by (simp add: tree_laws_def list_tree_def)

lemmas list_tree_eval = addRange_def fill_gaps_def put_def list_tree_def entries_insert_def first_index_def
  last_index_le_def MAX_CODE_POINT_def Let_def

lemma list_tree_wf:
  "class_wf es \<Longrightarrow> from \<le> to \<Longrightarrow> to \<le> MAX_CODE_POINT \<Longrightarrow> class_wf (addRange list_tree from to el es)"
  using addRange_wf [OF list_tree_laws, of es "from" to el] by (simp add: list_tree_def)

text \<open>The class \<^verbatim>\<open>[ba-c]\<close>: adding the range from \<^verbatim>\<open>a\<close> to \<^verbatim>\<open>c\<close> to the class of \<^verbatim>\<open>b\<close>, with one gap at \<^verbatim>\<open>c\<close>.\<close>

theorem addRange_correct_witness:
  "{c. c \<le> MAX_CODE_POINT \<and> contains (addRange list_tree 97 99 1 (addRange list_tree 98 98 (0 :: nat) [])) c} =
     {c. c \<le> MAX_CODE_POINT \<and> contains (addRange list_tree 98 98 (0 :: nat) []) c} \<union> {97..99}"
proof -
  let ?es = "addRange list_tree 98 98 (0 :: nat) []"
  have es: "?es = [(98, Some 0), (99, None)]" by (simp add: list_tree_eval)
  have "{k. gap_in ?es 97 99 k} = {99}" unfolding es by (auto simp: gap_in_def)
  then have one: "card {k. gap_in ?es 97 99 k} \<le> 1" by simp
  have entries: "t_entries list_tree xs = xs" for xs :: "(nat \<times> nat option) list" by (simp add: list_tree_def)
  have "(97 :: nat) \<le> 99" "(99 :: nat) \<le> MAX_CODE_POINT" by (simp_all add: MAX_CODE_POINT_def)
  moreover have "class_wf ?es" by (intro list_tree_wf class_wf_empty) (simp_all add: MAX_CODE_POINT_def)
  ultimately have "{c. c \<le> MAX_CODE_POINT \<and> contains (addRange list_tree 97 99 1 ?es) c} =
      {c. c \<le> MAX_CODE_POINT \<and> contains ?es c} \<union> {97..99}"
    using addRange_correct [OF list_tree_laws, of ?es 97 99 1, unfolded entries] one by blast
  then show ?thesis .
qed

text \<open>Following code points: the next entry has the key after a governed code point exactly if that key governs.\<close>

lemma following_entry:
  assumes "strict_keys es" "i < length es" "0 < c" "governs es (c - 1) (fst (es ! i)) v" "(c, w) \<in> set es"
  shows "Suc i < length es \<and> es ! Suc i = (c, w)"
proof -
  from assms(5) obtain j where j: "j < length es" "es ! j = (c, w)" by (auto simp: in_set_conv_nth)
  have k: "fst (es ! i) < c" using assms(3,4) by (auto simp: governs_def)
  have "\<not> j < i" "i \<noteq> j" using strict_nth_less [OF assms(1), of j i] assms(2) j k by auto
  moreover have "\<not> Suc i < j"
  proof
    assume less: "Suc i < j"
    then have "fst (es ! Suc i) < c" "fst (es ! i) < fst (es ! Suc i)"
      using strict_nth_less [OF assms(1), of "Suc i" j] strict_nth_less [OF assms(1), of i "Suc i"] j by auto
    moreover have "es ! Suc i \<in> set es" using less j(1) by simp
    ultimately show False using assms(4) unfolding governs_def by (metis Suc_diff_1 assms(3) less_Suc_eq_le not_le)
  qed
  ultimately have "j = Suc i" by simp
  with j show ?thesis by simp
qed

lemma interval_touched:
  assumes "strict_keys es" "fst ` set es \<subseteq> {..MAX_CODE_POINT}" "i < length es"
  shows "fst (es ! i) \<le> c \<and> c \<le> interval_end es i \<longleftrightarrow>
    c \<le> MAX_CODE_POINT \<and> (governs es c (fst (es ! i)) (snd (es ! i)) \<or>
      0 < c \<and> governs es (c - 1) (fst (es ! i)) (snd (es ! i)) \<and> (\<exists>v. (c, Some v) \<in> set es))"
proof -
  have next_iff: "Suc i < length es \<and> snd (es ! Suc i) \<noteq> None \<and> c = fst (es ! Suc i) \<longleftrightarrow>
      0 < c \<and> governs es (c - 1) (fst (es ! i)) (snd (es ! i)) \<and> (\<exists>v. (c, Some v) \<in> set es)"
  proof (intro iffI; elim conjE exE)
    assume n: "Suc i < length es" "snd (es ! Suc i) \<noteq> None" "c = fst (es ! Suc i)"
    have less: "fst (es ! i) < c" using strict_nth_less [OF assms(1), of i "Suc i"] n by simp
    have mem: "es ! Suc i \<in> set es" using n(1) by simp
    obtain v where "es ! Suc i = (c, Some v)" using n(2,3) by (cases "es ! Suc i") auto
    then have "\<exists>v. (c, Some v) \<in> set es" using mem by metis
    moreover have "c - 1 \<le> interval_end es i" "c - 1 \<noteq> c" using n less by (auto simp: interval_end_def)
    then have "governs es (c - 1) (fst (es ! i)) (snd (es ! i))"
      using interval_governed(2) [OF assms, of "c - 1"] less n(3) by auto
    ultimately show "0 < c \<and> governs es (c - 1) (fst (es ! i)) (snd (es ! i)) \<and> (\<exists>v. (c, Some v) \<in> set es)" using less by simp
  next
    fix v assume "0 < c" "governs es (c - 1) (fst (es ! i)) (snd (es ! i))" "(c, Some v) \<in> set es"
    then show "Suc i < length es \<and> snd (es ! Suc i) \<noteq> None \<and> c = fst (es ! Suc i)"
      using following_entry [OF assms(1,3)] by fastforce
  qed
  have "c \<le> MAX_CODE_POINT" if "(c, Some v) \<in> set es" for v using that assms(2) by force
  then show ?thesis unfolding interval_governed(2) [OF assms] next_iff by blast
qed

text \<open>
  C22: the elements of a class that another class intersects are exactly those that share a code point with it, and
  those that are followed immediately by an element whose first code point is in the other class. So every
  intersection is found.
\<close>

theorem findIntersections_correct:
  assumes "tree_laws ops" "class_wf (t_entries ops this)" "class_wf (t_entries ops that)"
  shows "e \<in> set (findIntersections ops this that) \<longleftrightarrow>
    (\<exists>c k. contains (t_entries ops this) c \<and> c \<le> MAX_CODE_POINT \<and>
       (governs (t_entries ops that) c k (Some e) \<or>
        0 < c \<and> governs (t_entries ops that) (c - 1) k (Some e) \<and> (\<exists>v. (c, Some v) \<in> set (t_entries ops that))))"
  (is "_ \<longleftrightarrow> (\<exists>c k. ?found c k)")
proof -
  let ?es = "t_entries ops that"
  have wf: "strict_keys ?es" "fst ` set ?es \<subseteq> {..MAX_CODE_POINT}" using assms(3) by (auto simp: class_wf_def)
  have entry: "hasEntryBetween ops this (fst (?es ! i)) (interval_end ?es i) \<longleftrightarrow> (\<exists>c. ?found c (fst (?es ! i)))"
    if "i < length ?es" "snd (?es ! i) = Some e" for i
    unfolding hasEntryBetween_iff [OF assms(1,2) interval_governed(1) [OF wf that(1)]] conj_assoc [symmetric]
      interval_touched [OF wf that(1)] that(2) by blast
  have index: "\<exists>i < length ?es. snd (?es ! i) = Some e \<and> k = fst (?es ! i)" if "?found c k" for c k
  proof -
    have "(k, Some e) \<in> set ?es" using that by (auto simp: governs_def)
    then show ?thesis by (metis fst_conv in_set_conv_nth snd_conv)
  qed
  have "e \<in> set (findIntersections ops this that) \<longleftrightarrow>
      (\<exists>i < length ?es. snd (?es ! i) = Some e \<and> (\<exists>c. ?found c (fst (?es ! i))))"
    unfolding findIntersections_def intersections_from_iff using entry by blast
  also have "\<dots> \<longleftrightarrow> (\<exists>c k. ?found c k)" using index by blast
  finally show ?thesis .
qed


text \<open>
  The class \<^verbatim>\<open>[abb]\<close>: its second \<^verbatim>\<open>b\<close> intersects the first one, and \<^verbatim>\<open>a\<close>, with which it shares nothing.
\<close>

theorem findIntersections_correct_witness:
  "findIntersections list_tree (addRange list_tree 98 98 2 []) (addRange list_tree 98 98 1 (addRange list_tree 97 97 (0 :: nat) [])) =
     [0, 1] \<and>
   0 \<in> set (findIntersections list_tree (addRange list_tree 98 98 2 [])
     (addRange list_tree 98 98 1 (addRange list_tree 97 97 (0 :: nat) [])))"
proof
  let ?new = "addRange list_tree 98 98 (2 :: nat) []"
  let ?old = "addRange list_tree 98 98 1 (addRange list_tree 97 97 (0 :: nat) [])"
  have new_es: "?new = [(98, Some 2), (99, None)]" by (simp add: list_tree_eval)
  have old_es: "?old = [(97, Some 0), (98, Some 1), (99, None)]" by (simp add: list_tree_eval)
  have entries: "t_entries list_tree xs = xs" for xs :: "(nat \<times> nat option) list" by (simp add: list_tree_def)
  show "findIntersections list_tree ?new ?old = [0, 1]"
    unfolding new_es old_es by (simp add: findIntersections_def hasEntryBetween_def isRangeEmpty_def list_tree_eval)
  have wf: "class_wf ?new" "class_wf ?old"
    by (intro list_tree_wf class_wf_empty; simp add: MAX_CODE_POINT_def)+
  have "contains ?new 98" "governs ?old (98 - 1) 97 (Some 0)" "(98, Some 1) \<in> set ?old"
    unfolding new_es old_es by (auto simp: contains_def governs_def)
  moreover have "(98 :: nat) \<le> MAX_CODE_POINT" "0 < (98 :: nat)" by (simp_all add: MAX_CODE_POINT_def)
  ultimately show "0 \<in> set (findIntersections list_tree ?new ?old)"
    using findIntersections_correct [OF list_tree_laws, of ?new ?old 0, unfolded entries, OF wf] by blast
qed

subsection \<open>Lost and invented code points\<close>

text \<open>
  The class \<^verbatim>\<open>[bda-z]\<close> does not contain \<^verbatim>\<open>c\<close>: the second of its two gaps is filled only. A range from an upper case to a lower
  case letter, like \<^verbatim>\<open>[Z-a]\<close>, becomes two reversed ranges when case is ignored: the class then contains every code
  point from \<^verbatim>\<open>Z\<close> on.
\<close>

lemma gap_lost:
  "addRange list_tree 97 122 2 (addRange list_tree 100 100 1 (addRange list_tree 98 98 (0 :: nat) [])) =
     [(97, Some 2), (98, Some 0), (99, None), (100, Some 1), (101, Some 2), (123, None)]"
  by (simp add: list_tree_eval)

definition ascii_conversions :: case_conversions where
  "ascii_conversions =
     \<lparr>toUpperCase = map (\<lambda>u. if 97 \<le> u \<and> u \<le> 122 then u - 32 else u),
      toLowerCase = map (\<lambda>u. if 65 \<le> u \<and> u \<le> 90 then u + 32 else u)\<rparr>"

lemma reversed_range:
  "builder_addRange list_tree ascii_conversions \<lparr>fl_unicode = False, fl_ignoreCase = True\<rparr> 90 97 (0 :: nat) [] =
     Inr [(66, None), (90, Some 0), (98, Some 0), (122, Some 0)]"
  by (simp add: builder_addRange_def converted_def codePoint_def cp_def fromCodePoint_def utf16_def ascii_conversions_def
      isAscii_def list_tree_eval)

end
