(* ===== verification/Decorators.thy ===== *)
theory Decorators
  imports Ast_Helpers Objects
begin

text \<open>
  The decorators of external rules, \<^verbatim>\<open>src/linting/eslint/rules/decorators/\<close>: the interception of reports and the
  merging of listeners (\<^verbatim>\<open>helpers/\<close>), and every decorator of the registry, with the quick fixes they
  suggest. ESLint's queries on the tokens and the text of a file are parameters.
\<close>

section \<open>Reports and rules\<close>

datatype report_loc = LocRange source_loc | LocPosition position

text \<open>
  A suggestion has the edits that its \<^verbatim>\<open>fix\<close> function returns, or the error it throws. The fields of a descriptor are
  \<open>None\<close> where it has no such property.
\<close>

record suggested_fix =
  sf_desc :: string
  sf_fix :: "rule_fix list res"

record descriptor =
  d_node :: "node option"
  d_loc :: "report_loc option"
  d_message :: "string option"
  d_messageId :: "string option"
  d_data :: "string dict option"
  d_suggest :: "suggested_fix list option"

text \<open>The arguments of a call of \<^verbatim>\<open>context.report\<close>.\<close>

datatype report_args = OneArgument descriptor | NodeAndMessage node string | OtherArguments

datatype scope_tree = ScopeTree "reference list" "scope_tree list"

text \<open>
  The context of a rule: the parts that the helpers read, ESLint's queries, the parents of nodes, the scopes that
  enclose a reference, each with its variables and its block, and the scope of the traversed node
  with its children.
\<close>

record deco_context =
  dx_rule :: rule_context
  dx_getTokenBefore :: "node \<Rightarrow> (token \<Rightarrow> bool) \<Rightarrow> token option"
  dx_getTokenAfter :: "node \<Rightarrow> (token \<Rightarrow> bool) \<Rightarrow> token option"
  dx_getFirstToken :: "node \<Rightarrow> (token \<Rightarrow> bool) \<Rightarrow> token option"
  dx_getLastToken :: "node \<Rightarrow> (token \<Rightarrow> bool) \<Rightarrow> token option"
  dx_getCommentsBefore :: "node \<Rightarrow> comment list"
  dx_getText :: "node \<Rightarrow> string"
  dx_getIndexFromLoc :: "position option \<Rightarrow> int res"
  dx_getDeclaredVariables :: "node \<Rightarrow> variable list"
  dx_parent :: "node \<Rightarrow> node option"
  dx_from :: "reference \<Rightarrow> (variable list \<times> node) list"
  dx_scope :: scope_tree

record deco_meta =
  dm_hasSuggestions :: bool
  dm_messages :: "string dict option"

text \<open>What a rule does: the calls of \<^verbatim>\<open>report\<close> that it makes on an event.\<close>

record 'e deco_rule =
  dr_meta :: "deco_meta option"
  dr_create :: "deco_context \<Rightarrow> 'e \<Rightarrow> report_args list res"

abbreviation "property_of_undefined \<equiv> JsError ''Cannot read properties of undefined'' []"

section \<open>Interception\<close>

type_synonym overrider = "deco_context \<Rightarrow> descriptor \<Rightarrow> descriptor list res"

definition NUM_ARGS_NODE_MESSAGE :: nat where
  "NUM_ARGS_NODE_MESSAGE = 2"

definition empty_descriptor :: descriptor where
  "empty_descriptor = \<lparr>d_node = None, d_loc = None, d_message = None, d_messageId = None, d_data = None, d_suggest = None\<rparr>"

text \<open>The descriptor of the arguments of a report, if it has one.\<close>

fun intercepted :: "report_args \<Rightarrow> descriptor option" where
  "intercepted (OneArgument d) = Some d"
| "intercepted (NodeAndMessage n m) = Some (empty_descriptor\<lparr>d_node := Some n, d_message := Some m\<rparr>)"
| "intercepted OtherArguments = None"

text \<open>For React the first argument is the descriptor.\<close>

fun intercepted_react :: "report_args \<Rightarrow> descriptor option" where
  "intercepted_react (OneArgument d) = Some d"
| "intercepted_react (NodeAndMessage n m) = Some (empty_descriptor\<lparr>d_loc := map_option LocRange (node_loc n)\<rparr>)"
| "intercepted_react OtherArguments = None"

definition intercept_with ::
  "(report_args \<Rightarrow> descriptor option) \<Rightarrow> overrider \<Rightarrow> deco_context \<Rightarrow> report_args list \<Rightarrow> report_args list res" where
  "intercept_with descr onReport ctx calls =
     bind_res (map_res (\<lambda>args. case descr args of None \<Rightarrow> Inr [] | Some d \<Rightarrow> onReport ctx d) calls)
       (\<lambda>rs. Inr (map OneArgument (concat rs)))"

definition interceptReport :: "'e deco_rule \<Rightarrow> overrider \<Rightarrow> 'e deco_rule" where
  "interceptReport rule onReport =
     \<lparr>dr_meta = dr_meta rule,
      dr_create = (\<lambda>ctx event. bind_res (dr_create rule ctx event) (intercept_with intercepted onReport ctx))\<rparr>"

definition interceptReportForReact :: "'e deco_rule \<Rightarrow> overrider \<Rightarrow> 'e deco_rule" where
  "interceptReportForReact rule onReport =
     \<lparr>dr_meta = dr_meta rule,
      dr_create = (\<lambda>ctx event. bind_res (dr_create rule ctx event) (intercept_with intercepted_react onReport ctx))\<rparr>"

text \<open>\<^verbatim>\<open>rule.meta!.hasSuggestions = true\<close>\<close>

definition with_suggestions :: "'e deco_rule \<Rightarrow> 'e deco_rule res" where
  "with_suggestions rule =
     (case dr_meta rule of
        None \<Rightarrow> Inl property_of_undefined
      | Some meta \<Rightarrow> Inr (rule\<lparr>dr_meta := Some (meta\<lparr>dm_hasSuggestions := True\<rparr>)\<rparr>))"

text \<open>Reports on nodes that are not exempted.\<close>

definition reportExempting :: "(deco_context \<Rightarrow> node \<Rightarrow> bool) \<Rightarrow> overrider" where
  "reportExempting exemptionCondition ctx d =
     (case d_node d of
        None \<Rightarrow> Inr []
      | Some n \<Rightarrow> Inr (if exemptionCondition ctx n then [] else [d]))"

section \<open>Merging of listeners\<close>

text \<open>A listener gives its effects for its arguments; a merged one has those of all listeners in order.\<close>

definition mergeListeners :: "('a \<Rightarrow> 'b list) option list \<Rightarrow> 'a \<Rightarrow> 'b list" where
  "mergeListeners listeners args =
     concat (map (\<lambda>listener. case listener of None \<Rightarrow> [] | Some f \<Rightarrow> f args) listeners)"

definition mergeRules :: "('a \<Rightarrow> 'b list) dict list \<Rightarrow> ('a \<Rightarrow> 'b list) dict" where
  "mergeRules rules =
     (let merged = fold dict_assign rules [] in
      map (\<lambda>(listener, _). (listener, mergeListeners (map (\<lambda>rule. dict_get rule listener) rules))) merged)"

section \<open>Decorators that exempt\<close>

definition isDecoratedSetterWithAngularInput :: "node \<Rightarrow> bool" where
  "isDecoratedSetterWithAngularInput def \<longleftrightarrow>
     fld def ''kind'' = JStr ''set'' \<and> fld def ''decorators'' \<noteq> JUndefined \<and>
     list_ex (\<lambda>decorator.
        let e = fld decorator ''expression'' in
        is_type e ''CallExpression'' \<and> is_type (fld e ''callee'') ''Identifier'' \<and>
        fld (fld e ''callee'') ''name'' = JStr ''Input'') (elems (fld def ''decorators''))"

definition decorateAccessorPairs :: "'e deco_rule \<Rightarrow> 'e deco_rule res" where
  "decorateAccessorPairs rule =
     Inr (interceptReport rule (reportExempting (\<lambda>ctx. isDecoratedSetterWithAngularInput)))"

definition isOpeningBracket :: "string option \<Rightarrow> bool" where
  "isOpeningBracket messageId \<longleftrightarrow> messageId \<noteq> Some ''nextLineClose''"

definition decorateBraceStyle :: "'e deco_rule \<Rightarrow> 'e deco_rule res" where
  "decorateBraceStyle rule =
     Inr (interceptReport rule (\<lambda>ctx d. Inr (if isOpeningBracket (d_messageId d) then [d] else [])))"

definition NUM_ARGS_REDUX_REDUCER :: nat where
  "NUM_ARGS_REDUX_REDUCER = 2"

definition isReduxReducer :: "node \<Rightarrow> bool" where
  "isReduxReducer enclosingFunction \<longleftrightarrow>
     (let params = elems (fld enclosingFunction ''params'') in
      length params = NUM_ARGS_REDUX_REDUCER \<and> is_type (params ! 0) ''AssignmentPattern'' \<and>
      isIdentifier (fld (params ! 0) ''left'') [''state''] \<and> isIdentifier (params ! 1) [''action''])"

text \<open>The node of the first definition of the variable that a default parameter declares.\<close>

definition enclosing_function :: "deco_context \<Rightarrow> node \<Rightarrow> node option" where
  "enclosing_function ctx n =
     (case rx_scope (dx_rule ctx) of
        None \<Rightarrow> None
      | Some scope \<Rightarrow>
          (case List.find (\<lambda>v. isIdentifier (fld n ''left'') [var_name v]) (scope_variables scope) of
             None \<Rightarrow> None
           | Some v \<Rightarrow> (case var_defs v of [] \<Rightarrow> None | def # _ \<Rightarrow> if truthy (def_node def) then Some (def_node def) else None)))"

definition decorateDefaultParamLast :: "'e deco_rule \<Rightarrow> 'e deco_rule res" where
  "decorateDefaultParamLast rule =
     Inr (interceptReport rule (reportExempting (\<lambda>ctx n.
       case enclosing_function ctx n of None \<Rightarrow> True | Some f \<Rightarrow> isReduxReducer f)))"

definition hasSpreadOperator :: "node \<Rightarrow> bool" where
  "hasSpreadOperator n \<longleftrightarrow>
     is_type n ''JSXElement'' \<and>
     list_ex (\<lambda>attribute. is_type attribute ''JSXSpreadAttribute'') (elems (fld (fld n ''openingElement'') ''attributes''))"

definition decorateJsxKey :: "'e deco_rule \<Rightarrow> 'e deco_rule res" where
  "decorateJsxKey rule = Inr (interceptReportForReact rule (reportExempting (\<lambda>ctx. hasSpreadOperator)))"

definition isNodeOnNewLineAfterToken :: "node \<Rightarrow> token option \<Rightarrow> bool" where
  "isNodeOnNewLineAfterToken n token =
     (case node_loc n of
        None \<Rightarrow> False
      | Some loc \<Rightarrow>
          (case token of
             None \<Rightarrow> True
           | Some t \<Rightarrow> pos_line (loc_end (tok_loc t)) < pos_line (loc_start loc)))"

definition isParenOrBracket :: "token option \<Rightarrow> bool" where
  "isParenOrBracket token =
     (case token of
        None \<Rightarrow> False
      | Some t \<Rightarrow> tok_type t = ''Punctuator'' \<and> (tok_value t = ''['' \<or> tok_value t = ''(''))"

definition isProtectionSemicolon :: "deco_context \<Rightarrow> node \<Rightarrow> bool" where
  "isProtectionSemicolon ctx n \<longleftrightarrow>
     is_type n ''EmptyStatement'' \<and>
     isNodeOnNewLineAfterToken n (dx_getTokenBefore ctx n (\<lambda>_. True)) \<and>
     isParenOrBracket (dx_getTokenAfter ctx n (\<lambda>_. True))"

definition decorateNoExtraSemi :: "'e deco_rule \<Rightarrow> 'e deco_rule res" where
  "decorateNoExtraSemi rule = Inr (interceptReport rule (reportExempting isProtectionSemicolon))"

definition parent_type :: "deco_context \<Rightarrow> node \<Rightarrow> string \<Rightarrow> bool" where
  "parent_type ctx n t = (case dx_parent ctx n of None \<Rightarrow> False | Some p \<Rightarrow> is_type p t)"

definition isTypeDeclaration :: "deco_context \<Rightarrow> node \<Rightarrow> bool" where
  "isTypeDeclaration ctx n = parent_type ctx n ''TSTypeAliasDeclaration''"

definition decorateNoRedeclare :: "'e deco_rule \<Rightarrow> 'e deco_rule res" where
  "decorateNoRedeclare rule =
     Inr (interceptReport rule (reportExempting (\<lambda>ctx n. \<not> is_type n ''Identifier'' \<or> isTypeDeclaration ctx n)))"

definition isGenerator :: "node \<Rightarrow> bool" where
  "isGenerator n \<longleftrightarrow>
     (is_type n ''FunctionDeclaration'' \<or> is_type n ''FunctionExpression'') \<and> fld n ''generator'' = JBool True"

text \<open>The scopes of a reference, from the inside out, up to the one that declares the variable.\<close>

fun inside_generator :: "variable \<Rightarrow> (variable list \<times> node) list \<Rightarrow> bool" where
  "inside_generator v [] = False"
| "inside_generator v ((vars, block) # scopes) =
     (if var_id v \<in> var_id ` set vars then False
      else if isGenerator block then True
      else inside_generator v scopes)"

definition isReferencedInsideGenerators :: "deco_context \<Rightarrow> node \<Rightarrow> bool" where
  "isReferencedInsideGenerators ctx n =
     (case Option.bind (name_of n) (getVariableFromName (dx_rule ctx)) of
        None \<Rightarrow> False
      | Some v \<Rightarrow> list_ex (\<lambda>r. inside_generator v (dx_from ctx r)) (var_references v))"

definition decorateNoThisAlias :: "'e deco_rule \<Rightarrow> 'e deco_rule res" where
  "decorateNoThisAlias rule = Inr (interceptReport rule (reportExempting isReferencedInsideGenerators))"

definition isTwoOperands :: "node \<Rightarrow> bool" where
  "isTwoOperands n \<longleftrightarrow> \<not> is_type (fld n ''right'') ''BinaryExpression'' \<and> \<not> is_type (fld n ''left'') ''BinaryExpression''"

definition decoratePreferTemplate :: "'e deco_rule \<Rightarrow> 'e deco_rule res" where
  "decoratePreferTemplate rule = Inr (interceptReport rule (reportExempting (\<lambda>ctx. isTwoOperands)))"

subsection \<open>Unused expressions\<close>

function containsChaiExpect :: "node \<Rightarrow> bool" where
  "containsChaiExpect n =
     (if is_type n ''CallExpression'' then
        if is_type (fld n ''callee'') ''Identifier'' \<and> fld (fld n ''callee'') ''name'' = JStr ''expect'' then True
        else if fld n ''callee'' = JUndefined then False else containsChaiExpect (fld n ''callee'')
      else if is_type n ''MemberExpression'' then
        if fld n ''object'' = JUndefined then False else containsChaiExpect (fld n ''object'')
      else False)"
  by auto
termination by (relation "measure size") (auto simp: size_fld_less)

function containsValidChaiShould :: "node \<Rightarrow> bool \<Rightarrow> bool" where
  "containsValidChaiShould n isSubexpr =
     (if is_type n ''CallExpression'' then
        if fld n ''callee'' = JUndefined then False else containsValidChaiShould (fld n ''callee'') True
      else if is_type n ''MemberExpression'' then
        if is_type (fld n ''property'') ''Identifier'' \<and> fld (fld n ''property'') ''name'' = JStr ''should'' then isSubexpr
        else if fld n ''object'' = JUndefined then False else containsValidChaiShould (fld n ''object'') True
      else False)"
  by auto
termination by (relation "measure (\<lambda>(n, _). size n)") (auto simp: size_fld_less)

declare containsChaiExpect.simps [simp del] containsValidChaiShould.simps [simp del]

definition isIife :: "node \<Rightarrow> bool" where
  "isIife n \<longleftrightarrow> is_type n ''CallExpression'' \<and>
     (is_type (fld n ''callee'') ''FunctionExpression'' \<or> is_type (fld n ''callee'') ''ArrowFunctionExpression'')"

definition isNegatedIife :: "node \<Rightarrow> bool" where
  "isNegatedIife n \<longleftrightarrow> is_type n ''UnaryExpression'' \<and> fld n ''operator'' = JStr ''!'' \<and> isIife (fld n ''argument'')"

definition isSequenceWithSideEffects :: "node \<Rightarrow> bool" where
  "isSequenceWithSideEffects n \<longleftrightarrow> is_type n ''SequenceExpression'' \<and> elems (fld n ''expressions'') \<noteq> [] \<and>
     is_type (last (elems (fld n ''expressions''))) ''AssignmentExpression''"

definition isAuraLightningComponent :: "deco_context \<Rightarrow> node \<Rightarrow> bool" where
  "isAuraLightningComponent ctx n \<longleftrightarrow>
     is_type n ''ObjectExpression'' \<and> 0 < length (elems (fld n ''properties'')) \<and>
     (case dx_parent ctx n of None \<Rightarrow> False | Some p \<Rightarrow> parent_type ctx p ''Program'')"

definition decorateNoUnusedExpressions :: "'e deco_rule \<Rightarrow> 'e deco_rule res" where
  "decorateNoUnusedExpressions rule =
     Inr (interceptReport rule (reportExempting (\<lambda>ctx n.
       let expr = fld n ''expression'' in
       isNegatedIife expr \<or> containsChaiExpect expr \<or> containsValidChaiShould expr False \<or>
       isAuraLightningComponent ctx expr \<or> isSequenceWithSideEffects expr)))"


subsection \<open>Object shorthand\<close>

text \<open>The type of an ancestor that must exist.\<close>

definition parent_of :: "deco_context \<Rightarrow> node \<Rightarrow> node res" where
  "parent_of ctx n = (case dx_parent ctx n of None \<Rightarrow> Inl property_of_undefined | Some p \<Rightarrow> Inr p)"

definition isAuraLightningProperty :: "deco_context \<Rightarrow> node \<Rightarrow> bool res" where
  "isAuraLightningProperty ctx property =
     bind_res (parent_of ctx property) (\<lambda>object.
     bind_res (parent_of ctx object) (\<lambda>statement.
       if is_type statement ''ExpressionStatement'' then
         bind_res (parent_of ctx statement) (\<lambda>program.
           Inr (is_type program ''Program'' \<and> is_type (fld property ''value'') ''FunctionExpression''))
       else Inr False))"

definition decorateObjectShorthand :: "'e deco_rule \<Rightarrow> 'e deco_rule res" where
  "decorateObjectShorthand rule =
     Inr (interceptReport rule (\<lambda>ctx d.
       case d_node d of
         None \<Rightarrow> Inr []
       | Some property \<Rightarrow>
           bind_res (isAuraLightningProperty ctx property) (\<lambda>exempted.
             Inr (if exempted then [] else [d\<lparr>d_node := Some (fld property ''key'')\<rparr>]))))"

section \<open>Decorators that change messages and locations\<close>

text \<open>
  The length of a match of a text in parentheses at the beginning of a string, where the opening parenthesis
  comes with a prefix: \<^verbatim>\<open> \(at line [^)]+\)\<close> and \<^verbatim>\<open> \(https:[^)]+\)\<close>.
\<close>

definition parenthesized :: "string \<Rightarrow> string \<Rightarrow> nat option" where
  "parenthesized pre s =
     (let rest = drop (length pre) s; inner = takeWhile (\<lambda>c. c \<noteq> CHR '')'') rest in
      if starts_with s pre \<and> inner \<noteq> [] \<and> length inner < length rest
      then Some (length pre + length inner + 1) else None)"

fun remove_first :: "string \<Rightarrow> string \<Rightarrow> string" where
  "remove_first pre [] = []"
| "remove_first pre (c # s) =
     (case parenthesized pre (c # s) of
        Some n \<Rightarrow> drop n (c # s)
      | None \<Rightarrow> c # remove_first pre s)"

function remove_all :: "string \<Rightarrow> string \<Rightarrow> string" where
  "remove_all pre s =
     (case s of
        [] \<Rightarrow> []
      | c # t \<Rightarrow>
          (case parenthesized pre s of
             Some n \<Rightarrow> remove_all pre (drop n s)
           | None \<Rightarrow> c # remove_all pre t))"
  by auto
termination by (relation "measure (\<lambda>(_, s). length s)") (auto simp: parenthesized_def Let_def split: if_splits)

declare remove_all.simps [simp del]

definition lineRemover :: "string \<Rightarrow> string" where
  "lineRemover message = remove_all '' (at line '' message"

definition urlRemover :: "string \<Rightarrow> string" where
  "urlRemover message = remove_first '' (https:'' message"

definition changeRuleMessagesWith :: "'e deco_rule \<Rightarrow> (string \<Rightarrow> string) \<Rightarrow> 'e deco_rule" where
  "changeRuleMessagesWith rule messageChanger =
     (case dr_meta rule of
        None \<Rightarrow> rule
      | Some meta \<Rightarrow>
          rule\<lparr>dr_meta := Some (meta\<lparr>dm_messages := map_option (map (\<lambda>(key, v). (key, messageChanger v))) (dm_messages meta)\<rparr>)\<rparr>)"

definition decorateJsxNoConstructedContextValues :: "'e deco_rule \<Rightarrow> 'e deco_rule res" where
  "decorateJsxNoConstructedContextValues rule = Inr (changeRuleMessagesWith rule lineRemover)"

definition changeMessageWith :: "(string \<Rightarrow> string) \<Rightarrow> overrider" where
  "changeMessageWith messageChanger ctx d =
     Inr [case d_message d of
            None \<Rightarrow> d
          | Some m \<Rightarrow> if m = [] then d else d\<lparr>d_message := Some (messageChanger m)\<rparr>]"

definition decorateNoUnstableNestedComponents :: "'e deco_rule \<Rightarrow> 'e deco_rule res" where
  "decorateNoUnstableNestedComponents rule = Inr (interceptReportForReact rule (changeMessageWith urlRemover))"

definition fixLocation :: overrider where
  "fixLocation ctx d =
     Inr [case d_loc d of
            Some (LocRange loc) \<Rightarrow>
              if d_messageId d = Some ''missingSemi'' then d\<lparr>d_loc := Some (LocPosition (loc_start loc))\<rparr> else d
          | _ \<Rightarrow> d]"

definition decorateSemi :: "'e deco_rule \<Rightarrow> 'e deco_rule res" where
  "decorateSemi rule = Inr (interceptReport rule fixLocation)"

text \<open>The location of \<^verbatim>\<open>var\<close> with its first name; a location that the report already has is kept.\<close>

definition var_location :: overrider where
  "var_location ctx d =
     (case d_node d of
        None \<Rightarrow> Inr []
      | Some n \<Rightarrow>
          (case elems (fld n ''declarations'') of
             [] \<Rightarrow> Inl property_of_undefined
           | firstDecl # _ \<Rightarrow>
               let varToken = dx_getTokenBefore ctx (fld firstDecl ''id'') (\<lambda>_. True) in
               (case node_loc (fld firstDecl ''id'') of
                  None \<Rightarrow> Inl property_of_undefined
                | Some loc \<Rightarrow>
                    (case varToken of
                       None \<Rightarrow> Inr []
                     | Some t \<Rightarrow>
                         Inr [d\<lparr>d_node := None,
                            d_loc := (case d_loc d of
                                        Some l \<Rightarrow> Some l
                                      | None \<Rightarrow> Some (LocRange \<lparr>loc_start = loc_start (tok_loc t), loc_end = loc_end loc\<rparr>))\<rparr>]))))"

definition decorateNoVar :: "'e deco_rule \<Rightarrow> 'e deco_rule res" where
  "decorateNoVar rule = Inr (interceptReport rule var_location)"

section \<open>Decorators that suggest fixes\<close>

definition removeRange :: "range \<Rightarrow> rule_fix" where
  "removeRange r = \<lparr>fix_range = r, fix_text = []\<rparr>"

definition replaceText :: "node \<Rightarrow> string \<Rightarrow> rule_fix res" where
  "replaceText n new = (case node_range n of None \<Rightarrow> Inl property_of_undefined | Some r \<Rightarrow> Inr \<lparr>fix_range = r, fix_text = new\<rparr>)"

definition insertTextAfter :: "token \<Rightarrow> string \<Rightarrow> rule_fix" where
  "insertTextAfter t new = \<lparr>fix_range = (snd (tok_range t), snd (tok_range t)), fix_text = new\<rparr>"

definition removeNodeWithLeadingWhitespaces :: "deco_context \<Rightarrow> node \<Rightarrow> int option \<Rightarrow> rule_fix res" where
  "removeNodeWithLeadingWhitespaces ctx n removeUntil =
     (let previousComments = dx_getCommentsBefore ctx n;
          start = (if previousComments = [] then
                     (case dx_getTokenBefore ctx n (\<lambda>_. True) of Some t \<Rightarrow> snd (tok_range t) | None \<Rightarrow> 0)
                   else snd (com_range (last previousComments)))
      in case removeUntil of
           Some until \<Rightarrow>
             if until \<noteq> 0 then Inr (removeRange (start, until))
             else (case node_range n of None \<Rightarrow> Inl property_of_undefined | Some r \<Rightarrow> Inr (removeRange (start, snd r)))
         | None \<Rightarrow> (case node_range n of None \<Rightarrow> Inl property_of_undefined | Some r \<Rightarrow> Inr (removeRange (start, snd r))))"

subsection \<open>Duplicate keys\<close>

fun find_res :: "('a \<Rightarrow> bool res) \<Rightarrow> 'a list \<Rightarrow> 'a option res" where
  "find_res P [] = Inr None"
| "find_res P (x # xs) = bind_res (P x) (\<lambda>b. if b then Inr (Some x) else find_res P xs)"

definition range_start :: "report_loc \<Rightarrow> position option" where
  "range_start l = (case l of LocRange loc \<Rightarrow> Some (loc_start loc) | LocPosition _ \<Rightarrow> None)"

definition range_end :: "report_loc \<Rightarrow> position option" where
  "range_end l = (case l of LocRange loc \<Rightarrow> Some (loc_end loc) | LocPosition _ \<Rightarrow> None)"

definition getPropertyNode :: "descriptor \<Rightarrow> deco_context \<Rightarrow> node option res" where
  "getPropertyNode d ctx =
     (case (d_node d, d_loc d) of
        (Some objectLiteral, Some loc) \<Rightarrow>
          find_res (\<lambda>property.
            bind_res (dx_getIndexFromLoc ctx (map_option loc_start (node_loc property))) (\<lambda>ps.
            bind_res (dx_getIndexFromLoc ctx (range_start loc)) (\<lambda>ls.
              if ps \<le> ls then
                bind_res (dx_getIndexFromLoc ctx (map_option loc_end (node_loc property))) (\<lambda>pe.
                bind_res (dx_getIndexFromLoc ctx (range_end loc)) (\<lambda>le. Inr (le \<le> pe)))
              else Inr False))) (elems (fld objectLiteral ''properties''))
      | _ \<Rightarrow> Inl (JsError ''Missing properties in report descriptor for rule S1534'' []))"

definition is_comma :: "token \<Rightarrow> bool" where
  "is_comma t \<longleftrightarrow> tok_value t = '',''"

definition remove_property :: "descriptor \<Rightarrow> deco_context \<Rightarrow> rule_fix list res" where
  "remove_property d ctx =
     bind_res (getPropertyNode d ctx) (\<lambda>p.
       case p of
         None \<Rightarrow> Inl property_of_undefined
       | Some propertyToRemove \<Rightarrow>
           let commaAfter = dx_getTokenAfter ctx propertyToRemove is_comma;
               commaBefore = dx_getTokenBefore ctx propertyToRemove is_comma
           in case (commaBefore, node_range propertyToRemove) of
                (Some before, Some r) \<Rightarrow>
                  Inr [removeRange
                    (case commaAfter of
                       Some after \<Rightarrow> (snd (tok_range before), snd (tok_range after))
                     | None \<Rightarrow> (fst (tok_range before), snd r))]
              | _ \<Rightarrow> Inl property_of_undefined)"

definition decorateNoDupeKeys :: "'e deco_rule \<Rightarrow> 'e deco_rule res" where
  "decorateNoDupeKeys rule =
     bind_res (with_suggestions rule) (\<lambda>rule. Inr (interceptReport rule (\<lambda>ctx d.
       Inr [d\<lparr>d_suggest := Some [\<lparr>sf_desc = ''Remove this duplicate property'', sf_fix = remove_property d ctx\<rparr>]\<rparr>])))"

subsection \<open>Duplicate imports\<close>

definition getModule :: "node \<Rightarrow> string" where
  "getModule decl = (case fld (fld decl ''source'') ''value'' of JStr s \<Rightarrow> trim s | _ \<Rightarrow> [])"

definition isMultiline :: "node \<Rightarrow> bool res" where
  "isMultiline n =
     (case node_loc n of
        None \<Rightarrow> Inl property_of_undefined
      | Some loc \<Rightarrow> Inr (pos_line (loc_start loc) \<noteq> pos_line (loc_end loc)))"

definition getFirstMatchingImportDeclaration :: "string \<Rightarrow> deco_context \<Rightarrow> node option" where
  "getFirstMatchingImportDeclaration m ctx =
     List.find (\<lambda>n. is_type n ''ImportDeclaration'' \<and> m = getModule n)
       (elems (fld (sc_ast (rx_source (dx_rule ctx))) ''body''))"

fun joined :: "string \<Rightarrow> string list \<Rightarrow> string" where
  "joined sep [] = []"
| "joined sep [s] = s"
| "joined sep (s # t # ts) = s @ sep @ joined sep (t # ts)"

text \<open>The texts of the default and the namespace specifier, the last of each, and those of the other specifiers.\<close>

definition specifier_step :: "deco_context \<Rightarrow> node \<Rightarrow> string \<times> string \<times> string list \<Rightarrow> string \<times> string \<times> string list" where
  "specifier_step ctx specifier st =
     (let specifierText = dx_getText ctx specifier in
      case st of (defaultText, namespaceText, texts) \<Rightarrow>
        if is_type specifier ''ImportDefaultSpecifier'' then (specifierText, namespaceText, texts)
        else if is_type specifier ''ImportNamespaceSpecifier'' then (defaultText, specifierText, texts)
        else if is_type specifier ''ImportSpecifier'' then (defaultText, namespaceText, texts @ [specifierText])
        else st)"

definition mergeSpecifiers :: "node \<Rightarrow> node \<Rightarrow> deco_context \<Rightarrow> string res" where
  "mergeSpecifiers toDecl fromDecl ctx =
     (let specifiers = elems (fld toDecl ''specifiers'') @ elems (fld fromDecl ''specifiers'') in
      if length specifiers = 0 then Inr []
      else
        (case fold (specifier_step ctx) specifiers ([], [], []) of (defaultText, namespaceText, texts) \<Rightarrow>
           bind_res
             (if 0 < length texts then
                bind_res (isMultiline toDecl) (\<lambda>m.
                bind_res (if m then Inr True else isMultiline fromDecl) (\<lambda>multiline.
                  Inr (if multiline
                       then ''{'' @ [CHR 0x0A] @ joined ('','' @ [CHR 0x0A]) (map (\<lambda>t. ''  '' @ t) texts) @ [CHR 0x0A] @ ''}''
                       else ''{ '' @ joined '', '' texts @ '' }'')))
              else Inr [])
             (\<lambda>importSpecifiersText.
                Inr (joined '', '' (filter (\<lambda>t. 0 < length t) [defaultText, namespaceText, importSpecifiersText])))))"

definition getSpecifiersRange :: "node \<Rightarrow> deco_context \<Rightarrow> range res" where
  "getSpecifiersRange decl ctx =
     (let importOrType = (if fld decl ''importKind'' = JStr ''type'' then ''type'' else ''import'') in
      case dx_getFirstToken ctx decl (\<lambda>t. tok_value t = importOrType) of
        None \<Rightarrow> Inl property_of_undefined
      | Some importOrTypeToken \<Rightarrow>
          Inr (snd (tok_range importOrTypeToken) + 1,
            (case dx_getLastToken ctx decl (\<lambda>t. tok_value t = ''from'') of
               Some fromToken \<Rightarrow> fst (tok_range fromToken) - 1
             | None \<Rightarrow> snd (tok_range importOrTypeToken) + 1)))"

definition getSuggestion :: "node \<Rightarrow> deco_context \<Rightarrow> suggested_fix list res" where
  "getSuggestion duplicateDecl ctx =
     (let m = getModule duplicateDecl in
      case getFirstMatchingImportDeclaration m ctx of
        None \<Rightarrow> Inr []
      | Some importDecl \<Rightarrow>
          bind_res (mergeSpecifiers importDecl duplicateDecl ctx) (\<lambda>newSpecifiersText.
          bind_res (getSpecifiersRange importDecl ctx) (\<lambda>oldSpecifiersRange.
            Inr [\<lparr>sf_desc = ''Merge this import into the first import from '' @ [CHR 0x22] @ m @ [CHR 0x22],
                  sf_fix = bind_res (removeNodeWithLeadingWhitespaces ctx duplicateDecl None) (\<lambda>removal.
                    Inr [\<lparr>fix_range = oldSpecifiersRange, fix_text = newSpecifiersText\<rparr>, removal])\<rparr>])))"

definition decorateNoDuplicateImports :: "'e deco_rule \<Rightarrow> 'e deco_rule res" where
  "decorateNoDuplicateImports rule =
     bind_res (with_suggestions rule) (\<lambda>rule. Inr (interceptReport rule (\<lambda>ctx d.
       case d_node d of
         None \<Rightarrow> Inl property_of_undefined
       | Some duplicateDecl \<Rightarrow>
           bind_res (getSuggestion duplicateDecl ctx) (\<lambda>suggest. Inr [d\<lparr>d_suggest := Some suggest\<rparr>]))))"


subsection \<open>Empty blocks and functions\<close>

text \<open>Braces that the callers assert to exist; reading the location of a missing one throws.\<close>

definition suggestEmptyBlockQuickFix ::
  "descriptor \<Rightarrow> string \<Rightarrow> token option \<Rightarrow> token option \<Rightarrow> descriptor list res" where
  "suggestEmptyBlockQuickFix d blockType openingBrace closingBrace =
     (case (openingBrace, closingBrace) of
        (Some opening, Some closing) \<Rightarrow>
          let start = loc_start (tok_loc closing);
              padding = replicate (nat (pos_column start)) (CHR '' '');
              commentPlaceholder =
                (if pos_line (loc_start (tok_loc opening)) = pos_line start
                 then '' /* TODO document why this '' @ blockType @ '' is empty */ ''
                 else [CHR 0x0A] @ padding @ ''  // TODO document why this '' @ blockType @ '' is empty'' @ [CHR 0x0A] @ padding)
          in Inr [d\<lparr>d_suggest := Some [\<lparr>sf_desc = ''Insert placeholder comment'',
                   sf_fix = Inr [insertTextAfter opening commentPlaceholder]\<rparr>]\<rparr>]
      | _ \<Rightarrow> Inl property_of_undefined)"

definition data_of :: "descriptor \<Rightarrow> string \<Rightarrow> string res" where
  "data_of d key =
     (case d_data d of
        None \<Rightarrow> Inl property_of_undefined
      | Some dict \<Rightarrow> Inr (case dict_get dict key of Some s \<Rightarrow> s | None \<Rightarrow> ''undefined''))"

definition suggest_empty_block :: overrider where
  "suggest_empty_block ctx d =
     bind_res (data_of d ''type'') (\<lambda>type.
       case d_node d of
         None \<Rightarrow> Inl property_of_undefined
       | Some n \<Rightarrow>
           let openingBrace = (if is_type n ''SwitchStatement''
                               then dx_getTokenAfter ctx (fld n ''discriminant'') (\<lambda>t. tok_value t = ''{'')
                               else dx_getFirstToken ctx n (\<lambda>_. True))
           in suggestEmptyBlockQuickFix d type openingBrace (dx_getLastToken ctx n (\<lambda>_. True)))"

definition decorateNoEmpty :: "'e deco_rule \<Rightarrow> 'e deco_rule res" where
  "decorateNoEmpty rule =
     bind_res (with_suggestions rule) (\<lambda>rule. Inr (interceptReport rule suggest_empty_block))"

definition isRuleFunctionNode :: "deco_context \<Rightarrow> node \<Rightarrow> bool" where
  "isRuleFunctionNode ctx n \<longleftrightarrow> isFunctionNode n \<and> dx_parent ctx n \<noteq> None"

definition isCallbackIdentifier :: "node \<Rightarrow> bool" where
  "isCallbackIdentifier n \<longleftrightarrow> n \<noteq> JNull \<and> isIdentifier n [] \<and>
     (case fld n ''name'' of
        JStr (c1 # c2 # c # _) \<Rightarrow> c1 = CHR ''o'' \<and> c2 = CHR ''n'' \<and> (of_char c :: nat) \<in> {65..90}
      | _ \<Rightarrow> False)"

definition isApplicable :: "deco_context \<Rightarrow> node \<Rightarrow> bool" where
  "isApplicable ctx functionNode \<longleftrightarrow>
     is_type functionNode ''FunctionDeclaration'' \<and> \<not> isCallbackIdentifier (fld functionNode ''id'') \<or>
     (case dx_parent ctx functionNode of
        None \<Rightarrow> False
      | Some parent \<Rightarrow>
          is_type parent ''MethodDefinition'' \<and> strict_eq (fld parent ''value'') functionNode \<and>
            \<not> isCallbackIdentifier (fld parent ''key'') \<or>
          is_type parent ''VariableDeclarator'' \<and> strict_eq (fld parent ''init'') functionNode \<and>
            \<not> isCallbackIdentifier (fld parent ''id''))"

definition reportWithQuickFix :: "deco_context \<Rightarrow> descriptor \<Rightarrow> node \<Rightarrow> descriptor list res" where
  "reportWithQuickFix ctx d func =
     bind_res (data_of d ''name'') (\<lambda>name.
       suggestEmptyBlockQuickFix d name (dx_getFirstToken ctx (fld func ''body'') (\<lambda>_. True))
         (dx_getLastToken ctx (fld func ''body'') (\<lambda>_. True)))"

definition reportWithQuickFixIfApplicable :: overrider where
  "reportWithQuickFixIfApplicable ctx d =
     (case d_node d of
        None \<Rightarrow> Inr []
      | Some n \<Rightarrow>
          if isRuleFunctionNode ctx n \<and> isApplicable ctx n then reportWithQuickFix ctx d n else Inr [])"

definition decorateNoEmptyFunction :: "'e deco_rule \<Rightarrow> 'e deco_rule res" where
  "decorateNoEmptyFunction rule =
     bind_res (with_suggestions rule) (\<lambda>rule. Inr (interceptReport rule reportWithQuickFixIfApplicable))"

subsection \<open>Thrown literals\<close>

text \<open>\<^verbatim>\<open>isStringLike\<close> with the mutually recursive \<^verbatim>\<open>isStringConcatenation\<close>.\<close>

function isStringLike :: "node \<Rightarrow> bool" where
  "isStringLike n \<longleftrightarrow>
     isStringLiteral n \<or>
     (isBinaryPlus n \<and>
      ((if fld n ''left'' = JUndefined then False else isStringLike (fld n ''left'')) \<or>
       (if fld n ''right'' = JUndefined then False else isStringLike (fld n ''right''))))"
  by auto
termination by (relation "measure size") (auto simp: size_fld_less)

declare isStringLike.simps [simp del]

definition suggest_error_object :: overrider where
  "suggest_error_object ctx d =
     (let suggest =
        (case d_node d of
           None \<Rightarrow> []
         | Some n \<Rightarrow>
             let thrown = fld n ''argument'' in
             if isStringLike thrown
             then [\<lparr>sf_desc = ''Throw an error object'',
                    sf_fix = bind_res (replaceText thrown (''new Error('' @ dx_getText ctx thrown @ '')'')) (\<lambda>fix. Inr [fix])\<rparr>]
             else [])
      in Inr [d\<lparr>d_suggest := Some suggest\<rparr>])"

definition decorateNoThrowLiteral :: "'e deco_rule \<Rightarrow> 'e deco_rule res" where
  "decorateNoThrowLiteral rule =
     bind_res (with_suggestions rule) (\<lambda>rule. Inr (interceptReport rule suggest_error_object))"

subsection \<open>Unreachable code\<close>

definition remove_unreachable :: "deco_context \<Rightarrow> descriptor \<Rightarrow> rule_fix list res" where
  "remove_unreachable ctx d =
     (case (d_loc d, d_node d) of
        (Some loc, Some n) \<Rightarrow>
          bind_res (dx_getIndexFromLoc ctx (range_end loc)) (\<lambda>index.
          bind_res (removeNodeWithLeadingWhitespaces ctx n (Some index)) (\<lambda>fix. Inr [fix]))
      | _ \<Rightarrow> Inl property_of_undefined)"

definition decorateNoUnreachable :: "'e deco_rule \<Rightarrow> 'e deco_rule res" where
  "decorateNoUnreachable rule =
     bind_res (with_suggestions rule) (\<lambda>rule. Inr (interceptReport rule (\<lambda>ctx d.
       Inr [d\<lparr>d_suggest := Some [\<lparr>sf_desc = ''Remove unreachable code'', sf_fix = remove_unreachable ctx d\<rparr>]\<rparr>])))"

subsection \<open>Loops over arrays\<close>

definition element_name :: string where
  "element_name = ''element''"

fun isFixable :: "scope_tree \<Rightarrow> bool" where
  "isFixable (ScopeTree refs children) \<longleftrightarrow>
     (\<forall>r \<in> set refs. fld (ref_identifier r) ''name'' \<noteq> JStr element_name) \<and> (\<forall>c \<in> set children. isFixable c)"

definition contains_node :: "node \<Rightarrow> node \<Rightarrow> bool res" where
  "contains_node outer inner =
     (case (node_range outer, node_range inner) of
        (Some (a, b), Some (c, d)) \<Rightarrow> Inr (a \<le> c \<and> d \<le> b)
      | _ \<Rightarrow> Inl property_of_undefined)"

definition extractArrayExpression :: "node \<Rightarrow> node" where
  "extractArrayExpression forStmt = fld (fld (fld forStmt ''test'') ''right'') ''object''"

definition access_fix :: "deco_context \<Rightarrow> node \<Rightarrow> reference \<Rightarrow> rule_fix list res" where
  "access_fix ctx forStmt reference =
     (let id = ref_identifier reference in
      bind_res (contains_node (fld forStmt ''body'') id) (\<lambda>inside.
        if inside then
          (case dx_parent ctx id of
             None \<Rightarrow> Inl property_of_undefined
           | Some arrayAccess \<Rightarrow> bind_res (replaceText arrayAccess element_name) (\<lambda>fix. Inr [fix]))
        else Inr []))"

definition rewriteForStatement :: "node \<Rightarrow> deco_context \<Rightarrow> rule_fix list res" where
  "rewriteForStatement forStmt ctx =
     (let arrayText = dx_getText ctx (extractArrayExpression forStmt);
          headerText = ''const '' @ element_name @ '' of '' @ arrayText
      in case (dx_getFirstToken ctx forStmt (\<lambda>t. tok_value t = ''(''),
               dx_getTokenBefore ctx (fld forStmt ''body'') (\<lambda>t. tok_value t = '')''),
               dx_getDeclaredVariables ctx (fld forStmt ''init'')) of
           (Some opening, Some closing, indexVar # _) \<Rightarrow>
             bind_res (map_res (access_fix ctx forStmt) (var_references indexVar)) (\<lambda>fixes.
               Inr (\<lparr>fix_range = (snd (tok_range opening), fst (tok_range closing)), fix_text = headerText\<rparr> # concat fixes))
         | _ \<Rightarrow> Inl property_of_undefined)"

definition decoratePreferForOf :: "'e deco_rule \<Rightarrow> 'e deco_rule res" where
  "decoratePreferForOf rule =
     bind_res (with_suggestions rule) (\<lambda>rule. Inr (interceptReport rule (\<lambda>ctx d.
       Inr [d\<lparr>d_suggest := Some
         (if isFixable (dx_scope ctx)
          then [\<lparr>sf_desc = ''Replace with '' @ [CHR 0x22] @ ''for of'' @ [CHR 0x22] @ '' loop'',
                 sf_fix = (case d_node d of
                             None \<Rightarrow> Inl property_of_undefined
                           | Some forStmt \<Rightarrow> rewriteForStatement forStmt ctx)\<rparr>]
          else [])\<rparr>])))"

subsection \<open>Comparisons with NaN\<close>

definition isNaNIdentifier :: "node \<Rightarrow> bool" where
  "isNaNIdentifier n \<longleftrightarrow> isIdentifier n [''NaN''] \<or> isMemberExpression n ''Number'' [''NaN'']"

definition negates :: "node \<Rightarrow> bool option" where
  "negates n =
     (case fld n ''operator'' of
        JStr s \<Rightarrow> if s = ''!='' \<or> s = ''!=='' then Some True
                 else if s = ''=='' \<or> s = ''==='' then Some False else None
      | _ \<Rightarrow> None)"

definition suggest_isNaN :: overrider where
  "suggest_isNaN ctx d =
     (case d_node d of
        None \<Rightarrow> Inl property_of_undefined
      | Some n \<Rightarrow>
          let suggest =
            (if is_type n ''BinaryExpression'' then
               (case negates n of
                  None \<Rightarrow> []
                | Some negate \<Rightarrow>
                    let arg = (if isNaNIdentifier (fld n ''left'') then fld n ''right'' else fld n ''left'');
                        argText = dx_getText ctx arg;
                        pre = (if negate then ''!'' else []);
                        suggestion = (\<lambda>f. \<lparr>sf_desc = ''Use '' @ [CHR 0x22] @ f @ ''()'' @ [CHR 0x22],
                          sf_fix = bind_res (replaceText n (pre @ f @ ''('' @ argText @ '')'')) (\<lambda>fix. Inr [fix])\<rparr>)
                    in [suggestion ''isNaN'', suggestion ''Number.isNaN''])
             else [])
          in Inr [d\<lparr>d_suggest := Some suggest\<rparr>])"

definition decorateUseIsNan :: "'e deco_rule \<Rightarrow> 'e deco_rule res" where
  "decorateUseIsNan rule =
     bind_res (with_suggestions rule) (\<lambda>rule. Inr (interceptReport rule suggest_isNaN))"

section \<open>The registry\<close>

definition decorators :: "('e deco_rule \<Rightarrow> 'e deco_rule res) dict" where
  "decorators =
     [(''accessor-pairs'', decorateAccessorPairs), (''brace-style'', decorateBraceStyle),
      (''default-param-last'', decorateDefaultParamLast), (''jsx-key'', decorateJsxKey),
      (''jsx-no-constructed-context-values'', decorateJsxNoConstructedContextValues),
      (''no-dupe-keys'', decorateNoDupeKeys), (''no-duplicate-imports'', decorateNoDuplicateImports),
      (''no-empty'', decorateNoEmpty), (''no-empty-function'', decorateNoEmptyFunction),
      (''no-extra-semi'', decorateNoExtraSemi), (''no-redeclare'', decorateNoRedeclare),
      (''no-this-alias'', decorateNoThisAlias), (''no-throw-literal'', decorateNoThrowLiteral),
      (''no-unreachable'', decorateNoUnreachable), (''no-unstable-nested-components'', decorateNoUnstableNestedComponents),
      (''no-unused-expressions'', decorateNoUnusedExpressions), (''no-var'', decorateNoVar),
      (''object-shorthand'', decorateObjectShorthand), (''prefer-for-of'', decoratePreferForOf),
      (''prefer-template'', decoratePreferTemplate), (''semi'', decorateSemi), (''use-isnan'', decorateUseIsNan)]"


section \<open>Correctness\<close>

subsection \<open>Refinement of reports\<close>

text \<open>A report stays the same issue: its message, if it is not shortened, its message id and its data.\<close>

definition same_issue :: "descriptor \<Rightarrow> descriptor \<Rightarrow> bool" where
  "same_issue d d' \<longleftrightarrow> d_messageId d' = d_messageId d \<and> d_data d' = d_data d \<and>
     (d_message d' = d_message d \<or> d_message d' = map_option urlRemover (d_message d))"

definition refining :: "overrider \<Rightarrow> bool" where
  "refining onReport \<longleftrightarrow>
     (\<forall>ctx d rs. onReport ctx d = Inr rs \<longrightarrow> rs = [] \<or> (\<exists>d'. rs = [d'] \<and> same_issue d d'))"

text \<open>What may become of a call of \<^verbatim>\<open>report\<close>.\<close>

definition refines :: "report_args \<Rightarrow> report_args list \<Rightarrow> bool" where
  "refines args out \<longleftrightarrow> out = [] \<or> out = [args] \<or>
     (\<exists>d d'. (intercepted args = Some d \<or> intercepted_react args = Some d) \<and> out = [OneArgument d'] \<and> same_issue d d')"

lemma same_issue_refl [simp]: "same_issue d d"
  by (simp add: same_issue_def)

lemma same_issue_update [simp]:
  "same_issue d (d\<lparr>d_suggest := s\<rparr>)" "same_issue d (d\<lparr>d_node := n\<rparr>)" "same_issue d (d\<lparr>d_loc := l\<rparr>)"
  "same_issue d (d\<lparr>d_node := n, d_loc := l\<rparr>)" "d_message d = Some m \<Longrightarrow> same_issue d (d\<lparr>d_message := Some (urlRemover m)\<rparr>)"
  by (simp_all add: same_issue_def)

lemma refining_const: "(\<And>ctx d. \<exists>d'. f ctx d = Inr [d'] \<and> same_issue d d') \<Longrightarrow> refining f"
  unfolding refining_def by (metis sum.inject(2))

lemma refining_exempting: "refining (reportExempting cond)"
  by (auto simp: refining_def reportExempting_def split: option.splits if_splits)

lemma refining_intro:
  "(\<And>ctx d rs. f ctx d = Inr rs \<Longrightarrow> rs = [] \<or> (\<exists>d'. rs = [d'] \<and> same_issue d d')) \<Longrightarrow> refining f"
  by (simp add: refining_def)

lemma intercept_refines:
  assumes "refining f" "descr = intercepted \<or> descr = intercepted_react" "intercept_with descr f ctx calls = Inr calls'"
  shows "\<exists>outs. list_all2 refines calls outs \<and> calls' = concat outs"
proof -
  let ?g = "\<lambda>args. case descr args of None \<Rightarrow> Inr [] | Some d \<Rightarrow> f ctx d"
  from assms(3) obtain rs where rs: "map_res ?g calls = Inr rs" "calls' = map OneArgument (concat rs)"
    by (auto simp: intercept_with_def bind_res_eq_Inr)
  have "refines args (map OneArgument r)" if "?g args = Inr r" for args r
  proof (cases "descr args")
    case (Some d)
    then have "r = [] \<or> (\<exists>d'. r = [d'] \<and> same_issue d d')" using assms(1) that by (simp add: refining_def)
    then show ?thesis using assms(2) Some by (auto simp: refines_def)
  qed (use that in \<open>simp add: refines_def\<close>)
  then have "list_all2 refines calls (map (map OneArgument) rs)"
    using rs(1) unfolding map_res_Inr_iff by (auto simp: list_all2_map2 elim: list_all2_mono)
  then show ?thesis using rs(2) by (metis map_concat)
qed

lemma refines_same: "list_all2 refines calls (map (\<lambda>c. [c]) calls) \<and> calls = concat (map (\<lambda>c. [c]) calls)"
  by (auto simp: list_all2_map2 refines_def intro: list_all2_refl)

text \<open>A rule whose reports refine those of another one.\<close>

definition rule_refines :: "'e deco_rule \<Rightarrow> 'e deco_rule \<Rightarrow> bool" where
  "rule_refines rule rule' \<longleftrightarrow>
     (\<forall>ctx event calls'. dr_create rule' ctx event = Inr calls' \<longrightarrow>
        (\<exists>calls outs. dr_create rule ctx event = Inr calls \<and> list_all2 refines calls outs \<and> calls' = concat outs)) \<and>
     (dr_meta rule' = None \<longleftrightarrow> dr_meta rule = None)"

lemma interceptReport_refines:
  assumes "refining f"
  shows "rule_refines rule (interceptReport rule f)" "rule_refines rule (interceptReportForReact rule f)"
  using intercept_refines [OF assms, of intercepted] intercept_refines [OF assms, of intercepted_react]
  by (auto simp: rule_refines_def interceptReport_def interceptReportForReact_def bind_res_eq_Inr)

lemma rule_refines_meta: "dr_meta rule \<noteq> None \<Longrightarrow> rule_refines (rule\<lparr>dr_meta := Some m\<rparr>) rule' \<Longrightarrow> rule_refines rule rule'"
  by (auto simp: rule_refines_def)

lemma suggesting_refines:
  assumes "bind_res (with_suggestions rule) (\<lambda>rule. Inr (interceptReport rule f)) = Inr rule'" "refining f"
  shows "rule_refines rule rule' \<and> (\<exists>meta. dr_meta rule' = Some meta \<and> dm_hasSuggestions meta)"
proof -
  from assms(1) obtain meta where meta: "dr_meta rule = Some meta"
    "rule' = interceptReport (rule\<lparr>dr_meta := Some (meta\<lparr>dm_hasSuggestions := True\<rparr>)\<rparr>) f"
    by (auto simp: with_suggestions_def split: option.splits)
  let ?rule = "rule\<lparr>dr_meta := Some (meta\<lparr>dm_hasSuggestions := True\<rparr>)\<rparr>"
  have "rule_refines ?rule rule'" unfolding meta(2) by (rule interceptReport_refines(1) [OF assms(2)])
  then have "rule_refines rule rule'" by (rule rule_refines_meta [rotated]) (simp add: meta(1))
  moreover have "dr_meta rule' = Some (meta\<lparr>dm_hasSuggestions := True\<rparr>)" unfolding meta(2) by (simp add: interceptReport_def)
  ultimately show ?thesis by simp
qed


lemma refining_brace_style: "refining (\<lambda>ctx d. Inr (if isOpeningBracket (d_messageId d) then [d] else []))"
  by (auto simp: refining_def)

lemma refining_object_shorthand:
  "refining (\<lambda>ctx d. case d_node d of None \<Rightarrow> Inr []
     | Some property \<Rightarrow> bind_res (isAuraLightningProperty ctx property) (\<lambda>exempted.
         Inr (if exempted then [] else [d\<lparr>d_node := Some (fld property ''key'')\<rparr>])))"
  by (auto simp: refining_def bind_res_eq_Inr split: option.splits if_splits)

lemma refining_changeMessage: "refining (changeMessageWith urlRemover)"
  by (auto simp: refining_def changeMessageWith_def split: option.splits)

lemma refining_fixLocation: "refining fixLocation"
  by (auto simp: refining_def fixLocation_def split: option.splits report_loc.splits)

lemma refining_var_location: "refining var_location"
  by (auto simp: refining_def var_location_def Let_def split: option.splits list.splits)

lemma refining_suggest: "refining (\<lambda>ctx d. Inr [d\<lparr>d_suggest := s ctx d\<rparr>])"
  by (auto simp: refining_def)

lemma refining_duplicate_imports:
  "refining (\<lambda>ctx d. case d_node d of None \<Rightarrow> Inl property_of_undefined
     | Some duplicateDecl \<Rightarrow> bind_res (getSuggestion duplicateDecl ctx) (\<lambda>suggest. Inr [d\<lparr>d_suggest := Some suggest\<rparr>]))"
  by (auto simp: refining_def bind_res_eq_Inr split: option.splits)

lemma suggestEmptyBlock_same:
  "suggestEmptyBlockQuickFix d t a b = Inr rs \<Longrightarrow> \<exists>d'. rs = [d'] \<and> same_issue d d'"
  by (auto simp: suggestEmptyBlockQuickFix_def Let_def split: option.splits)

lemma refining_empty_block: "refining suggest_empty_block"
  by (rule refining_intro)
    (auto simp: suggest_empty_block_def bind_res_eq_Inr Let_def dest: suggestEmptyBlock_same split: option.splits if_splits)

lemma refining_empty_function: "refining reportWithQuickFixIfApplicable"
  by (rule refining_intro)
    (auto simp: reportWithQuickFixIfApplicable_def reportWithQuickFix_def bind_res_eq_Inr dest: suggestEmptyBlock_same
      split: option.splits if_splits)

lemma refining_error_object: "refining suggest_error_object"
  by (auto simp: refining_def suggest_error_object_def Let_def)

lemma refining_isNaN: "refining suggest_isNaN"
  by (auto simp: refining_def suggest_isNaN_def Let_def split: option.splits)

lemmas refining_overriders = refining_exempting refining_brace_style refining_object_shorthand refining_changeMessage
  refining_fixLocation refining_var_location refining_suggest refining_duplicate_imports refining_empty_block
  refining_empty_function refining_error_object refining_isNaN

lemma changeRuleMessages_refines: "rule_refines rule (changeRuleMessagesWith rule f)"
proof -
  have "\<exists>outs. list_all2 refines calls outs \<and> calls = concat outs" for calls using refines_same by blast
  then show ?thesis by (auto simp: rule_refines_def changeRuleMessagesWith_def split: option.splits)
qed

text \<open>The decorators refine reports, and some announce suggestions.\<close>

definition decorator_refines :: "('e deco_rule \<Rightarrow> 'e deco_rule res) \<Rightarrow> bool" where
  "decorator_refines f \<longleftrightarrow> (\<forall>rule rule'. f rule = Inr rule' \<longrightarrow> rule_refines rule rule')"

definition announces :: "('e deco_rule \<Rightarrow> 'e deco_rule res) \<Rightarrow> bool" where
  "announces f \<longleftrightarrow> (\<forall>rule rule'. f rule = Inr rule' \<longrightarrow> (\<exists>meta. dr_meta rule' = Some meta \<and> dm_hasSuggestions meta))"

lemma replacing_refines:
  "refining g \<Longrightarrow> decorator_refines (\<lambda>rule. Inr (interceptReport rule g))"
  "refining g \<Longrightarrow> decorator_refines (\<lambda>rule. Inr (interceptReportForReact rule g))"
  "decorator_refines (\<lambda>rule. Inr (changeRuleMessagesWith rule h))"
  using interceptReport_refines changeRuleMessages_refines by (auto simp: decorator_refines_def)

lemma announcing_refines:
  assumes "refining g"
  shows "decorator_refines (\<lambda>rule. bind_res (with_suggestions rule) (\<lambda>rule. Inr (interceptReport rule g)))"
    "announces (\<lambda>rule. bind_res (with_suggestions rule) (\<lambda>rule. Inr (interceptReport rule g)))"
  using suggesting_refines [OF _ assms] by (auto simp: decorator_refines_def announces_def)

lemma exempting_decorators:
  "decorator_refines decorateAccessorPairs" "decorator_refines decorateBraceStyle" "decorator_refines decorateDefaultParamLast"
  "decorator_refines decorateJsxKey" "decorator_refines decorateNoExtraSemi" "decorator_refines decorateNoRedeclare"
  "decorator_refines decorateNoThisAlias" "decorator_refines decoratePreferTemplate"
  "decorator_refines decorateNoUnusedExpressions" "decorator_refines decorateObjectShorthand"
  unfolding decorateAccessorPairs_def decorateBraceStyle_def decorateDefaultParamLast_def decorateJsxKey_def
    decorateNoExtraSemi_def decorateNoRedeclare_def decorateNoThisAlias_def decoratePreferTemplate_def
    decorateNoUnusedExpressions_def decorateObjectShorthand_def
  by (rule replacing_refines, rule refining_overriders)+

lemma changing_decorators:
  "decorator_refines decorateNoUnstableNestedComponents" "decorator_refines decorateSemi" "decorator_refines decorateNoVar"
  "decorator_refines decorateJsxNoConstructedContextValues"
  unfolding decorateNoUnstableNestedComponents_def decorateSemi_def decorateNoVar_def decorateJsxNoConstructedContextValues_def
  by (rule replacing_refines, rule refining_overriders)+ (rule replacing_refines)

lemma suggesting_decorators:
  "decorator_refines decorateNoDupeKeys \<and> announces decorateNoDupeKeys"
  "decorator_refines decorateNoDuplicateImports \<and> announces decorateNoDuplicateImports"
  "decorator_refines decorateNoEmpty \<and> announces decorateNoEmpty"
  "decorator_refines decorateNoEmptyFunction \<and> announces decorateNoEmptyFunction"
  "decorator_refines decorateNoThrowLiteral \<and> announces decorateNoThrowLiteral"
  "decorator_refines decorateNoUnreachable \<and> announces decorateNoUnreachable"
  "decorator_refines decoratePreferForOf \<and> announces decoratePreferForOf"
  "decorator_refines decorateUseIsNan \<and> announces decorateUseIsNan"
  unfolding decorateNoDupeKeys_def decorateNoDuplicateImports_def decorateNoEmpty_def decorateNoEmptyFunction_def
    decorateNoThrowLiteral_def decorateNoUnreachable_def decoratePreferForOf_def decorateUseIsNan_def
  by (rule conjI, rule announcing_refines, rule refining_overriders, rule announcing_refines, rule refining_overriders)+

definition suggesting_keys :: "string list" where
  "suggesting_keys = [''no-dupe-keys'', ''no-duplicate-imports'', ''no-empty'', ''no-empty-function'', ''no-throw-literal'',
     ''no-unreachable'', ''prefer-for-of'', ''use-isnan'']"

text \<open>
  C20: no decorator invents, repeats or reorders an issue. Every call of \<^verbatim>\<open>report\<close> of the original rule leads to at most one report
  of the decorated rule, in the same order and with the same message id and data, and the same message but for the
  removal of a link; a decorated rule has metadata exactly if the original one has, and those that add quick fixes announce suggestions.
\<close>

theorem decorators_refine:
  assumes "(key, decorate) \<in> set decorators" "decorate rule = Inr rule'"
  shows "(\<forall>ctx event calls'. dr_create rule' ctx event = Inr calls' \<longrightarrow>
      (\<exists>calls outs. dr_create rule ctx event = Inr calls \<and> list_all2 refines calls outs \<and> calls' = concat outs)) \<and>
    (dr_meta rule' = None \<longleftrightarrow> dr_meta rule = None) \<and>
    (key \<in> set suggesting_keys \<longrightarrow> (\<exists>meta. dr_meta rule' = Some meta \<and> dm_hasSuggestions meta))"
proof -
  have "list_all (\<lambda>(key, f). decorator_refines f) decorators"
    by (simp add: decorators_def exempting_decorators changing_decorators suggesting_decorators)
  then have "rule_refines rule rule'" using assms by (auto simp: list_all_iff decorator_refines_def)
  moreover have "list_all (\<lambda>(key, f). key \<in> set suggesting_keys \<longrightarrow> announces f) decorators"
    by (simp add: decorators_def suggesting_keys_def suggesting_decorators)
  then have "key \<in> set suggesting_keys \<longrightarrow> (\<exists>meta. dr_meta rule' = Some meta \<and> dm_hasSuggestions meta)"
    using assms by (fastforce simp: list_all_iff announces_def)
  ultimately show ?thesis by (simp add: rule_refines_def)
qed


text \<open>A rule that reports one node with two arguments, decorated so that a setter with Angular's \<^verbatim>\<open>Input\<close> is exempted.\<close>

definition example_context :: deco_context where
  "example_context = \<lparr>dx_rule = context_of_write ''x'' JNull, dx_getTokenBefore = (\<lambda>_ _. None), dx_getTokenAfter = (\<lambda>_ _. None),
     dx_getFirstToken = (\<lambda>_ _. None), dx_getLastToken = (\<lambda>_ _. None), dx_getCommentsBefore = (\<lambda>_. []), dx_getText = (\<lambda>_. []),
     dx_getIndexFromLoc = (\<lambda>_. Inr 0), dx_getDeclaredVariables = (\<lambda>_. []), dx_parent = (\<lambda>_. None), dx_from = (\<lambda>_. []),
     dx_scope = ScopeTree [] []\<rparr>"

definition example_rule :: "node deco_rule" where
  "example_rule = \<lparr>dr_meta = None, dr_create = (\<lambda>ctx n. Inr [NodeAndMessage n ''m''])\<rparr>"

definition input_setter :: node where
  "input_setter = JObj 1 None None [(''kind'', JStr ''set''), (''decorators'', JArr [JObj 2 None None [(''expression'',
     JObj 3 None None [(''type'', JStr ''CallExpression''), (''callee'', identifier_node 4 ''Input'')])]])]"

theorem decorators_refine_witness:
  "\<exists>rule' calls outs. decorateAccessorPairs example_rule = Inr rule' \<and>
     dr_create rule' example_context input_setter = Inr [] \<and>
     dr_create example_rule example_context input_setter = Inr calls \<and> list_all2 refines calls outs \<and> concat outs = []"
proof -
  have mem: "(''accessor-pairs'', decorateAccessorPairs) \<in> set (decorators :: (node deco_rule \<Rightarrow> node deco_rule res) dict)"
    by (simp add: decorators_def)
  obtain rule' where rule': "decorateAccessorPairs example_rule = Inr rule'" by (simp add: decorateAccessorPairs_def)
  have "isDecoratedSetterWithAngularInput input_setter" by code_simp
  then have "dr_create rule' example_context input_setter = Inr []"
    using rule' by (auto simp: decorateAccessorPairs_def interceptReport_def example_rule_def intercept_with_def reportExempting_def)
  with decorators_refine [OF mem rule'] rule' show ?thesis by metis
qed

subsection \<open>Which reports are kept\<close>

lemma map_res_total: "map_res (\<lambda>x. Inr (h x)) xs = Inr (map h xs)"
  by (induction xs) simp_all

lemma exempting_exact:
  "dr_create (interceptReport rule (reportExempting cond)) ctx event =
     bind_res (dr_create rule ctx event) (\<lambda>calls.
       Inr (map OneArgument (filter (\<lambda>d. case d_node d of None \<Rightarrow> False | Some n \<Rightarrow> \<not> cond ctx n) (List.map_filter intercepted calls))))"
proof -
  let ?keep = "\<lambda>d. case d_node d of None \<Rightarrow> False | Some n \<Rightarrow> \<not> cond ctx n"
  let ?h = "\<lambda>args. case intercepted args of None \<Rightarrow> [] | Some d \<Rightarrow> if ?keep d then [d] else []"
  have each: "(\<lambda>args. case intercepted args of None \<Rightarrow> Inr [] | Some d \<Rightarrow> reportExempting cond ctx d) = (\<lambda>args. Inr (?h args))"
    by (auto simp: reportExempting_def fun_eq_iff split: option.splits)
  have all: "concat (map ?h calls) = filter ?keep (List.map_filter intercepted calls)" for calls
    by (induction calls) (auto simp: List.map_filter_simps split: option.splits)
  have "intercept_with intercepted (reportExempting cond) ctx =
      (\<lambda>calls. Inr (map OneArgument (filter ?keep (List.map_filter intercepted calls))))"
    by (rule ext) (simp only: intercept_with_def each map_res_total bind_res_Inr all)
  then show ?thesis by (simp add: interceptReport_def)
qed

text \<open>
  A merged listener runs the listeners of all rules for its selector, in the order of the rules, also when they
  overlap; the selectors are those of the rules.
\<close>

lemma keys_fold_assign: "fst ` set (fold dict_assign rules d) = fst ` set d \<union> (\<Union>r \<in> set rules. fst ` set r)"
proof (induction rules arbitrary: d)
  case (Cons r rules)
  have "fst ` set (dict_assign r d) = fst ` set d \<union> fst ` set r"
    using arg_cong [OF keys_dict_assign [of r d], of set] by (simp add: set_fold_set_add)
  with Cons show ?case by auto
qed simp

lemma map_of_map_key:
  "map_of (map (\<lambda>(l, _). (l, g l)) xs) k = (if k \<in> fst ` set xs then Some (g k) else None)"
  by (induction xs) auto

lemma mergeRules_correct:
  "dict_get (mergeRules rules) k =
     (if \<exists>rule \<in> set rules. k \<in> fst ` set rule
      then Some (\<lambda>args. concat (map (\<lambda>rule. case dict_get rule k of None \<Rightarrow> [] | Some f \<Rightarrow> f args) rules)) else None)"
  by (simp add: mergeRules_def dict_get_def map_of_map_key keys_fold_assign mergeListeners_def fun_eq_iff comp_def)

subsection \<open>Quick fixes that break the code\<close>

text \<open>
  Merging imports keeps only the last default import, and puts a namespace import beside named ones, which is no
  import clause of the language.
\<close>

definition specifier_node :: "nat \<Rightarrow> string \<Rightarrow> string \<Rightarrow> node" where
  "specifier_node i type t = JObj i None None [(''type'', JStr type), (''name'', JStr t)]"

definition import_node :: "nat \<Rightarrow> node list \<Rightarrow> node" where
  "import_node i specifiers = JObj i None
     (Some \<lparr>loc_start = \<lparr>pos_line = 1, pos_column = 0\<rparr>, loc_end = \<lparr>pos_line = 1, pos_column = 9\<rparr>\<rparr>)
     [(''type'', JStr ''ImportDeclaration''), (''specifiers'', JArr specifiers)]"

definition name_context :: deco_context where
  "name_context = example_context\<lparr>dx_getText := (\<lambda>n. case fld n ''name'' of JStr s \<Rightarrow> s | _ \<Rightarrow> [])\<rparr>"

lemma merged_imports:
  "mergeSpecifiers (import_node 1 [specifier_node 2 ''ImportDefaultSpecifier'' ''a''])
     (import_node 3 [specifier_node 4 ''ImportDefaultSpecifier'' ''b'']) name_context = Inr ''b''"
  "mergeSpecifiers (import_node 1 [specifier_node 2 ''ImportNamespaceSpecifier'' ''* as n''])
     (import_node 3 [specifier_node 4 ''ImportSpecifier'' ''a'']) name_context = Inr ''* as n, { a }''"
  by code_simp+

text \<open>
  The last property of \<^verbatim>\<open>f({a:1,a:2},b)\<close> is removed up to the comma after the closing brace. Tokens are found by their
  positions.
\<close>

definition token_here :: "string \<Rightarrow> int \<Rightarrow> token" where
  "token_here v i = \<lparr>tok_id = nat i, tok_type = ''Punctuator'', tok_value = v, tok_range = (i, i + 1),
     tok_loc = \<lparr>loc_start = \<lparr>pos_line = 1, pos_column = i\<rparr>, loc_end = \<lparr>pos_line = 1, pos_column = i + 1\<rparr>\<rparr>\<rparr>"

definition property_at :: "nat \<Rightarrow> int \<Rightarrow> int \<Rightarrow> node" where
  "property_at i a b = JObj i (Some (a, b))
     (Some \<lparr>loc_start = \<lparr>pos_line = 1, pos_column = a\<rparr>, loc_end = \<lparr>pos_line = 1, pos_column = b\<rparr>\<rparr>) [(''type'', JStr ''Property'')]"

definition call_context :: deco_context where
  "call_context = (let tokens = map2 token_here [''f'', ''('', ''{'', ''a'', '':'', ''1'', '','', ''a'', '':'', ''2'', ''}'', '','', ''b'', '')''] (map int [0..<14]);
       bounds = (\<lambda>n. case node_range n of Some r \<Rightarrow> r | None \<Rightarrow> (0, 0)) in
     example_context\<lparr>
       dx_getTokenBefore := (\<lambda>n f. List.find (\<lambda>t. f t \<and> snd (tok_range t) \<le> fst (bounds n)) (rev tokens)),
       dx_getTokenAfter := (\<lambda>n f. List.find (\<lambda>t. f t \<and> snd (bounds n) \<le> fst (tok_range t)) tokens),
       dx_getIndexFromLoc := (\<lambda>p. case p of Some p \<Rightarrow> Inr (pos_column p) | None \<Rightarrow> Inl property_of_undefined)\<rparr>)"

lemma remove_property_too_far:
  "remove_property (empty_descriptor\<lparr>
       d_node := Some (JObj 1 (Some (2, 11)) None [(''properties'', JArr [property_at 2 3 6, property_at 3 7 10])]),
       d_loc := Some (LocRange \<lparr>loc_start = \<lparr>pos_line = 1, pos_column = 7\<rparr>, loc_end = \<lparr>pos_line = 1, pos_column = 8\<rparr>\<rparr>)\<rparr>) call_context =
     Inr [\<lparr>fix_range = (7, 12), fix_text = []\<rparr>]"
  by code_simp

end
