(* ===== verification/Dead_Stores.thy ===== *)
theory Dead_Stores
  imports Dataflow Ast_Helpers
begin

text \<open>
  The rule on useless assignments (\<^verbatim>\<open>src/linting/eslint/rules/no-dead-store.ts\<close>), the
  client of the live variable analysis: the listeners collect the references of every segment in
  the order of evaluation, and at the end of the program the rule reports the writes whose value
  no path reads. The state is the closure of \<^verbatim>\<open>create\<close>; stacks have their top first.
\<close>

section \<open>What ESLint gives the rule\<close>

text \<open>
  The environment holds what the rule reads of ESLint's objects: the chain of a node (the node, its
  \<^verbatim>\<open>parent\<close>, and so on, up to the \<^verbatim>\<open>null\<close> or \<^verbatim>\<open>undefined\<close> that ends it), the
  \<^verbatim>\<open>init\<close> flag of a reference, and the name and the block of the scope of a variable, both by
  identity. The four predicates of \<^verbatim>\<open>eslint-plugin-sonarjs\<close> are fields as well. Segments are
  the objects as they are when the program has been traversed: the rule looks at their neighbours
  only then.
\<close>

record dead_store_env =
  de_chain :: "node \<Rightarrow> jsval list"
  de_init :: "nat \<Rightarrow> bool"
  de_name :: "nat \<Rightarrow> string"
  de_block :: "nat \<Rightarrow> node"
  de_isLiteral :: "node \<Rightarrow> bool"
  de_isObjectExpression :: "node \<Rightarrow> bool"
  de_isIdentifier :: "node \<Rightarrow> bool"
  de_isAssignmentExpression :: "node \<Rightarrow> bool"

record event_context =
  ec_scope :: "scope option"
  ec_ancestors :: "node list"
  ec_currentSegments :: "string \<Rightarrow> segment list"

definition parent_of :: "dead_store_env \<Rightarrow> node \<Rightarrow> jsval" where
  "parent_of env n = (case de_chain env n of _ # p # _ \<Rightarrow> p | _ \<Rightarrow> JUndefined)"

section \<open>State\<close>

record assignment_context =
  as_node :: node
  as_lhs :: "reference list"
  as_rhs :: "reference list"

record code_path_context =
  cc_codePath :: string
  cc_assignmentStack :: "assignment_context list"

record destructuring_context =
  dc_hasRest :: bool
  dc_references :: "reference list"

datatype dead_store_report = RemoveAssignment jsval "source_loc option"

record dead_store_state =
  ds_codePathStack :: "code_path_context list"
  ds_liveVariablesMap :: live_map
  ds_readVariables :: "nat list"
  ds_variableUsages :: "(nat \<times> string list) list"
  ds_referencesUsedInDestructuring :: "reference list"
  ds_destructuringStack :: "destructuring_context list"
  ds_nextReference :: nat
  ds_reports :: "dead_store_report list"

text \<open>
  The identity of the next \<^verbatim>\<open>JSXReference\<close> is part of the state: each is a new object.
\<close>

definition ds_create :: "nat \<Rightarrow> dead_store_state" where
  "ds_create fresh =
     \<lparr>ds_codePathStack = [], ds_liveVariablesMap = [], ds_readVariables = [], ds_variableUsages = [],
      ds_referencesUsedInDestructuring = [], ds_destructuringStack = [], ds_nextReference = fresh,
      ds_reports = []\<rparr>"

definition new_AssignmentContext :: "node \<Rightarrow> assignment_context" where
  "new_AssignmentContext n = \<lparr>as_node = n, as_lhs = [], as_rhs = []\<rparr>"

definition new_CodePathContext :: "string \<Rightarrow> code_path_context" where
  "new_CodePathContext codePath = \<lparr>cc_codePath = codePath, cc_assignmentStack = []\<rparr>"

definition new_DestructuringContext :: destructuring_context where
  "new_DestructuringContext = \<lparr>dc_hasRest = False, dc_references = []\<rparr>"

section \<open>Sides of an assignment\<close>

definition isRhs :: "dead_store_env \<Rightarrow> assignment_context \<Rightarrow> node \<Rightarrow> bool" where
  "isRhs env a n =
     (if de_isAssignmentExpression env (as_node a) then strict_eq (fld (as_node a) ''right'') n
      else strict_eq (fld (as_node a) ''init'') n)"

definition isLhs :: "dead_store_env \<Rightarrow> assignment_context \<Rightarrow> node \<Rightarrow> bool" where
  "isLhs env a n =
     (if de_isAssignmentExpression env (as_node a) then strict_eq (fld (as_node a) ''left'') n
      else strict_eq (fld (as_node a) ''id'') n)"

definition no_side :: js_error where
  "no_side = JsError ''failed to find assignment lhs/rhs'' []"

fun side_loop :: "dead_store_env \<Rightarrow> reference \<Rightarrow> assignment_context \<Rightarrow> jsval list \<Rightarrow> assignment_context res" where
  "side_loop env ref a [] = Inr a"
| "side_loop env ref a (p # ps) =
     (if \<not> truthy p then (if p = JNull then Inl no_side else Inr a)
      else if isLhs env a p then Inr (a\<lparr>as_lhs := add_by ref_id ref (as_lhs a)\<rparr>)
      else if isRhs env a p then Inr (a\<lparr>as_rhs := add_by ref_id ref (as_rhs a)\<rparr>)
      else side_loop env ref a ps)"

definition assignment_add :: "dead_store_env \<Rightarrow> reference \<Rightarrow> assignment_context \<Rightarrow> assignment_context res" where
  "assignment_add env ref a = side_loop env ref a (de_chain env (ref_identifier ref))"

section \<open>Recording references\<close>

definition lvaForSegment :: "live_map \<Rightarrow> segment \<Rightarrow> live_variables" where
  "lvaForSegment m segment =
     (case dict_get m (seg_id segment) of Some lv \<Rightarrow> lv | None \<Rightarrow> new_LiveVariables segment)"

definition add_to_segment :: "reference \<Rightarrow> segment \<Rightarrow> live_map \<Rightarrow> live_map" where
  "add_to_segment ref segment m = dict_set (seg_id segment) (lv_add ref (lvaForSegment m segment)) m"

definition processReference ::
  "dead_store_env \<Rightarrow> event_context \<Rightarrow> reference \<Rightarrow> dead_store_state \<Rightarrow> dead_store_state res" where
  "processReference env cx ref s =
     (case ds_codePathStack s of
        [] \<Rightarrow> Inl undefined_get
      | path # below \<Rightarrow>
          (case cc_assignmentStack path of
             a # as \<Rightarrow> bind_res (assignment_add env ref a) (\<lambda>a'.
               Inr (s\<lparr>ds_codePathStack := path\<lparr>cc_assignmentStack := a' # as\<rparr> # below\<rparr>))
           | [] \<Rightarrow> Inr (s\<lparr>ds_liveVariablesMap :=
               fold (add_to_segment ref) (ec_currentSegments cx (cc_codePath path)) (ds_liveVariablesMap s)\<rparr>)))"

definition pushAssignmentContext :: "node \<Rightarrow> dead_store_state \<Rightarrow> dead_store_state res" where
  "pushAssignmentContext n s =
     (case ds_codePathStack s of
        [] \<Rightarrow> Inl undefined_get
      | path # below \<Rightarrow> Inr (s\<lparr>ds_codePathStack :=
          path\<lparr>cc_assignmentStack := new_AssignmentContext n # cc_assignmentStack path\<rparr> # below\<rparr>))"

definition popAssignmentContext ::
  "dead_store_env \<Rightarrow> event_context \<Rightarrow> dead_store_state \<Rightarrow> dead_store_state res" where
  "popAssignmentContext env cx s =
     (case ds_codePathStack s of
        [] \<Rightarrow> Inl undefined_get
      | path # below \<Rightarrow>
          (case cc_assignmentStack path of
             [] \<Rightarrow> Inl undefined_get
           | a # as \<Rightarrow>
               bind_res (fold_res (processReference env cx) (as_rhs a)
                   (s\<lparr>ds_codePathStack := path\<lparr>cc_assignmentStack := as\<rparr> # below\<rparr>))
                 (fold_res (processReference env cx) (as_lhs a))))"

definition updateReadVariables :: "reference \<Rightarrow> nat \<Rightarrow> dead_store_state \<Rightarrow> dead_store_state" where
  "updateReadVariables ref variable s =
     (if ref_isRead ref then s\<lparr>ds_readVariables := set_add variable (ds_readVariables s)\<rparr> else s)"

definition updateVariableUsages :: "nat \<Rightarrow> dead_store_state \<Rightarrow> dead_store_state res" where
  "updateVariableUsages variable s =
     (case ds_codePathStack s of
        [] \<Rightarrow> Inl undefined_get
      | path # below \<Rightarrow> Inr (s\<lparr>ds_variableUsages :=
          (case dict_get (ds_variableUsages s) variable of
             Some ids \<Rightarrow> dict_set variable (set_add (cc_codePath path) ids) (ds_variableUsages s)
           | None \<Rightarrow> dict_set variable [cc_codePath path] (ds_variableUsages s))\<rparr>))"

section \<open>Resolving identifiers\<close>

fun resolveReferenceRecursively :: "node \<Rightarrow> scope option \<Rightarrow> nat \<Rightarrow> reference option \<times> nat option" where
  "resolveReferenceRecursively n None depth = (None, None)"
| "resolveReferenceRecursively n (Some (Scope vs rs up)) depth =
     (if depth > 2 then (None, None)
      else case List.find (\<lambda>r. strict_eq (ref_identifier r) n) rs of
             Some ref \<Rightarrow> (Some ref, ref_resolved ref)
           | None \<Rightarrow>
               (case List.find (\<lambda>v. list_ex (\<lambda>d. strict_eq (def_name d) n) (var_defs v)) vs of
                  Some variable \<Rightarrow> (None, Some (var_id variable))
                | None \<Rightarrow> resolveReferenceRecursively n up (depth + 1)))"

definition resolveReference :: "event_context \<Rightarrow> node \<Rightarrow> reference option \<times> nat option" where
  "resolveReference cx n = resolveReferenceRecursively n (ec_scope cx) 0"

definition isJSXAttributeName :: "dead_store_env \<Rightarrow> node \<Rightarrow> bool" where
  "isJSXAttributeName env n =
     (let parent = parent_of env n in
      truthy parent \<and> is_type parent ''JSXAttribute'' \<and> strict_eq (fld parent ''name'') n)"

fun findJSXVariableInScope :: "node \<Rightarrow> scope option \<Rightarrow> nat option" where
  "findJSXVariableInScope n None = None"
| "findJSXVariableInScope n (Some (Scope vs rs up)) =
     (case List.find (\<lambda>v. fld n ''name'' = JStr (var_name v)) vs of
        Some variable \<Rightarrow> Some (var_id variable)
      | None \<Rightarrow> findJSXVariableInScope n up)"

definition new_JSXReference :: "nat \<Rightarrow> node \<Rightarrow> scope option \<Rightarrow> reference" where
  "new_JSXReference i n scope =
     \<lparr>ref_id = i, ref_identifier = n, ref_isRead = True, ref_isWrite = False, ref_writeExpr = None,
      ref_resolved = findJSXVariableInScope n scope\<rparr>"

definition resolveJSXReference ::
  "dead_store_env \<Rightarrow> event_context \<Rightarrow> node \<Rightarrow> dead_store_state \<Rightarrow>
     (reference option \<times> nat option) \<times> dead_store_state" where
  "resolveJSXReference env cx n s =
     (if isJSXAttributeName env n then ((None, None), s)
      else let ref = new_JSXReference (ds_nextReference s) n (ec_scope cx) in
        ((Some ref, ref_resolved ref), s\<lparr>ds_nextReference := Suc (ds_nextReference s)\<rparr>))"

definition record_usage ::
  "dead_store_env \<Rightarrow> event_context \<Rightarrow> reference option \<Rightarrow> nat option \<Rightarrow> dead_store_state \<Rightarrow>
     dead_store_state res" where
  "record_usage env cx ref variable s =
     bind_res
       (case ref of
          None \<Rightarrow> Inr s
        | Some r \<Rightarrow> bind_res (processReference env cx r s) (\<lambda>s'.
            Inr (case variable of Some v \<Rightarrow> updateReadVariables r v s' | None \<Rightarrow> s')))
       (\<lambda>s'. case variable of None \<Rightarrow> Inr s' | Some v \<Rightarrow> updateVariableUsages v s')"

definition checkIdentifierUsage ::
  "dead_store_env \<Rightarrow> event_context \<Rightarrow> node \<Rightarrow> dead_store_state \<Rightarrow> dead_store_state res" where
  "checkIdentifierUsage env cx n s =
     (case (if is_type n ''Identifier'' then (resolveReference cx n, s) else resolveJSXReference env cx n s) of
        ((ref, variable), s') \<Rightarrow> record_usage env cx ref variable s')"

definition isEnumConstant :: "event_context \<Rightarrow> bool" where
  "isEnumConstant cx = list_ex (\<lambda>n. is_type n ''TSEnumDeclaration'') (ec_ancestors cx)"

section \<open>Which references are reported\<close>

function isBasicValue :: "dead_store_env \<Rightarrow> node \<Rightarrow> bool" where
  "isBasicValue env n =
     (if de_isLiteral env n then
        fld n ''value'' = JStr [] \<or>
        fld n ''value'' \<in> set [JNum 0, JNum 1, JNull, JBool True, JBool False]
      else if de_isIdentifier env n then fld n ''name'' = JStr ''undefined''
      else if isUnaryExpression n then isBasicValue env (fld n ''argument'')
      else if de_isObjectExpression env n then length (elems (fld n ''properties'')) = 0
      else if isArrayExpression n then length (elems (fld n ''elements'')) = 0
      else False)"
  by auto
termination
proof (relation "measure (\<lambda>(env, n). size n)")
  fix env :: dead_store_env and n :: node
  assume "isUnaryExpression n"
  then show "((env, fld n ''argument''), env, n) \<in> measure (\<lambda>(env, n). size n)"
    using size_fld_less [of n "''argument''"]
    by (cases n; cases "fld n ''argument'' = JUndefined") (auto simp: isUnaryExpression_def is_type_def)
qed simp

declare isBasicValue.simps [simp del]

definition isReferenceWithBasicValue :: "dead_store_env \<Rightarrow> reference \<Rightarrow> bool" where
  "isReferenceWithBasicValue env ref \<longleftrightarrow> de_init env (ref_id ref) \<and>
     (case ref_writeExpr ref of None \<Rightarrow> False | Some e \<Rightarrow> isBasicValue env e)"

definition isIncrementOrDecrement :: "dead_store_env \<Rightarrow> reference \<Rightarrow> bool" where
  "isIncrementOrDecrement env ref =
     (let parent = parent_of env (ref_identifier ref) in truthy parent \<and> is_type parent ''UpdateExpression'')"

definition isNullAssignment :: "dead_store_env \<Rightarrow> reference \<Rightarrow> bool" where
  "isNullAssignment env ref =
     (let parent = parent_of env (ref_identifier ref) in
      truthy parent \<and> is_type parent ''AssignmentExpression'' \<and> isNullLiteral (fld parent ''right''))"

definition isDefaultParameter :: "dead_store_env \<Rightarrow> reference \<Rightarrow> bool" where
  "isDefaultParameter env ref =
     (if \<not> is_type (ref_identifier ref) ''Identifier'' then False
      else let parent = parent_of env (ref_identifier ref) in
        truthy parent \<and> is_type parent ''AssignmentPattern'')"

definition isLocalVar :: "dead_store_env \<Rightarrow> nat \<Rightarrow> bool" where
  "isLocalVar env variable \<longleftrightarrow>
     \<not> is_type (de_block env variable) ''Program'' \<and> \<not> is_type (de_block env variable) ''TSModuleDeclaration''"

definition shouldReportReference :: "dead_store_env \<Rightarrow> dead_store_state \<Rightarrow> reference \<Rightarrow> bool" where
  "shouldReportReference env s ref =
     (case ref_resolved ref of
        None \<Rightarrow> False
      | Some variable \<Rightarrow>
          isLocalVar env variable \<and> \<not> isReferenceWithBasicValue env ref \<and> \<not> isDefaultParameter env ref \<and>
          ref_id ref \<notin> ref_id ` set (ds_referencesUsedInDestructuring s) \<and>
          \<not> starts_with (de_name env variable) ''_'' \<and> \<not> isIncrementOrDecrement env ref \<and>
          \<not> isNullAssignment env ref)"

definition variableUsedOutsideOfCodePath :: "dead_store_state \<Rightarrow> nat \<Rightarrow> bool res" where
  "variableUsedOutsideOfCodePath s variable =
     (case dict_get (ds_variableUsages s) variable of
        None \<Rightarrow> Inl undefined_get
      | Some ids \<Rightarrow> Inr (length ids > 1))"

definition shouldReport :: "dead_store_env \<Rightarrow> dead_store_state \<Rightarrow> reference \<Rightarrow> bool res" where
  "shouldReport env s ref =
     (case ref_resolved ref of
        None \<Rightarrow> Inr False
      | Some variable \<Rightarrow>
          if \<not> shouldReportReference env s ref then Inr False
          else bind_res (variableUsedOutsideOfCodePath s variable) (\<lambda>outside.
            Inr (\<not> outside \<and> variable \<in> set (ds_readVariables s))))"

definition ds_report :: "reference \<Rightarrow> dead_store_report" where
  "ds_report ref = RemoveAssignment (fld (ref_identifier ref) ''name'') (node_loc (ref_identifier ref))"

fun checkSegment_loop ::
  "dead_store_env \<Rightarrow> dead_store_state \<Rightarrow> reference list \<Rightarrow> nat list \<Rightarrow> dead_store_report list res" where
  "checkSegment_loop env s [] willBeRead = Inr []"
| "checkSegment_loop env s (ref # rest) willBeRead =
     (case ref_resolved ref of
        None \<Rightarrow> checkSegment_loop env s rest willBeRead
      | Some variable \<Rightarrow>
          bind_res
            (if ref_isWrite ref \<and> variable \<notin> set willBeRead
             then bind_res (shouldReport env s ref) (\<lambda>b. Inr (if b then [ds_report ref] else []))
             else Inr [])
            (\<lambda>reported.
               let afterWrite = (if ref_isWrite ref then filter (\<lambda>v. v \<noteq> variable) willBeRead else willBeRead);
                   afterRead = (if ref_isRead ref then set_add variable afterWrite else afterWrite)
               in bind_res (checkSegment_loop env s rest afterRead) (\<lambda>later. Inr (reported @ later))))"

definition checkSegment ::
  "dead_store_env \<Rightarrow> dead_store_state \<Rightarrow> live_variables \<Rightarrow> dead_store_report list res" where
  "checkSegment env s lv =
     checkSegment_loop env s (rev (lv_references lv)) (set_of_list (lv_out lv))"

definition reportNeverReadVariables ::
  "dead_store_env \<Rightarrow> dead_store_state \<Rightarrow> live_variables \<Rightarrow> dead_store_report list" where
  "reportNeverReadVariables env s lv =
     map ds_report (filter (\<lambda>ref. shouldReportReference env s ref \<and>
       (case ref_resolved ref of None \<Rightarrow> True | Some v \<Rightarrow> v \<notin> set (ds_readVariables s))) (lv_references lv))"

definition check_entry ::
  "dead_store_env \<Rightarrow> dead_store_state \<Rightarrow> live_variables \<Rightarrow> dead_store_report list res" where
  "check_entry env s lv =
     bind_res (checkSegment env s lv) (\<lambda>reported. Inr (reported @ reportNeverReadVariables env s lv))"

definition program_exit :: "dead_store_env \<Rightarrow> dead_store_state \<Rightarrow> dead_store_state res option" where
  "program_exit env s =
     map_option (\<lambda>r. bind_res r (\<lambda>m.
         let s' = s\<lparr>ds_liveVariablesMap := m\<rparr> in
         bind_res (map_res (\<lambda>(i, lv). check_entry env s' lv) m) (\<lambda>reported.
           Inr (s'\<lparr>ds_reports := ds_reports s @ concat reported\<rparr>))))
       (lva (ds_liveVariablesMap s))"

section \<open>Listeners\<close>

datatype dead_store_event =
    OnCodePathStart string
  | OnCodePathEnd
  | OnCodePathSegmentStart segment
  | AssignmentEnter node
  | AssignmentExit
  | IdentifierEnter node
  | JSXIdentifierEnter node
  | ObjectPatternEnter
  | ObjectPatternIdentifier node
  | ObjectPatternRest
  | ObjectPatternExit

definition onPatternIdentifier :: "event_context \<Rightarrow> node \<Rightarrow> dead_store_state \<Rightarrow> dead_store_state res" where
  "onPatternIdentifier cx n s =
     (case fst (resolveReference cx n) of
        None \<Rightarrow> Inr s
      | Some ref \<Rightarrow>
          (case ds_destructuringStack s of
             [] \<Rightarrow> Inl undefined_get
           | d # ds \<Rightarrow> Inr (s\<lparr>ds_destructuringStack :=
               d\<lparr>dc_references := dc_references d @ [ref]\<rparr> # ds\<rparr>)))"

definition onPatternRest :: "dead_store_state \<Rightarrow> dead_store_state res" where
  "onPatternRest s =
     (case ds_destructuringStack s of
        [] \<Rightarrow> Inl undefined_get
      | d # ds \<Rightarrow> Inr (s\<lparr>ds_destructuringStack := d\<lparr>dc_hasRest := True\<rparr> # ds\<rparr>))"

definition onPatternExit :: "dead_store_state \<Rightarrow> dead_store_state" where
  "onPatternExit s =
     (case ds_destructuringStack s of
        [] \<Rightarrow> s
      | d # ds \<Rightarrow> s\<lparr>ds_destructuringStack := ds,
          ds_referencesUsedInDestructuring :=
            (if dc_hasRest d
             then fold (add_by ref_id) (dc_references d) (ds_referencesUsedInDestructuring s)
             else ds_referencesUsedInDestructuring s)\<rparr>)"

fun ds_listener ::
  "dead_store_env \<Rightarrow> event_context \<times> dead_store_event \<Rightarrow> dead_store_state \<Rightarrow> dead_store_state res" where
  "ds_listener env (cx, OnCodePathStart codePath) s =
     Inr (s\<lparr>ds_codePathStack := new_CodePathContext codePath # ds_codePathStack s\<rparr>)"
| "ds_listener env (cx, OnCodePathEnd) s = Inr (s\<lparr>ds_codePathStack := tl (ds_codePathStack s)\<rparr>)"
| "ds_listener env (cx, OnCodePathSegmentStart segment) s =
     Inr (s\<lparr>ds_liveVariablesMap := dict_set (seg_id segment) (new_LiveVariables segment) (ds_liveVariablesMap s)\<rparr>)"
| "ds_listener env (cx, AssignmentEnter n) s = pushAssignmentContext n s"
| "ds_listener env (cx, AssignmentExit) s = popAssignmentContext env cx s"
| "ds_listener env (cx, IdentifierEnter n) s =
     (if isEnumConstant cx then Inr s else checkIdentifierUsage env cx n s)"
| "ds_listener env (cx, JSXIdentifierEnter n) s = checkIdentifierUsage env cx n s"
| "ds_listener env (cx, ObjectPatternEnter) s =
     Inr (s\<lparr>ds_destructuringStack := new_DestructuringContext # ds_destructuringStack s\<rparr>)"
| "ds_listener env (cx, ObjectPatternIdentifier n) s = onPatternIdentifier cx n s"
| "ds_listener env (cx, ObjectPatternRest) s = onPatternRest s"
| "ds_listener env (cx, ObjectPatternExit) s = Inr (onPatternExit s)"

text \<open>The rule on a program: its listeners in the order of the traversal, then \<^verbatim>\<open>Program:exit\<close>.\<close>

definition ds_run ::
  "dead_store_env \<Rightarrow> nat \<Rightarrow> (event_context \<times> dead_store_event) list \<Rightarrow> dead_store_state res" where
  "ds_run env fresh events = fold_res (ds_listener env) events (ds_create fresh)"

section \<open>What a segment reports\<close>

text \<open>
  Whether the value a variable has at some point of a segment is read: the rest of the segment
  decides by its first reference to the variable, and if it has none, what the successors need.
\<close>

fun read_next :: "nat set \<Rightarrow> nat \<Rightarrow> reference list \<Rightarrow> bool" where
  "read_next needed v [] \<longleftrightarrow> v \<in> needed"
| "read_next needed v (r # rs) \<longleftrightarrow>
     (if ref_resolved r = Some v \<and> (ref_isRead r \<or> ref_isWrite r) then ref_isRead r else read_next needed v rs)"

definition reportable :: "dead_store_env \<Rightarrow> dead_store_state \<Rightarrow> reference \<Rightarrow> bool" where
  "reportable env s ref \<longleftrightarrow> shouldReportReference env s ref \<and>
     (\<exists>v ids. ref_resolved ref = Some v \<and> dict_get (ds_variableUsages s) v = Some ids \<and> length ids \<le> 1 \<and>
        v \<in> set (ds_readVariables s))"

definition dead_at :: "dead_store_env \<Rightarrow> dead_store_state \<Rightarrow> nat set \<Rightarrow> reference list \<Rightarrow> nat \<Rightarrow> bool" where
  "dead_at env s needed refs k \<longleftrightarrow> ref_isWrite (refs ! k) \<and> reportable env s (refs ! k) \<and>
     (\<exists>v. ref_resolved (refs ! k) = Some v \<and> \<not> read_next needed v (drop (Suc k) refs))"

definition has_usages :: "dead_store_state \<Rightarrow> reference \<Rightarrow> bool" where
  "has_usages s ref \<longleftrightarrow> (\<forall>v. ref_resolved ref = Some v \<longrightarrow> dict_get (ds_variableUsages s) v \<noteq> None)"

lemma shouldReport_reportable:
  assumes "has_usages s ref"
  shows "shouldReport env s ref = Inr (reportable env s ref)"
proof (cases "ref_resolved ref")
  case None
  then show ?thesis by (simp add: shouldReport_def reportable_def)
next
  case (Some v)
  with assms obtain ids where "dict_get (ds_variableUsages s) v = Some ids" by (auto simp: has_usages_def)
  with Some show ?thesis
    by (auto simp: shouldReport_def reportable_def variableUsedOutsideOfCodePath_def)
qed

lemma checkSegment_loop_reports:
  assumes "\<forall>v. v \<in> set willBeRead \<longleftrightarrow> read_next needed v after" and "\<forall>r \<in> set before. has_usages s r"
  shows "checkSegment_loop env s (rev before) willBeRead =
    Inr (map (\<lambda>k. ds_report ((before @ after) ! k))
      (filter (dead_at env s needed (before @ after)) (rev [0..<length before])))"
  using assms
proof (induction before arbitrary: after willBeRead rule: rev_induct)
  case (snoc r before)
  note usages = snoc.prems(2) [rule_format, of r, simplified]
  let ?all = "before @ r # after"
  have nth: "?all ! length before = r" "drop (Suc (length before)) ?all = after" by simp_all
  show ?case
  proof (cases "ref_resolved r")
    case None
    then have "read_next needed v (r # after) = read_next needed v after" for v by simp
    with snoc.prems have "\<forall>v. v \<in> set willBeRead \<longleftrightarrow> read_next needed v (r # after)" by blast
    from snoc.IH [OF this] snoc.prems(2) None nth show ?thesis by (simp add: dead_at_def)
  next
    case (Some v)
    let ?w1 = "if ref_isWrite r then filter (\<lambda>x. x \<noteq> v) willBeRead else willBeRead"
    let ?w2 = "if ref_isRead r then set_add v ?w1 else ?w1"
    have "\<forall>x. x \<in> set ?w2 \<longleftrightarrow> read_next needed x (r # after)"
      using snoc.prems(1) Some by auto
    from snoc.IH [OF this] snoc.prems(2)
    have rest: "checkSegment_loop env s (rev before) ?w2 = Inr (map (\<lambda>k. ds_report (?all ! k))
        (filter (dead_at env s needed ?all) (rev [0..<length before])))" by simp
    have "dead_at env s needed ?all (length before) \<longleftrightarrow>
        ref_isWrite r \<and> v \<notin> set willBeRead \<and> reportable env s r"
      using snoc.prems(1) Some nth by (auto simp: dead_at_def)
    with rest Some nth show ?thesis
      by (simp add: shouldReport_reportable [OF usages] Let_def)
  qed
qed simp

lemma checkSegment_reports:
  assumes "\<forall>r \<in> set (lv_references lv). has_usages s r"
  shows "checkSegment env s lv = Inr (map (\<lambda>k. ds_report (lv_references lv ! k))
    (filter (dead_at env s (set (lv_out lv)) (lv_references lv)) (rev [0..<length (lv_references lv)])))"
  using checkSegment_loop_reports [of "set_of_list (lv_out lv)" "set (lv_out lv)" "[]" "lv_references lv" s env] assms
  by (simp add: checkSegment_def)

section \<open>When a value is read\<close>

text \<open>
  The rest of a segment, then the segments after it: the value a variable has is read when some
  path comes to a read before a write. A reference that does both reads first.
\<close>

inductive value_read :: "live_map \<Rightarrow> string \<Rightarrow> reference list \<Rightarrow> nat \<Rightarrow> bool" for m where
  value_read_here: "ref_resolved r = Some v \<Longrightarrow> ref_isRead r \<Longrightarrow> value_read m i (r # rs) v"
| value_read_later: "\<not> (ref_resolved r = Some v \<and> ref_isWrite r) \<Longrightarrow> value_read m i rs v \<Longrightarrow>
    value_read m i (r # rs) v"
| value_read_flow: "dict_get m i = Some lv \<Longrightarrow> n \<in> set (nextSegments (lv_segment lv)) \<Longrightarrow>
    dict_get m n = Some lvn \<Longrightarrow> value_read m n (lv_references lvn) v \<Longrightarrow> value_read m i [] v"

inductive_simps value_read_Cons: "value_read m i (r # rs) v"
inductive_simps value_read_Nil: "value_read m i [] v"

definition lv_coherent :: "live_variables \<Rightarrow> bool" where
  "lv_coherent lv \<longleftrightarrow>
     set (lv_gen lv) = {v. \<exists>r \<in> set (lv_references lv). ref_resolved r = Some v \<and> ref_isRead r} \<and>
     set (lv_kill lv) = {v. \<exists>r \<in> set (lv_references lv). ref_resolved r = Some v \<and> ref_isWrite r}"

definition needed_after :: "live_map \<Rightarrow> string \<Rightarrow> nat set" where
  "needed_after m i = {v. \<exists>lv n. dict_get m i = Some lv \<and> n \<in> set (nextSegments (lv_segment lv)) \<and> live m n v}"

lemma read_next_cases:
  "read_next needed v rs \<Longrightarrow>
     (\<exists>r \<in> set rs. ref_resolved r = Some v \<and> ref_isRead r) \<or>
     v \<in> needed \<and> (\<forall>r \<in> set rs. ref_resolved r = Some v \<longrightarrow> \<not> ref_isWrite r)"
  by (induction rs) (auto split: if_splits)

lemma read_next_live:
  assumes "dict_get m n = Some lv" "lv_coherent lv" "read_next (needed_after m n) v (lv_references lv)"
  shows "live m n v"
  using read_next_cases [OF assms(3)]
proof
  assume "\<exists>r \<in> set (lv_references lv). ref_resolved r = Some v \<and> ref_isRead r"
  with assms show ?thesis by (auto simp: lv_coherent_def intro: live_read)
next
  assume "v \<in> needed_after m n \<and> (\<forall>r \<in> set (lv_references lv). ref_resolved r = Some v \<longrightarrow> \<not> ref_isWrite r)"
  with assms show ?thesis by (auto simp: lv_coherent_def needed_after_def intro: live_flow)
qed

lemma value_read_next:
  assumes "value_read m i rs v" and "\<forall>i lv. dict_get m i = Some lv \<longrightarrow> lv_coherent lv"
  shows "read_next (needed_after m i) v rs"
  using assms(1)
proof induction
  case (value_read_flow i lv n lvn v)
  with assms(2) have "live m n v" by (blast intro: read_next_live)
  with value_read_flow show ?case by (auto simp: needed_after_def)
qed auto

section \<open>The invariant of the listeners\<close>

text \<open>The references the state holds, and the shape of the map, for references of a set \<open>U\<close>.\<close>

definition lv_ok :: "reference set \<Rightarrow> string \<Rightarrow> live_variables \<Rightarrow> bool" where
  "lv_ok U i lv \<longleftrightarrow> seg_id (lv_segment lv) = i \<and> lv_in lv = [] \<and> lv_coherent lv \<and> set (lv_references lv) \<subseteq> U"

definition live_ok :: "reference set \<Rightarrow> live_map \<Rightarrow> bool" where
  "live_ok U m \<longleftrightarrow> distinct (map fst m) \<and> (\<forall>i lv. dict_get m i = Some lv \<longrightarrow> lv_ok U i lv)"

definition assignment_ok :: "reference set \<Rightarrow> assignment_context \<Rightarrow> bool" where
  "assignment_ok U a \<longleftrightarrow> set (as_lhs a) \<subseteq> U \<and> set (as_rhs a) \<subseteq> U"

definition ds_ok :: "reference set \<Rightarrow> dead_store_state \<Rightarrow> bool" where
  "ds_ok U s \<longleftrightarrow> live_ok U (ds_liveVariablesMap s) \<and>
     (\<forall>c \<in> set (ds_codePathStack s). \<forall>a \<in> set (cc_assignmentStack c). assignment_ok U a)"

lemma lv_ok_new: "lv_ok U (seg_id segment) (new_LiveVariables segment)"
  by (simp add: lv_ok_def new_LiveVariables_def lv_coherent_def)

lemma add_by_known:
  assumes "inj_on key U" "set xs \<subseteq> U" "x \<in> U"
  shows "set (add_by key x xs) = insert x (set xs)"
  using assms by (auto simp: add_by_def inj_on_def image_iff)

lemma lv_ok_add:
  assumes "inj_on ref_id U" "r \<in> U" "lv_ok U i lv"
  shows "lv_ok U i (lv_add r lv)"
proof (cases "ref_resolved r")
  case None
  with assms show ?thesis by (simp add: lv_add_def)
next
  case (Some v)
  have refs: "set (add_by ref_id r (lv_references lv)) = insert r (set (lv_references lv))"
    using assms by (intro add_by_known) (auto simp: lv_ok_def)
  from assms(3) Some show ?thesis
    unfolding lv_ok_def lv_coherent_def lv_add_def
    by (simp add: refs assms(2)) auto
qed

lemma live_ok_set: "live_ok U m \<Longrightarrow> lv_ok U i lv \<Longrightarrow> live_ok U (dict_set i lv m)"
  by (auto simp: live_ok_def dict.get_put)

lemma live_ok_add_to_segment:
  assumes "inj_on ref_id U" "r \<in> U" "live_ok U m"
  shows "live_ok U (add_to_segment r segment m)"
proof -
  have "lv_ok U (seg_id segment) (lvaForSegment m segment)"
    using assms(3) lv_ok_new by (auto simp: lvaForSegment_def live_ok_def split: option.split)
  with assms show ?thesis by (simp add: add_to_segment_def live_ok_set lv_ok_add)
qed

lemma live_ok_fold:
  "inj_on ref_id U \<Longrightarrow> r \<in> U \<Longrightarrow> live_ok U m \<Longrightarrow> live_ok U (fold (add_to_segment r) segments m)"
  by (induction segments arbitrary: m) (simp_all add: live_ok_add_to_segment)

lemma side_loop_ok:
  assumes "side_loop env r a ps = Inr a'" "r \<in> U" "assignment_ok U a"
  shows "assignment_ok U a'"
proof -
  have sub: "set (add_by ref_id r xs) \<subseteq> U" if "set xs \<subseteq> U" for xs
    using set_add_by [of xs ref_id r] that assms(2) by blast
  have "assignment_ok U (a\<lparr>as_lhs := add_by ref_id r (as_lhs a)\<rparr>)"
    "assignment_ok U (a\<lparr>as_rhs := add_by ref_id r (as_rhs a)\<rparr>)"
    using assms(3) sub by (simp_all add: assignment_ok_def)
  with assms show ?thesis
    by (induction ps) (auto split: if_splits)
qed

text \<open>What recording a reference leaves alone.\<close>

definition same_books :: "dead_store_state \<Rightarrow> dead_store_state \<Rightarrow> bool" where
  "same_books s s' \<longleftrightarrow> ds_readVariables s' = ds_readVariables s \<and> ds_variableUsages s' = ds_variableUsages s \<and>
     ds_nextReference s' = ds_nextReference s \<and> ds_reports s' = ds_reports s"

lemma processReference_ok:
  assumes "processReference env cx r s = Inr s'" "inj_on ref_id U" "r \<in> U" "ds_ok U s"
  shows "ds_ok U s' \<and> same_books s s'"
proof (cases "ds_codePathStack s")
  case Nil
  with assms(1) show ?thesis by (simp add: processReference_def)
next
  case (Cons path below)
  show ?thesis
  proof (cases "cc_assignmentStack path")
    case Nil
    with assms(1) Cons have "s' = s\<lparr>ds_liveVariablesMap :=
        fold (add_to_segment r) (ec_currentSegments cx (cc_codePath path)) (ds_liveVariablesMap s)\<rparr>"
      by (simp add: processReference_def)
    with assms show ?thesis by (simp add: ds_ok_def live_ok_fold same_books_def)
  next
    case stack: (Cons a as)
    with assms(1) Cons obtain a' where a': "assignment_add env r a = Inr a'"
      "s' = s\<lparr>ds_codePathStack := path\<lparr>cc_assignmentStack := a' # as\<rparr> # below\<rparr>"
      by (auto simp: processReference_def bind_res_eq_Inr)
    moreover have "assignment_ok U a"
      using assms(4) Cons stack by (simp add: ds_ok_def)
    ultimately have "assignment_ok U a'"
      using assms(3) by (auto simp: assignment_add_def intro: side_loop_ok)
    with assms(4) Cons stack a'(2) show ?thesis by (auto simp: ds_ok_def same_books_def)
  qed
qed

lemma processReferences_ok:
  assumes "fold_res (processReference env cx) rs s = Inr s'" "inj_on ref_id U" "set rs \<subseteq> U" "ds_ok U s"
  shows "ds_ok U s' \<and> same_books s s'"
  using assms
proof (induction rs arbitrary: s)
  case Nil
  then show ?case by (simp add: same_books_def)
next
  case (Cons r rs)
  then obtain s1 where s1: "processReference env cx r s = Inr s1" "fold_res (processReference env cx) rs s1 = Inr s'"
    by (auto simp: bind_res_eq_Inr)
  with processReference_ok [of env cx r s s1 U] Cons.prems have "ds_ok U s1" "same_books s s1" by auto
  with Cons.IH [OF s1(2)] Cons.prems show ?case by (auto simp: same_books_def)
qed

lemma popAssignmentContext_ok:
  assumes "popAssignmentContext env cx s = Inr s'" "inj_on ref_id U" "ds_ok U s"
  shows "ds_ok U s' \<and> same_books s s'"
proof -
  from assms(1) obtain path below a as s1 where stack: "ds_codePathStack s = path # below"
    "cc_assignmentStack path = a # as"
    and run: "fold_res (processReference env cx) (as_rhs a)
        (s\<lparr>ds_codePathStack := path\<lparr>cc_assignmentStack := as\<rparr> # below\<rparr>) = Inr s1"
      "fold_res (processReference env cx) (as_lhs a) s1 = Inr s'"
    by (auto simp: popAssignmentContext_def bind_res_eq_Inr split: list.splits)
  let ?s = "s\<lparr>ds_codePathStack := path\<lparr>cc_assignmentStack := as\<rparr> # below\<rparr>"
  have a: "set (as_lhs a) \<subseteq> U" "set (as_rhs a) \<subseteq> U"
    using assms(3) stack by (auto simp: ds_ok_def assignment_ok_def)
  have "ds_ok U ?s" using assms(3) stack by (auto simp: ds_ok_def)
  from processReferences_ok [OF run(1) assms(2) a(2) this]
  have s1: "ds_ok U s1" "same_books s s1" by (auto simp: same_books_def)
  from processReferences_ok [OF run(2) assms(2) a(1) s1(1)] s1(2) show ?thesis
    by (auto simp: same_books_def)
qed

text \<open>
  A reference is tracked when the two books of the rule know its variable: its usages are recorded,
  and a variable that is read is among the read ones.
\<close>

definition tracked :: "dead_store_state \<Rightarrow> reference \<Rightarrow> bool" where
  "tracked s r \<longleftrightarrow> (\<forall>v. ref_resolved r = Some v \<longrightarrow>
     dict_get (ds_variableUsages s) v \<noteq> None \<and> (ref_isRead r \<longrightarrow> v \<in> set (ds_readVariables s)))"

text \<open>
  The invariant, for the references \<open>R\<close> of ESLint's scopes: all references held are tracked,
  identities are unique, and the identities of new references are unused.
\<close>

definition ds_inv :: "reference set \<Rightarrow> dead_store_state \<Rightarrow> bool" where
  "ds_inv R s \<longleftrightarrow> ds_reports s = [] \<and> (\<exists>U. ds_ok U s \<and> (\<forall>r \<in> U. tracked s r) \<and> inj_on ref_id (U \<union> R) \<and>
     (\<forall>r \<in> U \<union> R. ref_id r < ds_nextReference s))"

lemma ds_ok_mono: "ds_ok U s \<Longrightarrow> U \<subseteq> V \<Longrightarrow> ds_ok V s"
  by (fastforce simp: ds_ok_def live_ok_def lv_ok_def assignment_ok_def)

lemma updateVariableUsagesD:
  assumes "updateVariableUsages v s = Inr s'"
  shows "\<exists>usages. s' = s\<lparr>ds_variableUsages := usages\<rparr> \<and>
    (\<forall>x. dict_get usages x \<noteq> None \<longleftrightarrow> x = v \<or> dict_get (ds_variableUsages s) x \<noteq> None)"
  using assms by (cases "dict_get (ds_variableUsages s) v")
    (auto simp: updateVariableUsages_def split: list.splits
      intro!: exI [of _ "ds_variableUsages s'"] simp: dict.get_put)

lemma record_usage_ok:
  assumes "record_usage env cx ref variable s = Inr s'"
    and "ds_ok U s" "\<forall>r \<in> U. tracked s r" "inj_on ref_id (set_option ref \<union> U)"
    and "\<forall>r \<in> set_option ref. variable = ref_resolved r"
  shows "ds_ok (set_option ref \<union> U) s' \<and> (\<forall>r \<in> set_option ref \<union> U. tracked s' r) \<and>
    ds_nextReference s' = ds_nextReference s \<and> ds_reports s' = ds_reports s"
proof -
  let ?U = "set_option ref \<union> U"
  have ok: "ds_ok ?U s" by (rule ds_ok_mono [OF assms(2)]) simp
  obtain s2 where s2: "ds_ok ?U s2" "ds_nextReference s2 = ds_nextReference s" "ds_reports s2 = ds_reports s"
      "ds_variableUsages s2 = ds_variableUsages s" "set (ds_readVariables s) \<subseteq> set (ds_readVariables s2)"
      "\<And>r v. r \<in> set_option ref \<Longrightarrow> ref_resolved r = Some v \<Longrightarrow> ref_isRead r \<Longrightarrow> v \<in> set (ds_readVariables s2)"
    and last: "(case variable of None \<Rightarrow> Inr s2 | Some v \<Rightarrow> updateVariableUsages v s2) = Inr s'"
  proof (cases ref)
    case None
    with assms(1) ok that [of s] show ?thesis by (auto simp: record_usage_def)
  next
    case (Some r)
    with assms(1) obtain s1 where s1: "processReference env cx r s = Inr s1"
      and last: "(case variable of None \<Rightarrow> Inr (case variable of Some v \<Rightarrow> updateReadVariables r v s1 | None \<Rightarrow> s1)
        | Some v \<Rightarrow> updateVariableUsages v (case variable of Some v \<Rightarrow> updateReadVariables r v s1 | None \<Rightarrow> s1)) = Inr s'"
      by (auto simp: record_usage_def bind_res_eq_Inr)
    from processReference_ok [OF s1 assms(4) _ ok] Some have "ds_ok ?U s1" "same_books s s1" by auto
    with last Some assms(5) show ?thesis
      by (intro that [of "case variable of Some v \<Rightarrow> updateReadVariables r v s1 | None \<Rightarrow> s1"])
        (auto simp: same_books_def updateReadVariables_def ds_ok_def split: option.splits)
  qed
  show ?thesis
  proof (cases variable)
    case None
    with last s2 assms(3,5) show ?thesis by (auto simp: tracked_def)
  next
    case (Some v)
    with last have "updateVariableUsages v s2 = Inr s'" by simp
    from updateVariableUsagesD [OF this] obtain usages where s': "s' = s2\<lparr>ds_variableUsages := usages\<rparr>"
      "\<forall>x. dict_get usages x \<noteq> None \<longleftrightarrow> x = v \<or> dict_get (ds_variableUsages s2) x \<noteq> None"
      by blast
    have "tracked s' r" if "r \<in> ?U" for r
      using that s2(4-6) assms(3,5) Some s'(2) unfolding tracked_def s'(1) by fastforce
    with s2 s'(1) show ?thesis by (simp add: ds_ok_def)
  qed
qed

fun scope_all_references :: "scope option \<Rightarrow> reference list" where
  "scope_all_references None = []"
| "scope_all_references (Some (Scope vs rs up)) = rs @ scope_all_references up"

lemma resolveReferenceRecursively_in:
  "resolveReferenceRecursively n sc depth = (Some r, v) \<Longrightarrow> r \<in> set (scope_all_references sc) \<and> v = ref_resolved r"
  by (induction n sc depth rule: resolveReferenceRecursively.induct)
    (auto split: if_splits option.splits dest: find_SomeD)

lemma checkIdentifierUsage_inv:
  assumes "checkIdentifierUsage env cx n s = Inr s'" "ds_inv R s" "set (scope_all_references (ec_scope cx)) \<subseteq> R"
  shows "ds_inv R s'"
proof -
  from assms(2) obtain U where U: "ds_reports s = []" "ds_ok U s" "\<forall>r \<in> U. tracked s r" "inj_on ref_id (U \<union> R)"
    "\<forall>r \<in> U \<union> R. ref_id r < ds_nextReference s"
    by (auto simp: ds_inv_def)
  obtain ref variable s1 where
    res: "(if is_type n ''Identifier'' then (resolveReference cx n, s) else resolveJSXReference env cx n s) = ((ref, variable), s1)"
    by (metis prod.collapse)
  with assms(1) have run: "record_usage env cx ref variable s1 = Inr s'"
    by (simp add: checkIdentifierUsage_def)
  have s1: "ds_ok U s1" "\<forall>r \<in> U. tracked s1 r" "ds_reports s1 = []" "ds_nextReference s \<le> ds_nextReference s1"
    using res U by (auto simp: resolveJSXReference_def Let_def ds_ok_def tracked_def split: if_splits)
  have var: "\<forall>r \<in> set_option ref. variable = ref_resolved r"
    using res by (auto simp: resolveReference_def resolveJSXReference_def Let_def split: if_splits
        dest: resolveReferenceRecursively_in)
  have new: "r \<in> R \<or> (\<forall>r' \<in> U \<union> R. ref_id r' \<noteq> ref_id r) \<and> ref_id r < ds_nextReference s1" if "ref = Some r" for r
  proof (cases "is_type n ''Identifier''")
    case True
    with res that have "resolveReferenceRecursively n (ec_scope cx) 0 = (Some r, variable)"
      by (simp add: resolveReference_def)
    with assms(3) show ?thesis by (auto dest: resolveReferenceRecursively_in)
  next
    case False
    with res that have "ref_id r = ds_nextReference s" "ds_nextReference s1 = Suc (ds_nextReference s)"
      by (auto simp: resolveJSXReference_def Let_def new_JSXReference_def split: if_splits)
    with U(5) show ?thesis by (auto dest: less_imp_neq)
  qed
  have inj: "inj_on ref_id (set_option ref \<union> U \<union> R)"
  proof (cases ref)
    case (Some r)
    with new [OF Some] U(4) show ?thesis by (auto simp: inj_on_def)
  qed (use U(4) in simp)
  have less: "\<forall>r \<in> set_option ref \<union> U \<union> R. ref_id r < ds_nextReference s1"
  proof
    fix r assume "r \<in> set_option ref \<union> U \<union> R"
    then consider "r \<in> U \<union> R" | "ref = Some r" by auto
    then show "ref_id r < ds_nextReference s1"
    proof cases
      case 1
      with U(5) s1(4) show ?thesis using order_less_le_trans by blast
    next
      case 2
      from new [OF 2] U(5) s1(4) show ?thesis using order_less_le_trans by blast
    qed
  qed
  have "inj_on ref_id (set_option ref \<union> U)" by (rule inj_on_subset [OF inj]) blast
  from record_usage_ok [OF run s1(1,2) this var] s1(3) inj less show ?thesis
    unfolding ds_inv_def by (intro conjI exI [of _ "set_option ref \<union> U"]) auto
qed

lemma ds_inv_keeps:
  assumes "ds_inv R s" "same_books s s'" "\<And>U. ds_ok U s \<Longrightarrow> inj_on ref_id U \<Longrightarrow> ds_ok U s'"
  shows "ds_inv R s'"
  using assms by (auto simp: ds_inv_def same_books_def tracked_def inj_on_Un)

lemma assignment_ok_new: "assignment_ok U (new_AssignmentContext n)"
  by (simp add: assignment_ok_def new_AssignmentContext_def)

lemma ds_ok_push: "ds_ok U s \<Longrightarrow> pushAssignmentContext n s = Inr s' \<Longrightarrow> ds_ok U s' \<and> same_books s s'"
  using assignment_ok_new
  by (fastforce simp: ds_ok_def pushAssignmentContext_def same_books_def split: list.splits)

definition event_references :: "event_context \<times> dead_store_event \<Rightarrow> reference set" where
  "event_references e = set (scope_all_references (ec_scope (fst e)))"

lemma ds_listener_inv:
  assumes "ds_listener env e s = Inr s'" "ds_inv R s" "event_references e \<subseteq> R"
  shows "ds_inv R s'"
proof -
  obtain cx ev where e: "e = (cx, ev)" by fastforce
  have keeps: "ds_inv R s'" if "\<And>U. ds_ok U s \<Longrightarrow> inj_on ref_id U \<Longrightarrow> ds_ok U s' \<and> same_books s s'"
  proof -
    from assms(2) obtain U where "ds_ok U s" "inj_on ref_id U" by (auto simp: ds_inv_def inj_on_Un)
    with that show ?thesis by (intro ds_inv_keeps [OF assms(2)]) auto
  qed
  note defs = ds_ok_def same_books_def
  show ?thesis
  proof (cases ev)
    case (AssignmentExit)
    with assms(1) show ?thesis unfolding e by (intro keeps popAssignmentContext_ok [of env cx s]) auto
  next
    case (IdentifierEnter n)
    with assms show ?thesis unfolding e
      by (auto simp: event_references_def split: if_splits intro: checkIdentifierUsage_inv)
  next
    case (JSXIdentifierEnter n)
    with assms show ?thesis unfolding e by (auto simp: event_references_def intro: checkIdentifierUsage_inv)
  next
    case (AssignmentEnter n)
    with assms(1) show ?thesis unfolding e by (intro keeps ds_ok_push) auto
  next
    case (OnCodePathSegmentStart segment)
    with assms(1) show ?thesis unfolding e
      by (intro keeps) (auto simp: defs intro!: live_ok_set lv_ok_new)
  next
    case (OnCodePathStart codePath)
    with assms(1) show ?thesis unfolding e
      by (intro keeps) (auto simp: defs new_CodePathContext_def)
  next
    case OnCodePathEnd
    with assms(1) show ?thesis unfolding e
      by (intro keeps) (cases "ds_codePathStack s"; auto simp: defs)
  next
    case (ObjectPatternIdentifier n)
    with assms(1) show ?thesis unfolding e
      by (intro keeps) (auto simp: defs onPatternIdentifier_def split: option.splits list.splits)
  next
    case ObjectPatternRest
    with assms(1) show ?thesis unfolding e
      by (intro keeps) (auto simp: defs onPatternRest_def split: list.splits)
  next
    case ObjectPatternExit
    with assms(1) show ?thesis unfolding e
      by (intro keeps) (auto simp: defs onPatternExit_def split: list.splits)
  next
    case ObjectPatternEnter
    with assms(1) show ?thesis unfolding e by (intro keeps) (auto simp: defs)
  qed
qed

text \<open>
  References have an identity of their own: two references of the scopes with the same one are the
  same, and the identities of the rule's own references come after them.
\<close>

definition references_of :: "(event_context \<times> dead_store_event) list \<Rightarrow> reference set" where
  "references_of events = (\<Union>e \<in> set events. event_references e)"

definition identities_ok :: "nat \<Rightarrow> (event_context \<times> dead_store_event) list \<Rightarrow> bool" where
  "identities_ok fresh events \<longleftrightarrow> inj_on ref_id (references_of events) \<and>
     (\<forall>r \<in> references_of events. ref_id r < fresh)"

lemma ds_run_inv:
  assumes "ds_run env fresh events = Inr s" "identities_ok fresh events"
  shows "ds_inv (references_of events) s"
proof -
  have init: "ds_inv (references_of events) (ds_create fresh)"
    using assms(2) by (auto simp: ds_inv_def ds_create_def ds_ok_def live_ok_def identities_ok_def dict_get_def
        intro!: exI [of _ "{}"])
  have "ds_inv (references_of events) s'"
    if "fold_res (ds_listener env) es s1 = Inr s'" "ds_inv (references_of events) s1" "set es \<subseteq> set events" for es s1 s'
    using that
  proof (induction es arbitrary: s1)
    case (Cons e es)
    then obtain s2 where s2: "ds_listener env e s1 = Inr s2" "fold_res (ds_listener env) es s2 = Inr s'"
      by (auto simp: bind_res_eq_Inr)
    moreover have "event_references e \<subseteq> references_of events" using Cons.prems(3) by (auto simp: references_of_def)
    ultimately have "ds_inv (references_of events) s2" using Cons.prems(2) by (blast intro: ds_listener_inv)
    with Cons s2 show ?case by simp
  qed simp
  with init assms(1) show ?thesis by (auto simp: ds_run_def)
qed

section \<open>The reports of the rule\<close>

definition segment_reports ::
  "dead_store_env \<Rightarrow> dead_store_state \<Rightarrow> string \<Rightarrow> live_variables \<Rightarrow> dead_store_report list" where
  "segment_reports env s i lv =
     map (\<lambda>k. ds_report (lv_references lv ! k))
       (filter (dead_at env s (needed_after (ds_liveVariablesMap s) i) (lv_references lv))
         (rev [0..<length (lv_references lv)])) @
     reportNeverReadVariables env s lv"

lemma ds_inv_entry:
  assumes "ds_inv R s" "dict_get (ds_liveVariablesMap s) i = Some lv"
  shows "seg_id (lv_segment lv) = i" "lv_in lv = []" "lv_coherent lv" "\<forall>r \<in> set (lv_references lv). tracked s r"
  using assms unfolding ds_inv_def ds_ok_def live_ok_def lv_ok_def by blast+

lemma needed_after_entry:
  "dict_get m i = Some lv \<Longrightarrow> needed_after m i = {v. \<exists>n \<in> set (nextSegments (lv_segment lv)). live m n v}"
  by (auto simp: needed_after_def)

text \<open>What the rule does with an entry after the analysis, in terms of the entry before it.\<close>

lemma check_entry_reports:
  assumes "ds_inv R s" "dict_get (ds_liveVariablesMap s) i = Some lv" "lv_fixed lv' = lv_fixed lv"
    and "set (lv_out lv') = needed_after (ds_liveVariablesMap s) i"
  shows "check_entry env (s\<lparr>ds_liveVariablesMap := m'\<rparr>) lv' = Inr (segment_reports env s i lv)"
proof -
  let ?s = "s\<lparr>ds_liveVariablesMap := m'\<rparr>"
  have refs: "lv_references lv' = lv_references lv" using assms(3) by (simp add: lv_fixed_def)
  have usages: "\<forall>r \<in> set (lv_references lv'). has_usages ?s r"
    using ds_inv_entry(4) [OF assms(1,2)] by (auto simp: refs tracked_def has_usages_def)
  have same: "shouldReportReference env ?s = shouldReportReference env s" "reportable env ?s = reportable env s"
    by (auto simp: fun_eq_iff shouldReportReference_def reportable_def split: option.split)
  then have "dead_at env ?s = dead_at env s" by (auto simp: fun_eq_iff dead_at_def)
  moreover have "reportNeverReadVariables env ?s lv' = reportNeverReadVariables env s lv"
    by (simp add: reportNeverReadVariables_def same refs cong: option.case_cong)
  ultimately show ?thesis
    by (simp add: check_entry_def checkSegment_reports [OF usages] segment_reports_def assms(4) refs)
qed

lemma program_exit_reports:
  assumes inv: "ds_inv R s" and graph: "live_graph (ds_liveVariablesMap s)"
  shows "\<exists>s'. program_exit env s = Some (Inr s') \<and>
    ds_reports s' = concat (map (\<lambda>(i, lv). segment_reports env s i lv) (ds_liveVariablesMap s))"
proof -
  let ?m = "ds_liveVariablesMap s"
  have dist: "distinct (map fst ?m)" using inv by (auto simp: ds_inv_def ds_ok_def live_ok_def)
  then have get: "dict_get ?m i = Some lv \<longleftrightarrow> (i, lv) \<in> set ?m" for i lv by (simp add: dict_get_def)
  have "\<forall>(i, lv) \<in> set ?m. lv_in lv = []" using ds_inv_entry(2) [OF inv] get by blast
  from lva_exact [OF graph dist this] obtain m' where run: "lva ?m = Some (Inr m')" and keys: "map fst m' = map fst ?m"
    and out: "\<And>i lv. dict_get m' i = Some lv \<Longrightarrow>
      set (lv_out lv) = {v. \<exists>n \<in> set (nextSegments (lv_segment lv)). live ?m n v}" by blast
  note fixed = lva_fixed [OF run]
  have "list_all2 (\<lambda>e' y. (case e' of (i, lv') \<Rightarrow> check_entry env (s\<lparr>ds_liveVariablesMap := m'\<rparr>) lv') = Inr y)
      m' (map (\<lambda>(i, lv). segment_reports env s i lv) ?m)"
  proof (rule list_all2_all_nthI)
    show len: "length m' = length (map (\<lambda>(i, lv). segment_reports env s i lv) ?m)"
      using keys by (metis length_map)
    fix k assume k: "k < length m'"
    obtain i lv lv' where e: "?m ! k = (i, lv)" "m' ! k = (i, lv')" "lv_fixed lv' = lv_fixed lv"
      using arg_cong [OF fixed, of "\<lambda>xs. xs ! k"] k len by (simp split: prod.splits)
    have "(i, lv) \<in> set ?m" "(i, lv') \<in> set m'" using e k len by (metis nth_mem length_map)+
    moreover have "distinct (map fst m')" using keys dist by simp
    ultimately have lv: "dict_get ?m i = Some lv" "dict_get m' i = Some lv'" using get by (simp_all add: dict_get_def)
    have "set (lv_out lv') = needed_after ?m i"
      using out [OF lv(2)] e(3) by (simp add: needed_after_entry [OF lv(1)] lv_fixed_def)
    from check_entry_reports [OF inv lv(1) e(3) this] show
      "(case m' ! k of (i, lv') \<Rightarrow> check_entry env (s\<lparr>ds_liveVariablesMap := m'\<rparr>) lv') =
        Inr (map (\<lambda>(i, lv). segment_reports env s i lv) ?m ! k)"
      using e k len by simp
  qed
  then have "map_res (\<lambda>(i, lv). check_entry env (s\<lparr>ds_liveVariablesMap := m'\<rparr>) lv) m' =
      Inr (map (\<lambda>(i, lv). segment_reports env s i lv) ?m)"
    by (simp add: map_res_Inr_iff case_prod_unfold)
  moreover have "ds_reports s = []" using inv by (simp add: ds_inv_def)
  ultimately show ?thesis by (simp add: program_exit_def run)
qed

text \<open>
  C13: on every program whose code path graph is complete, the end of the program reports, segment
  by segment, exactly: from the last reference to the first, the reportable writes whose variable
  is not read next in the segment, or, when the segment does not mention it again, is not live in
  any successor; then the references of the variables that are never read. Neither the analysis
  nor the lookup of the usages fails.
\<close>

theorem dead_store_reports:
  assumes "ds_run env fresh events = Inr s" and "identities_ok fresh events"
    and "live_graph (ds_liveVariablesMap s)"
  shows "\<exists>s'. program_exit env s = Some (Inr s') \<and>
    ds_reports s' = concat (map (\<lambda>(i, lv). segment_reports env s i lv) (ds_liveVariablesMap s))"
  using program_exit_reports [OF ds_run_inv [OF assms(1,2)] assms(3)] .

lemma never_read_value:
  assumes "value_read m i rs v" "\<forall>r \<in> set rs. ref_resolved r = Some v \<longrightarrow> \<not> ref_isRead r"
    and "\<forall>n lv r. dict_get m n = Some lv \<longrightarrow> r \<in> set (lv_references lv) \<longrightarrow> ref_resolved r = Some v \<longrightarrow> \<not> ref_isRead r"
  shows False
  using assms by induction auto

lemma segment_reports_dead:
  assumes inv: "ds_inv R s" and lv: "dict_get (ds_liveVariablesMap s) i = Some lv"
    and rep: "rep \<in> set (segment_reports env s i lv)"
  shows "\<exists>k v. k < length (lv_references lv) \<and> rep = ds_report (lv_references lv ! k) \<and>
    shouldReportReference env s (lv_references lv ! k) \<and> ref_resolved (lv_references lv ! k) = Some v \<and>
    \<not> value_read (ds_liveVariablesMap s) i (drop (Suc k) (lv_references lv)) v"
proof -
  let ?refs = "lv_references lv"
  have coherent: "\<forall>i lv. dict_get (ds_liveVariablesMap s) i = Some lv \<longrightarrow> lv_coherent lv"
    using ds_inv_entry(3) [OF inv] by blast
  from rep consider
      (dead) k where "k < length ?refs" "rep = ds_report (?refs ! k)"
        "dead_at env s (needed_after (ds_liveVariablesMap s) i) ?refs k"
    | (never) ref where "ref \<in> set ?refs" "rep = ds_report ref" "shouldReportReference env s ref"
        "\<forall>v. ref_resolved ref = Some v \<longrightarrow> v \<notin> set (ds_readVariables s)"
    by (auto simp: segment_reports_def reportNeverReadVariables_def split: option.splits)
  then show ?thesis
  proof cases
    case dead
    then obtain v where "ref_resolved (?refs ! k) = Some v" "shouldReportReference env s (?refs ! k)"
      "\<not> read_next (needed_after (ds_liveVariablesMap s) i) v (drop (Suc k) ?refs)"
      unfolding dead_at_def reportable_def by blast
    with dead(1,2) value_read_next [OF _ coherent] show ?thesis by blast
  next
    case never
    then obtain k v where k: "k < length ?refs" "?refs ! k = ref" and v: "ref_resolved ref = Some v"
      by (auto simp: in_set_conv_nth shouldReportReference_def split: option.splits)
    with never have unread: "v \<notin> set (ds_readVariables s)" by blast
    have all: "\<forall>n l r. dict_get (ds_liveVariablesMap s) n = Some l \<longrightarrow> r \<in> set (lv_references l) \<longrightarrow>
        ref_resolved r = Some v \<longrightarrow> \<not> ref_isRead r"
      using ds_inv_entry(4) [OF inv] unread by (auto simp: tracked_def)
    have "\<forall>r \<in> set (drop (Suc k) ?refs). ref_resolved r = Some v \<longrightarrow> \<not> ref_isRead r"
    proof (intro ballI)
      fix r assume "r \<in> set (drop (Suc k) ?refs)"
      then have "r \<in> set ?refs" by (rule in_set_dropD)
      with all lv show "ref_resolved r = Some v \<longrightarrow> \<not> ref_isRead r" by simp
    qed
    from never_read_value [OF _ this all] have "\<not> value_read (ds_liveVariablesMap s) i (drop (Suc k) ?refs) v"
      by blast
    with never k v show ?thesis by blast
  qed
qed


text \<open>
  A function body of two segments: the first assigns \<open>x\<close> twice, the second reads it. The
  assignments are \<^verbatim>\<open>x = a\<close> and \<^verbatim>\<open>x = b\<close>, with \<open>a\<close> and \<open>b\<close> unresolved.
\<close>

definition assignment_node :: "nat \<Rightarrow> node \<Rightarrow> node \<Rightarrow> node" where
  "assignment_node i left right = JObj i None None
     [(''type'', JStr ''AssignmentExpression''), (''left'', left), (''right'', right)]"

definition example_env :: dead_store_env where
  "example_env =
     \<lparr>de_chain = (\<lambda>n. case node_id n of
          Some i \<Rightarrow> if i = 0 \<or> i = 1 then [n, assignment_node 10 (identifier_node 0 ''x'') (identifier_node 1 ''a''), JNull]
            else if i = 2 \<or> i = 3 then [n, assignment_node 11 (identifier_node 2 ''x'') (identifier_node 3 ''b''), JNull]
            else [n, JNull]
        | None \<Rightarrow> [n, JNull]),
      de_init = (\<lambda>_. False), de_name = (\<lambda>_. ''x''),
      de_block = (\<lambda>_. JObj 12 None None [(''type'', JStr ''FunctionDeclaration'')]),
      de_isLiteral = (\<lambda>n. is_type n ''Literal''), de_isObjectExpression = (\<lambda>n. is_type n ''ObjectExpression''),
      de_isIdentifier = (\<lambda>n. is_type n ''Identifier''),
      de_isAssignmentExpression = (\<lambda>n. is_type n ''AssignmentExpression'')\<rparr>"

definition example_ref :: "nat \<Rightarrow> nat \<Rightarrow> string \<Rightarrow> bool \<Rightarrow> nat option \<Rightarrow> reference" where
  "example_ref i n name write v = \<lparr>ref_id = i, ref_identifier = identifier_node n name, ref_isRead = \<not> write,
     ref_isWrite = write, ref_writeExpr = None, ref_resolved = v\<rparr>"

definition example_segment :: "nat \<Rightarrow> segment" where
  "example_segment k =
     (if k = 1 then \<lparr>seg_id = ''s1'', nextSegments = [''s2''], prevSegments = []\<rparr>
      else \<lparr>seg_id = ''s2'', nextSegments = [], prevSegments = [''s1'']\<rparr>)"

definition example_event_context :: "nat \<Rightarrow> event_context" where
  "example_event_context k =
     \<lparr>ec_scope = Some (Scope [] [example_ref 0 0 ''x'' True (Some 7), example_ref 1 1 ''a'' False None,
        example_ref 2 2 ''x'' True (Some 7), example_ref 3 3 ''b'' False None, example_ref 4 4 ''x'' False (Some 7)] None),
      ec_ancestors = [], ec_currentSegments = (\<lambda>_. [example_segment k])\<rparr>"

definition example_events :: "(event_context \<times> dead_store_event) list" where
  "example_events =
     map (Pair (example_event_context 1))
       [OnCodePathStart ''f'', OnCodePathSegmentStart (example_segment 1),
        AssignmentEnter (assignment_node 10 (identifier_node 0 ''x'') (identifier_node 1 ''a'')),
        IdentifierEnter (identifier_node 0 ''x''), IdentifierEnter (identifier_node 1 ''a''), AssignmentExit,
        AssignmentEnter (assignment_node 11 (identifier_node 2 ''x'') (identifier_node 3 ''b'')),
        IdentifierEnter (identifier_node 2 ''x''), IdentifierEnter (identifier_node 3 ''b''), AssignmentExit] @
     map (Pair (example_event_context 2))
       [OnCodePathSegmentStart (example_segment 2), IdentifierEnter (identifier_node 4 ''x'')]"

definition example_final :: dead_store_state where
  "example_final =
     \<lparr>ds_codePathStack = [new_CodePathContext ''f''],
      ds_liveVariablesMap =
        [(''s1'', \<lparr>lv_segment = example_segment 1, lv_gen = [], lv_kill = [7], lv_in = [], lv_out = [],
            lv_references = [example_ref 0 0 ''x'' True (Some 7), example_ref 2 2 ''x'' True (Some 7)]\<rparr>),
         (''s2'', \<lparr>lv_segment = example_segment 2, lv_gen = [7], lv_kill = [], lv_in = [], lv_out = [],
            lv_references = [example_ref 4 4 ''x'' False (Some 7)]\<rparr>)],
      ds_readVariables = [7], ds_variableUsages = [(7, [''f''])], ds_referencesUsedInDestructuring = [],
      ds_destructuringStack = [], ds_nextReference = 5, ds_reports = []\<rparr>"

lemma example_run: "ds_run example_env 5 example_events = Inr example_final"
  by code_simp

lemma example_identities: "identities_ok 5 example_events"
  by (simp add: identities_ok_def references_of_def event_references_def example_events_def
      example_event_context_def example_ref_def inj_on_def)

lemma example_graph: "live_graph (ds_liveVariablesMap example_final)"
  by (simp add: live_graph_def example_final_def dict_get_def example_segment_def)

lemma example_exit:
  "\<exists>s'. program_exit example_env example_final = Some (Inr s') \<and> ds_reports s' = [RemoveAssignment (JStr ''x'') None]"
proof -
  have "map_option (map_sum id ds_reports) (program_exit example_env example_final) =
      Some (Inr [RemoveAssignment (JStr ''x'') None])"
    by code_simp
  then obtain r where r: "program_exit example_env example_final = Some r"
    "map_sum id ds_reports r = Inr [RemoveAssignment (JStr ''x'') None]" by auto
  then show ?thesis by (cases r) auto
qed

theorem dead_store_reports_witness:
  "\<exists>s s'. ds_run example_env 5 example_events = Inr s \<and> program_exit example_env s = Some (Inr s') \<and>
     ds_reports s' = [RemoveAssignment (JStr ''x'') None] \<and>
     ds_reports s' = concat (map (\<lambda>(i, lv). segment_reports example_env s i lv) (ds_liveVariablesMap s))"
  using dead_store_reports [OF example_run example_identities example_graph] example_exit example_run by fastforce


text \<open>
  The analysis keeps a read after a write of the same segment in \<^verbatim>\<open>gen\<close>, so a store that
  the next segment overwrites before reading counts as needed: the rule misses it.
\<close>

definition overwritten_map :: live_map where
  "overwritten_map =
     [(''s1'', lv_add (example_ref 0 0 ''x'' True (Some 7)) (new_LiveVariables (example_segment 1))),
      (''s2'', lv_add (example_ref 4 4 ''x'' False (Some 7)) (lv_add (example_ref 2 2 ''x'' True (Some 7))
         (new_LiveVariables (example_segment 2))))]"

lemma missed_dead_store:
  "live overwritten_map ''s2'' 7" "7 \<in> needed_after overwritten_map ''s1''" "\<not> value_read overwritten_map ''s1'' [] 7"
proof -
  have s2: "dict_get overwritten_map ''s2'' = Some (lv_add (example_ref 4 4 ''x'' False (Some 7))
      (lv_add (example_ref 2 2 ''x'' True (Some 7)) (new_LiveVariables (example_segment 2))))"
    by (simp add: overwritten_map_def dict_get_def)
  show live: "live overwritten_map ''s2'' 7"
    by (rule live_read [OF s2]) (simp add: lv_add_def example_ref_def)
  then show "7 \<in> needed_after overwritten_map ''s1''"
    by (simp add: needed_after_def overwritten_map_def dict_get_def lv_add_def example_ref_def
        new_LiveVariables_def example_segment_def)
  have "\<not> value_read overwritten_map ''s2'' [example_ref 2 2 ''x'' True (Some 7), example_ref 4 4 ''x'' False (Some 7)] 7"
    by (simp add: value_read_Cons) (simp add: example_ref_def)
  moreover have "lv_references (lv_add (example_ref 4 4 ''x'' False (Some 7))
      (lv_add (example_ref 2 2 ''x'' True (Some 7)) (new_LiveVariables (example_segment 2)))) =
      [example_ref 2 2 ''x'' True (Some 7), example_ref 4 4 ''x'' False (Some 7)]"
    by (simp add: lv_add_def example_ref_def new_LiveVariables_def add_by_def)
  moreover have "nextSegments (lv_segment lv) = [''s2'']" if "dict_get overwritten_map ''s1'' = Some lv" for lv
    using that by (auto simp: overwritten_map_def dict_get_def lv_add_def example_ref_def new_LiveVariables_def
        example_segment_def)
  ultimately show "\<not> value_read overwritten_map ''s1'' [] 7"
    using s2 by (auto simp: value_read_Nil)
qed

text \<open>
  A reference met while several segments are current, as in a \<^verbatim>\<open>finally\<close> block that is left
  in two ways, is judged in each of them alone: it is reported when its value is read after one of
  them but not after the other.
\<close>

definition forked_segment :: "string \<Rightarrow> segment" where
  "forked_segment i =
     \<lparr>seg_id = i, nextSegments = (if i = ''a'' then [''c''] else []), prevSegments = (if i = ''c'' then [''a''] else [])\<rparr>"

definition forked_context :: "string list \<Rightarrow> event_context" where
  "forked_context is = (example_event_context 1)\<lparr>ec_currentSegments := (\<lambda>_. map forked_segment is)\<rparr>"

definition forked_events :: "(event_context \<times> dead_store_event) list" where
  "forked_events =
     map (Pair (forked_context [''a'', ''b'']))
       [OnCodePathStart ''f'', OnCodePathSegmentStart (forked_segment ''a''),
        OnCodePathSegmentStart (forked_segment ''b''), IdentifierEnter (identifier_node 0 ''x'')] @
     map (Pair (forked_context [''c'']))
       [OnCodePathSegmentStart (forked_segment ''c''), IdentifierEnter (identifier_node 4 ''x'')]"

definition forked_final :: dead_store_state where
  "forked_final = (case ds_run example_env 5 forked_events of Inr s \<Rightarrow> s | Inl _ \<Rightarrow> ds_create 5)"

lemma forked_run: "ds_run example_env 5 forked_events = Inr forked_final"
  by code_simp

lemma forked_store_reported:
  "map_option (map_sum id ds_reports) (program_exit example_env forked_final) =
     Some (Inr [RemoveAssignment (JStr ''x'') None])"
  by code_simp

lemma forked_map:
  "map (\<lambda>(i, lv). (i, lv_segment lv, lv_references lv)) (ds_liveVariablesMap forked_final) =
     [(''a'', forked_segment ''a'', [example_ref 0 0 ''x'' True (Some 7)]),
      (''b'', forked_segment ''b'', [example_ref 0 0 ''x'' True (Some 7)]),
      (''c'', forked_segment ''c'', [example_ref 4 4 ''x'' False (Some 7)])]"
  by code_simp

lemma forked_store_read: "value_read (ds_liveVariablesMap forked_final) ''a'' [] 7"
proof -
  from forked_map obtain a b c where m: "ds_liveVariablesMap forked_final = [(''a'', a), (''b'', b), (''c'', c)]"
    "lv_segment a = forked_segment ''a''" "lv_references c = [example_ref 4 4 ''x'' False (Some 7)]"
    by (auto simp: map_eq_Cons_conv)
  have "value_read (ds_liveVariablesMap forked_final) ''c'' [example_ref 4 4 ''x'' False (Some 7)] 7"
    by (rule value_read_here) (simp_all add: example_ref_def)
  with m show ?thesis
    by (intro value_read_flow [of _ "''a''" a "''c''" c]) (simp_all add: dict_get_def forked_segment_def)
qed

end
