(* ===== verification/Redundant_Assignments.thy ===== *)
theory Redundant_Assignments
  imports Reaching_Definitions Dead_Stores
begin

text \<open>
  The rule on redundant assignments (\<^verbatim>\<open>src/linting/eslint/rules/no-redundant-assignments.ts\<close>),
  the client of the reaching definitions: it collects references the way the rule on useless
  assignments does, and at the end of the program reports the writes of a literal to a variable
  that is known to hold the same one. The state is the closure of \<^verbatim>\<open>create\<close>; stacks have
  their top first.
\<close>

section \<open>What ESLint gives the rule\<close>

text \<open>
  Beside the chain of a node (see \<open>dead_store_env\<close>), the scope a reference comes from and the
  variables, both by identity, and the predicate of \<^verbatim>\<open>eslint-plugin-sonarjs\<close>.
\<close>

record redundant_env =
  re_chain :: "node \<Rightarrow> jsval list"
  re_from :: "nat \<Rightarrow> scope"
  re_variable :: "nat \<Rightarrow> variable"
  re_isAssignmentExpression :: "node \<Rightarrow> bool"

definition re_parent :: "redundant_env \<Rightarrow> node \<Rightarrow> jsval" where
  "re_parent env n = (case re_chain env n of _ # p # _ \<Rightarrow> p | _ \<Rightarrow> JUndefined)"

definition with_from :: "redundant_env \<Rightarrow> reference \<Rightarrow> reaching_ref" where
  "with_from env r = reference.extend r (reaching_ref.fields (re_from env (ref_id r)))"

lemma with_from_fields [simp]:
  "ref_id (with_from env r) = ref_id r" "ref_resolved (with_from env r) = ref_resolved r"
  "ref_identifier (with_from env r) = ref_identifier r" "ref_isRead (with_from env r) = ref_isRead r"
  "ref_isWrite (with_from env r) = ref_isWrite r" "ref_writeExpr (with_from env r) = ref_writeExpr r"
  "rr_from (with_from env r) = re_from env (ref_id r)"
  by (cases r; simp add: with_from_def reference.defs reaching_ref.defs)+

section \<open>State\<close>

record ra_assignment =
  ra_node :: node
  ra_lhs :: "reaching_ref list"
  ra_rhs :: "reaching_ref list"

record ra_code_path =
  rp_codePath :: string
  rp_assignmentStack :: "ra_assignment list"

datatype redundant_report = ReviewAssignment "node option" string

record redundant_state =
  ra_codePathStack :: "ra_code_path list"
  ra_reachingDefsMap :: reaching_map
  ra_variableUsages :: "(nat \<times> string list) list"
  ra_reports :: "redundant_report list"

definition ra_create :: redundant_state where
  "ra_create = \<lparr>ra_codePathStack = [], ra_reachingDefsMap = [], ra_variableUsages = [], ra_reports = []\<rparr>"

definition ra_new_AssignmentContext :: "node \<Rightarrow> ra_assignment" where
  "ra_new_AssignmentContext n = \<lparr>ra_node = n, ra_lhs = [], ra_rhs = []\<rparr>"

definition ra_new_CodePathContext :: "string \<Rightarrow> ra_code_path" where
  "ra_new_CodePathContext codePath = \<lparr>rp_codePath = codePath, rp_assignmentStack = []\<rparr>"

section \<open>Sides of an assignment\<close>

definition ra_isRhs :: "redundant_env \<Rightarrow> ra_assignment \<Rightarrow> node \<Rightarrow> bool" where
  "ra_isRhs env a n =
     (if re_isAssignmentExpression env (ra_node a) then strict_eq (fld (ra_node a) ''right'') n
      else strict_eq (fld (ra_node a) ''init'') n)"

definition ra_isLhs :: "redundant_env \<Rightarrow> ra_assignment \<Rightarrow> node \<Rightarrow> bool" where
  "ra_isLhs env a n =
     (if re_isAssignmentExpression env (ra_node a) then strict_eq (fld (ra_node a) ''left'') n
      else strict_eq (fld (ra_node a) ''id'') n)"

fun ra_side_loop :: "redundant_env \<Rightarrow> reaching_ref \<Rightarrow> ra_assignment \<Rightarrow> jsval list \<Rightarrow> ra_assignment res" where
  "ra_side_loop env ref a [] = Inr a"
| "ra_side_loop env ref a (p # ps) =
     (if \<not> truthy p then (if p = JNull then Inl no_side else Inr a)
      else if ra_isLhs env a p then Inr (a\<lparr>ra_lhs := add_by ref_id ref (ra_lhs a)\<rparr>)
      else if ra_isRhs env a p then Inr (a\<lparr>ra_rhs := add_by ref_id ref (ra_rhs a)\<rparr>)
      else ra_side_loop env ref a ps)"

definition ra_add :: "redundant_env \<Rightarrow> reaching_ref \<Rightarrow> ra_assignment \<Rightarrow> ra_assignment res" where
  "ra_add env ref a = ra_side_loop env ref a (re_chain env (ref_identifier ref))"

section \<open>Recording references\<close>

definition reachingDefsForSegment :: "reaching_map \<Rightarrow> segment \<Rightarrow> reaching_definitions" where
  "reachingDefsForSegment m segment =
     (case dict_get m (seg_id segment) of Some defs \<Rightarrow> defs | None \<Rightarrow> new_ReachingDefinitions segment)"

definition ra_add_to_segment :: "reaching_ref \<Rightarrow> segment \<Rightarrow> reaching_map \<Rightarrow> reaching_map" where
  "ra_add_to_segment ref segment m = dict_set (seg_id segment) (rd_add ref (reachingDefsForSegment m segment)) m"

definition ra_processReference ::
  "redundant_env \<Rightarrow> event_context \<Rightarrow> reaching_ref \<Rightarrow> redundant_state \<Rightarrow> redundant_state res" where
  "ra_processReference env cx ref s =
     (case ra_codePathStack s of
        [] \<Rightarrow> Inl undefined_get
      | path # below \<Rightarrow>
          (case rp_assignmentStack path of
             a # as \<Rightarrow> bind_res (ra_add env ref a) (\<lambda>a'.
               Inr (s\<lparr>ra_codePathStack := path\<lparr>rp_assignmentStack := a' # as\<rparr> # below\<rparr>))
           | [] \<Rightarrow> Inr (s\<lparr>ra_reachingDefsMap :=
               fold (ra_add_to_segment ref) (ec_currentSegments cx (rp_codePath path)) (ra_reachingDefsMap s)\<rparr>)))"

definition ra_pushAssignmentContext :: "node \<Rightarrow> redundant_state \<Rightarrow> redundant_state res" where
  "ra_pushAssignmentContext n s =
     (case ra_codePathStack s of
        [] \<Rightarrow> Inl undefined_get
      | path # below \<Rightarrow> Inr (s\<lparr>ra_codePathStack :=
          path\<lparr>rp_assignmentStack := ra_new_AssignmentContext n # rp_assignmentStack path\<rparr> # below\<rparr>))"

definition ra_popAssignmentContext ::
  "redundant_env \<Rightarrow> event_context \<Rightarrow> redundant_state \<Rightarrow> redundant_state res" where
  "ra_popAssignmentContext env cx s =
     (case ra_codePathStack s of
        [] \<Rightarrow> Inl undefined_get
      | path # below \<Rightarrow>
          (case rp_assignmentStack path of
             [] \<Rightarrow> Inl undefined_get
           | a # as \<Rightarrow>
               bind_res (fold_res (ra_processReference env cx) (ra_rhs a)
                   (s\<lparr>ra_codePathStack := path\<lparr>rp_assignmentStack := as\<rparr> # below\<rparr>))
                 (fold_res (ra_processReference env cx) (ra_lhs a))))"

definition ra_updateVariableUsages :: "nat \<Rightarrow> redundant_state \<Rightarrow> redundant_state res" where
  "ra_updateVariableUsages variable s =
     (case ra_codePathStack s of
        [] \<Rightarrow> Inl undefined_get
      | path # below \<Rightarrow> Inr (s\<lparr>ra_variableUsages :=
          (case dict_get (ra_variableUsages s) variable of
             Some ids \<Rightarrow> dict_set variable (set_add (rp_codePath path) ids) (ra_variableUsages s)
           | None \<Rightarrow> dict_set variable [rp_codePath path] (ra_variableUsages s))\<rparr>))"

text \<open>Unlike in the rule on useless assignments, the search goes up to the global scope.\<close>

fun ra_resolveReferenceRecursively :: "node \<Rightarrow> scope option \<Rightarrow> reference option \<times> nat option" where
  "ra_resolveReferenceRecursively n None = (None, None)"
| "ra_resolveReferenceRecursively n (Some (Scope vs rs up)) =
     (case List.find (\<lambda>r. strict_eq (ref_identifier r) n) rs of
        Some ref \<Rightarrow> (Some ref, ref_resolved ref)
      | None \<Rightarrow>
          (case List.find (\<lambda>v. list_ex (\<lambda>d. strict_eq (def_name d) n) (var_defs v)) vs of
             Some variable \<Rightarrow> (None, Some (var_id variable))
           | None \<Rightarrow> ra_resolveReferenceRecursively n up))"

definition ra_resolveReference :: "event_context \<Rightarrow> node \<Rightarrow> reference option \<times> nat option" where
  "ra_resolveReference cx n = ra_resolveReferenceRecursively n (ec_scope cx)"

definition ra_checkIdentifierUsage ::
  "redundant_env \<Rightarrow> event_context \<Rightarrow> node \<Rightarrow> redundant_state \<Rightarrow> redundant_state res" where
  "ra_checkIdentifierUsage env cx n s =
     (case ra_resolveReference cx n of
        (ref, variable) \<Rightarrow>
          bind_res (case ref of None \<Rightarrow> Inr s | Some r \<Rightarrow> ra_processReference env cx (with_from env r) s)
            (\<lambda>s'. case variable of None \<Rightarrow> Inr s' | Some v \<Rightarrow> ra_updateVariableUsages v s'))"

definition ra_isEnumConstant :: "event_context \<Rightarrow> bool" where
  "ra_isEnumConstant cx = list_ex (\<lambda>n. is_type n ''TSEnumDeclaration'') (ec_ancestors cx)"

section \<open>Which assignments are reported\<close>

definition isSelfAssignement :: "reaching_ref \<Rightarrow> bool" where
  "isSelfAssignement ref =
     (case ref_writeExpr ref of
        None \<Rightarrow> False
      | Some e \<Rightarrow>
          if is_type e ''Identifier'' then ref_resolved ref = map_option var_id (getVariableFromIdentifier e (rr_from ref))
          else False)"

definition isCompoundAssignment :: "redundant_env \<Rightarrow> node option \<Rightarrow> bool" where
  "isCompoundAssignment env writeExpr =
     (case writeExpr of
        None \<Rightarrow> False
      | Some e \<Rightarrow>
          let n = re_parent env e in
          truthy n \<and> is_type n ''AssignmentExpression'' \<and> fld n ''operator'' \<noteq> JStr ''='')"

definition ra_isDefaultParameter :: "redundant_env \<Rightarrow> reaching_ref \<Rightarrow> bool" where
  "ra_isDefaultParameter env ref =
     (if \<not> is_type (ref_identifier ref) ''Identifier'' then False
      else let parent = re_parent env (ref_identifier ref) in
        truthy parent \<and> is_type parent ''AssignmentPattern'')"

definition ra_shouldReportReference :: "redundant_env \<Rightarrow> reaching_ref \<Rightarrow> bool" where
  "ra_shouldReportReference env ref =
     (case ref_resolved ref of
        None \<Rightarrow> False
      | Some v \<Rightarrow>
          \<not> ra_isDefaultParameter env ref \<and> \<not> starts_with (var_name (re_variable env v)) ''_'' \<and>
          \<not> isCompoundAssignment env (ref_writeExpr ref) \<and> \<not> isSelfAssignement ref \<and>
          \<not> list_ex (\<lambda>d. def_type d = ''Parameter'' \<or> def_type d = ''Variable'' \<and> \<not> truthy (fld (def_node d) ''init''))
              (var_defs (re_variable env v)))"

definition ra_variableUsedOutsideOfCodePath :: "redundant_state \<Rightarrow> nat \<Rightarrow> bool res" where
  "ra_variableUsedOutsideOfCodePath s variable =
     (case dict_get (ra_variableUsages s) variable of
        None \<Rightarrow> Inl undefined_get
      | Some ids \<Rightarrow> Inr (length ids > 1))"

definition ra_shouldReport :: "redundant_env \<Rightarrow> redundant_state \<Rightarrow> reaching_ref \<Rightarrow> bool res" where
  "ra_shouldReport env s ref =
     (case ref_resolved ref of
        None \<Rightarrow> Inr False
      | Some variable \<Rightarrow>
          if \<not> ra_shouldReportReference env ref then Inr False
          else bind_res (ra_variableUsedOutsideOfCodePath s variable) (\<lambda>outside. Inr (\<not> outside)))"

definition isWrittenOnlyOnce :: "variable \<Rightarrow> bool" where
  "isWrittenOnlyOnce v \<longleftrightarrow> length (filter ref_isWrite (var_references v)) = 1"

definition checkRedundantAssignement ::
  "redundant_env \<Rightarrow> nat \<Rightarrow> node option \<Rightarrow> string \<Rightarrow> vals \<Rightarrow> string \<Rightarrow> redundant_report list" where
  "checkRedundantAssignement env variable n lhsVal rhsValues name =
     (case rhsValues of
        AssignedValues [rhsVal] \<Rightarrow>
          if \<not> isWrittenOnlyOnce (re_variable env variable) \<and> lhsVal = rhsVal then [ReviewAssignment n name] else []
      | _ \<Rightarrow> [])"

fun ra_checkSegment_loop ::
  "redundant_env \<Rightarrow> redundant_state \<Rightarrow> reaching_ref list \<Rightarrow> program_state \<Rightarrow> redundant_report list res" where
  "ra_checkSegment_loop env s [] assignedValuesMap = Inr []"
| "ra_checkSegment_loop env s (ref # rest) assignedValuesMap =
     (case ref_resolved ref of
        None \<Rightarrow> ra_checkSegment_loop env s rest assignedValuesMap
      | Some variable \<Rightarrow>
          if \<not> ref_isWrite ref then ra_checkSegment_loop env s rest assignedValuesMap
          else bind_res (ra_shouldReport env s ref) (\<lambda>b.
            if \<not> b then ra_checkSegment_loop env s rest assignedValuesMap
            else
              let rhsValues = resolveAssignedValues variable (ref_writeExpr ref) assignedValuesMap (rr_from ref);
                  reported = (case dict_get assignedValuesMap variable of
                      Some (AssignedValues [lhsVal]) \<Rightarrow> checkRedundantAssignement env variable (ref_writeExpr ref)
                        lhsVal rhsValues (var_name (re_variable env variable))
                    | _ \<Rightarrow> [])
              in bind_res (ra_checkSegment_loop env s rest (dict_set variable rhsValues assignedValuesMap))
                   (\<lambda>later. Inr (reported @ later))))"

definition ra_checkSegment ::
  "redundant_env \<Rightarrow> redundant_state \<Rightarrow> reaching_definitions \<Rightarrow> redundant_report list res" where
  "ra_checkSegment env s reachingDefs =
     ra_checkSegment_loop env s (rd_references reachingDefs) (rd_in reachingDefs)"

definition ra_program_exit :: "redundant_env \<Rightarrow> redundant_state \<Rightarrow> redundant_state res option" where
  "ra_program_exit env s =
     map_option (\<lambda>r. bind_res r (\<lambda>m.
         bind_res (map_res (\<lambda>(i, defs). ra_checkSegment env s defs) m) (\<lambda>reported.
           Inr \<lparr>ra_codePathStack = [], ra_reachingDefsMap = [], ra_variableUsages = [],
             ra_reports = ra_reports s @ concat reported\<rparr>)))
       (reachingDefinitions (ra_reachingDefsMap s))"

section \<open>Listeners\<close>

datatype redundant_event =
    RaCodePathStart string
  | RaCodePathEnd
  | RaSegmentStart segment
  | RaAssignmentEnter node
  | RaAssignmentExit
  | RaIdentifier node

fun ra_listener ::
  "redundant_env \<Rightarrow> event_context \<times> redundant_event \<Rightarrow> redundant_state \<Rightarrow> redundant_state res" where
  "ra_listener env (cx, RaCodePathStart codePath) s =
     Inr (s\<lparr>ra_codePathStack := ra_new_CodePathContext codePath # ra_codePathStack s\<rparr>)"
| "ra_listener env (cx, RaCodePathEnd) s = Inr (s\<lparr>ra_codePathStack := tl (ra_codePathStack s)\<rparr>)"
| "ra_listener env (cx, RaSegmentStart segment) s =
     Inr (s\<lparr>ra_reachingDefsMap := dict_set (seg_id segment) (new_ReachingDefinitions segment) (ra_reachingDefsMap s)\<rparr>)"
| "ra_listener env (cx, RaAssignmentEnter n) s = ra_pushAssignmentContext n s"
| "ra_listener env (cx, RaAssignmentExit) s = ra_popAssignmentContext env cx s"
| "ra_listener env (cx, RaIdentifier n) s =
     (if ra_isEnumConstant cx then Inr s else ra_checkIdentifierUsage env cx n s)"

definition ra_run ::
  "redundant_env \<Rightarrow> (event_context \<times> redundant_event) list \<Rightarrow> redundant_state res" where
  "ra_run env events = fold_res (ra_listener env) events ra_create"

section \<open>The invariant of the listeners\<close>

text \<open>
  The shape of the map, and a property of all references the state holds; the depths of the
  assignments in the open code paths.
\<close>

definition rd_ok :: "(reaching_ref \<Rightarrow> bool) \<Rightarrow> string \<Rightarrow> reaching_definitions \<Rightarrow> bool" where
  "rd_ok P i rd \<longleftrightarrow> seg_id (rd_segment rd) = i \<and> rd_out rd = [] \<and> (\<forall>r \<in> set (rd_references rd). P r)"

definition reaching_ok :: "(reaching_ref \<Rightarrow> bool) \<Rightarrow> reaching_map \<Rightarrow> bool" where
  "reaching_ok P m \<longleftrightarrow> distinct (map fst m) \<and> (\<forall>i rd. dict_get m i = Some rd \<longrightarrow> rd_ok P i rd)"

definition ra_assignment_ok :: "(reaching_ref \<Rightarrow> bool) \<Rightarrow> ra_assignment \<Rightarrow> bool" where
  "ra_assignment_ok P a \<longleftrightarrow> (\<forall>r \<in> set (ra_lhs a) \<union> set (ra_rhs a). P r)"

definition ra_ok :: "(reaching_ref \<Rightarrow> bool) \<Rightarrow> redundant_state \<Rightarrow> bool" where
  "ra_ok P s \<longleftrightarrow> reaching_ok P (ra_reachingDefsMap s) \<and>
     (\<forall>c \<in> set (ra_codePathStack s). \<forall>a \<in> set (rp_assignmentStack c). ra_assignment_ok P a)"

definition ra_depths :: "redundant_state \<Rightarrow> nat list" where
  "ra_depths s = map (\<lambda>c. length (rp_assignmentStack c)) (ra_codePathStack s)"

definition ra_tracked :: "redundant_state \<Rightarrow> reaching_ref \<Rightarrow> bool" where
  "ra_tracked s r \<longleftrightarrow> (\<forall>v. ref_resolved r = Some v \<longrightarrow> dict_get (ra_variableUsages s) v \<noteq> None)"

definition ra_inv :: "redundant_state \<Rightarrow> bool" where
  "ra_inv s \<longleftrightarrow> ra_ok (ra_tracked s) s \<and> ra_reports s = []"

text \<open>The outcome of a listener: the error the rule throws itself, or such a state.\<close>

definition fine :: "(reaching_ref \<Rightarrow> bool) \<Rightarrow> nat list \<Rightarrow> (nat \<times> string list) list \<Rightarrow> redundant_state res \<Rightarrow> bool" where
  "fine P ds usages r \<longleftrightarrow> r = Inl no_side \<or>
     (\<exists>s. r = Inr s \<and> ra_ok P s \<and> ra_depths s = ds \<and> ra_variableUsages s = usages \<and> ra_reports s = [])"

lemma ra_tracked_update [simp]:
  "ra_tracked (s\<lparr>ra_codePathStack := c\<rparr>) = ra_tracked s"
  "ra_tracked (s\<lparr>ra_reachingDefsMap := m\<rparr>) = ra_tracked s"
  by (simp_all add: ra_tracked_def fun_eq_iff)

lemma ra_ok_mono: "ra_ok P s \<Longrightarrow> (\<And>r. P r \<Longrightarrow> Q r) \<Longrightarrow> ra_ok Q s"
  by (auto simp: ra_ok_def reaching_ok_def rd_ok_def ra_assignment_ok_def)

lemma rd_ok_new: "rd_ok P (seg_id segment) (new_ReachingDefinitions segment)"
  by (simp add: rd_ok_def new_ReachingDefinitions_def)

lemma rd_ok_add: "rd_ok P i rd \<Longrightarrow> P r \<Longrightarrow> rd_ok P i (rd_add r rd)"
  by (auto simp: rd_ok_def rd_add_def add_by_def)

lemma reaching_ok_set: "reaching_ok P m \<Longrightarrow> rd_ok P i rd \<Longrightarrow> reaching_ok P (dict_set i rd m)"
  by (auto simp: reaching_ok_def dict.get_put)

lemma reaching_ok_add:
  assumes "reaching_ok P m" "P r"
  shows "reaching_ok P (ra_add_to_segment r segment m)"
proof -
  have "rd_ok P (seg_id segment) (reachingDefsForSegment m segment)"
    using assms(1) rd_ok_new by (auto simp: reachingDefsForSegment_def reaching_ok_def split: option.split)
  with assms show ?thesis by (auto simp: ra_add_to_segment_def intro: reaching_ok_set rd_ok_add)
qed

lemma reaching_ok_add_all:
  "reaching_ok P m \<Longrightarrow> P r \<Longrightarrow> reaching_ok P (fold (ra_add_to_segment r) segments m)"
  by (induction segments arbitrary: m) (simp_all add: reaching_ok_add)

lemma ra_side_loop_ok:
  assumes "ra_assignment_ok P a" "P ref"
  shows "ra_side_loop env ref a ps = Inl no_side \<or> (\<exists>a'. ra_side_loop env ref a ps = Inr a' \<and> ra_assignment_ok P a')"
proof (induction ps)
  case (Cons p ps)
  have add: "ra_assignment_ok P (a\<lparr>ra_lhs := add_by ref_id ref (ra_lhs a)\<rparr>)"
    "ra_assignment_ok P (a\<lparr>ra_rhs := add_by ref_id ref (ra_rhs a)\<rparr>)"
    using assms set_add_by [of "ra_lhs a" ref_id ref] set_add_by [of "ra_rhs a" ref_id ref]
    by (auto simp: ra_assignment_ok_def)
  from Cons add assms(1) show ?case by simp
qed (use assms in simp)

lemma ra_processReference_fine:
  assumes "ra_codePathStack s \<noteq> []" "ra_ok P s" "P ref" "ra_reports s = []"
  shows "fine P (ra_depths s) (ra_variableUsages s) (ra_processReference env cx ref s)"
proof -
  from assms(1) obtain path below where stack: "ra_codePathStack s = path # below" by (cases "ra_codePathStack s") auto
  show ?thesis
  proof (cases "rp_assignmentStack path")
    case Nil
    with stack assms show ?thesis
      by (auto simp: fine_def ra_processReference_def ra_ok_def ra_depths_def intro: reaching_ok_add_all)
  next
    case (Cons a as)
    with stack assms(2) have "ra_assignment_ok P a" by (simp add: ra_ok_def)
    from ra_side_loop_ok [OF this assms(3), of env "re_chain env (ref_identifier ref)"] show ?thesis
      using stack Cons assms by (auto simp: fine_def ra_processReference_def ra_add_def ra_ok_def ra_depths_def)
  qed
qed

lemma ra_fold_fine:
  assumes "ra_codePathStack s \<noteq> []" "ra_ok P s" "\<forall>r \<in> set refs. P r" "ra_reports s = []"
  shows "fine P (ra_depths s) (ra_variableUsages s) (fold_res (ra_processReference env cx) refs s)"
  using assms
proof (induction refs arbitrary: s)
  case (Cons r refs)
  then have "fine P (ra_depths s) (ra_variableUsages s) (ra_processReference env cx r s)"
    by (simp add: ra_processReference_fine)
  then consider "ra_processReference env cx r s = Inl no_side"
    | s' where "ra_processReference env cx r s = Inr s'" "ra_ok P s'" "ra_depths s' = ra_depths s"
      "ra_variableUsages s' = ra_variableUsages s" "ra_reports s' = []"
    by (auto simp: fine_def)
  then show ?case
  proof cases
    case 2
    moreover from this(3) Cons.prems(1) have "ra_codePathStack s' \<noteq> []" by (auto simp: ra_depths_def)
    ultimately show ?thesis using Cons.IH [of s'] Cons.prems(3) by simp
  qed (simp add: fine_def)
qed (simp add: fine_def)

lemma ra_popAssignmentContext_fine:
  assumes "ra_depths s = Suc d # ds" "ra_ok P s" "ra_reports s = []"
  shows "fine P (d # ds) (ra_variableUsages s) (ra_popAssignmentContext env cx s)"
proof -
  from assms(1) obtain path below a as where stack: "ra_codePathStack s = path # below"
    "rp_assignmentStack path = a # as" "length as = d" "map (\<lambda>c. length (rp_assignmentStack c)) below = ds"
    by (cases "ra_codePathStack s"; cases "rp_assignmentStack (hd (ra_codePathStack s))") (auto simp: ra_depths_def)
  let ?s = "s\<lparr>ra_codePathStack := path\<lparr>rp_assignmentStack := as\<rparr> # below\<rparr>"
  have ok: "ra_ok P ?s" "ra_codePathStack ?s \<noteq> []" "ra_reports ?s = []" and depths: "ra_depths ?s = d # ds"
    using stack assms by (auto simp: ra_ok_def ra_depths_def)
  have sides: "\<forall>r \<in> set (ra_rhs a). P r" "\<forall>r \<in> set (ra_lhs a). P r"
    using stack assms(2) by (auto simp: ra_ok_def ra_assignment_ok_def)
  have pop: "ra_popAssignmentContext env cx s =
      bind_res (fold_res (ra_processReference env cx) (ra_rhs a) ?s) (fold_res (ra_processReference env cx) (ra_lhs a))"
    using stack by (simp add: ra_popAssignmentContext_def)
  from ra_fold_fine [OF ok(2,1) sides(1) ok(3), of env cx]
  consider "fold_res (ra_processReference env cx) (ra_rhs a) ?s = Inl no_side"
    | s' where "fold_res (ra_processReference env cx) (ra_rhs a) ?s = Inr s'" "ra_ok P s'" "ra_depths s' = d # ds"
      "ra_variableUsages s' = ra_variableUsages s" "ra_reports s' = []"
    by (auto simp: fine_def depths)
  then show ?thesis
  proof cases
    case 2
    moreover from this(3) have "ra_codePathStack s' \<noteq> []" by (auto simp: ra_depths_def)
    ultimately show ?thesis using ra_fold_fine [of s' P "ra_lhs a" env cx] sides(2) by (simp add: pop)
  qed (simp add: pop fine_def)
qed

lemma ra_resolveReferenceRecursively_variable:
  "ra_resolveReferenceRecursively n sc = (Some r, variable) \<Longrightarrow> variable = ref_resolved r"
  by (induction n sc rule: ra_resolveReferenceRecursively.induct) (auto split: option.splits)

lemma ra_checkIdentifierUsage_inv:
  assumes "ra_inv s" "ra_codePathStack s \<noteq> []"
  shows "ra_checkIdentifierUsage env cx n s = Inl no_side \<or>
    (\<exists>s'. ra_checkIdentifierUsage env cx n s = Inr s' \<and> ra_inv s' \<and> ra_depths s' = ra_depths s)"
proof -
  obtain ref variable where res: "ra_resolveReference cx n = (ref, variable)" by fastforce
  let ?Q = "\<lambda>r. ra_tracked s r \<or> ref_resolved r = variable"
  let ?r = "case ref of None \<Rightarrow> Inr s | Some r \<Rightarrow> ra_processReference env cx (with_from env r) s"
  have ok: "ra_ok ?Q s" "ra_reports s = []" using assms(1) ra_ok_mono [of "ra_tracked s" s ?Q] by (auto simp: ra_inv_def)
  have "fine ?Q (ra_depths s) (ra_variableUsages s) ?r"
  proof (cases ref)
    case (Some r)
    then have "variable = ref_resolved r"
      using res by (auto simp: ra_resolveReference_def dest: ra_resolveReferenceRecursively_variable)
    with Some ok assms(2) show ?thesis by (auto intro!: ra_processReference_fine)
  qed (use ok in \<open>simp add: fine_def\<close>)
  then consider "?r = Inl no_side" | s' where "?r = Inr s'" "ra_ok ?Q s'" "ra_depths s' = ra_depths s"
    "ra_variableUsages s' = ra_variableUsages s" "ra_reports s' = []" by (auto simp: fine_def)
  then show ?thesis
  proof cases
    case 1
    with res show ?thesis by (simp add: ra_checkIdentifierUsage_def)
  next
    case 2
    from 2(3) assms(2) obtain path below where stack: "ra_codePathStack s' = path # below"
      by (cases "ra_codePathStack s'") (auto simp: ra_depths_def)
    let ?t = "case variable of None \<Rightarrow> Inr s' | Some v \<Rightarrow> ra_updateVariableUsages v s'"
    obtain t where t: "?t = Inr t" "ra_reachingDefsMap t = ra_reachingDefsMap s'" "ra_codePathStack t = ra_codePathStack s'"
      "ra_reports t = []" "\<forall>r. ?Q r \<longrightarrow> ra_tracked t r"
      using stack 2(4,5)
      by (cases variable) (auto simp: ra_updateVariableUsages_def ra_tracked_def dict.get_put split: option.splits if_splits)
    moreover have "ra_ok (ra_tracked t) t"
      using ra_ok_mono [OF 2(2), of "ra_tracked t"] t by (auto simp: ra_ok_def)
    ultimately show ?thesis using res 2(1,3) by (simp add: ra_checkIdentifierUsage_def ra_inv_def ra_depths_def)
  qed
qed

section \<open>The listeners on a traversal\<close>

text \<open>
  The events ESLint emits are nested: a code path ends after it started, an assignment is left
  in the code path in which it was entered, and identifiers are met inside a code path.
\<close>

fun nest :: "redundant_event \<Rightarrow> nat list \<Rightarrow> nat list option" where
  "nest (RaCodePathStart c) ds = Some (0 # ds)"
| "nest RaCodePathEnd ds = (case ds of [] \<Rightarrow> None | d # ds' \<Rightarrow> Some ds')"
| "nest (RaSegmentStart segment) ds = Some ds"
| "nest (RaAssignmentEnter n) ds = (case ds of [] \<Rightarrow> None | d # ds' \<Rightarrow> Some (Suc d # ds'))"
| "nest RaAssignmentExit ds = (case ds of Suc d # ds' \<Rightarrow> Some (d # ds') | _ \<Rightarrow> None)"
| "nest (RaIdentifier n) ds = (if ds = [] then None else Some ds)"

fun nested :: "nat list \<Rightarrow> redundant_event list \<Rightarrow> bool" where
  "nested ds [] = True"
| "nested ds (e # es) = (case nest e ds of None \<Rightarrow> False | Some ds' \<Rightarrow> nested ds' es)"

lemma ra_listener_inv:
  assumes "ra_inv s" "nest e (ra_depths s) = Some ds"
  shows "ra_listener env (cx, e) s = Inl no_side \<or>
    (\<exists>s'. ra_listener env (cx, e) s = Inr s' \<and> ra_inv s' \<and> ra_depths s' = ds)"
proof (cases e)
  case (RaCodePathStart codePath)
  with assms show ?thesis
    by (auto simp: ra_inv_def ra_ok_def ra_depths_def ra_new_CodePathContext_def)
next
  case RaCodePathEnd
  with assms show ?thesis
    by (cases "ra_codePathStack s") (auto simp: ra_inv_def ra_ok_def ra_depths_def)
next
  case (RaSegmentStart segment)
  with assms show ?thesis
    by (auto simp: ra_inv_def ra_ok_def ra_depths_def intro: reaching_ok_set rd_ok_new)
next
  case (RaAssignmentEnter n)
  with assms show ?thesis
    by (cases "ra_codePathStack s")
      (auto simp: ra_inv_def ra_ok_def ra_depths_def ra_pushAssignmentContext_def ra_new_AssignmentContext_def
        ra_assignment_ok_def)
next
  case RaAssignmentExit
  with assms(2) obtain d ds' where ds: "ra_depths s = Suc d # ds'" "ds = d # ds'"
    by (auto split: list.splits nat.splits)
  from assms(1) have ok: "ra_ok (ra_tracked s) s" "ra_reports s = []" by (simp_all add: ra_inv_def)
  have keep: "ra_inv s'"
    if "ra_ok (ra_tracked s) s'" "ra_variableUsages s' = ra_variableUsages s" "ra_reports s' = []" for s'
    using that ra_ok_mono [of "ra_tracked s" s' "ra_tracked s'"] by (simp add: ra_inv_def ra_tracked_def)
  from ra_popAssignmentContext_fine [OF ds(1) ok, of env cx] show ?thesis
    unfolding fine_def using RaAssignmentExit ds(2) keep by (metis ra_listener.simps(5))
next
  case (RaIdentifier n)
  with assms(2) have "ra_codePathStack s \<noteq> []" "ds = ra_depths s" by (auto simp: ra_depths_def split: if_splits)
  with RaIdentifier assms(1) ra_checkIdentifierUsage_inv [of s env cx n] show ?thesis by simp
qed

lemma ra_run_inv:
  assumes "nested [] (map snd events)"
  shows "ra_run env events = Inl no_side \<or> (\<exists>s. ra_run env events = Inr s \<and> ra_inv s)"
proof -
  have "fold_res (ra_listener env) es s = Inl no_side \<or> (\<exists>t. fold_res (ra_listener env) es s = Inr t \<and> ra_inv t)"
    if "ra_inv s" "nested (ra_depths s) (map snd es)" for es s
    using that
  proof (induction es arbitrary: s)
    case (Cons e es)
    obtain cx ev where e: "e = (cx, ev)" by fastforce
    with Cons.prems obtain ds where ds: "nest ev (ra_depths s) = Some ds" "nested ds (map snd es)"
      by (auto split: option.splits)
    from ra_listener_inv [OF Cons.prems(1) ds(1), of env cx] show ?case
    proof
      assume "\<exists>s'. ra_listener env (cx, ev) s = Inr s' \<and> ra_inv s' \<and> ra_depths s' = ds"
      then obtain s' where "ra_listener env (cx, ev) s = Inr s'" "ra_inv s'" "ra_depths s' = ds" by blast
      with Cons.IH [of s'] ds(2) show ?thesis by (simp add: e)
    qed (simp add: e)
  qed simp
  moreover have "ra_inv ra_create"
    by (simp add: ra_inv_def ra_ok_def ra_create_def reaching_ok_def dict_get_def)
  moreover have "ra_depths ra_create = []" by (simp add: ra_depths_def ra_create_def)
  ultimately show ?thesis using assms by (simp add: ra_run_def)
qed

section \<open>What a segment reports\<close>

text \<open>
  The loop over the references of a segment passes over the references it does not consider, and
  leaves what it knows of their variables as it is.
\<close>

definition considered :: "redundant_env \<Rightarrow> redundant_state \<Rightarrow> reaching_ref \<Rightarrow> bool" where
  "considered env s ref \<longleftrightarrow> ref_isWrite ref \<and> ra_shouldReport env s ref = Inr True"

definition known_after :: "redundant_env \<Rightarrow> redundant_state \<Rightarrow> reaching_ref \<Rightarrow> program_state \<Rightarrow> program_state" where
  "known_after env s ref ps =
     (case ref_resolved ref of
        None \<Rightarrow> ps
      | Some v \<Rightarrow>
          if considered env s ref
          then dict_set v (resolveAssignedValues v (ref_writeExpr ref) ps (rr_from ref)) ps else ps)"

definition reported_at :: "redundant_env \<Rightarrow> redundant_state \<Rightarrow> program_state \<Rightarrow> reaching_ref \<Rightarrow> redundant_report list" where
  "reported_at env s ps ref =
     (case ref_resolved ref of
        None \<Rightarrow> []
      | Some v \<Rightarrow>
          if considered env s ref then
            (case dict_get ps v of
               Some (AssignedValues [lhsVal]) \<Rightarrow> checkRedundantAssignement env v (ref_writeExpr ref) lhsVal
                 (resolveAssignedValues v (ref_writeExpr ref) ps (rr_from ref)) (var_name (re_variable env v))
             | _ \<Rightarrow> [])
          else [])"

definition segment_redundancies ::
  "redundant_env \<Rightarrow> redundant_state \<Rightarrow> reaching_ref list \<Rightarrow> program_state \<Rightarrow> redundant_report list" where
  "segment_redundancies env s refs ps =
     concat (map (\<lambda>k. reported_at env s (fold (known_after env s) (take k refs) ps) (refs ! k)) [0..<length refs])"

lemma ra_shouldReport_tracked:
  "ra_tracked s ref \<Longrightarrow> \<exists>b. ra_shouldReport env s ref = Inr b"
  by (auto simp: ra_shouldReport_def ra_tracked_def ra_variableUsedOutsideOfCodePath_def split: option.splits)

lemma segment_redundancies_Cons:
  "segment_redundancies env s (ref # refs) ps =
     reported_at env s ps ref @ segment_redundancies env s refs (known_after env s ref ps)"
proof -
  have "[0..<length (ref # refs)] = 0 # map Suc [0..<length refs]" by (simp add: map_Suc_upt upt_conv_Cons del: upt_Suc)
  then show ?thesis by (simp add: segment_redundancies_def comp_def)
qed

lemma ra_checkSegment_loop_reports:
  assumes "\<forall>r \<in> set refs. ra_tracked s r"
  shows "ra_checkSegment_loop env s refs ps = Inr (segment_redundancies env s refs ps)"
  using assms
proof (induction refs arbitrary: ps)
  case Nil
  show ?case by (simp add: segment_redundancies_def)
next
  case (Cons ref refs)
  then obtain b where b: "ra_shouldReport env s ref = Inr b" using ra_shouldReport_tracked by fastforce
  from Cons have rest: "ra_checkSegment_loop env s refs ps = Inr (segment_redundancies env s refs ps)" for ps by simp
  show ?case
  proof (cases "ref_resolved ref")
    case None
    with rest show ?thesis by (simp add: segment_redundancies_Cons reported_at_def known_after_def)
  next
    case (Some v)
    with rest b show ?thesis
      by (cases "ref_isWrite ref \<and> b")
        (auto simp: segment_redundancies_Cons reported_at_def known_after_def considered_def Let_def)
  qed
qed

lemma ra_program_exit_reports:
  assumes "ra_inv s" "reachingDefinitions (ra_reachingDefsMap s) = Some (Inr m)"
  shows "\<exists>s'. ra_program_exit env s = Some (Inr s') \<and>
    ra_reports s' = concat (map (\<lambda>(i, rd). segment_redundancies env s (rd_references rd) (rd_in rd)) m)"
proof -
  have ok: "reaching_ok (ra_tracked s) (ra_reachingDefsMap s)" using assms(1) by (simp add: ra_inv_def ra_ok_def)
  have tracked: "\<forall>r \<in> set (rd_references rd). ra_tracked s r" if rd: "(i, rd) \<in> set m" for i rd
  proof -
    have "(i, rd_fixed rd) \<in> set (map (\<lambda>(i, rd). (i, rd_fixed rd)) m)" using rd by force
    then obtain rd' where "(i, rd') \<in> set (ra_reachingDefsMap s)" "rd_fixed rd' = rd_fixed rd"
      unfolding reaching_fixed [OF assms(2)] by auto
    with ok show ?thesis by (auto simp: reaching_ok_def rd_ok_def rd_fixed_def dict_get_def)
  qed
  have "map_res (\<lambda>(i, defs). ra_checkSegment env s defs) m =
      Inr (map (\<lambda>(i, rd). segment_redundancies env s (rd_references rd) (rd_in rd)) m)"
    unfolding map_res_Inr_iff list.rel_map
    using tracked by (auto simp: ra_checkSegment_def ra_checkSegment_loop_reports intro!: list.rel_refl_strong)
  with assms show ?thesis by (simp add: ra_program_exit_def ra_inv_def)
qed

text \<open>
  C2: the assertions of the rule that a value is present hold: on every nested sequence of
  events the only error is the one the rule throws itself, every reference it has recorded is to
  a variable whose usages it knows, and at the end of a program whose graph is complete and
  without copies it returns with its reports and an empty state.
\<close>

theorem redundant_rule_type_safe:
  assumes "nested [] (map snd events)"
  shows "(\<forall>e. ra_run env events = Inl e \<longrightarrow> e = no_side) \<and>
    (\<forall>s. ra_run env events = Inr s \<longrightarrow> ra_ok (ra_tracked s) s \<and>
       (reaching_graph (ra_reachingDefsMap s) \<longrightarrow>
          (\<exists>reported. ra_program_exit env s = Some (Inr (ra_create\<lparr>ra_reports := reported\<rparr>)))))"
proof -
  have "\<exists>reported. ra_program_exit env s = Some (Inr (ra_create\<lparr>ra_reports := reported\<rparr>))"
    if inv: "ra_inv s" and graph: "reaching_graph (ra_reachingDefsMap s)" for s
  proof -
    have "reaching_ok (ra_tracked s) (ra_reachingDefsMap s)" using inv by (simp add: ra_inv_def ra_ok_def)
    then have "distinct (map fst (ra_reachingDefsMap s))" "\<forall>(i, rd) \<in> set (ra_reachingDefsMap s). rd_out rd = []"
      by (auto simp: reaching_ok_def rd_ok_def dict_get_def)
    from reachingDefinitions_points [OF graph this] obtain m where
      m: "reachingDefinitions (ra_reachingDefsMap s) = Some (Inr m)" by blast
    from ra_program_exit_reports [OF inv m, of env] obtain s' where "ra_program_exit env s = Some (Inr s')" by blast
    then show ?thesis by (auto simp: ra_program_exit_def m bind_res_eq_Inr ra_create_def)
  qed
  with ra_run_inv [OF assms, of env] show ?thesis by (auto simp: ra_inv_def)
qed

section \<open>Reported assignments are redundant\<close>

lemma effect_single: "effect ref = Some (x, AssignedValues vs) \<Longrightarrow> \<exists>a. vs = [a]"
  by (auto simp: effect_def resolveAssignedValues_def dict_get_def split: option.splits if_splits jsval.splits)

lemma resolve_no_copy:
  assumes "no_copy ref" "ref_isWrite ref" "ref_resolved ref = Some v"
  shows "effect ref = Some (v, resolveAssignedValues v (ref_writeExpr ref) ps (rr_from ref))"
  using assms by (auto simp: effect_def no_copy_def resolveAssignedValues_def split: option.splits)

text \<open>As long as the loop considers every write of a variable it knows what reaches the point.\<close>

lemma known_after_exact:
  assumes "look ps v = join_vals (reaching_values m i [] v)" and "\<forall>r \<in> set before. no_copy r"
    and "\<forall>r \<in> set before. ref_resolved r = Some v \<longrightarrow> ref_isWrite r \<longrightarrow> considered env s r"
  shows "look (fold (known_after env s) before ps) v = join_vals (reaching_values m i before v)"
  using assms(2,3)
proof (induction before rule: rev_induct)
  case Nil
  from assms(1) show ?case by simp
next
  case (snoc q before)
  let ?ps = "fold (known_after env s) before ps"
  have IH: "look ?ps v = join_vals (reaching_values m i before v)" using snoc by simp
  show ?case
  proof (cases "ref_resolved q = Some v \<and> ref_isWrite q")
    case True
    with snoc.prems have "effect q = Some (v, resolveAssignedValues v (ref_writeExpr q) ?ps (rr_from q))"
      by (intro resolve_no_copy) auto
    moreover from True snoc.prems(2) have "known_after env s q ?ps =
        dict_set v (resolveAssignedValues v (ref_writeExpr q) ?ps (rr_from q)) ?ps"
      by (simp add: known_after_def)
    ultimately show ?thesis by (simp add: look_set reaching_values_snoc)
  next
    case False
    then have "effect q \<noteq> Some (v, w)" for w using effect_iff [of q v] by blast
    then have "reaching_values m i (before @ [q]) v = reaching_values m i before v"
      by (auto simp: reaching_values_snoc split: option.split)
    moreover have "look (known_after env s q ?ps) v = look ?ps v"
      using False by (auto simp: known_after_def considered_def look_set split: option.split)
    ultimately show ?thesis using IH by simp
  qed
qed

lemma join_vals_known:
  assumes "join_vals V = Known {a}" "w \<in> V"
  shows "\<exists>vs. w = AssignedValues vs \<and> set vs \<subseteq> {a}"
  using assms by (cases w) (auto simp: join_vals_def split: if_splits)

lemma reaching_same_literal:
  assumes "join_vals (reaching_values m i before v) = Known {a}"
  shows "(\<exists>r. reaches m i before v r) \<and> (\<forall>r. reaches m i before v r \<longrightarrow> effect r = Some (v, AssignedValues [a]))"
proof (intro conjI allI impI)
  have "reaching_values m i before v \<noteq> {}" using assms by (auto simp: join_vals_def)
  then show "\<exists>r. reaches m i before v r" by (auto simp: reaching_values_def)
next
  fix r assume r: "reaches m i before v r"
  from reaches_effect [OF r] obtain w where w: "effect r = Some (v, w)" by blast
  with r have "w \<in> reaching_values m i before v" by (auto simp: reaching_values_def)
  from join_vals_known [OF assms this] w effect_single [of r v] show "effect r = Some (v, AssignedValues [a])"
    by fastforce
qed

lemma checkRedundantAssignement_reports:
  assumes "rep \<in> set (checkRedundantAssignement env v n a rhs name)"
  shows "rhs = AssignedValues [a]" "rep = ReviewAssignment n name"
proof -
  have "rhs = AssignedValues [a] \<and> rep = ReviewAssignment n name"
  proof (cases "\<exists>b. rhs = AssignedValues [b]")
    case True
    then obtain b where "rhs = AssignedValues [b]" ..
    with assms show ?thesis by (simp add: checkRedundantAssignement_def split: if_splits)
  next
    case False
    then have "checkRedundantAssignement env v n a rhs name = []"
      by (auto simp: checkRedundantAssignement_def split: vals.split list.split)
    with assms show ?thesis by simp
  qed
  then show "rhs = AssignedValues [a]" "rep = ReviewAssignment n name" by simp_all
qed

lemma reported_at_redundant:
  assumes "rep \<in> set (reported_at env s ps ref)" "no_copy ref"
  shows "\<exists>v a. ref_resolved ref = Some v \<and> rep = ReviewAssignment (ref_writeExpr ref) (var_name (re_variable env v)) \<and>
    effect ref = Some (v, AssignedValues [a]) \<and> look ps v = Known {a}"
proof -
  have none: "reported_at env s ps ref = []" if "ref_resolved ref = None"
    using that by (simp add: reported_at_def)
  with assms(1) obtain v where v: "ref_resolved ref = Some v" by fastforce
  have "reported_at env s ps ref = []" if "\<not> considered env s ref"
    using that v by (simp add: reported_at_def)
  with assms(1) have con: "considered env s ref" by fastforce
  let ?rhs = "resolveAssignedValues v (ref_writeExpr ref) ps (rr_from ref)"
  from assms(1) v con obtain a where a: "dict_get ps v = Some (AssignedValues [a])"
    "rep \<in> set (checkRedundantAssignement env v (ref_writeExpr ref) a ?rhs (var_name (re_variable env v)))"
    by (simp add: reported_at_def split: option.splits vals.splits list.splits) metis
  then have "?rhs = AssignedValues [a]" "rep = ReviewAssignment (ref_writeExpr ref) (var_name (re_variable env v))"
    using checkRedundantAssignement_reports by blast+
  with v con a resolve_no_copy [OF assms(2), of v ps] show ?thesis
    by (auto simp: considered_def look_def aval_of_def)
qed


section \<open>Programs of assignments\<close>

text \<open>
  What ESLint hands to the rule for a function whose segments consist of assignments and
  declarations of \<^verbatim>\<open>a\<close> to \<^verbatim>\<open>d\<close>, all in one scope: its references, the variables with a
  definition, and the events of the traversal. The arguments say how each variable is defined.
\<close>

definition literal_node :: "nat \<Rightarrow> string \<Rightarrow> node" where
  "literal_node i raw = JObj i None None [(''type'', JStr ''Literal''), (''raw'', JStr raw)]"

definition assign_node :: "nat \<Rightarrow> string \<Rightarrow> node \<Rightarrow> node \<Rightarrow> node" where
  "assign_node i op left right = JObj i None None [(''type'', JStr ''AssignmentExpression''),
     (''operator'', JStr op), (''left'', left), (''right'', right)]"

definition declarator_node :: "nat \<Rightarrow> node \<Rightarrow> node \<Rightarrow> node" where
  "declarator_node i n val = JObj i None None [(''type'', JStr ''VariableDeclarator''), (''id'', n), (''init'', val)]"

type_synonym sample = "(segment \<times> node list) list"

definition sample_sides :: "node \<Rightarrow> node \<times> node" where
  "sample_sides a = (if is_type a ''AssignmentExpression'' then (fld a ''left'', fld a ''right'')
     else (fld a ''id'', fld a ''init''))"

definition sample_variable_id :: "node \<Rightarrow> nat option" where
  "sample_variable_id n =
     map_of [(JStr ''a'', 0), (JStr ''b'', 1), (JStr ''c'', 2), (JStr ''d'', 3)] (fld n ''name'')"

definition sample_references :: "node \<Rightarrow> reference list" where
  "sample_references a =
     (case sample_sides a of (left, right) \<Rightarrow>
        \<lparr>ref_id = the (node_id left), ref_identifier = left,
         ref_isRead = (is_type a ''AssignmentExpression'' \<and> fld a ''operator'' \<noteq> JStr ''=''), ref_isWrite = True,
         ref_writeExpr = Some right, ref_resolved = sample_variable_id left\<rparr> #
        (if is_type right ''Identifier''
         then [\<lparr>ref_id = the (node_id right), ref_identifier = right, ref_isRead = True, ref_isWrite = False,
           ref_writeExpr = None, ref_resolved = sample_variable_id right\<rparr>] else []))"

definition all_references :: "sample \<Rightarrow> reference list" where
  "all_references p = concat (map (\<lambda>(segment, as). concat (map sample_references as)) p)"

definition sample_variable :: "sample \<Rightarrow> definition_of_variable list \<Rightarrow> nat \<Rightarrow> variable" where
  "sample_variable p defs i =
     \<lparr>var_id = i, var_name = [''abcd'' ! i], var_defs = defs,
      var_references = filter (\<lambda>r. ref_resolved r = Some i) (all_references p), var_writeable = None\<rparr>"

definition sample_scope :: "sample \<Rightarrow> (nat \<Rightarrow> definition_of_variable list) \<Rightarrow> scope" where
  "sample_scope p defs = Scope (map (\<lambda>i. sample_variable p (defs i) i) [0..<4]) (all_references p) None"

text \<open>Of the scope a reference comes from the rule reads the names of the variables only.\<close>

definition sample_names :: scope where
  "sample_names = Scope (map (\<lambda>i. \<lparr>var_id = i, var_name = [''abcd'' ! i], var_defs = [], var_references = [],
     var_writeable = None\<rparr>) [0..<4]) [] None"

definition sample_env :: "sample \<Rightarrow> (nat \<Rightarrow> definition_of_variable list) \<Rightarrow> redundant_env" where
  "sample_env p defs =
     \<lparr>re_chain = (\<lambda>n. n #
          (case List.find (\<lambda>a. strict_eq (fst (sample_sides a)) n \<or> strict_eq (snd (sample_sides a)) n)
             (concat (map snd p)) of None \<Rightarrow> [JNull] | Some a \<Rightarrow> [a, JNull])),
      re_from = (\<lambda>_. sample_names), re_variable = (\<lambda>i. sample_variable p (defs i) i),
      re_isAssignmentExpression = (\<lambda>n. is_type n ''AssignmentExpression'')\<rparr>"

definition sample_events ::
  "sample \<Rightarrow> (nat \<Rightarrow> definition_of_variable list) \<Rightarrow> (event_context \<times> redundant_event) list" where
  "sample_events p defs =
     (let cx = (\<lambda>segments. \<lparr>ec_scope = Some (sample_scope p defs), ec_ancestors = [],
        ec_currentSegments = (\<lambda>_. segments)\<rparr>) in
      (cx [], RaCodePathStart ''f'') #
      concat (map (\<lambda>(segment, as). map (Pair (cx [segment]))
        (RaSegmentStart segment # concat (map (\<lambda>a. case sample_sides a of (left, right) \<Rightarrow>
           [RaAssignmentEnter a, RaIdentifier left] @
           (if is_type right ''Identifier'' then [RaIdentifier right] else []) @ [RaAssignmentExit]) as))) p))"

text \<open>A variable defined by a declaration with, or without, an initializer.\<close>

definition initialized :: "nat \<Rightarrow> definition_of_variable list" where
  "initialized i = [\<lparr>def_type = ''Variable'', def_name = JUndefined,
     def_node = declarator_node 100 (identifier_node 101 [''abcd'' ! i]) (literal_node 102 ''0''), def_parent = JUndefined\<rparr>]"

definition uninitialized :: "nat \<Rightarrow> definition_of_variable list" where
  "uninitialized i = [\<lparr>def_type = ''Variable'', def_name = JUndefined,
     def_node = declarator_node 100 (identifier_node 101 [''abcd'' ! i]) JNull, def_parent = JUndefined\<rparr>]"

definition final_of :: "sample \<Rightarrow> (nat \<Rightarrow> definition_of_variable list) \<Rightarrow> redundant_state" where
  "final_of p defs = (case ra_run (sample_env p defs) (sample_events p defs) of Inr s \<Rightarrow> s | Inl _ \<Rightarrow> ra_create)"

definition reports_of :: "sample \<Rightarrow> (nat \<Rightarrow> definition_of_variable list) \<Rightarrow> redundant_report list res option" where
  "reports_of p defs = map_option (map_sum id ra_reports) (ra_program_exit (sample_env p defs) (final_of p defs))"

text \<open>\<^verbatim>\<open>let a = 42; a = 42;\<close>\<close>

definition overwrite :: sample where
  "overwrite =
     [(\<lparr>seg_id = ''s1'', nextSegments = [], prevSegments = []\<rparr>,
       [declarator_node 10 (identifier_node 0 ''a'') (literal_node 1 ''42''),
        assign_node 11 ''='' (identifier_node 2 ''a'') (literal_node 3 ''42'')])]"

text \<open>\<^verbatim>\<open>let a = 0; a += 1; a = 0;\<close>\<close>

definition compound :: sample where
  "compound =
     [(\<lparr>seg_id = ''s1'', nextSegments = [], prevSegments = []\<rparr>,
       [declarator_node 10 (identifier_node 0 ''a'') (literal_node 1 ''0''),
        assign_node 11 ''+='' (identifier_node 2 ''a'') (literal_node 3 ''1''),
        assign_node 12 ''='' (identifier_node 4 ''a'') (literal_node 5 ''0'')])]"

text \<open>\<^verbatim>\<open>if (p()) { var a = 42; } a = 42;\<close>\<close>

definition hoisted :: sample where
  "hoisted =
     [(\<lparr>seg_id = ''s1'', nextSegments = [''s2'', ''s3''], prevSegments = []\<rparr>, []),
      (\<lparr>seg_id = ''s2'', nextSegments = [''s3''], prevSegments = [''s1'']\<rparr>,
       [declarator_node 10 (identifier_node 0 ''a'') (literal_node 1 ''42'')]),
      (\<lparr>seg_id = ''s3'', nextSegments = [], prevSegments = [''s2'', ''s1'']\<rparr>,
       [assign_node 11 ''='' (identifier_node 2 ''a'') (literal_node 3 ''42'')])]"

text \<open>The function of the previous theory on which the analysis never ends.\<close>

definition swapping :: sample where
  "swapping =
     [(\<lparr>seg_id = ''s1'', nextSegments = [''s2''], prevSegments = []\<rparr>, []),
      (\<lparr>seg_id = ''s2'', nextSegments = [''s3'', ''s7''], prevSegments = [''s1'', ''s7'']\<rparr>, []),
      (\<lparr>seg_id = ''s3'', nextSegments = [''s4''], prevSegments = [''s2'']\<rparr>,
       [assign_node 10 ''='' (identifier_node 0 ''b'') (literal_node 1 ''1'')]),
      (\<lparr>seg_id = ''s4'', nextSegments = [''s5'', ''s6''], prevSegments = [''s3'', ''s5'']\<rparr>, []),
      (\<lparr>seg_id = ''s5'', nextSegments = [''s4''], prevSegments = [''s4'']\<rparr>,
       [assign_node 11 ''='' (identifier_node 2 ''a'') (identifier_node 3 ''c''),
        assign_node 12 ''='' (identifier_node 4 ''c'') (identifier_node 5 ''b''),
        assign_node 13 ''='' (identifier_node 6 ''b'') (identifier_node 7 ''a'')]),
      (\<lparr>seg_id = ''s6'', nextSegments = [], prevSegments = [''s4'']\<rparr>, []),
      (\<lparr>seg_id = ''s7'', nextSegments = [''s2''], prevSegments = [''s2'']\<rparr>,
       [assign_node 14 ''='' (identifier_node 8 ''d'') (literal_node 9 ''2'')])]"

lemma sample_run:
  "\<not> isl (ra_run (sample_env p defs) (sample_events p defs)) \<Longrightarrow>
     ra_run (sample_env p defs) (sample_events p defs) = Inr (final_of p defs)"
  by (auto simp: final_of_def split: sum.split)

lemma sample_runs:
  "ra_run (sample_env overwrite initialized) (sample_events overwrite initialized) = Inr (final_of overwrite initialized)"
  "ra_run (sample_env compound initialized) (sample_events compound initialized) = Inr (final_of compound initialized)"
  "ra_run (sample_env hoisted initialized) (sample_events hoisted initialized) = Inr (final_of hoisted initialized)"
  "ra_run (sample_env swapping uninitialized) (sample_events swapping uninitialized) = Inr (final_of swapping uninitialized)"
  by (rule sample_run; code_simp)+

lemma sample_reports:
  "reports_of overwrite initialized = Some (Inr [ReviewAssignment (Some (literal_node 3 ''42'')) ''a''])"
  "reports_of compound initialized = Some (Inr [ReviewAssignment (Some (literal_node 5 ''0'')) ''a''])"
  "reports_of hoisted initialized = Some (Inr [ReviewAssignment (Some (literal_node 3 ''42'')) ''a''])"
  by code_simp+

lemma reports_of_exit:
  assumes "reports_of p defs = Some (Inr reported)"
  shows "\<exists>s'. ra_program_exit (sample_env p defs) (final_of p defs) = Some (Inr s') \<and> ra_reports s' = reported"
proof -
  from assms obtain x where "ra_program_exit (sample_env p defs) (final_of p defs) = Some x"
    "map_sum id ra_reports x = Inr reported" by (auto simp: reports_of_def)
  then show ?thesis by (cases x) auto
qed

definition graph_check :: "reaching_map \<Rightarrow> bool" where
  "graph_check m \<longleftrightarrow> list_all (\<lambda>(i, rd). seg_id (rd_segment rd) = i \<and>
     list_all (\<lambda>n. n \<in> set (map fst m)) (nextSegments (rd_segment rd)) \<and>
     list_all (\<lambda>p. case dict_get m p of None \<Rightarrow> False | Some rp \<Rightarrow> i \<in> set (nextSegments (rd_segment rp)))
       (prevSegments (rd_segment rd)) \<and>
     list_all no_copy (rd_references rd)) m"

lemma graph_check_sound:
  assumes "graph_check m"
  shows "reaching_graph m"
  unfolding reaching_graph_def
proof (intro allI impI)
  fix i rd assume "dict_get m i = Some rd"
  then have mem: "(i, rd) \<in> set m" by (auto simp: dict_get_def dest: map_of_SomeD)
  with assms have entry: "seg_id (rd_segment rd) = i" "\<forall>n \<in> set (nextSegments (rd_segment rd)). n \<in> set (map fst m)"
    "\<forall>p \<in> set (prevSegments (rd_segment rd)).
       case dict_get m p of None \<Rightarrow> False | Some rp \<Rightarrow> i \<in> set (nextSegments (rd_segment rp))"
    "\<forall>ref \<in> set (rd_references rd). no_copy ref"
    unfolding graph_check_def list_all_iff by blast+
  have "dict_get m n \<noteq> None" if "n \<in> set (nextSegments (rd_segment rd))" for n
    using entry(2) that by (simp add: dict_get_def map_of_eq_None_iff)
  moreover have "\<exists>rp. dict_get m p = Some rp \<and> i \<in> set (nextSegments (rd_segment rp))"
    if "p \<in> set (prevSegments (rd_segment rd))" for p
    using entry(3) [rule_format, OF that] by (cases "dict_get m p") simp_all
  ultimately show "seg_id (rd_segment rd) = i \<and> (\<forall>n \<in> set (nextSegments (rd_segment rd)). dict_get m n \<noteq> None) \<and>
     (\<forall>p \<in> set (prevSegments (rd_segment rd)).
        \<exists>rp. dict_get m p = Some rp \<and> i \<in> set (nextSegments (rd_segment rp))) \<and>
     (\<forall>ref \<in> set (rd_references rd). no_copy ref)"
    using entry(1,4) by blast
qed

lemma overwrite_graph: "reaching_graph (ra_reachingDefsMap (final_of overwrite initialized))"
  by (rule graph_check_sound) code_simp

lemma overwrite_nested: "nested [] (map snd (sample_events overwrite initialized))"
  by code_simp

theorem redundant_rule_type_safe_witness:
  "\<exists>s reported. ra_run (sample_env overwrite initialized) (sample_events overwrite initialized) = Inr s \<and>
     ra_ok (ra_tracked s) s \<and>
     ra_program_exit (sample_env overwrite initialized) s = Some (Inr (ra_create\<lparr>ra_reports := reported\<rparr>)) \<and>
     reported = [ReviewAssignment (Some (literal_node 3 ''42'')) ''a'']"
proof -
  from redundant_rule_type_safe [OF overwrite_nested, of "sample_env overwrite initialized"] sample_runs(1) overwrite_graph
  obtain reported where "ra_ok (ra_tracked (final_of overwrite initialized)) (final_of overwrite initialized)"
    "ra_program_exit (sample_env overwrite initialized) (final_of overwrite initialized) =
       Some (Inr (ra_create\<lparr>ra_reports := reported\<rparr>))" by blast
  with sample_runs(1) sample_reports(1) show ?thesis by (auto simp: reports_of_def)
qed

lemma overwrite_map:
  "map (\<lambda>(i, rd). (i, map ref_writeExpr (rd_references rd), map effect (rd_references rd),
      map (considered (sample_env overwrite initialized) (final_of overwrite initialized)) (rd_references rd)))
    (ra_reachingDefsMap (final_of overwrite initialized)) =
   [(''s1'', [Some (literal_node 1 ''42''), Some (literal_node 3 ''42'')],
     [Some (0, AssignedValues [''42'']), Some (0, AssignedValues [''42''])], [True, True])]"
  by code_simp


section \<open>False alarms and a program without an end\<close>

text \<open>
  A compound assignment is passed over, but it changes the variable: the last assignment of
  \<^verbatim>\<open>let a = 0; a += 1; a = 0;\<close> is reported although the compound assignment reaches it.
\<close>

lemma compound_map:
  "map (\<lambda>(i, rd). (i, map ref_writeExpr (rd_references rd), map ref_resolved (rd_references rd), map ref_isWrite (rd_references rd)))
    (ra_reachingDefsMap (final_of compound initialized)) =
   [(''s1'', [Some (literal_node 1 ''0''), Some (literal_node 3 ''1''), Some (literal_node 5 ''0'')],
     [Some 0, Some 0, Some 0], [True, True, True])]"
  by code_simp

lemma compound_false_alarm:
  "\<exists>s' rd. ra_program_exit (sample_env compound initialized) (final_of compound initialized) = Some (Inr s') \<and>
     ra_reports s' = [ReviewAssignment (Some (literal_node 5 ''0'')) ''a''] \<and>
     dict_get (ra_reachingDefsMap (final_of compound initialized)) ''s1'' = Some rd \<and>
     ref_writeExpr (rd_references rd ! 1) = Some (literal_node 3 ''1'') \<and>
     reaches (ra_reachingDefsMap (final_of compound initialized)) ''s1'' (take 2 (rd_references rd)) 0 (rd_references rd ! 1)"
proof -
  obtain rd r0 r1 r2 where m: "ra_reachingDefsMap (final_of compound initialized) = [(''s1'', rd)]"
    and refs: "rd_references rd = [r0, r1, r2]"
    and r: "ref_writeExpr r1 = Some (literal_node 3 ''1'')" "ref_resolved r1 = Some 0" "ref_isWrite r1"
    using compound_map by (auto simp: map_eq_Cons_conv)
  have "reaches (ra_reachingDefsMap (final_of compound initialized)) ''s1'' ([r0] @ [r1]) 0 r1"
    using r by (intro reaches_here)
  with m refs r reports_of_exit [OF sample_reports(2)] show ?thesis by (auto simp: dict_get_def)
qed

text \<open>
  A path without any write of the variable adds nothing to the join: in
  \<^verbatim>\<open>if (p()) { var a = 42; } a = 42;\<close> the last assignment is reported, although on the path
  around the branch the variable is still undefined.
\<close>

lemma hoisted_map:
  "map (\<lambda>(i, rd). (i, prevSegments (rd_segment rd), map ref_writeExpr (rd_references rd)))
    (ra_reachingDefsMap (final_of hoisted initialized)) =
   [(''s1'', [], []), (''s2'', [''s1''], [Some (literal_node 1 ''42'')]), (''s3'', [''s2'', ''s1''], [Some (literal_node 3 ''42'')])]"
  by code_simp

lemma hoisted_false_alarm:
  "\<exists>s' rd. ra_program_exit (sample_env hoisted initialized) (final_of hoisted initialized) = Some (Inr s') \<and>
     ra_reports s' = [ReviewAssignment (Some (literal_node 3 ''42'')) ''a''] \<and>
     dict_get (ra_reachingDefsMap (final_of hoisted initialized)) ''s3'' = Some rd \<and>
     ''s1'' \<in> set (prevSegments (rd_segment rd)) \<and>
     \<not> (\<exists>r. reaches (ra_reachingDefsMap (final_of hoisted initialized)) ''s1'' [] 0 r)"
proof -
  obtain rd1 rd2 rd3 where m: "ra_reachingDefsMap (final_of hoisted initialized) = [(''s1'', rd1), (''s2'', rd2), (''s3'', rd3)]"
    and prevs: "prevSegments (rd_segment rd1) = []" "prevSegments (rd_segment rd3) = [''s2'', ''s1'']"
    using hoisted_map by (auto simp: map_eq_Cons_conv)
  have "\<not> reaches (ra_reachingDefsMap (final_of hoisted initialized)) ''s1'' [] 0 r" for r
    by (auto simp: reaches_Nil m dict_get_def prevs)
  with m prevs reports_of_exit [OF sample_reports(3)] show ?thesis by (auto simp: dict_get_def)
qed

text \<open>On the function that exchanges values in a loop, the end of the program is never reached.\<close>

lemma swapping_cycle:
  "let m = ra_reachingDefsMap (final_of swapping uninitialized) in
   case loop_steps reaching_step 12 (rev (map (\<lambda>(k, rd). seg_id (rd_segment rd)) m), m) of
     None \<Rightarrow> False | Some c \<Rightarrow> loop_steps reaching_step (Suc 5) c = Some c"
  by code_simp

lemma swapping_hangs: "ra_program_exit (sample_env swapping uninitialized) (final_of swapping uninitialized) = None"
proof -
  let ?m = "ra_reachingDefsMap (final_of swapping uninitialized)"
  from swapping_cycle obtain c where
    "loop_steps reaching_step 12 (rev (map (\<lambda>(k, rd). seg_id (rd_segment rd)) ?m), ?m) = Some c"
    "loop_steps reaching_step (Suc 5) c = Some c" by (auto simp: Let_def split: option.splits)
  then have "reachingDefinitions ?m = None"
    unfolding reachingDefinitions_def by (rule worklist_loop_diverges)
  then show ?thesis by (simp add: ra_program_exit_def)
qed

end
