(* ===== verification/Complexity_Rules.thy ===== *)
theory Complexity_Rules
  imports Metrics Issues Ast_Helpers Dataflow
begin

text \<open>
  The rules on complexity: conditional operators of an expression
  (\<^verbatim>\<open>src/linting/eslint/rules/expression-complexity.ts\<close>) and the cyclomatic complexity of a function
  (\<^verbatim>\<open>cyclomatic-complexity.ts\<close>). The first one keeps a stack while ESLint walks the tree; it is shown to
  compute a definition by recursion on the tree. The second one visits the tree itself; it is compared
  with the metric of a whole file.
\<close>

section \<open>Walks\<close>

text \<open>
  ESLint enters a node, walks its children and leaves it. A rule with listeners for all nodes
  sees the events of such a walk; the tree of nodes ESLint walks is an input.
\<close>

datatype walk = Walk (walk_node: node) "walk list"

datatype walk_event = Enter node | Leave node

fun walk_events :: "walk \<Rightarrow> walk_event list" where
  "walk_events (Walk n cs) = Enter n # concat (map walk_events cs) @ [Leave n]"

fun walk_nodes :: "walk \<Rightarrow> node list" where
  "walk_nodes (Walk n cs) = n # concat (map walk_nodes cs)"

section \<open>Conditional operators of an expression\<close>

record expression_complexity =
  nestedLevel :: int
  operators :: "token option list"

definition new_ExpressionComplexity :: expression_complexity where
  "new_ExpressionComplexity = \<lparr>nestedLevel = 0, operators = []\<rparr>"

definition addOperator :: "token option \<Rightarrow> expression_complexity \<Rightarrow> expression_complexity" where
  "addOperator operator e = e\<lparr>operators := operators e @ [operator]\<rparr>"

definition incrementNestedExprLevel :: "expression_complexity \<Rightarrow> expression_complexity" where
  "incrementNestedExprLevel e = e\<lparr>nestedLevel := nestedLevel e + 1\<rparr>"

definition decrementNestedExprLevel :: "expression_complexity \<Rightarrow> expression_complexity" where
  "decrementNestedExprLevel e = e\<lparr>nestedLevel := nestedLevel e - 1\<rparr>"

definition isOnFirstExprLevel :: "expression_complexity \<Rightarrow> bool" where
  "isOnFirstExprLevel e \<longleftrightarrow> nestedLevel e = 0"

definition resetExpressionComplexityOperators :: "expression_complexity \<Rightarrow> expression_complexity" where
  "resetExpressionComplexityOperators e = e\<lparr>operators := []\<rparr>"

definition isScopeLike :: "node \<Rightarrow> bool" where
  "isScopeLike n \<longleftrightarrow>
     is_type n ''FunctionExpression'' \<or> is_type n ''FunctionDeclaration'' \<and> truthy (fld n ''generator'') \<or>
     is_type n ''ObjectExpression'' \<or> is_type n ''CallExpression'' \<or> is_type n ''JSXElement''"

definition isConditionalLike :: "node \<Rightarrow> bool" where
  "isConditionalLike n \<longleftrightarrow> is_type n ''ConditionalExpression'' \<or> is_type n ''LogicalExpression''"

type_synonym token_after = "node \<Rightarrow> (token \<Rightarrow> bool) \<Rightarrow> token option"

definition getOperatorToken :: "token_after \<Rightarrow> node \<Rightarrow> token option" where
  "getOperatorToken getTokenAfter n =
     (if is_type n ''ConditionalExpression''
      then getTokenAfter (fld n ''test'') (\<lambda>t. tok_type t = ''Punctuator'' \<and> tok_value t = ''?'')
      else getTokenAfter (fld n ''left'')
        (\<lambda>t. tok_type t = ''Punctuator'' \<and> JStr (tok_value t) = fld n ''operator''))"

datatype encoded_report = EncodedReport node string

text \<open>The locations of the operators; a token that was not found is \<^verbatim>\<open>null\<close>, and has none.\<close>

definition operator_locations :: "token option list \<Rightarrow> source_loc option list res" where
  "operator_locations ops =
     map_res (\<lambda>t. case t of None \<Rightarrow> Inl undefined_get | Some t \<Rightarrow> Inr (Some (tok_loc t))) ops"

definition too_many_operators :: "int \<Rightarrow> int \<Rightarrow> string" where
  "too_many_operators complexity maximum =
     ''Reduce the number of conditional operators ('' @ show_int complexity @
     '') used in the expression (maximum allowed '' @ show_int maximum @ '').''"

definition reportIssue :: "node \<Rightarrow> token option list \<Rightarrow> int \<Rightarrow> encoded_report res" where
  "reportIssue n ops maximum =
     (let complexity = int (length ops) in
      bind_res (operator_locations ops) (\<lambda>locs.
        bind_res (toEncodedMessage (too_many_operators complexity maximum) locs (Some (map (\<lambda>_. Some ''+1'') ops)) (Some (complexity - maximum)))
          (\<lambda>text. Inr (EncodedReport n text))))"

record expression_state =
  statementLevel :: "expression_complexity list"
  ec_reports :: "encoded_report list"

definition ec_create :: expression_state where
  "ec_create = \<lparr>statementLevel = [new_ExpressionComplexity], ec_reports = []\<rparr>"

definition ec_enter :: "token_after \<Rightarrow> node \<Rightarrow> expression_state \<Rightarrow> expression_state res" where
  "ec_enter getTokenAfter tree s =
     (if isConditionalLike tree then
        (case statementLevel s of
           [] \<Rightarrow> Inl undefined_get
         | expr # rest \<Rightarrow> Inr (s\<lparr>statementLevel :=
             addOperator (getOperatorToken getTokenAfter tree) (incrementNestedExprLevel expr) # rest\<rparr>))
      else if isScopeLike tree then Inr (s\<lparr>statementLevel := new_ExpressionComplexity # statementLevel s\<rparr>)
      else Inr s)"

definition ec_exit :: "int \<Rightarrow> node \<Rightarrow> expression_state \<Rightarrow> expression_state res" where
  "ec_exit maximum tree s =
     (if isConditionalLike tree then
        (case statementLevel s of
           [] \<Rightarrow> Inl undefined_get
         | expr # rest \<Rightarrow>
             let expr' = decrementNestedExprLevel expr in
             if isOnFirstExprLevel expr' then
               bind_res (if int (length (operators expr')) > maximum
                   then bind_res (reportIssue tree (operators expr') maximum) (\<lambda>r. Inr [r]) else Inr [])
                 (\<lambda>rs. Inr (s\<lparr>statementLevel := resetExpressionComplexityOperators expr' # rest,
                    ec_reports := ec_reports s @ rs\<rparr>))
             else Inr (s\<lparr>statementLevel := expr' # rest\<rparr>))
      else if isScopeLike tree then Inr (s\<lparr>statementLevel := tl (statementLevel s)\<rparr>)
      else Inr s)"

fun ec_listener :: "token_after \<Rightarrow> int \<Rightarrow> walk_event \<Rightarrow> expression_state \<Rightarrow> expression_state res" where
  "ec_listener getTokenAfter maximum (Enter n) s = ec_enter getTokenAfter n s"
| "ec_listener getTokenAfter maximum (Leave n) s = ec_exit maximum n s"

definition ec_run :: "token_after \<Rightarrow> int \<Rightarrow> walk \<Rightarrow> expression_state res" where
  "ec_run getTokenAfter maximum w = fold_res (ec_listener getTokenAfter maximum) (walk_events w) ec_create"

subsection \<open>The operators of an expression, by recursion on the tree\<close>

text \<open>
  The operators of a node are its own and those of its children, but not those inside a scope; an
  outermost conditional expression is reported when it has too many of them.
\<close>

fun own_operators :: "token_after \<Rightarrow> walk \<Rightarrow> token option list" where
  "own_operators ta (Walk n cs) =
     (if isConditionalLike n then getOperatorToken ta n # concat (map (own_operators ta) cs)
      else if isScopeLike n then [] else concat (map (own_operators ta) cs))"

fun too_complex :: "token_after \<Rightarrow> int \<Rightarrow> bool \<Rightarrow> walk \<Rightarrow> (node \<times> token option list) list" where
  "too_complex ta maximum inside (Walk n cs) =
     (if isConditionalLike n then
        concat (map (too_complex ta maximum True) cs) @
        (if \<not> inside \<and> int (length (own_operators ta (Walk n cs))) > maximum
         then [(n, own_operators ta (Walk n cs))] else [])
      else if isScopeLike n then concat (map (too_complex ta maximum False) cs)
      else concat (map (too_complex ta maximum inside) cs))"

definition found_operators :: "token_after \<Rightarrow> walk \<Rightarrow> bool" where
  "found_operators ta w \<longleftrightarrow> (\<forall>n \<in> set (walk_nodes w). isConditionalLike n \<longrightarrow> getOperatorToken ta n \<noteq> None)"

lemma found_operators_Walk:
  "found_operators ta (Walk n cs) \<longleftrightarrow>
     (isConditionalLike n \<longrightarrow> getOperatorToken ta n \<noteq> None) \<and> (\<forall>c \<in> set cs. found_operators ta c)"
  by (auto simp: found_operators_def)

lemma own_operators_found: "found_operators ta w \<Longrightarrow> None \<notin> set (own_operators ta w)"
  by (induction ta w rule: own_operators.induct) (auto simp: found_operators_Walk)

lemma conditional_not_scope: "isConditionalLike n \<Longrightarrow> \<not> isScopeLike n"
  by (auto simp: isConditionalLike_def isScopeLike_def is_type_def)

text \<open>What a walk does to the state: the operators of the innermost open expression, and reports.\<close>

definition gathered :: "token option list \<Rightarrow> expression_complexity \<Rightarrow> expression_complexity" where
  "gathered ops e = (if nestedLevel e > 0 then e\<lparr>operators := operators e @ ops\<rparr> else e)"

definition level_ok :: "expression_complexity \<Rightarrow> bool" where
  "level_ok e \<longleftrightarrow> 0 \<le> nestedLevel e \<and> (nestedLevel e = 0 \<longrightarrow> operators e = [])"

definition walked :: "token_after \<Rightarrow> int \<Rightarrow> walk_event list \<Rightarrow> (bool \<Rightarrow> (node \<times> token option list) list) \<Rightarrow>
    token option list \<Rightarrow> bool" where
  "walked ta maximum events found ops \<longleftrightarrow> (\<forall>s e rest. statementLevel s = e # rest \<longrightarrow> level_ok e \<longrightarrow>
     (\<exists>reps. map_res (\<lambda>(n, ops). reportIssue n ops maximum) (found (nestedLevel e > 0)) = Inr reps \<and>
        fold_res (ec_listener ta maximum) events s =
          Inr (s\<lparr>statementLevel := gathered ops e # rest, ec_reports := ec_reports s @ reps\<rparr>)))"

lemma walkedD:
  assumes "walked ta maximum events found ops" "statementLevel s = e # rest" "level_ok e" "nestedLevel e > 0 \<longleftrightarrow> b"
  shows "\<exists>reps. map_res (\<lambda>(n, ops). reportIssue n ops maximum) (found b) = Inr reps \<and>
    fold_res (ec_listener ta maximum) events s =
      Inr (s\<lparr>statementLevel := gathered ops e # rest, ec_reports := ec_reports s @ reps\<rparr>)"
  using assms unfolding walked_def by blast

lemma gathered_append: "gathered (a @ b) e = gathered b (gathered a e)"
  by (simp add: gathered_def)

lemma gathered_Nil: "gathered [] e = e"
  by (simp add: gathered_def)

lemma gathered_level [simp]: "nestedLevel (gathered ops e) = nestedLevel e"
  by (simp add: gathered_def)

lemma level_ok_gathered: "level_ok e \<Longrightarrow> level_ok (gathered ops e)"
  by (simp add: level_ok_def gathered_def)

lemma walked_Nil: "walked ta maximum [] (\<lambda>_. []) []"
  by (simp add: walked_def gathered_Nil)

lemma walked_append:
  assumes "walked ta maximum es1 f1 ops1" "walked ta maximum es2 f2 ops2"
  shows "walked ta maximum (es1 @ es2) (\<lambda>b. f1 b @ f2 b) (ops1 @ ops2)"
  unfolding walked_def
proof (intro allI impI)
  fix s :: expression_state and e :: expression_complexity and rest
  assume s: "statementLevel s = e # rest" "level_ok e"
  from assms(1) s obtain r1 where r1: "map_res (\<lambda>(n, ops). reportIssue n ops maximum) (f1 (nestedLevel e > 0)) = Inr r1"
    "fold_res (ec_listener ta maximum) es1 s = Inr (s\<lparr>statementLevel := gathered ops1 e # rest, ec_reports := ec_reports s @ r1\<rparr>)"
    unfolding walked_def by blast
  let ?s = "s\<lparr>statementLevel := gathered ops1 e # rest, ec_reports := ec_reports s @ r1\<rparr>"
  from walkedD [OF assms(2), of ?s "gathered ops1 e" rest] level_ok_gathered [OF s(2), of ops1] obtain r2 where
    r2: "map_res (\<lambda>(n, ops). reportIssue n ops maximum) (f2 (nestedLevel e > 0)) = Inr r2"
    "fold_res (ec_listener ta maximum) es2 ?s =
       Inr (?s\<lparr>statementLevel := gathered ops2 (gathered ops1 e) # rest, ec_reports := ec_reports ?s @ r2\<rparr>)"
    by auto
  from r1 r2 show "\<exists>reps. map_res (\<lambda>(n, ops). reportIssue n ops maximum) (f1 (nestedLevel e > 0) @ f2 (nestedLevel e > 0)) = Inr reps \<and>
      fold_res (ec_listener ta maximum) (es1 @ es2) s =
        Inr (s\<lparr>statementLevel := gathered (ops1 @ ops2) e # rest, ec_reports := ec_reports s @ reps\<rparr>)"
    by (simp add: fold_res_append map_res_append gathered_append)
qed

lemma walked_concat:
  "(\<And>c. c \<in> set cs \<Longrightarrow> walked ta maximum (walk_events c) (\<lambda>b. too_complex ta maximum b c) (own_operators ta c)) \<Longrightarrow>
     walked ta maximum (concat (map walk_events cs)) (\<lambda>b. concat (map (too_complex ta maximum b) cs))
       (concat (map (own_operators ta) cs))"
  by (induction cs) (simp_all add: walked_Nil walked_append)

lemma map_res_found:
  assumes "None \<notin> set ops"
  shows "\<exists>text. reportIssue n ops maximum = Inr (EncodedReport n text)"
proof -
  have "operator_locations ops = Inr (map (\<lambda>t. Some (tok_loc (the t))) ops)"
    using assms unfolding operator_locations_def map_res_Inr_iff
    by (auto simp: list.rel_map intro!: list.rel_refl_strong split: option.split) (metis not_None_eq)
  moreover have "\<exists>text. toEncodedMessage m (map (\<lambda>t. Some (tok_loc (the t))) ops) ms c = Inr text" for m ms c
  proof -
    have "\<exists>ys. map_res (\<lambda>(holder, i). toSecondaryLocation holder (nth_message ms i)) xs = Inr ys"
      if "\<forall>x \<in> set xs. fst x \<noteq> None" for xs
      using that by (induction xs) (auto simp: toSecondaryLocation_def)
    moreover have "\<forall>x \<in> set (zip (map (\<lambda>t. Some (tok_loc (the t))) ops) ks). fst x \<noteq> None" for ks :: "nat list"
      by (auto simp: in_set_zip)
    ultimately show ?thesis unfolding toEncodedMessage_def by (metis (no_types, lifting) bind_res_Inr)
  qed
  ultimately show ?thesis by (simp add: reportIssue_def Let_def) (metis bind_res_Inr)
qed

lemma walked_conditional:
  assumes inner: "walked ta maximum events f ops" and n: "isConditionalLike n"
    and found: "None \<notin> set (getOperatorToken ta n # ops)"
  shows "walked ta maximum (Enter n # events @ [Leave n])
    (\<lambda>b. f True @ (if \<not> b \<and> int (length (getOperatorToken ta n # ops)) > maximum then [(n, getOperatorToken ta n # ops)] else []))
    (getOperatorToken ta n # ops)"
  unfolding walked_def
proof (intro allI impI)
  fix s :: expression_state and e :: expression_complexity and rest
  assume s: "statementLevel s = e # rest" "level_ok e"
  let ?op = "getOperatorToken ta n"
  let ?e = "addOperator ?op (incrementNestedExprLevel e)"
  let ?s = "s\<lparr>statementLevel := ?e # rest\<rparr>"
  have level: "nestedLevel ?e = nestedLevel e + 1" "operators ?e = operators e @ [?op]"
    by (simp_all add: addOperator_def incrementNestedExprLevel_def)
  have enter: "ec_listener ta maximum (Enter n) s = Inr ?s" using n s by (simp add: ec_enter_def)
  have "level_ok ?e" "nestedLevel ?e > 0" using s(2) level by (auto simp: level_ok_def)
  with walkedD [OF inner, of ?s ?e rest True] obtain r where r: "map_res (\<lambda>(n, ops). reportIssue n ops maximum) (f True) = Inr r"
    "fold_res (ec_listener ta maximum) events ?s =
       Inr (?s\<lparr>statementLevel := gathered ops ?e # rest, ec_reports := ec_reports ?s @ r\<rparr>)"
    by auto
  obtain enc where enc: "reportIssue n (?op # ops) maximum = Inr (EncodedReport n enc)"
    using map_res_found [OF found] by blast
  let ?reps = "if nestedLevel e = 0 \<and> int (length (?op # ops)) > maximum then [EncodedReport n enc] else []"
  have inside: "gathered ops ?e = ?e\<lparr>operators := operators e @ ?op # ops\<rparr>"
    using \<open>nestedLevel ?e > 0\<close> level by (simp add: gathered_def)
  have leave: "ec_listener ta maximum (Leave n) (?s\<lparr>statementLevel := gathered ops ?e # rest, ec_reports := ec_reports s @ r\<rparr>) =
      Inr (s\<lparr>statementLevel := gathered (?op # ops) e # rest, ec_reports := ec_reports s @ r @ ?reps\<rparr>)"
    using n s(2) enc level
    by (auto simp: ec_exit_def inside Let_def decrementNestedExprLevel_def isOnFirstExprLevel_def gathered_def
        resetExpressionComplexityOperators_def level_ok_def addOperator_def incrementNestedExprLevel_def)
  have "map_res (\<lambda>(n, ops). reportIssue n ops maximum)
      (f True @ (if \<not> nestedLevel e > 0 \<and> int (length (?op # ops)) > maximum then [(n, ?op # ops)] else [])) = Inr (r @ ?reps)"
    using r(1) enc s(2) by (auto simp: map_res_append level_ok_def)
  moreover have "fold_res (ec_listener ta maximum) (Enter n # events @ [Leave n]) s =
      Inr (s\<lparr>statementLevel := gathered (?op # ops) e # rest, ec_reports := ec_reports s @ r @ ?reps\<rparr>)"
    using enter r(2) leave by (simp add: fold_res_append)
  ultimately show "\<exists>reps. map_res (\<lambda>(n, ops). reportIssue n ops maximum)
      (f True @ (if \<not> nestedLevel e > 0 \<and> int (length (?op # ops)) > maximum then [(n, ?op # ops)] else [])) = Inr reps \<and>
      fold_res (ec_listener ta maximum) (Enter n # events @ [Leave n]) s =
        Inr (s\<lparr>statementLevel := gathered (?op # ops) e # rest, ec_reports := ec_reports s @ reps\<rparr>)"
    by blast
qed

lemma walked_scope:
  assumes inner: "walked ta maximum events f ops" and n: "\<not> isConditionalLike n" "isScopeLike n"
  shows "walked ta maximum (Enter n # events @ [Leave n]) (\<lambda>b. f False) []"
  unfolding walked_def
proof (intro allI impI)
  fix s :: expression_state and e :: expression_complexity and rest
  assume s: "statementLevel s = e # rest" "level_ok e"
  let ?s = "s\<lparr>statementLevel := new_ExpressionComplexity # e # rest\<rparr>"
  have "level_ok new_ExpressionComplexity" "\<not> nestedLevel new_ExpressionComplexity > 0"
    by (simp_all add: level_ok_def new_ExpressionComplexity_def)
  with walkedD [OF inner, of ?s new_ExpressionComplexity "e # rest" False] obtain r where
    r: "map_res (\<lambda>(n, ops). reportIssue n ops maximum) (f False) = Inr r"
    "fold_res (ec_listener ta maximum) events ?s =
       Inr (?s\<lparr>statementLevel := gathered ops new_ExpressionComplexity # e # rest, ec_reports := ec_reports ?s @ r\<rparr>)"
    by auto
  then show "\<exists>reps. map_res (\<lambda>(n, ops). reportIssue n ops maximum) (f False) = Inr reps \<and>
      fold_res (ec_listener ta maximum) (Enter n # events @ [Leave n]) s =
        Inr (s\<lparr>statementLevel := gathered [] e # rest, ec_reports := ec_reports s @ reps\<rparr>)"
    using n s by (simp add: fold_res_append ec_enter_def ec_exit_def gathered_Nil)
qed

lemma walked_other:
  assumes inner: "walked ta maximum events f ops" and n: "\<not> isConditionalLike n" "\<not> isScopeLike n"
  shows "walked ta maximum (Enter n # events @ [Leave n]) f ops"
  unfolding walked_def
proof (intro allI impI)
  fix s :: expression_state and e :: expression_complexity and rest
  assume "statementLevel s = e # rest" "level_ok e"
  with inner obtain r where "map_res (\<lambda>(n, ops). reportIssue n ops maximum) (f (nestedLevel e > 0)) = Inr r"
    "fold_res (ec_listener ta maximum) events s =
       Inr (s\<lparr>statementLevel := gathered ops e # rest, ec_reports := ec_reports s @ r\<rparr>)"
    unfolding walked_def by blast
  with n show "\<exists>reps. map_res (\<lambda>(n, ops). reportIssue n ops maximum) (f (nestedLevel e > 0)) = Inr reps \<and>
      fold_res (ec_listener ta maximum) (Enter n # events @ [Leave n]) s =
        Inr (s\<lparr>statementLevel := gathered ops e # rest, ec_reports := ec_reports s @ reps\<rparr>)"
    by (simp add: fold_res_append ec_enter_def ec_exit_def)
qed

lemma walked_walk:
  "found_operators ta w \<Longrightarrow>
     walked ta maximum (walk_events w) (\<lambda>b. too_complex ta maximum b w) (own_operators ta w)"
proof (induction w)
  case (Walk n cs)
  then have children: "walked ta maximum (concat (map walk_events cs))
      (\<lambda>b. concat (map (too_complex ta maximum b) cs)) (concat (map (own_operators ta) cs))"
    by (intro walked_concat) (auto simp: found_operators_Walk)
  show ?case
  proof (cases "isConditionalLike n")
    case True
    have "None \<notin> set (getOperatorToken ta n # concat (map (own_operators ta) cs))"
      using own_operators_found [OF Walk.prems] True by simp
    from walked_conditional [OF children True this] True show ?thesis by (simp cong: if_cong)
  next
    case cond: False
    show ?thesis
    proof (cases "isScopeLike n")
      case True
      from walked_scope [OF children cond True] cond True show ?thesis by simp
    next
      case False
      from walked_other [OF children cond False] cond False show ?thesis by simp
    qed
  qed
qed

text \<open>
  C4: the rule on conditional operators, whose listeners keep a stack of counters, reports on every
  tree exactly the conditional expressions that are outermost in their scope and have too many
  operators outside of inner scopes, in the order in which they are left, and leaves its stack
  as it was.
\<close>

theorem expression_complexity_correct:
  assumes "found_operators ta w"
  shows "\<exists>reps. map_res (\<lambda>(n, ops). reportIssue n ops maximum) (too_complex ta maximum False w) = Inr reps \<and>
    ec_run ta maximum w = Inr (ec_create\<lparr>ec_reports := reps\<rparr>)"
proof -
  have create: "statementLevel ec_create = new_ExpressionComplexity # []" "level_ok new_ExpressionComplexity"
    "ec_reports ec_create = []" "nestedLevel new_ExpressionComplexity = 0"
    by (simp_all add: ec_create_def level_ok_def new_ExpressionComplexity_def)
  from walked_walk [OF assms, of maximum, unfolded walked_def, rule_format, OF create(1,2)] obtain reps where
    reps: "map_res (\<lambda>(n, ops). reportIssue n ops maximum) (too_complex ta maximum False w) = Inr reps"
    "ec_run ta maximum w = Inr (ec_create\<lparr>statementLevel := gathered (own_operators ta w) new_ExpressionComplexity # [],
       ec_reports := reps\<rparr>)"
    by (auto simp: ec_run_def create)
  moreover have "gathered ops new_ExpressionComplexity = new_ExpressionComplexity" for ops
    by (simp add: gathered_def create)
  ultimately show ?thesis by (simp add: ec_create_def)
qed

text \<open>\<^verbatim>\<open>a && f(b || c || d)\<close> with at most one operator: only the argument is too complex.\<close>

definition logical_walk :: "nat \<Rightarrow> string \<Rightarrow> walk \<Rightarrow> walk \<Rightarrow> walk" where
  "logical_walk i op l r = Walk (JObj i None None [(''type'', JStr ''LogicalExpression''), (''operator'', JStr op),
     (''left'', walk_node l), (''right'', walk_node r)]) [l, r]"

definition name_walk :: "nat \<Rightarrow> walk" where
  "name_walk i = Walk (JObj i None None [(''type'', JStr ''Identifier'')]) []"

definition example_walk :: walk where
  "example_walk = logical_walk 10 ''&&'' (name_walk 0)
     (Walk (JObj 11 None None [(''type'', JStr ''CallExpression'')])
        [name_walk 1, logical_walk 13 ''||'' (logical_walk 12 ''||'' (name_walk 2) (name_walk 3)) (name_walk 4)])"

definition example_token_after :: token_after where
  "example_token_after n f = List.find f (map (\<lambda>v. \<lparr>tok_id = 0, tok_type = ''Punctuator'', tok_value = v, tok_range = (0, 2),
     tok_loc = \<lparr>loc_start = \<lparr>pos_line = 1, pos_column = 0\<rparr>, loc_end = \<lparr>pos_line = 1, pos_column = 2\<rparr>\<rparr>\<rparr>) [''&&'', ''||''])"

lemma example_walk_found: "found_operators example_token_after example_walk"
  by (simp add: found_operators_def example_walk_def logical_walk_def name_walk_def getOperatorToken_def
      example_token_after_def isConditionalLike_def is_type_def)

theorem expression_complexity_correct_witness:
  "\<exists>reps. map_res (\<lambda>(n, ops). reportIssue n ops 1) (too_complex example_token_after 1 False example_walk) = Inr reps \<and>
     ec_run example_token_after 1 example_walk = Inr (ec_create\<lparr>ec_reports := reps\<rparr>) \<and>
     map (node_id \<circ> fst) (too_complex example_token_after 1 False example_walk) = [Some 13]"
proof -
  have "map (node_id \<circ> fst) (too_complex example_token_after 1 False example_walk) = [Some 13]" by code_simp
  moreover obtain reps where
    "map_res (\<lambda>(n, ops). reportIssue n ops 1) (too_complex example_token_after 1 False example_walk) = Inr reps"
    "ec_run example_token_after 1 example_walk = Inr (ec_create\<lparr>ec_reports := reps\<rparr>)"
    using expression_complexity_correct [OF example_walk_found, of 1] by (elim exE conjE)
  ultimately show ?thesis by (intro exI [of _ reps] conjI)
qed

section \<open>Cyclomatic complexity of functions\<close>

text \<open>
  ESLint's queries on tokens, and the location of the main token of a function, which
  \<^verbatim>\<open>eslint-plugin-sonarjs\<close> computes.
\<close>

record cyclomatic_context =
  cy_visitorKeys :: visitor_keys
  cy_getFirstToken :: "node \<Rightarrow> token option"
  cy_getFirstTokenBetween :: "node \<Rightarrow> node \<Rightarrow> (token \<Rightarrow> bool) \<Rightarrow> token option"
  cy_getTokenAfter :: token_after
  cy_getMainFunctionTokenLocation :: "node \<Rightarrow> node option \<Rightarrow> source_loc"

definition branch_token :: "cyclomatic_context \<Rightarrow> node \<Rightarrow> token option" where
  "branch_token ctx n =
     (if is_type n ''ConditionalExpression''
      then cy_getFirstTokenBetween ctx (fld n ''test'') (fld n ''consequent'') (\<lambda>t. tok_value t = ''?'')
      else if is_type n ''SwitchCase'' \<and> \<not> truthy (fld n ''test'') then None
      else if type_in n [''SwitchCase'', ''IfStatement'', ''ForStatement'', ''ForInStatement'', ''ForOfStatement'',
          ''WhileStatement'', ''DoWhileStatement'']
      then cy_getFirstToken ctx n
      else if is_type n ''LogicalExpression''
      then cy_getTokenAfter ctx (fld n ''left'') (\<lambda>t. tok_value t \<in> {''||'', ''&&''} \<and> tok_type t = ''Punctuator'')
      else None)"

definition complexity_token :: "cyclomatic_context \<Rightarrow> node option \<Rightarrow> node \<Rightarrow> source_loc option" where
  "complexity_token ctx parent n =
     (if isFunctionNode n then Some (cy_getMainFunctionTokenLocation ctx n parent)
      else map_option tok_loc (branch_token ctx n))"

function visitNode :: "cyclomatic_context \<Rightarrow> node \<Rightarrow> node option \<Rightarrow> node \<Rightarrow> source_loc list" where
  "visitNode ctx func parent n =
     (if isFunctionNode n \<and> \<not> strict_eq n func then []
      else (case complexity_token ctx parent n of None \<Rightarrow> [] | Some loc \<Rightarrow> [loc]) @
        concat (map (visitNode ctx func parent) (childrenOf n (cy_visitorKeys ctx))))"
  by pat_completeness auto
termination
  by (relation "measure (\<lambda>(ctx, func, parent, n). size n)") (auto dest: childrenOf_less)

declare visitNode.simps [simp del]

definition function_complexity :: "cyclomatic_context \<Rightarrow> node \<Rightarrow> node option \<Rightarrow> source_loc list" where
  "function_complexity ctx n parent = visitNode ctx n parent n"

definition plus_one :: "source_loc \<Rightarrow> json" where
  "plus_one loc = JsonObject
     [(''line'', JsonNumber (pos_line (loc_start loc))), (''column'', JsonNumber (pos_column (loc_start loc))),
      (''endLine'', JsonNumber (pos_line (loc_end loc))), (''endColumn'', JsonNumber (pos_column (loc_end loc))),
      (''message'', JsonString ''+1'')]"

definition cy_toEncodedMessage :: "int \<Rightarrow> int \<Rightarrow> source_loc list \<Rightarrow> string" where
  "cy_toEncodedMessage complexity threshold tokens =
     stringify (JsonObject
       [(''message'', JsonString (''Function has a complexity of '' @ show_int complexity @
           '' which is greater than '' @ show_int threshold @ '' authorized.'')),
        (''cost'', JsonNumber (complexity - threshold)),
        (''secondaryLocations'', JsonArray (map plus_one tokens))])"

datatype cyclomatic_report = CyclomaticReport string source_loc

definition raiseOnUnauthorizedComplexity ::
  "cyclomatic_context \<Rightarrow> int \<Rightarrow> node \<Rightarrow> node option \<Rightarrow> cyclomatic_report list" where
  "raiseOnUnauthorizedComplexity ctx threshold n parent =
     (let tokens = function_complexity ctx n parent; complexity = int (length tokens) in
      if complexity > threshold
      then [CyclomaticReport (cy_toEncodedMessage complexity threshold tokens)
              (cy_getMainFunctionTokenLocation ctx n parent)]
      else [])"

record cyclomatic_state =
  functionsWithParent :: "(nat option \<times> node \<times> node option) list"
  functionsDefiningModule :: "node list"
  functionsImmediatelyInvoked :: "node list"
  cy_reports :: "cyclomatic_report list"

datatype cyclomatic_event =
    CyProgram
  | CyFunction node "node option"
  | CyDefine node
  | CyInvoke node
  | CyProgramExit

fun cy_listener ::
  "cyclomatic_context \<Rightarrow> int \<Rightarrow> cyclomatic_event \<Rightarrow> cyclomatic_state \<Rightarrow> cyclomatic_state" where
  "cy_listener ctx threshold CyProgram s =
     s\<lparr>functionsWithParent := [], functionsDefiningModule := [], functionsImmediatelyInvoked := []\<rparr>"
| "cy_listener ctx threshold (CyFunction n parent) s =
     s\<lparr>functionsWithParent := dict_set (node_id n) (n, parent) (functionsWithParent s)\<rparr>"
| "cy_listener ctx threshold (CyDefine n) s = s\<lparr>functionsDefiningModule := functionsDefiningModule s @ [n]\<rparr>"
| "cy_listener ctx threshold (CyInvoke n) s =
     s\<lparr>functionsImmediatelyInvoked := functionsImmediatelyInvoked s @ [fld n ''callee'']\<rparr>"
| "cy_listener ctx threshold CyProgramExit s =
     s\<lparr>cy_reports := cy_reports s @ concat (map (\<lambda>(i, func, parent).
        if \<not> list_ex (strict_eq func) (functionsDefiningModule s) \<and> \<not> list_ex (strict_eq func) (functionsImmediatelyInvoked s)
        then raiseOnUnauthorizedComplexity ctx threshold func parent else []) (functionsWithParent s))\<rparr>"

definition cy_run :: "cyclomatic_context \<Rightarrow> int \<Rightarrow> cyclomatic_event list \<Rightarrow> cyclomatic_state" where
  "cy_run ctx threshold events = fold (cy_listener ctx threshold) events
     \<lparr>functionsWithParent = [], functionsDefiningModule = [], functionsImmediatelyInvoked = [], cy_reports = []\<rparr>"

subsection \<open>Functions share the nodes of a file\<close>

text \<open>
  The nodes that count for a function: itself and everything below it that is not in another function;
  and likewise the nodes outside of all functions.
\<close>

function outside_functions :: "visitor_keys \<Rightarrow> node \<Rightarrow> node list" where
  "outside_functions keys n =
     (if isFunctionNode n then [] else n # concat (map (outside_functions keys) (childrenOf n keys)))"
  by pat_completeness auto
termination
  by (relation "measure (\<lambda>(keys, n). size n)") (auto dest: childrenOf_less)

declare outside_functions.simps [simp del]

definition own_nodes :: "visitor_keys \<Rightarrow> node \<Rightarrow> node list" where
  "own_nodes keys f = f # concat (map (outside_functions keys) (childrenOf f keys))"

lemma outside_subset: "set (outside_functions keys n) \<subseteq> set (preorder keys n)"
proof (induction keys n rule: outside_functions.induct)
  case (1 keys n)
  then show ?case by (subst outside_functions.simps, subst preorder.simps) auto
qed

text \<open>Every node of a tree belongs to exactly one function, or to none.\<close>

lemma mset_concat_map: "mset (concat (map f xs)) = (\<Sum>x \<leftarrow> xs. mset (f x))"
  by (induction xs) simp_all

lemma sum_list_concat_map: "(\<Sum>y \<leftarrow> concat (map f xs). g y) = (\<Sum>x \<leftarrow> xs. \<Sum>y \<leftarrow> f x. (g y :: 'a multiset))"
  by (induction xs) simp_all

lemma preorder_partition:
  "mset (preorder keys n) =
     mset (outside_functions keys n) + (\<Sum>f \<leftarrow> filter isFunctionNode (preorder keys n). mset (own_nodes keys f))"
proof (induction keys n rule: preorder.induct)
  case (1 keys n)
  let ?cs = "childrenOf n keys"
  let ?own = "\<lambda>c. \<Sum>f \<leftarrow> filter isFunctionNode (preorder keys c). mset (own_nodes keys f)"
  have IH: "(\<Sum>c \<leftarrow> ?cs. mset (preorder keys c)) = (\<Sum>c \<leftarrow> ?cs. mset (outside_functions keys c)) + (\<Sum>c \<leftarrow> ?cs. ?own c)"
    using 1 by (simp add: sum_list_addf [symmetric] cong: map_cong)
  have fs: "(\<Sum>f \<leftarrow> filter isFunctionNode (concat (map (preorder keys) ?cs)). mset (own_nodes keys f)) = (\<Sum>c \<leftarrow> ?cs. ?own c)"
    by (simp add: filter_concat sum_list_concat_map comp_def)
  have pre: "preorder keys n = n # concat (map (preorder keys) ?cs)" by (rule preorder.simps)
  have out: "outside_functions keys n = (if isFunctionNode n then [] else n # concat (map (outside_functions keys) ?cs))"
    by (rule outside_functions.simps)
  show ?case
    unfolding pre out using IH fs by (simp add: own_nodes_def mset_concat_map)
qed

lemma preorder_split:
  "f \<in> set (preorder keys n) \<Longrightarrow> \<exists>us vs. preorder keys n = us @ preorder keys f @ vs"
proof (induction keys n rule: preorder.induct)
  case (1 keys n)
  have pre: "preorder keys n = n # concat (map (preorder keys) (childrenOf n keys))" by (rule preorder.simps)
  show ?case
  proof (cases "f = n")
    case True
    then have "preorder keys n = [] @ preorder keys f @ []" by simp
    then show ?thesis by blast
  next
    case False
    with 1 pre obtain c where c: "c \<in> set (childrenOf n keys)" "f \<in> set (preorder keys c)" by auto
    with 1 obtain us vs where "preorder keys c = us @ preorder keys f @ vs" by blast
    moreover from c(1) obtain as bs where "childrenOf n keys = as @ c # bs" by (auto simp: in_set_conv_decomp)
    ultimately have "preorder keys n = (n # concat (map (preorder keys) as) @ us) @ preorder keys f @
        (vs @ concat (map (preorder keys) bs))"
      unfolding pre by simp
    then show ?thesis by blast
  qed
qed

definition distinct_functions :: "visitor_keys \<Rightarrow> node \<Rightarrow> bool" where
  "distinct_functions keys n \<longleftrightarrow> distinct (map node_id (filter isFunctionNode (preorder keys n)))"

lemma function_other:
  assumes "isFunctionNode g" "node_id g \<noteq> node_id f"
  shows "\<not> strict_eq g f"
  using assms by (cases g; cases f) (auto simp: isFunctionNode_def type_in_iff is_type_def)

lemma nested_functions_differ:
  assumes "distinct_functions keys n" "f \<in> set (preorder keys n)" "isFunctionNode f"
    and "c \<in> set (childrenOf f keys)" "g \<in> set (preorder keys c)" "isFunctionNode g"
  shows "\<not> strict_eq g f"
proof -
  from preorder_split [OF assms(2)] obtain us vs where "preorder keys n = us @ preorder keys f @ vs" by blast
  with assms(1) have "distinct (map node_id (filter isFunctionNode (preorder keys f)))"
    by (auto simp: distinct_functions_def)
  moreover have "preorder keys f = f # concat (map (preorder keys) (childrenOf f keys))" by (rule preorder.simps)
  ultimately have "node_id f \<notin> node_id ` set (filter isFunctionNode (concat (map (preorder keys) (childrenOf f keys))))"
    using assms(3) by simp
  moreover have "g \<in> set (filter isFunctionNode (concat (map (preorder keys) (childrenOf f keys))))"
    using assms(4-6) by auto
  ultimately have "node_id g \<noteq> node_id f" by (metis imageI)
  with assms(6) show ?thesis by (rule function_other)
qed

lemma visitNode_outside:
  assumes "\<forall>g \<in> set (preorder (cy_visitorKeys ctx) n). isFunctionNode g \<longrightarrow> \<not> strict_eq g f"
  shows "visitNode ctx f parent n =
    List.map_filter (\<lambda>m. map_option tok_loc (branch_token ctx m)) (outside_functions (cy_visitorKeys ctx) n)"
  using assms
proof (induction "cy_visitorKeys ctx" n rule: outside_functions.induct)
  case (1 n)
  let ?keys = "cy_visitorKeys ctx"
  let ?h = "\<lambda>m. map_option tok_loc (branch_token ctx m)"
  have pre: "preorder ?keys n = n # concat (map (preorder ?keys) (childrenOf n ?keys))" by (rule preorder.simps)
  show ?case
  proof (cases "isFunctionNode n")
    case True
    with 1(2) pre have "\<not> strict_eq n f" by simp
    with True show ?thesis
      by (subst visitNode.simps, subst outside_functions.simps) (simp add: List.map_filter_simps)
  next
    case False
    have "visitNode ctx f parent c = List.map_filter ?h (outside_functions ?keys c)"
      if "c \<in> set (childrenOf n ?keys)" for c
      using 1(1) [OF False that] 1(2) pre that by auto
    then have "concat (map (visitNode ctx f parent) (childrenOf n ?keys)) =
        List.map_filter ?h (concat (map (outside_functions ?keys) (childrenOf n ?keys)))"
      by (simp add: List.map_filter_def filter_concat map_concat comp_def cong: map_cong)
    with False show ?thesis
      by (subst visitNode.simps, subst outside_functions.simps)
        (simp add: List.map_filter_simps complexity_token_def split: option.split)
  qed
qed

lemma length_map_filter: "length (List.map_filter h xs) = length (filter (\<lambda>x. h x \<noteq> None) xs)"
  by (simp add: List.map_filter_def comp_def)

lemma outside_not_function: "m \<in> set (outside_functions keys n) \<Longrightarrow> \<not> isFunctionNode m"
proof (induction keys n rule: outside_functions.induct)
  case (1 keys n)
  have "outside_functions keys n = (if isFunctionNode n then [] else n # concat (map (outside_functions keys) (childrenOf n keys)))"
    by (rule outside_functions.simps)
  with 1 show ?case by (auto split: if_splits)
qed

text \<open>A node that counts for the metric of the file, but has no token for the rule.\<close>

definition uncounted :: "cyclomatic_context \<Rightarrow> node \<Rightarrow> bool" where
  "uncounted ctx n \<longleftrightarrow> type_in n COMPLEXITY_NODES \<and> \<not> isFunctionNode n \<and> branch_token ctx n = None"

lemmas complexity_types = COMPLEXITY_NODES_def CONDITIONAL_NODES_def FUNCTION_NODES_def LOOP_NODES_def

lemma branch_token_type: "branch_token ctx n \<noteq> None \<Longrightarrow> type_in n COMPLEXITY_NODES"
  by (auto simp: branch_token_def complexity_types type_in_iff split: if_splits)

lemma function_type: "isFunctionNode n \<Longrightarrow> type_in n COMPLEXITY_NODES"
  by (auto simp: isFunctionNode_def FUNCTION_NODE_TYPES_def complexity_types type_in_iff)

lemma count_outside:
  assumes "\<forall>m \<in> set ms. \<not> isFunctionNode m"
  shows "length (filter (\<lambda>m. branch_token ctx m \<noteq> None) ms) + length (filter (uncounted ctx) ms) =
    length (filter (\<lambda>m. type_in m COMPLEXITY_NODES) ms)"
  using assms branch_token_type by (induction ms) (auto simp: uncounted_def)

lemma function_complexity_count:
  assumes "distinct_functions (cy_visitorKeys ctx) n" "f \<in> set (preorder (cy_visitorKeys ctx) n)" "isFunctionNode f"
  shows "length (function_complexity ctx f parent) + length (filter (uncounted ctx) (own_nodes (cy_visitorKeys ctx) f)) =
    length (filter (\<lambda>m. type_in m COMPLEXITY_NODES) (own_nodes (cy_visitorKeys ctx) f))"
proof -
  let ?keys = "cy_visitorKeys ctx"
  let ?rest = "concat (map (outside_functions ?keys) (childrenOf f ?keys))"
  let ?h = "\<lambda>m. map_option tok_loc (branch_token ctx m)"
  from assms(3) obtain i r l fs where "f = JObj i r l fs" by (cases f) (auto simp: isFunctionNode_def type_in_iff is_type_def)
  then have self: "strict_eq f f" by simp
  have "visitNode ctx f parent c = List.map_filter ?h (outside_functions ?keys c)" if "c \<in> set (childrenOf f ?keys)" for c
    using nested_functions_differ [OF assms that] by (intro visitNode_outside) blast
  then have "concat (map (visitNode ctx f parent) (childrenOf f ?keys)) = List.map_filter ?h ?rest"
    by (simp add: List.map_filter_def filter_concat map_concat comp_def cong: map_cong)
  then have "length (function_complexity ctx f parent) = Suc (length (filter (\<lambda>m. branch_token ctx m \<noteq> None) ?rest))"
    unfolding function_complexity_def using self assms(3)
    by (subst visitNode.simps) (simp add: complexity_token_def length_map_filter)
  moreover have "\<forall>m \<in> set ?rest. \<not> isFunctionNode m" by (auto dest: outside_not_function)
  from count_outside [OF this, of ctx] have "length (filter (\<lambda>m. branch_token ctx m \<noteq> None) ?rest) +
      length (filter (uncounted ctx) ?rest) = length (filter (\<lambda>m. type_in m COMPLEXITY_NODES) ?rest)" .
  moreover have "\<not> uncounted ctx f" "type_in f COMPLEXITY_NODES"
    using assms(3) function_type by (auto simp: uncounted_def)
  ultimately show ?thesis by (simp add: own_nodes_def)
qed

lemma length_filter_mset: "length (filter P xs) = size (filter_mset P (mset xs))"
  by (metis mset_filter size_mset)

lemma size_filter_sum:
  "size (filter_mset P (\<Sum>f \<leftarrow> fs. mset (g f))) = (\<Sum>f \<leftarrow> fs. length (filter P (g f)))"
  by (induction fs) (simp_all add: length_filter_mset)

text \<open>
  C26: the cyclomatic complexity of a file, a metric, is the number of branching nodes outside
  of all functions, plus for each function the complexity the rule computes for it and the
  number of its branching nodes for which the rule finds no token: no branch is counted for two
  functions, and none is lost.
\<close>

theorem file_complexity_is_sum:
  assumes "cy_visitorKeys ctx = sc_visitorKeys sc" and "distinct_functions (sc_visitorKeys sc) (sc_ast sc)"
  shows "computeCyclomaticComplexity sc =
    length (filter (\<lambda>n. type_in n COMPLEXITY_NODES) (outside_functions (sc_visitorKeys sc) (sc_ast sc))) +
    (\<Sum>f \<leftarrow> filter isFunctionNode (all_nodes sc).
       length (function_complexity ctx f (parent f)) + length (filter (uncounted ctx) (own_nodes (sc_visitorKeys sc) f)))"
proof -
  let ?keys = "sc_visitorKeys sc" and ?C = "\<lambda>n. type_in n COMPLEXITY_NODES"
  let ?fs = "filter isFunctionNode (preorder ?keys (sc_ast sc))"
  have "computeCyclomaticComplexity sc = size (filter_mset ?C (mset (preorder ?keys (sc_ast sc))))"
    by (simp add: complexity_length all_nodes_def length_filter_mset)
  also have "\<dots> = length (filter ?C (outside_functions ?keys (sc_ast sc))) + (\<Sum>f \<leftarrow> ?fs. length (filter ?C (own_nodes ?keys f)))"
    by (subst preorder_partition) (simp add: size_filter_sum length_filter_mset)
  also have "(\<Sum>f \<leftarrow> ?fs. length (filter ?C (own_nodes ?keys f))) =
      (\<Sum>f \<leftarrow> ?fs. length (function_complexity ctx f (parent f)) + length (filter (uncounted ctx) (own_nodes ?keys f)))"
    using function_complexity_count [of ctx "sc_ast sc"] assms
    by (intro arg_cong [where f = sum_list] map_cong) auto
  finally show ?thesis by (simp add: all_nodes_def)
qed

text \<open>
  \<^verbatim>\<open>if (p) {} function f() { return a ?? b; }\<close>, with the tokens that follow the left operand.
\<close>

definition example_keys :: visitor_keys where
  "example_keys t = map_of [(''Program'', [''body'']), (''FunctionDeclaration'', [''body'']), (''LogicalExpression'', [''left'', ''right''])] t"

definition example_function :: node where
  "example_function = JObj 1 None None [(''type'', JStr ''FunctionDeclaration''),
     (''body'', JObj 2 None None [(''type'', JStr ''LogicalExpression''), (''operator'', JStr ''??''),
        (''left'', identifier_node 3 ''a''), (''right'', identifier_node 4 ''b'')])]"

definition example_file :: node where
  "example_file = JObj 0 None None [(''type'', JStr ''Program''),
     (''body'', JArr [JObj 5 None None [(''type'', JStr ''IfStatement'')], example_function])]"

definition punctuator :: "string \<Rightarrow> token" where
  "punctuator v = \<lparr>tok_id = 0, tok_type = ''Punctuator'', tok_value = v, tok_range = (0, 2),
     tok_loc = \<lparr>loc_start = \<lparr>pos_line = 1, pos_column = 0\<rparr>, loc_end = \<lparr>pos_line = 1, pos_column = 2\<rparr>\<rparr>\<rparr>"

definition example_cyclomatic :: "string list \<Rightarrow> cyclomatic_context" where
  "example_cyclomatic following =
     \<lparr>cy_visitorKeys = example_keys, cy_getFirstToken = (\<lambda>_. Some (punctuator ''if'')),
      cy_getFirstTokenBetween = (\<lambda>_ _ _. None), cy_getTokenAfter = (\<lambda>_ f. List.find f (map punctuator following)),
      cy_getMainFunctionTokenLocation = (\<lambda>_ _. tok_loc (punctuator ''f''))\<rparr>"

definition example_source :: source_code where
  "example_source =
     \<lparr>sc_ast = example_file, sc_tokens = [], sc_comments = [], sc_templateBody = None, sc_visitorKeys = example_keys,
      sc_getTokens = (\<lambda>_. []), sc_getFirstToken = (\<lambda>_. None), sc_getCommentsBefore = (\<lambda>_. []),
      sc_getLocFromIndex = (\<lambda>i. \<lparr>pos_line = 1, pos_column = i\<rparr>)\<rparr>"

theorem file_complexity_is_sum_witness:
  "computeCyclomaticComplexity example_source = 3 \<and>
   length (filter (\<lambda>n. type_in n COMPLEXITY_NODES) (outside_functions example_keys example_file)) = 1 \<and>
   (\<Sum>f \<leftarrow> filter isFunctionNode (all_nodes example_source).
      length (function_complexity (example_cyclomatic [''??'']) f None) +
      length (filter (uncounted (example_cyclomatic [''??''])) (own_nodes example_keys f))) = 2"
proof -
  have "distinct_functions (sc_visitorKeys example_source) (sc_ast example_source)"
    "cy_visitorKeys (example_cyclomatic [''??'']) = sc_visitorKeys example_source"
    by code_simp (simp add: example_cyclomatic_def example_source_def)
  from file_complexity_is_sum [OF this(2,1), of "\<lambda>_. None"]
  have sum: "computeCyclomaticComplexity example_source =
      length (filter (\<lambda>n. type_in n COMPLEXITY_NODES) (outside_functions example_keys example_file)) +
      (\<Sum>f \<leftarrow> filter isFunctionNode (all_nodes example_source). length (function_complexity (example_cyclomatic [''??'']) f None) +
         length (filter (uncounted (example_cyclomatic [''??''])) (own_nodes example_keys f)))"
    by (simp add: example_source_def)
  moreover have "computeCyclomaticComplexity example_source = 3" by code_simp
  moreover have "length (filter (\<lambda>n. type_in n COMPLEXITY_NODES) (outside_functions example_keys example_file)) = 1"
    by code_simp
  ultimately show ?thesis by simp
qed

text \<open>
  The search for the operator of \<^verbatim>\<open>??\<close> goes past it to any later \<^verbatim>\<open>||\<close> or \<^verbatim>\<open>&&\<close> of the file: the complexity
  of the same function depends on what follows it.
\<close>

lemma nullish_depends_on_rest:
  "length (function_complexity (example_cyclomatic [''??'']) example_function None) = 1"
  "length (function_complexity (example_cyclomatic [''??'', ''||'']) example_function None) = 2"
  by code_simp+

text \<open>Which functions the rule looks at: all but those that define a module or are invoked at once.\<close>

lemma dict_set_new: "k \<notin> fst ` set d \<Longrightarrow> dict_set k v d = d @ [(k, v)]"
  by (induction d) auto

lemma cy_functions_fold:
  assumes "distinct (map (\<lambda>(n, p). node_id n) fs)" "\<forall>(n, p) \<in> set fs. node_id n \<notin> fst ` set (functionsWithParent s)"
  shows "fold (cy_listener ctx threshold) (map (\<lambda>(n, p). CyFunction n p) fs) s =
    s\<lparr>functionsWithParent := functionsWithParent s @ map (\<lambda>(n, p). (node_id n, n, p)) fs\<rparr>"
  using assms
proof (induction fs arbitrary: s)
  case (Cons f fs)
  obtain n p where f: "f = (n, p)" by fastforce
  let ?s = "s\<lparr>functionsWithParent := functionsWithParent s @ [(node_id n, n, p)]\<rparr>"
  have "fold (cy_listener ctx threshold) (map (\<lambda>(n, p). CyFunction n p) fs) ?s =
      ?s\<lparr>functionsWithParent := functionsWithParent ?s @ map (\<lambda>(n, p). (node_id n, n, p)) fs\<rparr>"
    using Cons.prems f by (intro Cons.IH) (force simp: image_iff)+
  with Cons.prems f show ?case by (simp add: dict_set_new)
qed simp

lemma cy_run_functions:
  assumes "distinct (map (\<lambda>(n, p). node_id n) fs)"
  shows "cy_reports (cy_run ctx threshold
      (CyProgram # map (\<lambda>(n, p). CyFunction n p) fs @ map CyDefine ds @ map CyInvoke is @ [CyProgramExit])) =
    concat (map (\<lambda>(n, p).
        if \<not> list_ex (strict_eq n) ds \<and> \<not> list_ex (strict_eq n) (map (\<lambda>i. fld i ''callee'') is)
        then raiseOnUnauthorizedComplexity ctx threshold n p else []) fs)"
proof -
  have defs: "fold (cy_listener ctx threshold) (map CyDefine ds) s =
      s\<lparr>functionsDefiningModule := functionsDefiningModule s @ ds\<rparr>" for s
    by (induction ds arbitrary: s) simp_all
  have invokes: "fold (cy_listener ctx threshold) (map CyInvoke is) s =
      s\<lparr>functionsImmediatelyInvoked := functionsImmediatelyInvoked s @ map (\<lambda>n. fld n ''callee'') is\<rparr>" for s
    by (induction "is" arbitrary: s) simp_all
  show ?thesis
    by (simp add: cy_run_def cy_functions_fold [OF assms] defs invokes) (simp add: comp_def case_prod_unfold cong: if_cong)
qed

end
