(* ===== verification/Aws_Cdk.thy ===== *)
theory Aws_Cdk
  imports Results
begin

text \<open>
  The rule templates for the AWS Cloud Development Kit,
  \<^verbatim>\<open>src/linting/eslint/rules/helpers/aws/cdk.ts\<close>, \<^verbatim>\<open>iam.ts\<close> and \<^verbatim>\<open>s3.ts\<close>: calls
  are dispatched to callbacks by the fully qualified name of the callee, and arguments are
  searched for properties with unwanted values. A callback gives its reports; not returning is
  \<open>None\<close>, as unique writes are followed to the end. The parameter \<open>scopeOf\<close> is
  \<^verbatim>\<open>variable.scope\<close>.
\<close>

section \<open>Results that may fail or not return\<close>

type_synonym 'a ro = "'a res option"

definition bind_ro :: "'a ro \<Rightarrow> ('a \<Rightarrow> 'b ro) \<Rightarrow> 'b ro" where
  "bind_ro m f = Option.bind m (\<lambda>r. case r of Inl e \<Rightarrow> Some (Inl e) | Inr a \<Rightarrow> f a)"

definition return_ro :: "'a \<Rightarrow> 'a ro" where
  "return_ro a = Some (Inr a)"

definition run_ro :: "'a option \<Rightarrow> 'a ro" where
  "run_ro m = map_option Inr m"

lemma bind_return_ro [simp]: "bind_ro (return_ro a) f = f a"
  by (simp add: bind_ro_def return_ro_def)

lemma bind_ro_eq_return: "bind_ro m f = return_ro b \<longleftrightarrow> (\<exists>a. m = return_ro a \<and> f a = return_ro b)"
  by (cases m) (auto simp: bind_ro_def return_ro_def split: sum.splits)

lemma return_ro_inject [simp]: "return_ro a = return_ro b \<longleftrightarrow> a = b"
  by (simp add: return_ro_def)

lemma run_ro_eq_return: "run_ro m = return_ro a \<longleftrightarrow> m = Some a"
  by (auto simp: run_ro_def return_ro_def)

fun concat_ro :: "('a \<Rightarrow> 'b list ro) \<Rightarrow> 'a list \<Rightarrow> 'b list ro" where
  "concat_ro f [] = return_ro []"
| "concat_ro f (x # xs) = bind_ro (f x) (\<lambda>ys. bind_ro (concat_ro f xs) (\<lambda>zs. return_ro (ys @ zs)))"

fun some_ro :: "('a \<Rightarrow> bool ro) \<Rightarrow> 'a list \<Rightarrow> bool ro" where
  "some_ro f [] = return_ro False"
| "some_ro f (x # xs) = bind_ro (f x) (\<lambda>b. if b then return_ro True else some_ro f xs)"

section \<open>Normalized names\<close>

definition normalizeFQN :: "string option \<Rightarrow> string option" where
  "normalizeFQN fqn = map_option (map (\<lambda>c. if c = CHR ''-'' then CHR ''_'' else c)) fqn"

definition normalized_name :: "(nat \<Rightarrow> scope option) \<Rightarrow> rule_context \<Rightarrow> node \<Rightarrow> string option ro" where
  "normalized_name scopeOf ctx n = run_ro (map_option normalizeFQN (getFullyQualifiedName scopeOf ctx n))"

section \<open>Dispatch to callbacks\<close>

record 'r cdk_callback =
  cb_functionName :: "string option"
  cb_methods :: "string list option"
  cb_callExpression :: "node \<Rightarrow> string option \<Rightarrow> 'r list ro"
  cb_newExpression :: "(node \<Rightarrow> 'r list ro) option"

datatype 'r cdk_consumer = ConsumerFunction "node \<Rightarrow> 'r list ro" | ConsumerCallback "'r cdk_callback"

type_synonym 'r cdk_consumer_map = "(string \<times> 'r cdk_consumer) list"

definition isMethodCall_of :: "'r cdk_callback \<Rightarrow> string option \<Rightarrow> string \<Rightarrow> bool" where
  "isMethodCall_of callback fqn expected =
     (case cb_functionName callback of
        Some (c # cs) \<Rightarrow> fqn = Some (expected @ ''.'' @ c # cs)
      | _ \<Rightarrow>
          (case (cb_methods callback, fqn) of
             (Some methods, Some name) \<Rightarrow>
               if starts_with name expected
               then list_all (\<lambda>m. m = [] \<or> m \<in> set methods) (split_on (CHR ''.'') (drop (length expected) name))
               else fqn = Some expected
           | _ \<Rightarrow> fqn = Some expected))"

definition executeIfMatching ::
  "(nat \<Rightarrow> scope option) \<Rightarrow> rule_context \<Rightarrow> node \<Rightarrow> string \<Rightarrow> 'r cdk_consumer \<Rightarrow> 'r list ro" where
  "executeIfMatching scopeOf ctx n expected consumer =
     (case consumer of
        ConsumerFunction _ \<Rightarrow> return_ro []
      | ConsumerCallback callback \<Rightarrow>
          bind_ro (normalized_name scopeOf ctx (fld n ''callee'')) (\<lambda>fqn.
            if is_type n ''NewExpression'' \<and> fqn = Some expected then
              (case cb_newExpression callback of None \<Rightarrow> return_ro [] | Some f \<Rightarrow> f n)
            else if isMethodCall_of callback fqn expected then cb_callExpression callback n fqn
            else return_ro []))"

definition consume ::
  "(nat \<Rightarrow> scope option) \<Rightarrow> rule_context \<Rightarrow> node \<Rightarrow> string \<times> 'r cdk_consumer \<Rightarrow> 'r list ro" where
  "consume scopeOf ctx n entry =
     (let expected = the (normalizeFQN (Some (fst entry))) in
      case snd entry of
        ConsumerCallback callback \<Rightarrow> executeIfMatching scopeOf ctx n expected (snd entry)
      | ConsumerFunction f \<Rightarrow>
          if is_type n ''CallExpression'' then executeIfMatching scopeOf ctx n expected (snd entry)
          else bind_ro (normalized_name scopeOf ctx (fld n ''callee'')) (\<lambda>fqn.
            if fqn = Some expected then f n else return_ro []))"

text \<open>The listener on \<^verbatim>\<open>NewExpression\<close> and \<^verbatim>\<open>CallExpression\<close>.\<close>

definition AwsCdkTemplate ::
  "(nat \<Rightarrow> scope option) \<Rightarrow> (rule_context \<Rightarrow> 'r cdk_consumer_map) \<Rightarrow> rule_context \<Rightarrow> node \<Rightarrow> 'r list ro" where
  "AwsCdkTemplate scopeOf consumers ctx n =
     (if list_ex (\<lambda>a. is_type a ''SpreadElement'') (elems (fld n ''arguments'')) then return_ro []
      else concat_ro (consume scopeOf ctx n) (consumers ctx))"

section \<open>Checks of arguments\<close>

datatype message_ids = OneMessage string | Messages "string list"

definition getMessageAtPos :: "message_ids \<Rightarrow> nat \<Rightarrow> string option" where
  "getMessageAtPos messageId pos =
     (case messageId of
        OneMessage m \<Rightarrow> Some m
      | Messages ms \<Rightarrow> if pos < length ms then Some (ms ! pos) else None)"

record cdk_report =
  cr_messageId :: "string option"
  cr_node :: node

record cdk_values =
  cv_invalid :: "jsval list option"
  cv_valid :: "jsval list option"
  cv_case_insensitive :: bool

record fqn_values =
  fv_invalid :: "string list option"
  fv_valid :: "string list option"

record values_by_type =
  vt_primitives :: "cdk_values option"
  vt_fqns :: "fqn_values option"
  vt_customChecker :: "(rule_context \<Rightarrow> node \<Rightarrow> bool) option"

record node_and_report =
  nr_node :: node
  nr_nodeToReport :: node

definition getNodeToReport :: "node_and_report \<Rightarrow> node" where
  "getNodeToReport property =
     (if is_type (nr_nodeToReport property) ''Property'' then fld (nr_nodeToReport property) ''value''
      else nr_nodeToReport property)"

partial_function (option) getLiteralValue :: "rule_context \<Rightarrow> node \<Rightarrow> node option option" where
  "getLiteralValue ctx n =
     (if isLiteral n then Some (Some n)
      else if isIdentifier n [] then
        (case usage_of ctx n of None \<Rightarrow> Some None | Some usage \<Rightarrow> getLiteralValue ctx usage)
      else Some None)"

declare getLiteralValue.simps [code]

text \<open>
  A value of the list against the literal: \<^verbatim>\<open>toLowerCase\<close> of a value that is no string throws.
\<close>

definition same_value :: "cdk_values \<Rightarrow> jsval \<Rightarrow> jsval \<Rightarrow> bool ro" where
  "same_value values literal v =
     (case (cv_case_insensitive values, literal) of
        (True, JStr l) \<Rightarrow>
          (case v of
             JStr s \<Rightarrow> return_ro (to_lower s = to_lower l)
           | _ \<Rightarrow> Some (Inl (JsError ''value.toLowerCase is not a function'' [])))
      | _ \<Rightarrow> return_ro (strict_eq v literal))"

definition value_list :: "jsval list option \<Rightarrow> jsval list" where
  "value_list vs = (case vs of None \<Rightarrow> [] | Some l \<Rightarrow> l)"

definition disallowedValue :: "rule_context \<Rightarrow> node \<Rightarrow> cdk_values \<Rightarrow> bool ro" where
  "disallowedValue ctx n values =
     bind_ro (run_ro (getLiteralValue ctx n)) (\<lambda>literal.
       case literal of
         None \<Rightarrow> return_ro False
       | Some l \<Rightarrow>
           bind_ro (if value_list (cv_valid values) = [] then return_ro True
                    else some_ro (same_value values (fld l ''value'')) (value_list (cv_valid values))) (\<lambda>found.
             if \<not> found then return_ro True
             else if value_list (cv_invalid values) = [] then return_ro False
             else some_ro (same_value values (fld l ''value'')) (value_list (cv_invalid values))))"

definition disallowedFQNs :: "(nat \<Rightarrow> scope option) \<Rightarrow> rule_context \<Rightarrow> node \<Rightarrow> fqn_values \<Rightarrow> bool ro" where
  "disallowedFQNs scopeOf ctx n values =
     bind_ro (normalized_name scopeOf ctx n) (\<lambda>fqn.
       let known = fqn \<noteq> None \<and> fqn \<noteq> Some [];
           among = (\<lambda>names. fqn \<in> (normalizeFQN \<circ> Some) ` set (case names of None \<Rightarrow> [] | Some l \<Rightarrow> l))
       in return_ro
         (if fv_valid values \<noteq> None \<and> fv_valid values \<noteq> Some [] \<and> (\<not> known \<or> \<not> among (fv_valid values))
          then True
          else known \<and> among (fv_invalid values)))"

section \<open>Paths of properties\<close>

datatype traversal = Properties "node_and_report list" | Conflict node

text \<open>
  The objects to look at: the object a node stands for, or those among the elements of the array it
  stands for; \<open>None\<close> when it is neither, or the array is empty.
\<close>

definition find_children :: "rule_context \<Rightarrow> node_and_report \<Rightarrow> node_and_report list option ro" where
  "find_children ctx node =
     bind_ro (run_ro (getValueOfExpression ctx (nr_node node) ''ObjectExpression'' True)) (\<lambda>objExpr.
       case objExpr of
         Some obj \<Rightarrow> return_ro (Some [\<lparr>nr_node = obj, nr_nodeToReport = nr_nodeToReport node\<rparr>])
       | None \<Rightarrow>
           bind_ro (run_ro (getValueOfExpression ctx (nr_node node) ''ArrayExpression'' True)) (\<lambda>arrayExpr.
             case arrayExpr of
               None \<Rightarrow> return_ro None
             | Some arr \<Rightarrow>
                 if elems (fld arr ''elements'') = [] then return_ro None
                 else bind_ro
                   (concat_ro (\<lambda>element.
                      bind_ro (run_ro (getValueOfExpression ctx element ''ObjectExpression'' True)) (\<lambda>elemObjExpr.
                        return_ro (case elemObjExpr of
                            Some obj \<Rightarrow> if truthy element then [\<lparr>nr_node = obj, nr_nodeToReport = element\<rparr>] else []
                          | None \<Rightarrow> [])))
                     (elems (fld arr ''elements'')))
                   (\<lambda>children. return_ro (Some children))))"

definition missing_report ::
  "string option \<Rightarrow> bool \<Rightarrow> bool \<Rightarrow> node \<Rightarrow> (cdk_report list \<times> traversal) ro \<Rightarrow> (cdk_report list \<times> traversal) ro" where
  "missing_report messageId needsProp silent n continue =
     (if needsProp then
        if silent then return_ro ([], Conflict n)
        else bind_ro continue (\<lambda>(rs, t). return_ro (\<lparr>cr_messageId = messageId, cr_node = n\<rparr> # rs, t))
      else continue)"

fun children_loop ::
  "rule_context \<Rightarrow> string option \<Rightarrow> bool \<Rightarrow> bool \<Rightarrow> string \<Rightarrow> node \<Rightarrow>
     (node_and_report \<Rightarrow> node \<Rightarrow> (cdk_report list \<times> traversal) ro) \<Rightarrow> node_and_report list \<Rightarrow>
     (cdk_report list \<times> traversal) ro" where
  "children_loop ctx messageId needsProp silent propertyName nodeToReport descend [] = return_ro ([], Properties [])"
| "children_loop ctx messageId needsProp silent propertyName nodeToReport descend (child # children) =
     bind_ro (run_ro (getProperty (nr_node child) propertyName ctx)) (\<lambda>property.
       let continue = children_loop ctx messageId needsProp silent propertyName nodeToReport descend children in
       case property of
         PropertyUndefined \<Rightarrow> continue
       | PropertyNull \<Rightarrow> missing_report messageId needsProp silent nodeToReport continue
       | PropertyFound p \<Rightarrow>
           bind_ro (descend child p) (\<lambda>(rs, t).
             case t of
               Conflict n \<Rightarrow> return_ro (rs, Conflict n)
             | Properties ps \<Rightarrow> bind_ro continue (\<lambda>(rs', t').
                 return_ro (rs @ rs', case t' of Conflict n \<Rightarrow> Conflict n | Properties ps' \<Rightarrow> Properties (ps @ ps')))))"

definition move_to :: "node_and_report \<Rightarrow> node \<Rightarrow> node \<Rightarrow> node_and_report" where
  "move_to child property n =
     \<lparr>nr_node = n,
      nr_nodeToReport =
        (if strict_eq (nr_node child) (nr_nodeToReport child) \<and>
            list_ex (\<lambda>p. strict_eq p property) (elems (fld (nr_node child) ''properties''))
         then n else nr_nodeToReport child)\<rparr>"

text \<open>The path is not empty: its first name, and the names after it.\<close>

fun traverseProperties ::
  "(nat \<Rightarrow> scope option) \<Rightarrow> rule_context \<Rightarrow> string option \<Rightarrow> bool \<Rightarrow> bool \<Rightarrow> string \<Rightarrow> string list \<Rightarrow>
     node_and_report \<Rightarrow> (cdk_report list \<times> traversal) ro" where
  "traverseProperties scopeOf ctx messageId needsProp silent propertyName nextElements node =
     bind_ro (run_ro (isUnresolved scopeOf (nr_node node) ctx)) (\<lambda>unresolved.
       if unresolved then return_ro ([], Properties [])
       else bind_ro (find_children ctx node) (\<lambda>children.
         case children of
           None \<Rightarrow> missing_report messageId needsProp silent (nr_nodeToReport node) (return_ro ([], Properties []))
         | Some cs \<Rightarrow>
             children_loop ctx messageId needsProp silent propertyName (nr_nodeToReport node)
               (\<lambda>child property.
                  case nextElements of
                    [] \<Rightarrow> return_ro ([], Properties [move_to child property property])
                  | n # ns \<Rightarrow> traverseProperties scopeOf ctx messageId needsProp silent n ns
                      (move_to child property (fld property ''value'')))
               cs))"

declare traverseProperties.simps [simp del]

section \<open>Checking an argument\<close>

text \<open>
  An unwanted value: the silent check stops with the node, the other one reports it and goes on.
\<close>

definition flag ::
  "bool \<Rightarrow> bool \<Rightarrow> cdk_report \<Rightarrow> (cdk_report list \<times> node option) ro \<Rightarrow> (cdk_report list \<times> node option) ro" where
  "flag silent bad rep continue =
     (if \<not> bad then continue
      else if silent then return_ro ([], Some (cr_node rep))
      else bind_ro continue (\<lambda>(rs, n). return_ro (rep # rs, n)))"

definition check_value ::
  "bool \<Rightarrow> cdk_report \<Rightarrow> 'v option \<Rightarrow> ('v \<Rightarrow> bool ro) \<Rightarrow>
     (cdk_report list \<times> node option) ro \<Rightarrow> (cdk_report list \<times> node option) ro" where
  "check_value silent rep values test continue =
     (case values of
        None \<Rightarrow> continue
      | Some v \<Rightarrow> bind_ro (test v) (\<lambda>bad. flag silent bad rep continue))"

definition undefined_like :: "node \<Rightarrow> bool" where
  "undefined_like n \<longleftrightarrow> isUndefined n \<or> is_type n ''ArrayExpression'' \<and> elems (fld n ''elements'') = []"

fun check_properties ::
  "(nat \<Rightarrow> scope option) \<Rightarrow> rule_context \<Rightarrow> message_ids \<Rightarrow> bool \<Rightarrow> values_by_type option \<Rightarrow> bool \<Rightarrow>
     node_and_report list \<Rightarrow> (cdk_report list \<times> node option) ro" where
  "check_properties scopeOf ctx messageId needsProps values silent [] = return_ro ([], None)"
| "check_properties scopeOf ctx messageId needsProps values silent (property # properties) =
     (let continue = check_properties scopeOf ctx messageId needsProps values silent properties;
          complaint = (\<lambda>pos. \<lparr>cr_messageId = getMessageAtPos messageId pos, cr_node = getNodeToReport property\<rparr>)
      in bind_ro (run_ro (getUniqueWriteUsageOrNode ctx (fld (nr_node property) ''value'') True)) (\<lambda>propertyValue.
         bind_ro (run_ro (isUnresolved scopeOf propertyValue ctx)) (\<lambda>unresolved.
           if unresolved then continue
           else if undefined_like propertyValue
           then flag silent needsProps (complaint 0) continue
           else
             check_value silent (complaint 1) (Option.bind values vt_primitives) (disallowedValue ctx propertyValue)
               (check_value silent (complaint 1) (Option.bind values vt_fqns) (disallowedFQNs scopeOf ctx propertyValue)
                 (check_value silent (complaint 1) (Option.bind values vt_customChecker)
                   (\<lambda>checker. return_ro (checker ctx propertyValue)) continue)))))"

definition AwsCdkCheckArguments ::
  "(nat \<Rightarrow> scope option) \<Rightarrow> message_ids \<Rightarrow> bool \<Rightarrow> string \<times> string list \<Rightarrow> values_by_type option \<Rightarrow> bool \<Rightarrow> nat \<Rightarrow>
     node \<Rightarrow> rule_context \<Rightarrow> (cdk_report list \<times> node option) ro" where
  "AwsCdkCheckArguments scopeOf messageId needsProps propertyName values silent position expr ctx =
     (let args = elems (fld expr ''arguments'');
          argument = (if position < length args then args ! position else JUndefined)
      in if \<not> truthy argument \<or> isUndefined argument
         then flag silent needsProps \<lparr>cr_messageId = getMessageAtPos messageId 0, cr_node = fld expr ''callee''\<rparr>
                (return_ro ([], None))
         else bind_ro
           (traverseProperties scopeOf ctx (getMessageAtPos messageId 0) needsProps silent
              (fst propertyName) (snd propertyName) \<lparr>nr_node = argument, nr_nodeToReport = argument\<rparr>)
           (\<lambda>(reported, properties).
              case properties of
                Conflict n \<Rightarrow> return_ro (reported, Some n)
              | Properties ps \<Rightarrow>
                  bind_ro (check_properties scopeOf ctx messageId needsProps values silent ps) (\<lambda>(rs, n).
                    return_ro (reported @ rs, n))))"

definition AWS_OPTIONS_ARGUMENT_POSITION :: nat where
  "AWS_OPTIONS_ARGUMENT_POSITION = 2"

section \<open>Policies of the identity and access management\<close>

datatype value_kind = KindFullyQualifiedName | KindString | KindJson

record policy_options =
  po_effect :: string
  po_effect_type :: value_kind
  po_effect_allowValue :: string
  po_actions :: string
  po_resources :: string
  po_conditions :: string
  po_principals :: string
  po_principals_type :: value_kind
  po_principals_anyValues :: "string list option"

definition ARN_PRINCIPAL :: string where
  "ARN_PRINCIPAL = ''aws_cdk_lib.aws_iam.ArnPrincipal''"

definition STAR_PRINCIPAL :: string where
  "STAR_PRINCIPAL = ''aws_cdk_lib.aws_iam.StarPrincipal''"

definition ANY_PRINCIPAL :: string where
  "ANY_PRINCIPAL = ''aws_cdk_lib.aws_iam.AnyPrincipal''"

definition PROPERTIES_OPTIONS :: policy_options where
  "PROPERTIES_OPTIONS =
     \<lparr>po_effect = ''effect'', po_effect_type = KindFullyQualifiedName,
      po_effect_allowValue = ''aws_cdk_lib.aws_iam.Effect.ALLOW'', po_actions = ''actions'',
      po_resources = ''resources'', po_conditions = ''conditions'', po_principals = ''principals'',
      po_principals_type = KindFullyQualifiedName,
      po_principals_anyValues = Some [STAR_PRINCIPAL, ANY_PRINCIPAL, ARN_PRINCIPAL]\<rparr>"

definition JSON_OPTIONS :: policy_options where
  "JSON_OPTIONS =
     \<lparr>po_effect = ''Effect'', po_effect_type = KindString, po_effect_allowValue = ''Allow'',
      po_actions = ''Action'', po_resources = ''Resource'', po_conditions = ''Condition'',
      po_principals = ''Principal'', po_principals_type = KindJson, po_principals_anyValues = None\<rparr>"

type_synonym 'r statement_checker = "node \<Rightarrow> rule_context \<Rightarrow> policy_options \<Rightarrow> 'r list ro"

definition isAnyLiteral :: "node \<Rightarrow> bool" where
  "isAnyLiteral literal \<longleftrightarrow> fld literal ''value'' = JStr ''*''"

text \<open>\<^verbatim>\<open>Result.filter\<close> with a test that resolves names.\<close>

definition filter_ro :: "(node \<Rightarrow> bool ro) \<Rightarrow> result \<Rightarrow> result ro" where
  "filter_ro test r =
     (if \<not> isFound r then return_ro r
      else bind_ro (test (rs_node r)) (\<lambda>ok. return_ro (if ok then r else unknown (rs_node r))))"

definition getSensitiveEffect ::
  "(nat \<Rightarrow> scope option) \<Rightarrow> result \<Rightarrow> rule_context \<Rightarrow> policy_options \<Rightarrow> result ro" where
  "getSensitiveEffect scopeOf properties ctx options =
     bind_ro (run_ro (result_getProperty ctx (po_effect options) properties))
       (filter_ro (\<lambda>n.
          if po_effect_type options = KindFullyQualifiedName
          then bind_ro (normalized_name scopeOf ctx n) (\<lambda>fqn. return_ro (fqn = Some (po_effect_allowValue options)))
          else return_ro (isStringLiteral n \<and> fld n ''value'' = JStr (po_effect_allowValue options))))"

definition policyDocumentChecker ::
  "'r statement_checker \<Rightarrow> policy_options \<Rightarrow> node \<Rightarrow> rule_context \<Rightarrow> 'r list ro" where
  "policyDocumentChecker statementChecker options expr ctx =
     bind_ro (run_ro (getResultOfExpression ctx expr)) (\<lambda>call.
     bind_ro (run_ro (getArgument ctx 0 call)) (\<lambda>properties.
     bind_ro (run_ro (result_getProperty ctx ''Statement'' properties)) (\<lambda>statements.
       if isFound statements
       then bind_ro (run_ro (flattenArgs ctx [rs_node statements]))
              (concat_ro (\<lambda>n. statementChecker n ctx options))
       else return_ro [])))"

definition policyStatementChecker ::
  "'r statement_checker \<Rightarrow> policy_options \<Rightarrow> node \<Rightarrow> rule_context \<Rightarrow> 'r list ro" where
  "policyStatementChecker statementChecker options expr ctx =
     bind_ro (run_ro (getResultOfExpression ctx expr)) (\<lambda>call.
     bind_ro (run_ro (getArgument ctx 0 call)) (\<lambda>properties.
       if isFound properties then statementChecker (rs_node properties) ctx options else return_ro []))"

definition iam_consumers :: "'r statement_checker \<Rightarrow> rule_context \<Rightarrow> 'r cdk_consumer_map" where
  "iam_consumers statementChecker ctx =
     [(''aws-cdk-lib.aws-iam.PolicyStatement'', ConsumerCallback
         \<lparr>cb_functionName = Some ''fromJson'', cb_methods = None,
          cb_callExpression = (\<lambda>n fqn. policyStatementChecker statementChecker JSON_OPTIONS n ctx),
          cb_newExpression = Some (\<lambda>n. policyStatementChecker statementChecker PROPERTIES_OPTIONS n ctx)\<rparr>),
      (''aws-cdk-lib.aws-iam.PolicyDocument'', ConsumerCallback
         \<lparr>cb_functionName = Some ''fromJson'', cb_methods = None,
          cb_callExpression = (\<lambda>n fqn. policyDocumentChecker statementChecker JSON_OPTIONS n ctx),
          cb_newExpression = None\<rparr>)]"

definition AwsIamPolicyTemplate ::
  "(nat \<Rightarrow> scope option) \<Rightarrow> 'r statement_checker \<Rightarrow> rule_context \<Rightarrow> node \<Rightarrow> 'r list ro" where
  "AwsIamPolicyTemplate scopeOf statementChecker = AwsCdkTemplate scopeOf (iam_consumers statementChecker)"

section \<open>Buckets\<close>

definition isS3BucketConstructor :: "(nat \<Rightarrow> scope option) \<Rightarrow> rule_context \<Rightarrow> node \<Rightarrow> bool ro" where
  "isS3BucketConstructor scopeOf ctx n =
     bind_ro (normalized_name scopeOf ctx n) (\<lambda>fqn. return_ro (fqn = Some ''aws_cdk_lib.aws_s3.Bucket''))"

definition isS3BucketDeploymentConstructor :: "(nat \<Rightarrow> scope option) \<Rightarrow> rule_context \<Rightarrow> node \<Rightarrow> bool ro" where
  "isS3BucketDeploymentConstructor scopeOf ctx n =
     bind_ro (normalized_name scopeOf ctx n)
       (\<lambda>fqn. return_ro (fqn = Some ''aws_cdk_lib.aws_s3_deployment.BucketDeployment''))"

definition S3BucketTemplate ::
  "(nat \<Rightarrow> scope option) \<Rightarrow> (node \<Rightarrow> rule_context \<Rightarrow> 'r list ro) \<Rightarrow> rule_context \<Rightarrow> node \<Rightarrow> 'r list ro" where
  "S3BucketTemplate scopeOf callback ctx n =
     bind_ro (isS3BucketConstructor scopeOf ctx n) (\<lambda>b. if b then callback n ctx else return_ro [])"

text \<open>The outer option of the result is \<^verbatim>\<open>null\<close>, the inner one \<^verbatim>\<open>undefined\<close>.\<close>

definition s3_getProperty :: "rule_context \<Rightarrow> node \<Rightarrow> string \<Rightarrow> node option option ro" where
  "s3_getProperty ctx bucket key =
     (let args = elems (fld bucket ''arguments'');
          optionsArg = (if 2 < length args then args ! 2 else JUndefined)
      in bind_ro (run_ro (getValueOfExpression ctx optionsArg ''ObjectExpression'' False)) (\<lambda>options.
           return_ro (map_option (\<lambda>obj.
             List.find (\<lambda>p. isProperty p \<and> isIdentifier (fld p ''key'') [key]) (elems (fld obj ''properties''))) options)))"

record propagated_setting =
  ps_locations :: "jsval list"
  ps_messages :: "string list"

definition findPropagatedSetting :: "(node \<Rightarrow> jsval) \<Rightarrow> node \<Rightarrow> node \<Rightarrow> propagated_setting" where
  "findPropagatedSetting parent sensitiveProperty propagatedValue =
     (if \<not> strict_eq (fld sensitiveProperty ''value'') propagatedValue
      then \<lparr>ps_locations = [parent propagatedValue], ps_messages = [''Propagated setting.'']\<rparr>
      else \<lparr>ps_locations = [], ps_messages = []\<rparr>)"

section \<open>The silent check finds the first report\<close>

definition first_reported :: "cdk_report list \<Rightarrow> node option" where
  "first_reported rs = (case rs of [] \<Rightarrow> None | r # _ \<Rightarrow> Some (cr_node r))"

lemma first_reported_append:
  "first_reported (rs @ rs') = (if rs = [] then first_reported rs' else first_reported rs)"
  by (cases rs) (simp_all add: first_reported_def)

text \<open>
  What the silent run of a traversal has to give when the other one reports \<open>rs\<close> and finds
  \<open>t\<close>.
\<close>

definition silent_traversal :: "cdk_report list \<times> traversal \<Rightarrow> cdk_report list \<times> traversal" where
  "silent_traversal rt = ([], case first_reported (fst rt) of Some n \<Rightarrow> Conflict n | None \<Rightarrow> snd rt)"

definition no_conflict :: "cdk_report list \<times> traversal \<Rightarrow> bool" where
  "no_conflict rt = (case snd rt of Properties _ \<Rightarrow> True | Conflict _ \<Rightarrow> False)"

lemma missing_report_silent:
  assumes "missing_report messageId needsProp False n loud = return_ro rt"
    and "\<And>rt. loud = return_ro rt \<Longrightarrow> no_conflict rt \<and> quiet = return_ro (silent_traversal rt)"
  shows "no_conflict rt \<and> missing_report messageId needsProp True n quiet = return_ro (silent_traversal rt)"
  using assms
  by (auto simp: missing_report_def silent_traversal_def first_reported_def no_conflict_def bind_ro_eq_return
      split: if_splits)

lemma children_loop_silent:
  assumes "children_loop ctx messageId needsProp False name n descend cs = return_ro rt"
    and "\<And>c p rt. descend c p = return_ro rt \<Longrightarrow> no_conflict rt \<and> quiet c p = return_ro (silent_traversal rt)"
  shows "no_conflict rt \<and> children_loop ctx messageId needsProp True name n quiet cs = return_ro (silent_traversal rt)"
  using assms(1)
proof (induction cs arbitrary: rt)
  case Nil
  then show ?case by (auto simp: silent_traversal_def first_reported_def no_conflict_def)
next
  case (Cons c cs)
  then obtain property where property: "run_ro (getProperty (nr_node c) name ctx) = return_ro property"
    and run: "(case property of PropertyUndefined \<Rightarrow> children_loop ctx messageId needsProp False name n descend cs
      | PropertyNull \<Rightarrow> missing_report messageId needsProp False n
          (children_loop ctx messageId needsProp False name n descend cs)
      | PropertyFound p \<Rightarrow> bind_ro (descend c p) (\<lambda>(rs, t). case t of Conflict n \<Rightarrow> return_ro (rs, Conflict n)
          | Properties ps \<Rightarrow> bind_ro (children_loop ctx messageId needsProp False name n descend cs) (\<lambda>(rs', t').
              return_ro (rs @ rs', case t' of Conflict n \<Rightarrow> Conflict n | Properties ps' \<Rightarrow> Properties (ps @ ps'))))) =
        return_ro rt"
    by (auto simp: bind_ro_eq_return Let_def)
  show ?case
  proof (cases property)
    case PropertyUndefined
    with run property Cons.IH show ?thesis by simp
  next
    case PropertyNull
    with run have "missing_report messageId needsProp False n
        (children_loop ctx messageId needsProp False name n descend cs) = return_ro rt" by simp
    from missing_report_silent [OF this Cons.IH] PropertyNull property show ?thesis by simp
  next
    case (PropertyFound p)
    with run obtain rs t where d: "descend c p = return_ro (rs, t)"
      by (auto simp: bind_ro_eq_return)
    from assms(2) [OF d] obtain ps where t: "t = Properties ps"
      and q: "quiet c p = return_ro (silent_traversal (rs, t))"
      by (cases t) (auto simp: no_conflict_def)
    from run d t PropertyFound obtain rs' t' where rest:
      "children_loop ctx messageId needsProp False name n descend cs = return_ro (rs', t')"
      and rt: "rt = (rs @ rs', case t' of Conflict n \<Rightarrow> Conflict n | Properties ps' \<Rightarrow> Properties (ps @ ps'))"
      by (auto simp: bind_ro_eq_return)
    from Cons.IH [OF rest] q t rt property PropertyFound show ?thesis
      by (cases rs; cases rs'; cases t') (auto simp: silent_traversal_def first_reported_def no_conflict_def)
  qed
qed

lemma silent_nothing: "no_conflict ([], Properties []) \<and> return_ro ([], Properties []) = return_ro (silent_traversal ([], Properties []))"
  by (simp add: silent_traversal_def first_reported_def no_conflict_def)

lemma traverse_step_silent:
  assumes "traverseProperties scopeOf ctx messageId needsProp False name names node = return_ro rt"
    and "\<And>c p rt. (case names of [] \<Rightarrow> return_ro ([], Properties [move_to c p p])
        | n # ns \<Rightarrow> traverseProperties scopeOf ctx messageId needsProp False n ns (move_to c p (fld p ''value''))) = return_ro rt \<Longrightarrow>
      no_conflict rt \<and> (case names of [] \<Rightarrow> return_ro ([], Properties [move_to c p p])
        | n # ns \<Rightarrow> traverseProperties scopeOf ctx messageId needsProp True n ns (move_to c p (fld p ''value''))) =
        return_ro (silent_traversal rt)"
  shows "no_conflict rt \<and> traverseProperties scopeOf ctx messageId needsProp True name names node = return_ro (silent_traversal rt)"
proof -
  note unfold = traverseProperties.simps [of scopeOf ctx messageId needsProp _ name names node]
  from assms(1) obtain unresolved where u: "run_ro (isUnresolved scopeOf (nr_node node) ctx) = return_ro unresolved"
    unfolding unfold by (auto simp: bind_ro_eq_return)
  show ?thesis
  proof (cases unresolved)
    case True
    with assms(1) u have "rt = ([], Properties [])" unfolding unfold by simp
    with True u silent_nothing show ?thesis unfolding unfold by simp
  next
    case False
    with assms(1) u obtain children where ch: "find_children ctx node = return_ro children"
      unfolding unfold by (auto simp: bind_ro_eq_return)
    show ?thesis
    proof (cases children)
      case None
      with assms(1) u ch False have "missing_report messageId needsProp False (nr_nodeToReport node)
          (return_ro ([], Properties [])) = return_ro rt" unfolding unfold by simp
      from missing_report_silent [OF this, of "return_ro ([], Properties [])"] silent_nothing u ch False None
      show ?thesis unfolding unfold by simp
    next
      case (Some cs)
      from assms(1) u ch False Some children_loop_silent [OF _ assms(2)]
      show ?thesis unfolding unfold by simp
    qed
  qed
qed

lemma traverseProperties_silent:
  "traverseProperties scopeOf ctx messageId needsProp False name names node = return_ro rt \<Longrightarrow>
     no_conflict rt \<and> traverseProperties scopeOf ctx messageId needsProp True name names node = return_ro (silent_traversal rt)"
proof (induction names arbitrary: name node rt)
  case Nil
  then show ?case
    by (rule traverse_step_silent) (auto simp: silent_traversal_def first_reported_def no_conflict_def)
next
  case (Cons n ns)
  from Cons.prems show ?case
    by (rule traverse_step_silent) (simp add: Cons.IH)
qed

text \<open>The same for the checks of the values.\<close>

lemma flag_silent:
  assumes "flag False bad rep loud = return_ro (rs, None)"
    and "\<And>rs. loud = return_ro (rs, None) \<Longrightarrow> quiet = return_ro ([], first_reported rs)"
  shows "flag True bad rep quiet = return_ro ([], first_reported rs)"
  using assms by (auto simp: flag_def first_reported_def bind_ro_eq_return split: if_splits)

lemma check_value_silent:
  assumes "check_value False rep values test loud = return_ro (rs, None)"
    and "\<And>rs. loud = return_ro (rs, None) \<Longrightarrow> quiet = return_ro ([], first_reported rs)"
  shows "check_value True rep values test quiet = return_ro ([], first_reported rs)"
proof (cases "values")
  case (Some v)
  with assms(1) obtain bad where "test v = return_ro bad" "flag False bad rep loud = return_ro (rs, None)"
    by (auto simp: check_value_def bind_ro_eq_return)
  with flag_silent [OF this(2) assms(2)] Some show ?thesis by (simp add: check_value_def)
next
  case None
  with assms show ?thesis by (simp add: check_value_def)
qed

lemma check_properties_silent:
  "check_properties scopeOf ctx messageId needsProps values False ps = return_ro (rs, None) \<Longrightarrow>
     check_properties scopeOf ctx messageId needsProps values True ps = return_ro ([], first_reported rs)"
proof (induction ps arbitrary: rs)
  case Nil
  then show ?case by (simp add: first_reported_def)
next
  case (Cons p ps)
  let ?loud = "check_properties scopeOf ctx messageId needsProps values False ps"
  let ?quiet = "check_properties scopeOf ctx messageId needsProps values True ps"
  from Cons.prems obtain v unresolved where
    v: "run_ro (getUniqueWriteUsageOrNode ctx (fld (nr_node p) ''value'') True) = return_ro v"
    "run_ro (isUnresolved scopeOf v ctx) = return_ro unresolved"
    by (auto simp: bind_ro_eq_return Let_def)
  consider "unresolved" | "\<not> unresolved" "undefined_like v" | "\<not> unresolved" "\<not> undefined_like v" by blast
  then show ?case
  proof cases
    case 1
    with Cons.prems v have "?loud = return_ro (rs, None)" by (simp add: Let_def)
    from Cons.IH [OF this] 1 v show ?thesis by (simp add: Let_def)
  next
    case 2
    with Cons.prems v have "flag False needsProps \<lparr>cr_messageId = getMessageAtPos messageId 0, cr_node = getNodeToReport p\<rparr>
        ?loud = return_ro (rs, None)" by (simp add: Let_def)
    from flag_silent [OF this Cons.IH] 2 v show ?thesis by (simp add: Let_def)
  next
    case 3
    let ?rep = "\<lparr>cr_messageId = getMessageAtPos messageId (Suc 0), cr_node = getNodeToReport p\<rparr>"
    from 3 Cons.prems v have "check_value False ?rep (Option.bind values vt_primitives) (disallowedValue ctx v)
        (check_value False ?rep (Option.bind values vt_fqns) (disallowedFQNs scopeOf ctx v)
          (check_value False ?rep (Option.bind values vt_customChecker) (\<lambda>checker. return_ro (checker ctx v)) ?loud)) =
        return_ro (rs, None)" by (simp add: Let_def)
    from check_value_silent [OF this check_value_silent [OF _ check_value_silent [OF _ Cons.IH]]] 3 v
    show ?thesis by (simp add: Let_def)
  qed
qed

text \<open>No report of a loud check is lost: it never stops with a node.\<close>

lemma loud_flag: "flag False bad rep k = return_ro (rs, n) \<Longrightarrow> \<exists>rs'. k = return_ro (rs', n)"
  by (auto simp: flag_def bind_ro_eq_return split: if_splits)

lemma loud_check_value: "check_value False rep values test k = return_ro (rs, n) \<Longrightarrow> \<exists>rs'. k = return_ro (rs', n)"
  by (auto simp: check_value_def bind_ro_eq_return split: option.splits dest: loud_flag)

lemma loud_check_properties:
  "check_properties scopeOf ctx messageId needsProps values False ps = return_ro (rs, n) \<Longrightarrow> n = None"
proof (induction ps arbitrary: rs)
  case (Cons p ps)
  then have "\<exists>rs'. check_properties scopeOf ctx messageId needsProps values False ps = return_ro (rs', n)"
    by (auto simp: bind_ro_eq_return Let_def split: if_splits dest!: loud_flag loud_check_value)
  with Cons.IH show ?case by blast
qed simp

text \<open>
  C6: the silent mode of the check of arguments agrees with the reporting one: whenever the
  reporting check returns, it returns no node, and the silent check reports nothing and returns the
  node of the first report, or nothing when there is none.
\<close>

theorem check_arguments_silent:
  assumes "AwsCdkCheckArguments scopeOf messageId needsProps propertyName values False position expr ctx = return_ro (rs, n)"
  shows "n = None \<and>
    AwsCdkCheckArguments scopeOf messageId needsProps propertyName values True position expr ctx =
      return_ro ([], first_reported rs)"
proof -
  let ?args = "elems (fld expr ''arguments'')"
  let ?argument = "if position < length ?args then ?args ! position else JUndefined"
  let ?traverse = "\<lambda>silent. traverseProperties scopeOf ctx (getMessageAtPos messageId 0) needsProps silent
      (fst propertyName) (snd propertyName) \<lparr>nr_node = ?argument, nr_nodeToReport = ?argument\<rparr>"
  let ?rep = "\<lparr>cr_messageId = getMessageAtPos messageId 0, cr_node = fld expr ''callee''\<rparr>"
  show ?thesis
  proof (cases "\<not> truthy ?argument \<or> isUndefined ?argument")
    case True
    with assms have run: "flag False needsProps ?rep (return_ro ([], None)) = return_ro (rs, n)"
      unfolding AwsCdkCheckArguments_def Let_def by argo
    from loud_flag [OF this] have "n = None" by auto
    with run flag_silent [of needsProps ?rep "return_ro ([], None)" rs "return_ro ([], None)"]
    have "flag True needsProps ?rep (return_ro ([], None)) = return_ro ([], first_reported rs)"
      by (simp add: first_reported_def)
    with True \<open>n = None\<close> show ?thesis unfolding AwsCdkCheckArguments_def Let_def by argo
  next
    case False
    then have args: "AwsCdkCheckArguments scopeOf messageId needsProps propertyName values silent position expr ctx =
        bind_ro (?traverse silent) (\<lambda>(reported, properties). case properties of
            Conflict n \<Rightarrow> return_ro (reported, Some n)
          | Properties ps \<Rightarrow> bind_ro (check_properties scopeOf ctx messageId needsProps values silent ps)
              (\<lambda>(rs, n). return_ro (reported @ rs, n)))" for silent
      unfolding AwsCdkCheckArguments_def Let_def by argo
    from assms obtain reported t where t: "?traverse False = return_ro (reported, t)"
      unfolding args by (auto simp: bind_ro_eq_return)
    from traverseProperties_silent [OF t] obtain ps where ps: "t = Properties ps"
      and quiet: "?traverse True = return_ro (silent_traversal (reported, t))"
      by (cases t) (auto simp: no_conflict_def)
    from assms t ps obtain rs' where rs': "check_properties scopeOf ctx messageId needsProps values False ps = return_ro (rs', n)"
      "rs = reported @ rs'" unfolding args by (auto simp: bind_ro_eq_return)
    from loud_check_properties [OF rs'(1)] have n: "n = None" .
    with rs' check_properties_silent have
      "check_properties scopeOf ctx messageId needsProps values True ps = return_ro ([], first_reported rs')" by blast
    with quiet ps n rs'(2) show ?thesis
      unfolding args by (cases reported) (simp_all add: silent_traversal_def first_reported_def)
  qed
qed

text \<open>A topic whose encryption key is not set, and one whose key is \<^verbatim>\<open>undefined\<close>.\<close>

definition cdk_new_node :: "node list \<Rightarrow> node" where
  "cdk_new_node args = JObj 60 None None [(''type'', JStr ''NewExpression''),
     (''callee'', identifier_node 61 ''Topic''), (''arguments'', JArr args)]"

definition cdk_example_context :: rule_context where
  "cdk_example_context = (context_of_write ''x'' JNull)\<lparr>rx_scope := None\<rparr>"

theorem check_arguments_silent_witness:
  "AwsCdkCheckArguments (\<lambda>_. None) (OneMessage ''m'') True (''masterKey'', []) None False 2
     (cdk_new_node [JNull, JNull, object_node 70 []]) cdk_example_context =
     return_ro ([\<lparr>cr_messageId = Some ''m'', cr_node = object_node 70 []\<rparr>], None) \<and>
   AwsCdkCheckArguments (\<lambda>_. None) (OneMessage ''m'') True (''masterKey'', []) None True 2
     (cdk_new_node [JNull, JNull, object_node 70 []]) cdk_example_context =
     return_ro ([], Some (object_node 70 []))"
proof -
  have loud: "AwsCdkCheckArguments (\<lambda>_. None) (OneMessage ''m'') True (''masterKey'', []) None False 2
     (cdk_new_node [JNull, JNull, object_node 70 []]) cdk_example_context =
     return_ro ([\<lparr>cr_messageId = Some ''m'', cr_node = object_node 70 []\<rparr>], None)"
    by code_simp
  from check_arguments_silent [OF loud] loud show ?thesis by (simp add: first_reported_def)
qed

section \<open>Literal values\<close>

lemma getLiteralValue_unfold:
  "getLiteralValue ctx n = (if isLiteral n then Some (Some n) else
     case follow ctx n of None \<Rightarrow> Some None | Some m \<Rightarrow> getLiteralValue ctx m)"
  by (subst getLiteralValue.simps) (simp add: follow_def isIdentifier_def split: option.split)

lemma literal_not_followed: "isLiteral n \<Longrightarrow> follow ctx n = None"
  by (auto simp: isLiteral_def follow_def dest: is_type_unique)

lemma getLiteralValue_resolves:
  "resolves ctx n m \<Longrightarrow> getLiteralValue ctx n = Some (if isLiteral m then Some m else None)"
proof (induction rule: resolves.induct)
  case (resolves_step n m r)
  then show ?case using literal_not_followed [of n ctx] by (subst getLiteralValue_unfold) auto
qed (subst getLiteralValue_unfold, simp)

lemma getLiteralValue_returns:
  assumes "getLiteralValue ctx n = Some r"
  shows "\<exists>m. resolves ctx n m"
  using assms
proof (rule getLiteralValue.raw_induct [rotated])
  fix loop ctx n r
  assume IH: "\<And>ctx n r. loop ctx n = Some r \<Longrightarrow> \<exists>m. resolves ctx n m"
    and run: "(if isLiteral n then Some (Some n) else if isIdentifier n [] then
        (case usage_of ctx n of None \<Rightarrow> Some None | Some usage \<Rightarrow> loop ctx usage) else Some None) = Some r"
  show "\<exists>m. resolves ctx n m"
  proof (cases "follow ctx n")
    case None
    then show ?thesis by (blast intro: resolves_stop)
  next
    case (Some m)
    with run literal_not_followed [of n ctx] have "loop ctx m = Some r"
      by (auto simp: follow_def isIdentifier_def split: if_splits)
    from IH [OF this] Some show ?thesis by (blast intro: resolves_step)
  qed
qed

text \<open>
  The value of an expression as a literal is the end of the chain of unique writes, when that is a
  literal; like the search for that end, it never returns on a cycle.
\<close>

lemma getLiteralValue_end:
  "getLiteralValue ctx n =
     map_option (\<lambda>m. if isLiteral m then Some m else None) (getUniqueWriteUsageOrNode ctx n True)"
proof (cases "getUniqueWriteUsageOrNode ctx n True")
  case None
  then have "getLiteralValue ctx n = None"
    using getLiteralValue_returns resolves_returns by (cases "getLiteralValue ctx n") fastforce+
  with None show ?thesis by simp
next
  case (Some m)
  with returns_resolves [of ctx n True] show ?thesis by (simp add: getLiteralValue_resolves)
qed

end
