(* ===== verification/Regex_Complexity.thy ===== *)
theory Regex_Complexity
  imports Regex_Helpers Complexity_Rules Aws_Cdk
begin

text \<open>
  The rule on the complexity of regular expressions (\<^verbatim>\<open>src/linting/eslint/rules/regex-complexity.ts\<close>): the
  parts of an expression are found, each part is parsed and visited by a calculator that keeps the
  depth of nesting, and the sum is compared with the threshold. The parser is a parameter; the tree it
  gives is an input, and the calculator is shown to compute a definition by recursion on it.
\<close>

section \<open>Parsed patterns\<close>

text \<open>
  What the calculator reads of a node of \<^verbatim>\<open>regexpp\<close>: its type, the kind of an assertion, its positions, those of
  its alternatives, and those of the element of a quantifier. \<^verbatim>\<open>visitRegExpAST\<close> enters a node, visits its
  children and leaves it.
\<close>

datatype rx_type =
    RxAssertion string
  | RxBackreference
  | RxCapturingGroup
  | RxCharacterClass
  | RxGroup
  | RxPattern
  | RxQuantifier
  | RxOther

record rx_node =
  rx_type :: rx_type
  rx_position :: regexp_node
  rx_alternatives :: "regexp_node list"
  rx_element :: regexp_node

datatype rx_walk = RxWalk rx_node "rx_walk list"

datatype rx_event = RxEnter rx_node | RxLeave rx_node

fun rx_events :: "rx_walk \<Rightarrow> rx_event list" where
  "rx_events (RxWalk n cs) = RxEnter n # concat (map rx_events cs) @ [RxLeave n]"

section \<open>The calculator\<close>

record complexity_calculator =
  cal_nesting :: int
  cal_complexity :: int
  cal_components :: "(source_loc option \<times> string) list"

definition new_ComplexityCalculator :: complexity_calculator where
  "new_ComplexityCalculator = \<lparr>cal_nesting = 1, cal_complexity = 0, cal_components = []\<rparr>"

definition increment_message :: "int \<Rightarrow> string" where
  "increment_message increment =
     ''+'' @ show_int increment @
     (if increment > 1 then '' (incl '' @ show_int (increment - 1) @ '' for nesting)'' else [])"

definition increaseComplexity ::
  "(int \<Rightarrow> position) \<Rightarrow> node \<Rightarrow> int \<Rightarrow> regexp_node \<Rightarrow> int \<times> int \<Rightarrow> complexity_calculator \<Rightarrow> complexity_calculator ro" where
  "increaseComplexity locs part increment n offset c =
     bind_ro (getRegexpLocation locs part n offset) (\<lambda>loc.
       return_ro (c\<lparr>cal_complexity := cal_complexity c + increment,
         cal_components := cal_components c @ [(loc, increment_message increment)]\<rparr>))"

fun disjunction_loop ::
  "(int \<Rightarrow> position) \<Rightarrow> node \<Rightarrow> int \<Rightarrow> regexp_node list \<Rightarrow> complexity_calculator \<Rightarrow> complexity_calculator ro" where
  "disjunction_loop locs part increment (a # b # rest) c =
     bind_ro (getRegexpRange part b) (\<lambda>(s, e).
     bind_ro (increaseComplexity locs part increment b (-1, - (e - s)) c) (\<lambda>c'.
       disjunction_loop locs part 1 (b # rest) c'))"
| "disjunction_loop locs part increment _ c = return_ro c"

definition onDisjunctionEnter ::
  "(int \<Rightarrow> position) \<Rightarrow> node \<Rightarrow> rx_node \<Rightarrow> complexity_calculator \<Rightarrow> complexity_calculator ro" where
  "onDisjunctionEnter locs part n c =
     (if length (rx_alternatives n) > 1
      then bind_ro (disjunction_loop locs part (cal_nesting c) (rx_alternatives n) c)
        (\<lambda>c'. return_ro (c'\<lparr>cal_nesting := cal_nesting c' + 1\<rparr>))
      else return_ro c)"

definition onDisjunctionLeave :: "rx_node \<Rightarrow> complexity_calculator \<Rightarrow> complexity_calculator" where
  "onDisjunctionLeave n c =
     (if length (rx_alternatives n) > 1 then c\<lparr>cal_nesting := cal_nesting c - 1\<rparr> else c)"

definition deeper :: "complexity_calculator \<Rightarrow> complexity_calculator" where
  "deeper c = c\<lparr>cal_nesting := cal_nesting c + 1\<rparr>"

definition lookaround :: "string \<Rightarrow> bool" where
  "lookaround kind \<longleftrightarrow> kind = ''lookahead'' \<or> kind = ''lookbehind''"

definition rx_enter ::
  "(int \<Rightarrow> position) \<Rightarrow> node \<Rightarrow> rx_node \<Rightarrow> complexity_calculator \<Rightarrow> complexity_calculator ro" where
  "rx_enter locs part n c =
     (case rx_type n of
        RxAssertion kind \<Rightarrow>
          if lookaround kind then
            bind_ro (getRegexpRange part (rx_position n)) (\<lambda>(s, e).
            bind_ro (increaseComplexity locs part (cal_nesting c) (rx_position n)
                (0, - (e - s - 1) + (if kind = ''lookahead'' then 2 else 3)) c) (\<lambda>c'.
              onDisjunctionEnter locs part n (deeper c')))
          else return_ro c
      | RxBackreference \<Rightarrow> increaseComplexity locs part 1 (rx_position n) (0, 0) c
      | RxCharacterClass \<Rightarrow>
          bind_ro (getRegexpRange part (rx_position n)) (\<lambda>(s, e).
          bind_ro (increaseComplexity locs part 1 (rx_position n) (0, - (e - s - 1)) c) (\<lambda>c'. return_ro (deeper c')))
      | RxQuantifier \<Rightarrow>
          bind_ro (getRegexpRange part (rx_position n)) (\<lambda>(s, _).
          bind_ro (getRegexpRange part (rx_element n)) (\<lambda>(_, e).
          bind_ro (increaseComplexity locs part (cal_nesting c) (rx_position n) (e - s, 0) c) (\<lambda>c'.
            return_ro (deeper c'))))
      | RxOther \<Rightarrow> return_ro c
      | _ \<Rightarrow> onDisjunctionEnter locs part n c)"

definition rx_leave :: "rx_node \<Rightarrow> complexity_calculator \<Rightarrow> complexity_calculator" where
  "rx_leave n c =
     (case rx_type n of
        RxAssertion kind \<Rightarrow>
          if lookaround kind then (onDisjunctionLeave n c)\<lparr>cal_nesting := cal_nesting (onDisjunctionLeave n c) - 1\<rparr> else c
      | RxBackreference \<Rightarrow> c
      | RxCharacterClass \<Rightarrow> c\<lparr>cal_nesting := cal_nesting c - 1\<rparr>
      | RxQuantifier \<Rightarrow> c\<lparr>cal_nesting := cal_nesting c - 1\<rparr>
      | RxOther \<Rightarrow> c
      | _ \<Rightarrow> onDisjunctionLeave n c)"

fun rx_listener ::
  "(int \<Rightarrow> position) \<Rightarrow> node \<Rightarrow> rx_event \<Rightarrow> complexity_calculator \<Rightarrow> complexity_calculator ro" where
  "rx_listener locs part (RxEnter n) c = rx_enter locs part n c"
| "rx_listener locs part (RxLeave n) c = return_ro (rx_leave n c)"

fun fold_ro :: "('a \<Rightarrow> 's \<Rightarrow> 's ro) \<Rightarrow> 'a list \<Rightarrow> 's \<Rightarrow> 's ro" where
  "fold_ro f [] s = return_ro s"
| "fold_ro f (x # xs) s = bind_ro (f x s) (fold_ro f xs)"

definition calculator_visit ::
  "(int \<Rightarrow> position) \<Rightarrow> node \<Rightarrow> rx_walk option \<Rightarrow> complexity_calculator ro" where
  "calculator_visit locs part regexPartAST =
     (case regexPartAST of
        None \<Rightarrow> return_ro new_ComplexityCalculator
      | Some w \<Rightarrow> fold_ro (rx_listener locs part) (rx_events w) new_ComplexityCalculator)"

section \<open>Finding the parts\<close>

text \<open>
  The methods \<^verbatim>\<open>find\<close> and \<^verbatim>\<open>findInStringConcatenation\<close>, told apart by a flag: the parts they push and, for the
  second one, the literals. Writes of variables are followed for ever on a cycle.
\<close>

partial_function (option) find_parts :: "rule_context \<Rightarrow> bool \<Rightarrow> node \<Rightarrow> (node list list \<times> node list) option" where
  "find_parts ctx inConcatenation n =
     (if inConcatenation \<and> isStringLiteral n then Some ([], [n])
      else if inConcatenation \<and> isBinaryPlus n then
        Option.bind (find_parts ctx True (fld n ''left'')) (\<lambda>(leftParts, leftLiterals).
        Option.bind (find_parts ctx True (fld n ''right'')) (\<lambda>(rightParts, rightLiterals).
          Some (leftParts @ rightParts, leftLiterals @ rightLiterals)))
      else if isRegExpConstructor n then find_parts ctx False (args_of n ! 0)
      else if isRegexLiteral n \<or> isStringLiteral n \<or> isStaticTemplateLiteral n then Some ([[n]], [])
      else if isIdentifier n [] then
        (case usage_of ctx n of None \<Rightarrow> Some ([], []) | Some initializer \<Rightarrow> find_parts ctx False initializer)
      else if isBinaryPlus n then
        Option.bind (find_parts ctx True (fld n ''left'')) (\<lambda>(leftParts, leftLiterals).
        Option.bind (find_parts ctx True (fld n ''right'')) (\<lambda>(rightParts, rightLiterals).
          let literals = leftLiterals @ rightLiterals in
          Some (leftParts @ rightParts @ (if length literals > 0 then [literals] else []), [])))
      else Some ([], []))"

declare find_parts.simps [code]

definition findRegexParts :: "rule_context \<Rightarrow> node \<Rightarrow> node list list option" where
  "findRegexParts ctx n = map_option fst (find_parts ctx False n)"

section \<open>The rule\<close>

definition simplify_message :: "int \<Rightarrow> int \<Rightarrow> string" where
  "simplify_message complexity threshold =
     ''Simplify this regular expression to reduce its complexity from '' @ show_int complexity @
     '' to the '' @ show_int threshold @ '' allowed.''"

definition calculate ::
  "('r, rx_walk) regex_world \<Rightarrow> rule_context \<Rightarrow> node \<Rightarrow> complexity_calculator ro" where
  "calculate w ctx part =
     bind_ro (run_ro (getParsedRegex (rw_new_RegExp w) (rw_parse w) (rw_parent w) ctx part))
       (calculator_visit (rw_getLocFromIndex w) part)"

fun sum_parts ::
  "('r, rx_walk) regex_world \<Rightarrow> rule_context \<Rightarrow> node list \<Rightarrow> (int \<times> (source_loc option \<times> string) list) ro" where
  "sum_parts w ctx [] = return_ro (0, [])"
| "sum_parts w ctx (part # parts) =
     bind_ro (calculate w ctx part) (\<lambda>c.
     bind_ro (sum_parts w ctx parts) (\<lambda>(complexity, components).
       return_ro (cal_complexity c + complexity, cal_components c @ components)))"

definition report_parts ::
  "('r, rx_walk) regex_world \<Rightarrow> rule_context \<Rightarrow> int \<Rightarrow> node list \<Rightarrow> encoded_report list ro" where
  "report_parts w ctx threshold parts =
     bind_ro (sum_parts w ctx parts) (\<lambda>(complexity, components).
       if complexity > threshold
       then bind_ro (Some (toEncodedMessage (simplify_message complexity threshold) (map fst components)
             (Some (map (Some \<circ> snd) components)) (Some (complexity - threshold))))
           (\<lambda>message. return_ro [EncodedReport (parts ! 0) message])
       else return_ro [])"

definition checkRegexComplexity ::
  "('r, rx_walk) regex_world \<Rightarrow> rule_context \<Rightarrow> int \<Rightarrow> node \<Rightarrow> encoded_report list ro" where
  "checkRegexComplexity w ctx threshold n =
     bind_ro (run_ro (findRegexParts ctx n)) (concat_ro (report_parts w ctx threshold))"

datatype regex_complexity_event = RegexLiteralExit node | NewExpressionExit node | CallExpressionExit node

fun rc_listener :: "('r, rx_walk) regex_world \<Rightarrow> regex_complexity_event \<Rightarrow> node list \<Rightarrow> node list" where
  "rc_listener w (RegexLiteralExit n) regexNodes = regexNodes @ [n]"
| "rc_listener w (NewExpressionExit n) regexNodes = (if isRegExpConstructor n then regexNodes @ [n] else regexNodes)"
| "rc_listener w (CallExpressionExit n) regexNodes =
     (if (case rw_isString w of None \<Rightarrow> False | Some isString \<Rightarrow> isStringRegexMethodCall isString n)
      then regexNodes @ [args_of n ! 0]
      else if isRegExpConstructor n then regexNodes @ [n] else regexNodes)"

definition rc_run ::
  "('r, rx_walk) regex_world \<Rightarrow> rule_context \<Rightarrow> int option \<Rightarrow> regex_complexity_event list \<Rightarrow> encoded_report list ro" where
  "rc_run w ctx option events =
     (let threshold = (case option of Some t \<Rightarrow> t | None \<Rightarrow> 20) in
      concat_ro (checkRegexComplexity w ctx threshold) (fold (rc_listener w) events []))"

section \<open>Complexity by recursion on the pattern\<close>

text \<open>
  The increments of a pattern, in the order of their secondary locations: the first bar of a
  disjunction, a repetition and a lookaround count one more for each level they are nested in, all
  else counts one; disjunctions, repetitions, lookarounds and character classes nest what they contain.
\<close>

definition disjunction_increments :: "int \<Rightarrow> rx_node \<Rightarrow> int list" where
  "disjunction_increments nesting n =
     (if length (rx_alternatives n) > 1 then nesting # replicate (length (rx_alternatives n) - 2) 1 else [])"

definition disjunction_depth :: "rx_node \<Rightarrow> int" where
  "disjunction_depth n = (if length (rx_alternatives n) > 1 then 1 else 0)"

definition own_increments :: "int \<Rightarrow> rx_node \<Rightarrow> int list" where
  "own_increments nesting n =
     (case rx_type n of
        RxAssertion kind \<Rightarrow> if lookaround kind then nesting # disjunction_increments (nesting + 1) n else []
      | RxBackreference \<Rightarrow> [1]
      | RxCharacterClass \<Rightarrow> [1]
      | RxQuantifier \<Rightarrow> [nesting]
      | RxOther \<Rightarrow> []
      | _ \<Rightarrow> disjunction_increments nesting n)"

definition own_depth :: "rx_node \<Rightarrow> int" where
  "own_depth n =
     (case rx_type n of
        RxAssertion kind \<Rightarrow> if lookaround kind then 1 + disjunction_depth n else 0
      | RxBackreference \<Rightarrow> 0
      | RxCharacterClass \<Rightarrow> 1
      | RxQuantifier \<Rightarrow> 1
      | RxOther \<Rightarrow> 0
      | _ \<Rightarrow> disjunction_depth n)"

fun increments :: "int \<Rightarrow> rx_walk \<Rightarrow> int list" where
  "increments nesting (RxWalk n cs) =
     own_increments nesting n @ concat (map (increments (nesting + own_depth n)) cs)"

text \<open>Positions inside a part can be computed: always so for regular expression literals.\<close>

definition locatable :: "(int \<Rightarrow> position) \<Rightarrow> node \<Rightarrow> bool" where
  "locatable locs part \<longleftrightarrow> (\<forall>rn. \<exists>r. getRegexpRange part rn = return_ro r) \<and>
     (\<forall>rn offset. \<exists>loc. getRegexpLocation locs part rn offset = return_ro loc)"

lemma regex_literal_locatable:
  assumes "isRegexLiteral part" "node_range part \<noteq> None"
  shows "locatable locs part"
  using assms by (auto simp: locatable_def getRegexpRange_def getRegexpLocation_def return_ro_def)

text \<open>From one calculator to another: the increments made, and the change of the nesting.\<close>

definition grown :: "complexity_calculator \<Rightarrow> int list \<Rightarrow> int \<Rightarrow> complexity_calculator ro \<Rightarrow> bool" where
  "grown c incs d r \<longleftrightarrow> (\<exists>c' ls. r = return_ro c' \<and> cal_nesting c' = cal_nesting c + d \<and>
     cal_complexity c' = cal_complexity c + sum_list incs \<and>
     cal_components c' = cal_components c @ ls \<and> map snd ls = map increment_message incs)"

lemma grown_bind:
  assumes "grown c incs d r" "\<And>c'. r = return_ro c' \<Longrightarrow> cal_nesting c' = cal_nesting c + d \<Longrightarrow> grown c' incs' d' (f c')"
  shows "grown c (incs @ incs') (d + d') (bind_ro r f)"
proof -
  from assms(1) obtain c' ls where c': "r = return_ro c'" "cal_nesting c' = cal_nesting c + d"
    "cal_complexity c' = cal_complexity c + sum_list incs" "cal_components c' = cal_components c @ ls"
    "map snd ls = map increment_message incs" by (auto simp: grown_def)
  from assms(2) [OF c'(1,2)] obtain c'' ls' where "f c' = return_ro c''" "cal_nesting c'' = cal_nesting c' + d'"
    "cal_complexity c'' = cal_complexity c' + sum_list incs'" "cal_components c'' = cal_components c' @ ls'"
    "map snd ls' = map increment_message incs'" by (auto simp: grown_def)
  with c' show ?thesis by (auto simp: grown_def intro!: exI [of _ c''] exI [of _ "ls @ ls'"])
qed

lemma grown_return: "grown c [] 0 (return_ro c)"
  by (simp add: grown_def)

lemma grown_deeper: "grown c [] 1 (return_ro (deeper c))"
  by (simp add: grown_def deeper_def)

lemma increase_grown:
  assumes "locatable locs part"
  shows "grown c [i] 0 (increaseComplexity locs part i rn offset c)"
proof -
  from assms obtain loc where "getRegexpLocation locs part rn offset = return_ro loc"
    unfolding locatable_def by blast
  then show ?thesis by (auto simp: increaseComplexity_def grown_def)
qed

lemma grown_range:
  assumes "locatable locs part" "\<And>s e. grown c incs d (f (s, e))"
  shows "grown c incs d (bind_ro (getRegexpRange part rn) f)"
proof -
  from assms(1) obtain s e where "getRegexpRange part rn = return_ro (s, e)" by (fastforce simp: locatable_def)
  with assms(2) show ?thesis by simp
qed

lemma disjunction_loop_grown:
  assumes "locatable locs part"
  shows "grown c (i # replicate (length rest) 1) 0 (disjunction_loop locs part i (a # b # rest) c)"
proof (induction rest arbitrary: a b i c)
  case Nil
  have "grown c ([i] @ []) (0 + 0) (bind_ro (increaseComplexity locs part i b (- 1, - (e - s)) c)
      (disjunction_loop locs part 1 [b]))" for s e
    using assms by (intro grown_bind increase_grown) (simp_all add: grown_return)
  then show ?case using assms by (auto intro: grown_range)
next
  case (Cons r rest)
  have "grown c ([i] @ (1 # replicate (length rest) 1)) (0 + 0)
      (bind_ro (increaseComplexity locs part i b (- 1, - (e - s)) c) (disjunction_loop locs part 1 (b # r # rest)))" for s e
    using assms Cons by (intro grown_bind increase_grown)
  then show ?case using assms by (auto intro: grown_range)
qed

lemma onDisjunctionEnter_grown:
  assumes "locatable locs part"
  shows "grown c (disjunction_increments (cal_nesting c) n) (disjunction_depth n) (onDisjunctionEnter locs part n c)"
proof (cases "length (rx_alternatives n) > 1")
  case True
  then obtain a b rest where alts: "rx_alternatives n = a # b # rest"
    by (cases "rx_alternatives n"; cases "tl (rx_alternatives n)") auto
  have "grown c ((cal_nesting c # replicate (length rest) 1) @ []) (0 + 1)
      (bind_ro (disjunction_loop locs part (cal_nesting c) (a # b # rest) c) (\<lambda>c'. return_ro (c'\<lparr>cal_nesting := cal_nesting c' + 1\<rparr>)))"
    unfolding deeper_def [symmetric] by (intro grown_bind disjunction_loop_grown assms grown_deeper)
  with alts show ?thesis
    by (simp add: onDisjunctionEnter_def disjunction_increments_def disjunction_depth_def)
qed (simp add: onDisjunctionEnter_def disjunction_increments_def disjunction_depth_def grown_return)

lemma assertion_grown:
  assumes "locatable locs part"
  shows "grown c (cal_nesting c # disjunction_increments (cal_nesting c + 1) n) (1 + disjunction_depth n)
    (bind_ro (increaseComplexity locs part (cal_nesting c) rn offset c) (\<lambda>c'. onDisjunctionEnter locs part n (deeper c')))"
proof -
  have inner: "grown c' (disjunction_increments (cal_nesting c + 1) n) (1 + disjunction_depth n)
      (onDisjunctionEnter locs part n (deeper c'))" if "cal_nesting c' = cal_nesting c + 0" for c'
    using onDisjunctionEnter_grown [OF assms, of "deeper c'" n] that by (auto simp: grown_def deeper_def)
  have "grown c ([cal_nesting c] @ disjunction_increments (cal_nesting c + 1) n) (0 + (1 + disjunction_depth n))
    (bind_ro (increaseComplexity locs part (cal_nesting c) rn offset c) (\<lambda>c'. onDisjunctionEnter locs part n (deeper c')))"
    by (intro grown_bind increase_grown assms inner)
  then show ?thesis by simp
qed

lemma nested_grown:
  assumes "locatable locs part"
  shows "grown c [i] 1 (bind_ro (increaseComplexity locs part i rn offset c) (\<lambda>c'. return_ro (deeper c')))"
proof -
  have "grown c ([i] @ []) (0 + 1) (bind_ro (increaseComplexity locs part i rn offset c) (\<lambda>c'. return_ro (deeper c')))"
    using assms by (intro grown_bind increase_grown grown_deeper)
  then show ?thesis by simp
qed

lemma rx_enter_grown:
  assumes "locatable locs part"
  shows "grown c (own_increments (cal_nesting c) n) (own_depth n) (rx_enter locs part n c)"
  using assms
  by (cases "rx_type n")
    (auto simp: rx_enter_def own_increments_def own_depth_def grown_return
      intro!: grown_range [OF assms] assertion_grown nested_grown onDisjunctionEnter_grown increase_grown)

lemma rx_leave_depth: "rx_leave n c = c\<lparr>cal_nesting := cal_nesting c - own_depth n\<rparr>"
  by (cases "rx_type n") (simp_all add: rx_leave_def own_depth_def onDisjunctionLeave_def disjunction_depth_def)

lemma fold_ro_append: "fold_ro f (xs @ ys) s = bind_ro (fold_ro f xs s) (fold_ro f ys)"
proof (induction xs arbitrary: s)
  case (Cons x xs)
  then show ?case by (cases "f x s") (auto simp: bind_ro_def split: sum.split)
qed simp

lemma bind_ro_return [simp]: "bind_ro m return_ro = m"
  by (cases m) (auto simp: bind_ro_def return_ro_def split: sum.split)

lemma fold_ro_leaf: "fold_ro (rx_listener locs part) [RxLeave n] = (\<lambda>c. return_ro (rx_leave n c))"
  by (simp add: fun_eq_iff)

lemma fold_ro_children:
  assumes "\<And>w c. w \<in> set cs \<Longrightarrow> grown c (increments (cal_nesting c) w) 0 (fold_ro f (rx_events w) c)"
  shows "grown c (concat (map (increments (cal_nesting c)) cs)) 0 (fold_ro f (concat (map rx_events cs)) c)"
  using assms
proof (induction cs arbitrary: c)
  case (Cons w cs)
  have "grown c (increments (cal_nesting c) w @ concat (map (increments (cal_nesting c)) cs)) (0 + 0)
      (bind_ro (fold_ro f (rx_events w) c) (fold_ro f (concat (map rx_events cs))))"
    using Cons by (intro grown_bind) (auto, metis)
  then show ?case by (simp add: fold_ro_append)
qed (simp add: grown_return)

lemma rx_walk_grown:
  assumes "locatable locs part"
  shows "grown c (increments (cal_nesting c) w) 0 (fold_ro (rx_listener locs part) (rx_events w) c)"
proof (induction w arbitrary: c)
  case (RxWalk n cs)
  let ?f = "rx_listener locs part" and ?d = "own_depth n"
  have leave: "grown c' [] (- ?d) (return_ro (rx_leave n c'))" for c'
    by (simp add: grown_def rx_leave_depth)
  have children: "grown c' (concat (map (increments (cal_nesting c + ?d)) cs) @ []) (0 + - ?d)
      (bind_ro (fold_ro ?f (concat (map rx_events cs)) c') (\<lambda>c''. return_ro (rx_leave n c'')))"
    if "cal_nesting c' = cal_nesting c + ?d" for c'
    using fold_ro_children [of cs ?f c'] RxWalk that leave by (intro grown_bind) auto
  have "grown c (own_increments (cal_nesting c) n @ (concat (map (increments (cal_nesting c + ?d)) cs) @ [])) (?d + (0 + - ?d))
      (bind_ro (rx_enter locs part n c) (\<lambda>c'. bind_ro (fold_ro ?f (concat (map rx_events cs)) c') (\<lambda>c''. return_ro (rx_leave n c''))))"
    by (intro grown_bind rx_enter_grown assms children)
  moreover have "fold_ro ?f (rx_events (RxWalk n cs)) c =
      bind_ro (rx_enter locs part n c) (\<lambda>c'. bind_ro (fold_ro ?f (concat (map rx_events cs)) c') (\<lambda>c''. return_ro (rx_leave n c'')))"
    by (simp add: fold_ro_append [abs_def] fold_ro_leaf)
  ultimately show ?case by simp
qed

text \<open>
  The calculator on a regular expression literal returns for every pattern; it leaves the nesting as
  it found it, and its complexity is the sum of the increments of the pattern, which are those
  that its secondary locations announce.
\<close>

lemma calculator_correct:
  assumes "isRegexLiteral part" "node_range part \<noteq> None"
  shows "\<exists>c. calculator_visit locs part (Some w) = return_ro c \<and> cal_nesting c = 1 \<and>
    cal_complexity c = sum_list (increments 1 w) \<and>
    map snd (cal_components c) = map increment_message (increments 1 w)"
  using rx_walk_grown [OF regex_literal_locatable [OF assms], of new_ComplexityCalculator w locs]
  by (auto simp: grown_def calculator_visit_def new_ComplexityCalculator_def)

text \<open>Every increment counts at least one.\<close>

lemma increments_positive: "1 \<le> nesting \<Longrightarrow> \<forall>i \<in> set (increments nesting w). 1 \<le> i"
proof (induction nesting w rule: increments.induct)
  case (1 nesting n cs)
  have depth: "0 \<le> own_depth n" by (simp add: own_depth_def disjunction_depth_def split: rx_type.split)
  have "\<forall>i \<in> set (own_increments nesting n). 1 \<le> i"
    using 1(2) by (auto simp: own_increments_def disjunction_increments_def split: rx_type.split)
  with 1 depth show ?case by fastforce
qed

text \<open>
  Whether the parts of an expression are ever found: for ever on a variable whose only write refers to it.
\<close>

lemma find_parts_diverges:
  assumes "isIdentifier n []" "\<not> isRegExpConstructor n" "\<not> isRegexLiteral n" "\<not> isStringLiteral n"
    "\<not> isStaticTemplateLiteral n" "usage_of ctx n = Some n"
  shows "find_parts ctx False n = None"
proof -
  have never: "\<not> (inC = False \<and> m = n \<and> c = ctx)" if "find_parts c inC m = Some r" for c inC m r
    using that
  proof (rule find_parts.raw_induct [rotated])
    fix find c inC m r
    assume IH: "\<And>c inC m r. find c inC m = Some r \<Longrightarrow> \<not> (inC = False \<and> m = n \<and> c = ctx)"
      and r: "(if inC \<and> isStringLiteral m then Some ([], [m])
        else if inC \<and> isBinaryPlus m then
          Option.bind (find c True (fld m ''left'')) (\<lambda>(leftParts, leftLiterals).
          Option.bind (find c True (fld m ''right'')) (\<lambda>(rightParts, rightLiterals).
            Some (leftParts @ rightParts, leftLiterals @ rightLiterals)))
        else if isRegExpConstructor m then find c False (args_of m ! 0)
        else if isRegexLiteral m \<or> isStringLiteral m \<or> isStaticTemplateLiteral m then Some ([[m]], [])
        else if isIdentifier m [] then
          (case usage_of c m of None \<Rightarrow> Some ([], []) | Some initializer \<Rightarrow> find c False initializer)
        else if isBinaryPlus m then
          Option.bind (find c True (fld m ''left'')) (\<lambda>(leftParts, leftLiterals).
          Option.bind (find c True (fld m ''right'')) (\<lambda>(rightParts, rightLiterals).
            let literals = leftLiterals @ rightLiterals in
            Some (leftParts @ rightParts @ (if length literals > 0 then [literals] else []), [])))
        else Some ([], [])) = Some r"
    show "\<not> (inC = False \<and> m = n \<and> c = ctx)"
    proof
      assume "inC = False \<and> m = n \<and> c = ctx"
      with r assms have "find ctx False n = Some r" by simp
      with IH show False by blast
    qed
  qed
  show ?thesis
  proof (cases "find_parts ctx False n")
    case (Some r)
    from never [OF Some] show ?thesis by simp
  qed
qed

end
