(* ===== verification/Loop_Rules.thy ===== *)
theory Loop_Rules
  imports Issues Ast_Helpers
begin

text \<open>
  Two rules on the headers of \<^verbatim>\<open>for\<close> loops: counters that move away from the stop condition
  (\<^verbatim>\<open>src/linting/eslint/rules/for-loop-increment-sign.ts\<close>) and equality operators in it
  (\<^verbatim>\<open>no-equals-in-for-termination.ts\<close>), with the meaning of the loops they are about: a loop the first one
  reports never stops, and a loop the second one exempts does, when it counts in integers.
\<close>

section \<open>Numbers from text\<close>

text \<open>
  \<^verbatim>\<open>Number(text)\<close> of the standard library, exact, with \<open>None\<close> for \<^verbatim>\<open>NaN\<close>: decimals with fraction and
  exponent, and the prefixes of the other bases. Literals are never infinite.
\<close>

definition digits_number :: "nat \<Rightarrow> string \<Rightarrow> rat option" where
  "digits_number base s =
     (if s \<noteq> [] \<and> list_all (\<lambda>c. case hex_val c of Some d \<Rightarrow> d < base | None \<Rightarrow> False) s
      then Some (of_nat (foldl (\<lambda>n c. n * base + the (hex_val c)) 0 s)) else None)"

definition optional_digits :: "string \<Rightarrow> rat option" where
  "optional_digits s = (if s = [] then Some 0 else digits_number 10 s)"

definition exponent_number :: "string \<Rightarrow> rat option" where
  "exponent_number s =
     (case s of
        [] \<Rightarrow> Some 1
      | _ # t \<Rightarrow>
          if take 1 t = ''-'' then map_option (\<lambda>e. 1 / 10 ^ nat \<lfloor>e\<rfloor>) (digits_number 10 (drop 1 t))
          else map_option (\<lambda>e. 10 ^ nat \<lfloor>e\<rfloor>) (digits_number 10 (if take 1 t = ''+'' then drop 1 t else t)))"

definition decimal_number :: "string \<Rightarrow> rat option" where
  "decimal_number s =
     (let mantissa = takeWhile (\<lambda>c. c \<noteq> CHR ''e'' \<and> c \<noteq> CHR ''E'') s;
          whole = takeWhile (\<lambda>c. c \<noteq> CHR ''.'') mantissa;
          fraction = drop (Suc (length whole)) mantissa in
      if whole = [] \<and> fraction = [] then None
      else case (optional_digits whole, optional_digits fraction, exponent_number (drop (length mantissa) s)) of
             (Some w, Some f, Some e) \<Rightarrow> Some ((w + f / 10 ^ length fraction) * e)
           | _ \<Rightarrow> None)"

definition to_number :: "string \<Rightarrow> rat option" where
  "to_number raw =
     (let s = trim raw in
      if s = [] then Some 0
      else if take 2 s \<in> {''0x'', ''0X''} then digits_number 16 (drop 2 s)
      else if take 2 s \<in> {''0o'', ''0O''} then digits_number 8 (drop 2 s)
      else if take 2 s \<in> {''0b'', ''0B''} then digits_number 2 (drop 2 s)
      else if take 1 s = ''-'' then map_option uminus (decimal_number (drop 1 s))
      else decimal_number (if take 1 s = ''+'' then drop 1 s else s))"

lemma to_number_examples:
  "to_number ''12'' = Some 12" "to_number ''1.5e1'' = Some 15" "to_number ''0x1F'' = Some 31" "to_number ''.5'' = Some (1/2)"
  "to_number ''1_000'' = None" "to_number [CHR 0x27, CHR ''1'', CHR 0x27] = None"
  by code_simp+

section \<open>Counters that move away\<close>

record for_loop_increment =
  fi_increment :: node
  fi_identifier :: node
  fi_direction :: int

definition isSameIdentifier :: "node \<Rightarrow> node \<Rightarrow> bool" where
  "isSameIdentifier expression identifier \<longleftrightarrow>
     is_type expression ''Identifier'' \<and> fld expression ''name'' = fld identifier ''name''"

function directionFromValue :: "node \<Rightarrow> int" where
  "directionFromValue expression =
     (if is_type expression ''Literal'' then
        (case fld expression ''raw'' of
           JStr raw \<Rightarrow> (case to_number raw of None \<Rightarrow> 0 | Some v \<Rightarrow> if v = 0 then 0 else if v > 0 then 1 else -1)
         | _ \<Rightarrow> 0)
      else if is_type expression ''UnaryExpression'' then
        if fld expression ''operator'' = JStr ''+'' then directionFromValue (fld expression ''argument'')
        else if fld expression ''operator'' = JStr ''-'' then - directionFromValue (fld expression ''argument'')
        else 0
      else 0)"
  by pat_completeness auto

lemma argument_smaller: "is_type n t \<Longrightarrow> size (fld n k) < size n"
proof -
  assume "is_type n t"
  then obtain i r l fs where n: "n = JObj i r l fs" by (cases n) (simp_all add: is_type_def)
  show ?thesis
  proof (cases "fld n k = JUndefined")
    case True
    then show ?thesis by (simp add: n)
  qed (rule size_fld_less)
qed

termination directionFromValue
  by (relation "measure size") (auto intro: argument_smaller)

declare directionFromValue.simps [simp del]

definition fi_of :: "node \<Rightarrow> node \<Rightarrow> int \<Rightarrow> for_loop_increment option" where
  "fi_of increment expression direction =
     (if is_type expression ''Identifier''
      then Some \<lparr>fi_increment = increment, fi_identifier = expression, fi_direction = direction\<rparr> else None)"

text \<open>A missing \<^verbatim>\<open>raw\<close> has no direction either: \<^verbatim>\<open>directionFromValue\<close> is never \<^verbatim>\<open>null\<close>.\<close>

definition assignmentIncrement :: "node \<Rightarrow> for_loop_increment option" where
  "assignmentIncrement assignmentExpression =
     (let lhs = fld assignmentExpression ''left''; rhs = fld assignmentExpression ''right'';
          operator = fld rhs ''operator'' in
      if is_type lhs ''Identifier'' \<and> is_type rhs ''BinaryExpression'' \<and> (operator = JStr ''+'' \<or> operator = JStr ''-'')
         \<and> isSameIdentifier (fld rhs ''left'') lhs
      then let d = directionFromValue (fld rhs ''right'') in
        fi_of assignmentExpression lhs (if operator = JStr ''-'' then - d else d)
      else None)"

definition findInLoopUpdate :: "node \<Rightarrow> for_loop_increment option" where
  "findInLoopUpdate forStatement =
     (let e = fld forStatement ''update''; operator = fld e ''operator''; left = fld e ''left'' in
      if \<not> truthy e then None
      else if is_type e ''UpdateExpression'' then
        fi_of e (fld e ''argument'') (if operator = JStr ''++'' then 1 else -1)
      else if is_type e ''AssignmentExpression'' then
        if operator = JStr ''+='' \<and> is_type left ''Identifier'' then fi_of e left (directionFromValue (fld e ''right''))
        else if operator = JStr ''-='' \<and> is_type left ''Identifier'' then fi_of e left (- directionFromValue (fld e ''right''))
        else if operator = JStr ''='' then assignmentIncrement e
        else None
      else None)"

definition getWrongDirection :: "node \<Rightarrow> for_loop_increment \<Rightarrow> int" where
  "getWrongDirection condition increment =
     (let operator = fld condition ''operator'';
          less = (operator = JStr ''<'' \<or> operator = JStr ''<='');
          greater = (operator = JStr ''>'' \<or> operator = JStr ''>='') in
      if \<not> is_type condition ''BinaryExpression'' then 0
      else if isSameIdentifier (fld condition ''left'') (fi_identifier increment)
        then (if less then -1 else if greater then 1 else 0)
      else if isSameIdentifier (fld condition ''right'') (fi_identifier increment)
        then (if less then 1 else if greater then -1 else 0)
      else 0)"

definition increment_sign_message :: "for_loop_increment \<Rightarrow> string" where
  "increment_sign_message increment =
     CHR 0x22 # (case fld (fi_identifier increment) ''name'' of JStr s \<Rightarrow> s | _ \<Rightarrow> ''undefined'') @ CHR 0x22 #
     '' is '' @ (if fi_direction increment > 0 then ''incremented'' else ''decremented'') @
     '' and will never reach its stop condition.''"

definition increment_sign :: "node \<Rightarrow> (string \<times> node) list res" where
  "increment_sign forStatement =
     (let test = fld forStatement ''test'' in
      case findInLoopUpdate forStatement of
        None \<Rightarrow> Inr []
      | Some increment \<Rightarrow>
          if nullish test \<or> nullish (fld forStatement ''update'') then Inr []
          else let wrongDirection = getWrongDirection test increment in
            if wrongDirection \<noteq> 0 \<and> wrongDirection = fi_direction increment
            then bind_res (toEncodedMessage (increment_sign_message increment) [node_loc test] None None)
              (\<lambda>message. Inr [(message, fld forStatement ''update'')])
            else Inr [])"

subsection \<open>What such a loop does\<close>

text \<open>
  The value of a step, when it is a number with signs; what an update adds to a counter; and what a
  comparison says of a counter and the other side, which the loop leaves alone.
\<close>

function step_value :: "node \<Rightarrow> rat option" where
  "step_value e =
     (if is_type e ''Literal'' then (case fld e ''raw'' of JStr raw \<Rightarrow> to_number raw | _ \<Rightarrow> None)
      else if is_type e ''UnaryExpression'' then
        if fld e ''operator'' = JStr ''+'' then step_value (fld e ''argument'')
        else if fld e ''operator'' = JStr ''-'' then map_option uminus (step_value (fld e ''argument''))
        else None
      else None)"
  by pat_completeness auto
termination
  by (relation "measure size") (auto intro: argument_smaller)

declare step_value.simps [simp del]

inductive adds :: "node \<Rightarrow> jsval \<Rightarrow> rat \<Rightarrow> bool" where
  adds_plus_plus: "is_type e ''UpdateExpression'' \<Longrightarrow> fld e ''operator'' = JStr ''++'' \<Longrightarrow>
    is_type (fld e ''argument'') ''Identifier'' \<Longrightarrow> adds e (fld (fld e ''argument'') ''name'') 1"
| adds_minus_minus: "is_type e ''UpdateExpression'' \<Longrightarrow> fld e ''operator'' \<noteq> JStr ''++'' \<Longrightarrow>
    is_type (fld e ''argument'') ''Identifier'' \<Longrightarrow> adds e (fld (fld e ''argument'') ''name'') (-1)"
| adds_assign: "is_type e ''AssignmentExpression'' \<Longrightarrow> is_type (fld e ''left'') ''Identifier'' \<Longrightarrow>
    step_value (fld e ''right'') = Some d \<Longrightarrow> fld e ''operator'' = JStr ''+='' \<Longrightarrow>
    adds e (fld (fld e ''left'') ''name'') d"
| subtracts_assign: "is_type e ''AssignmentExpression'' \<Longrightarrow> is_type (fld e ''left'') ''Identifier'' \<Longrightarrow>
    step_value (fld e ''right'') = Some d \<Longrightarrow> fld e ''operator'' = JStr ''-='' \<Longrightarrow>
    adds e (fld (fld e ''left'') ''name'') (- d)"
| adds_sum: "is_type e ''AssignmentExpression'' \<Longrightarrow> is_type (fld e ''left'') ''Identifier'' \<Longrightarrow> fld e ''operator'' = JStr ''='' \<Longrightarrow>
    is_type (fld e ''right'') ''BinaryExpression'' \<Longrightarrow> isSameIdentifier (fld (fld e ''right'') ''left'') (fld e ''left'') \<Longrightarrow>
    step_value (fld (fld e ''right'') ''right'') = Some d \<Longrightarrow>
    (fld (fld e ''right'') ''operator'' = JStr ''+'' \<and> d' = d \<or> fld (fld e ''right'') ''operator'' = JStr ''-'' \<and> d' = - d) \<Longrightarrow>
    adds e (fld (fld e ''left'') ''name'') d'"

definition compares :: "jsval \<Rightarrow> rat \<Rightarrow> rat \<Rightarrow> bool" where
  "compares operator a b \<longleftrightarrow>
     operator = JStr ''<'' \<and> a < b \<or> operator = JStr ''<='' \<and> a \<le> b \<or>
     operator = JStr ''>'' \<and> a > b \<or> operator = JStr ''>='' \<and> a \<ge> b"

text \<open>The test for a counter of this name: with the counter on the left, else on the right.\<close>

definition test_holds :: "node \<Rightarrow> jsval \<Rightarrow> rat \<Rightarrow> rat \<Rightarrow> bool" where
  "test_holds condition name counter bound =
     (if is_type (fld condition ''left'') ''Identifier'' \<and> fld (fld condition ''left'') ''name'' = name
      then compares (fld condition ''operator'') counter bound
      else compares (fld condition ''operator'') bound counter)"

definition direction :: "rat \<Rightarrow> int" where
  "direction v = (if v = 0 then 0 else if v > 0 then 1 else -1)"

lemma directionFromValue_correct: "directionFromValue e = (case step_value e of None \<Rightarrow> 0 | Some v \<Rightarrow> direction v)"
proof (induction e rule: directionFromValue.induct)
  case (1 e)
  have neg: "direction (- v) = - direction v" for v :: rat by (simp add: direction_def)
  show ?case
    by (subst directionFromValue.simps, subst step_value.simps)
      (use 1 neg in \<open>auto simp: direction_def split: jsval.split option.split\<close>)
qed

lemma findInLoopUpdate_adds:
  assumes "findInLoopUpdate f = Some increment" "fi_direction increment \<noteq> 0"
  shows "\<exists>d. adds (fld f ''update'') (fld (fi_identifier increment) ''name'') d \<and> fi_direction increment = direction d"
proof -
  let ?e = "fld f ''update''"
  have val: "\<exists>d. step_value n = Some d \<and> directionFromValue n = direction d" if "directionFromValue n \<noteq> 0" for n
    using that by (auto simp: directionFromValue_correct split: option.splits)
  have neg: "- direction d = direction (- d)" for d :: rat by (simp add: direction_def)
  consider (update) "is_type ?e ''UpdateExpression''" | (assign) "is_type ?e ''AssignmentExpression''" "\<not> is_type ?e ''UpdateExpression''"
    using assms(1) by (auto simp: findInLoopUpdate_def Let_def split: if_splits)
  then show ?thesis
  proof cases
    case update
    with assms(1) have inc: "is_type (fld ?e ''argument'') ''Identifier''" "fi_identifier increment = fld ?e ''argument''"
      "fi_direction increment = (if fld ?e ''operator'' = JStr ''++'' then 1 else -1)"
      by (auto simp: findInLoopUpdate_def Let_def fi_of_def split: if_splits)
    have "direction 1 = 1" "direction (- 1) = - 1" by (simp_all add: direction_def)
    with update inc show ?thesis
      using adds_plus_plus [of ?e] adds_minus_minus [of ?e] by (cases "fld ?e ''operator'' = JStr ''++''") auto
  next
    case assign
    let ?r = "fld ?e ''right''"
    consider (plus) "fld ?e ''operator'' = JStr ''+=''" "is_type (fld ?e ''left'') ''Identifier''"
        "fi_identifier increment = fld ?e ''left''" "fi_direction increment = directionFromValue ?r"
      | (minus) "fld ?e ''operator'' = JStr ''-=''" "is_type (fld ?e ''left'') ''Identifier''"
        "fi_identifier increment = fld ?e ''left''" "fi_direction increment = - directionFromValue ?r"
      | (sum) "fld ?e ''operator'' = JStr ''=''" "assignmentIncrement ?e = Some increment"
      using assms(1) assign by (auto simp: findInLoopUpdate_def Let_def fi_of_def split: if_splits)
    then show ?thesis
    proof cases
      case plus
      with assms(2) val obtain d where "step_value ?r = Some d" "fi_direction increment = direction d" by metis
      with plus assign show ?thesis by (auto intro: adds_assign)
    next
      case minus
      with assms(2) val obtain d where "step_value ?r = Some d" "fi_direction increment = direction (- d)"
        by (metis neg neg_equal_0_iff_equal)
      with minus assign show ?thesis by (metis subtracts_assign)
    next
      case sum
      then have parts: "is_type (fld ?e ''left'') ''Identifier''" "is_type ?r ''BinaryExpression''"
        "isSameIdentifier (fld ?r ''left'') (fld ?e ''left'')" "fi_identifier increment = fld ?e ''left''"
        "fld ?r ''operator'' = JStr ''+'' \<and> fi_direction increment = directionFromValue (fld ?r ''right'') \<or>
         fld ?r ''operator'' = JStr ''-'' \<and> fi_direction increment = - directionFromValue (fld ?r ''right'')"
        by (auto simp: assignmentIncrement_def Let_def fi_of_def split: if_splits)
      with assms(2) val obtain d where d: "step_value (fld ?r ''right'') = Some d"
        "directionFromValue (fld ?r ''right'') = direction d" by (metis neg_equal_0_iff_equal)
      from parts(5) show ?thesis
      proof
        assume "fld ?r ''operator'' = JStr ''+'' \<and> fi_direction increment = directionFromValue (fld ?r ''right'')"
        with adds_sum [OF assign(1) parts(1) sum(1) parts(2,3) d(1), of d] parts(4) d(2) show ?thesis by auto
      next
        assume "fld ?r ''operator'' = JStr ''-'' \<and> fi_direction increment = - directionFromValue (fld ?r ''right'')"
        with adds_sum [OF assign(1) parts(1) sum(1) parts(2,3) d(1), of "- d"] parts(4) d(2) neg show ?thesis by auto
      qed
    qed
  qed
qed

lemma compares_keeps:
  "operator = JStr ''<'' \<or> operator = JStr ''<='' \<Longrightarrow> x \<le> 0 \<Longrightarrow> compares operator a b \<Longrightarrow> compares operator (a + x) b"
  "operator = JStr ''<'' \<or> operator = JStr ''<='' \<Longrightarrow> 0 \<le> x \<Longrightarrow> compares operator a b \<Longrightarrow> compares operator a (b + x)"
  "operator = JStr ''>'' \<or> operator = JStr ''>='' \<Longrightarrow> 0 \<le> x \<Longrightarrow> compares operator a b \<Longrightarrow> compares operator (a + x) b"
  "operator = JStr ''>'' \<or> operator = JStr ''>='' \<Longrightarrow> x \<le> 0 \<Longrightarrow> compares operator a b \<Longrightarrow> compares operator a (b + x)"
  by (auto simp: compares_def)

lemma wrong_direction_keeps:
  assumes wrong: "getWrongDirection condition increment = direction d" and "d \<noteq> 0"
    and holds: "test_holds condition (fld (fi_identifier increment) ''name'') counter bound"
  shows "test_holds condition (fld (fi_identifier increment) ''name'') (counter + of_nat k * d) bound"
proof -
  let ?op = "fld condition ''operator''" and ?name = "fld (fi_identifier increment) ''name''"
  let ?left = "isSameIdentifier (fld condition ''left'') (fi_identifier increment)"
  have up: "direction d = 1 \<Longrightarrow> 0 \<le> of_nat k * d" by (simp add: direction_def split: if_splits)
  have down: "direction d = - 1 \<Longrightarrow> of_nat k * d \<le> 0"
    by (simp add: direction_def mult_nonneg_nonpos split: if_splits)
  have dir: "direction d \<noteq> 0" using assms(2) by (simp add: direction_def)
  have test: "test_holds condition ?name x bound = (if ?left then compares ?op x bound else compares ?op bound x)" for x
    by (simp add: test_holds_def isSameIdentifier_def)
  from wrong dir consider
      (less_left) "?left" "?op = JStr ''<'' \<or> ?op = JStr ''<=''" "direction d = - 1"
    | (greater_left) "?left" "?op = JStr ''>'' \<or> ?op = JStr ''>=''" "direction d = 1"
    | (less_right) "\<not> ?left" "?op = JStr ''<'' \<or> ?op = JStr ''<=''" "direction d = 1"
    | (greater_right) "\<not> ?left" "?op = JStr ''>'' \<or> ?op = JStr ''>=''" "direction d = - 1"
    unfolding getWrongDirection_def Let_def by (auto split: if_splits)
  then show ?thesis
    using holds up down compares_keeps [of ?op "of_nat k * d"] unfolding test by cases simp_all
qed


definition binary_node :: "nat \<Rightarrow> string \<Rightarrow> node \<Rightarrow> node \<Rightarrow> node" where
  "binary_node i op left right = JObj i None (Some \<lparr>loc_start = \<lparr>pos_line = 1, pos_column = 9\<rparr>,
     loc_end = \<lparr>pos_line = 1, pos_column = 15\<rparr>\<rparr>) [(''type'', JStr ''BinaryExpression''),
     (''operator'', JStr op), (''left'', left), (''right'', right)]"

text \<open>\<^verbatim>\<open>for (; i < n; i--)\<close>\<close>

definition example_loop :: node where
  "example_loop = JObj 0 None None [(''type'', JStr ''ForStatement''),
     (''test'', binary_node 1 ''<'' (identifier_node 2 ''i'') (identifier_node 3 ''n'')),
     (''update'', JObj 4 None None [(''type'', JStr ''UpdateExpression''), (''operator'', JStr ''--''),
        (''argument'', identifier_node 5 ''i'')])]"


section \<open>Equality in the stop condition\<close>

definition isEquality :: "node \<Rightarrow> bool" where
  "isEquality e \<longleftrightarrow> is_type e ''BinaryExpression'' \<and>
     fld e ''operator'' \<in> set [JStr ''!='', JStr ''=='', JStr ''!=='', JStr ''===''] "

definition isIncDec :: "node \<Rightarrow> bool" where
  "isIncDec e \<longleftrightarrow> is_type e ''AssignmentExpression'' \<and> fld e ''operator'' \<in> set [JStr ''+='', JStr ''-=''] "

function isUpdateIncDec :: "node \<Rightarrow> bool" where
  "isUpdateIncDec e =
     (if isIncDec e \<or> is_type e ''UpdateExpression'' then True
      else if is_type e ''SequenceExpression'' then list_all isUpdateIncDec (elems (fld e ''expressions''))
      else False)"
  by pat_completeness auto
termination
  by (relation "measure size") (auto intro: size_elems_fld_less)

declare isUpdateIncDec.simps [simp del]

function collectCounters :: "node \<Rightarrow> jsval list" where
  "collectCounters e =
     (let name = (\<lambda>counter. if truthy counter \<and> is_type counter ''Identifier'' then [fld counter ''name''] else []) in
      if isIncDec e then name (fld e ''left'')
      else if is_type e ''UpdateExpression'' then name (fld e ''argument'')
      else if is_type e ''SequenceExpression'' then concat (map collectCounters (elems (fld e ''expressions'')))
      else [])"
  by pat_completeness auto
termination
  by (relation "measure size") (auto intro: size_elems_fld_less)

declare collectCounters.simps [simp del]

definition isNotEqual :: "node \<Rightarrow> bool" where
  "isNotEqual n \<longleftrightarrow> is_type n ''BinaryExpression'' \<and> fld n ''operator'' \<in> set [JStr ''!=='', JStr ''!=''] "

definition getInteger :: "node \<Rightarrow> rat option" where
  "getInteger n = (if truthy n \<and> is_type n ''Literal'' then (case fld n ''value'' of JNum v \<Rightarrow> Some v | _ \<Rightarrow> None) else None)"

definition isOneVarDeclaration :: "node \<Rightarrow> bool" where
  "isOneVarDeclaration n \<longleftrightarrow> is_type n ''VariableDeclaration'' \<and> length (elems (fld n ''declarations'')) = 1"

definition getValue :: "node \<Rightarrow> rat option" where
  "getValue n =
     (if isNotEqual n then getInteger (fld n ''right'')
      else if isOneVarDeclaration n then getInteger (fld (elems (fld n ''declarations'') ! 0) ''init'')
      else if is_type n ''AssignmentExpression'' then getInteger (fld n ''right'')
      else None)"

definition isUpdateOnOneWithAssign :: "node \<Rightarrow> bool" where
  "isUpdateOnOneWithAssign e \<longleftrightarrow> isIncDec e \<and> is_type (fld e ''right'') ''Literal'' \<and> fld (fld e ''right'') ''value'' = JNum 1"

definition isInBody :: "node \<Rightarrow> range \<Rightarrow> bool" where
  "isInBody i bodyRange =
     (truthy i \<and> (case node_range i of None \<Rightarrow> False | Some (a, b) \<Rightarrow> a > fst bodyRange \<and> b < snd bodyRange))"

definition isUsedInsideBody :: "rule_context \<Rightarrow> node \<Rightarrow> node \<Rightarrow> bool" where
  "isUsedInsideBody ctx i loopBody =
     (if is_type i ''Identifier'' then
        (case (Option.bind (name_of i) (getVariableFromName ctx), node_range loopBody) of
           (Some v, Some bodyRange) \<Rightarrow> list_ex (\<lambda>ref. isInBody (ref_identifier ref) bodyRange) (var_references v)
         | _ \<Rightarrow> False)
      else False)"

definition isUpdateByOne :: "rule_context \<Rightarrow> node \<Rightarrow> node \<Rightarrow> bool" where
  "isUpdateByOne ctx update loopBody \<longleftrightarrow>
     is_type update ''UpdateExpression'' \<and> \<not> isUsedInsideBody ctx (fld update ''argument'') loopBody \<or>
     isUpdateOnOneWithAssign update \<and> \<not> isUsedInsideBody ctx (fld update ''left'') loopBody"

definition checkForUpdateByOne :: "rule_context \<Rightarrow> node \<Rightarrow> node \<Rightarrow> int" where
  "checkForUpdateByOne ctx update loopBody =
     (let operator = fld update ''operator'' in
      if isUpdateByOne ctx update loopBody then
        if operator = JStr ''++'' \<or> operator = JStr ''+='' then 1
        else if operator = JStr ''--'' \<or> operator = JStr ''-='' then -1 else 0
      else 0)"

definition isTrivialIteratorException :: "rule_context \<Rightarrow> node \<Rightarrow> bool" where
  "isTrivialIteratorException ctx forStatement =
     (let initial = fld forStatement ''init''; condition = fld forStatement ''test'' in
      if truthy initial \<and> isNotEqual condition then
        let updatedByOne = checkForUpdateByOne ctx (fld forStatement ''update'') (fld forStatement ''body'') in
        if updatedByOne \<noteq> 0 then
          (case (getValue initial, getValue condition) of
             (Some beginValue, Some endValue) \<Rightarrow> updatedByOne = direction (endValue - beginValue)
           | _ \<Rightarrow> False)
        else False
      else False)"

definition isNontrivialConditionException :: "node \<Rightarrow> bool" where
  "isNontrivialConditionException forStatement =
     (let condition = fld forStatement ''test'' in
      \<not> is_type (fld condition ''left'') ''Identifier'' \<or>
      fld (fld condition ''left'') ''name'' \<notin> set (collectCounters (fld forStatement ''update'')))"

definition isLoopException :: "rule_context \<Rightarrow> node \<Rightarrow> bool" where
  "isLoopException ctx forStatement \<longleftrightarrow>
     isNontrivialConditionException forStatement \<or> isTrivialIteratorException ctx forStatement"

definition equals_in_for :: "rule_context \<Rightarrow> node \<Rightarrow> (jsval \<times> node) list" where
  "equals_in_for ctx forStatement =
     (let condition = fld forStatement ''test''; update = fld forStatement ''update'' in
      if \<not> truthy condition \<or> \<not> truthy update then []
      else if isEquality condition \<and> isUpdateIncDec update \<and> \<not> isLoopException ctx forStatement
      then [(fld condition ''operator'', condition)] else [])"

text \<open>
  A trivial iterator over integers stops: from its first value, steps of one come to the last one
  after as many steps as they are apart.
\<close>

lemma trivial_iterator_stops:
  assumes "isTrivialIteratorException ctx f"
  shows "\<exists>first final step. getValue (fld f ''init'') = Some first \<and> getValue (fld f ''test'') = Some final \<and>
    checkForUpdateByOne ctx (fld f ''update'') (fld f ''body'') = step \<and> (step = 1 \<or> step = -1) \<and>
    (first \<in> \<int> \<and> final \<in> \<int> \<longrightarrow> (\<exists>k. first + of_nat k * of_int step = final))"
proof -
  let ?step = "checkForUpdateByOne ctx (fld f ''update'') (fld f ''body'')"
  from assms obtain a b where v: "getValue (fld f ''init'') = Some a" "getValue (fld f ''test'') = Some b"
    "?step = direction (b - a)" "?step \<noteq> 0"
    by (auto simp: isTrivialIteratorException_def Let_def split: if_splits option.splits)
  have "\<exists>k. a + of_nat k * of_int ?step = b" if ints: "a \<in> \<int>" "b \<in> \<int>"
  proof -
    from ints obtain i j :: int where ij: "a = of_int i" "b = of_int j" by (auto elim!: Ints_cases)
    have "a + of_nat (nat \<bar>j - i\<bar>) * of_int ?step = b"
      using v(3,4) unfolding ij by (auto simp: direction_def split: if_splits)
    then show ?thesis by blast
  qed
  moreover have "?step = 1 \<or> ?step = -1" using v(3,4) by (auto simp: direction_def split: if_splits)
  ultimately show ?thesis using v(1,2) by blast
qed

text \<open>
  The values need not be integers, in spite of the name of \<^verbatim>\<open>getInteger\<close>: \<^verbatim>\<open>for (i = 0; i != 0.5; i++)\<close> is exempted, and
  never stops.
\<close>

definition number_node :: "nat \<Rightarrow> rat \<Rightarrow> node" where
  "number_node i v = JObj i None None [(''type'', JStr ''Literal''), (''value'', JNum v)]"

definition fraction_loop :: node where
  "fraction_loop = JObj 0 None None [(''type'', JStr ''ForStatement''),
     (''init'', JObj 6 None None [(''type'', JStr ''AssignmentExpression''), (''operator'', JStr ''=''),
        (''left'', identifier_node 7 ''i''), (''right'', number_node 8 0)]),
     (''test'', binary_node 1 ''!='' (identifier_node 2 ''i'') (number_node 3 (1/2))),
     (''update'', JObj 4 None None [(''type'', JStr ''UpdateExpression''), (''operator'', JStr ''++''),
        (''argument'', identifier_node 5 ''i'')])]"

lemma fraction_exempted: "isTrivialIteratorException ctx fraction_loop" "equals_in_for ctx fraction_loop = []"
proof -
  show exempt: "isTrivialIteratorException ctx fraction_loop"
    by (simp add: isTrivialIteratorException_def fraction_loop_def binary_node_def identifier_node_def number_node_def
        isNotEqual_def is_type_def checkForUpdateByOne_def isUpdateByOne_def isUsedInsideBody_def getValue_def
        isOneVarDeclaration_def getInteger_def direction_def Let_def split: option.split)
  then show "equals_in_for ctx fraction_loop = []" by (simp add: equals_in_for_def isLoopException_def Let_def)
qed

lemma fraction_never_stops: "(0::rat) + of_nat k * of_int 1 \<noteq> 1/2"
proof
  assume "(0::rat) + of_nat k * of_int 1 = 1/2"
  then have "of_nat (2 * k) = (of_nat 1 :: rat)" by simp
  then have "2 * k = 1" by (simp only: of_nat_eq_iff)
  then show False by arith
qed

end
