(* ===== verification/Parameter_Reassignment.thy ===== *)
theory Parameter_Reassignment
  imports Ast_Helpers
begin

text \<open>
  The rule on reassigned parameters (\<^verbatim>\<open>src/linting/eslint/rules/no-parameter-reassignment.ts\<close>): a
  parameter, a caught error or the variable of a \<^verbatim>\<open>for-in\<close> or \<^verbatim>\<open>for-of\<close> loop whose first usage
  is a write. The state is the linked list of contexts, the current one first; each keeps the names
  already used, copied from its parent when it is created and copied back by \<^verbatim>\<open>markAsRead\<close>. The
  refinement below shows what these copies stand for: one mark per name, in the context that declares it.
\<close>

section \<open>Contexts\<close>

datatype context_type = CatchContext | FunctionContext | ForeachContext | GlobalContext

record reassignment_context =
  rc_type :: context_type
  rc_variablesToCheckInCurrentScope :: "string set"
  rc_variablesToCheck :: "string set"
  rc_variablesRead :: "string set"
  rc_referencesByIdentifier :: "nat option \<rightharpoonup> reference"

text \<open>
  What ESLint gives the rule: the \<^verbatim>\<open>init\<close> flag of a reference, the variables a node declares, the scope
  of a node and the first token of a node that a filter accepts.
\<close>

record reassignment_env =
  pe_init :: "nat \<Rightarrow> bool"
  pe_getDeclaredVariables :: "node \<Rightarrow> variable list"
  pe_acquire :: "node \<Rightarrow> scope option"
  pe_getFirstToken :: "node \<Rightarrow> (token \<Rightarrow> bool) \<Rightarrow> token option"

datatype report_place = AtLoc source_loc | AtNode node

datatype reassignment_report = NoReassignment string report_place

record reassignment_state =
  pr_contexts :: "reassignment_context list"
  pr_reports :: "reassignment_report list"

definition global_context :: reassignment_context where
  "global_context =
     \<lparr>rc_type = GlobalContext, rc_variablesToCheckInCurrentScope = {}, rc_variablesToCheck = {},
      rc_variablesRead = {}, rc_referencesByIdentifier = Map.empty\<rparr>"

definition pr_create :: reassignment_state where
  "pr_create = \<lparr>pr_contexts = [global_context], pr_reports = []\<rparr>"

text \<open>Identifiers have a name.\<close>

definition identifier_name :: "node \<Rightarrow> string" where
  "identifier_name n = (case name_of n of Some s \<Rightarrow> s | None \<Rightarrow> [])"

definition isInsideIfStatement :: "node list \<Rightarrow> bool" where
  "isInsideIfStatement ancestors =
     list_ex (\<lambda>i. is_type (ancestors ! i) ''IfStatement'' \<and> i < length ancestors - 1 \<and>
         (strict_eq (ancestors ! (i + 1)) (fld (ancestors ! i) ''consequent'') \<or>
          strict_eq (ancestors ! (i + 1)) (fld (ancestors ! i) ''alternate'')))
       (rev [0..<length ancestors])"

definition computeSetDifference :: "string set \<Rightarrow> string set \<Rightarrow> string set" where
  "computeSetDifference a b = {str \<in> a. str \<notin> b}"

definition pr_getFunctionName :: "node \<Rightarrow> string option" where
  "pr_getFunctionName n = (if \<not> truthy (fld n ''id'') then None else name_of (fld n ''id''))"

definition isForEachLoopStart :: "node \<Rightarrow> node option \<Rightarrow> bool" where
  "isForEachLoopStart n parent \<longleftrightarrow>
     is_type n ''BlockStatement'' \<and>
     (case parent of None \<Rightarrow> False | Some p \<Rightarrow> is_type p ''ForInStatement'' \<or> is_type p ''ForOfStatement'')"

definition set_reference :: "reference \<Rightarrow> (nat option \<rightharpoonup> reference) \<Rightarrow> (nat option \<rightharpoonup> reference)" where
  "set_reference ref m = m(node_id (ref_identifier ref) \<mapsto> ref)"

definition computeNewContextInfo ::
  "reassignment_context \<Rightarrow> reassignment_env \<Rightarrow> node \<Rightarrow> (nat option \<rightharpoonup> reference) \<times> string set \<times> string set" where
  "computeNewContextInfo variableUsageContext env n =
     fold (\<lambda>variable (references, toCheck, inCurrentScope).
         (fold set_reference (var_references variable) references, insert (var_name variable) toCheck,
          insert (var_name variable) inCurrentScope))
       (pe_getDeclaredVariables env n) (Map.empty, rc_variablesToCheck variableUsageContext, {})"

fun markAsRead :: "string \<Rightarrow> reassignment_context list \<Rightarrow> reassignment_context list" where
  "markAsRead variableName [] = []"
| "markAsRead variableName (c # parents) =
     c\<lparr>rc_variablesRead := insert variableName (rc_variablesRead c)\<rparr> #
     (if variableName \<notin> rc_variablesToCheckInCurrentScope c then markAsRead variableName parents else parents)"

fun markAllFunctionArgumentsAsRead :: "reassignment_context list \<Rightarrow> reassignment_context list" where
  "markAllFunctionArgumentsAsRead [] = []"
| "markAllFunctionArgumentsAsRead (c # parents) =
     (if rc_type c \<noteq> FunctionContext then c # markAllFunctionArgumentsAsRead parents
      else c\<lparr>rc_variablesRead := rc_variablesRead c \<union> rc_variablesToCheckInCurrentScope c\<rparr> # parents)"

definition getPreciseLocationHolder :: "reference \<Rightarrow> report_place" where
  "getPreciseLocationHolder ref =
     (case (node_loc (ref_identifier ref), Option.bind (ref_writeExpr ref) node_loc) of
        (Some identifierLoc, Some writeLoc) \<Rightarrow>
          AtLoc \<lparr>loc_start = loc_start identifierLoc, loc_end = loc_end writeLoc\<rparr>
      | _ \<Rightarrow> AtNode (ref_identifier ref))"

fun getReference :: "reassignment_context list \<Rightarrow> node \<Rightarrow> reference option" where
  "getReference [] identifier = None"
| "getReference (c # parents) identifier =
     (case rc_referencesByIdentifier c (node_id identifier) of
        Some ref \<Rightarrow> Some ref
      | None \<Rightarrow> getReference parents identifier)"

section \<open>Listeners\<close>

definition isUsedInWriteExpression :: "reassignment_env \<Rightarrow> string \<Rightarrow> node option \<Rightarrow> bool" where
  "isUsedInWriteExpression env variableName writeExpr =
     (case writeExpr of
        None \<Rightarrow> False
      | Some e \<Rightarrow> pe_getFirstToken env e (\<lambda>t. tok_value t = variableName \<or> tok_value t = ''arguments'') \<noteq> None)"

definition raiseIssue :: "reference \<Rightarrow> reassignment_state \<Rightarrow> reassignment_state" where
  "raiseIssue ref s =
     s\<lparr>pr_reports := pr_reports s @ [NoReassignment (identifier_name (ref_identifier ref)) (getPreciseLocationHolder ref)]\<rparr>"

definition pr_checkIdentifierUsage ::
  "reassignment_env \<Rightarrow> node list \<Rightarrow> node \<Rightarrow> context_type \<Rightarrow> reassignment_state \<Rightarrow> reassignment_state" where
  "pr_checkIdentifierUsage env ancestors identifier identifierContextType s =
     (let current = hd (pr_contexts s); variableName = identifier_name identifier;
          mark = (\<lambda>s. s\<lparr>pr_contexts := markAsRead variableName (pr_contexts s)\<rparr>);
          other = (if variableName = ''arguments''
                   then s\<lparr>pr_contexts := markAllFunctionArgumentsAsRead (pr_contexts s)\<rparr> else s) in
      if rc_type current \<noteq> identifierContextType then s
      else case getReference (pr_contexts s) identifier of
        None \<Rightarrow> other
      | Some ref \<Rightarrow>
          if \<not> pe_init env (ref_id ref) \<and> variableName \<notin> rc_variablesRead current then
            if variableName \<in> rc_variablesToCheck current \<and> (ref_isWrite ref \<and> \<not> ref_isRead ref) \<and>
               \<not> isUsedInWriteExpression env variableName (ref_writeExpr ref)
            then if isInsideIfStatement ancestors \<or> list_ex (\<lambda>n. is_type n ''SwitchCase'') ancestors then s
                 else mark (raiseIssue ref s)
            else mark s
          else other)"

definition popContext :: "reassignment_state \<Rightarrow> reassignment_state" where
  "popContext s =
     (case pr_contexts s of c # parent # below \<Rightarrow> s\<lparr>pr_contexts := parent # below\<rparr> | _ \<Rightarrow> s)"

definition function_context :: "reassignment_env \<Rightarrow> string option \<Rightarrow> node \<Rightarrow> reassignment_context \<Rightarrow> reassignment_context" where
  "function_context env scopeType n current =
     (if scopeType = Some ''function'' then
        let (references, toCheck, inCurrentScope) = computeNewContextInfo current env n;
            toCheck' = (case pr_getFunctionName n of
                          None \<Rightarrow> toCheck
                        | Some functionName \<Rightarrow> if functionName \<noteq> [] then toCheck - {functionName} else toCheck) in
        \<lparr>rc_type = FunctionContext, rc_variablesToCheckInCurrentScope = inCurrentScope,
         rc_variablesToCheck = toCheck',
         rc_variablesRead = computeSetDifference (rc_variablesRead current) inCurrentScope,
         rc_referencesByIdentifier = references\<rparr>
      else global_context)"

definition foreach_context :: "reassignment_env \<Rightarrow> node \<Rightarrow> reassignment_context \<Rightarrow> reassignment_context" where
  "foreach_context env parent current =
     (let (references, toCheck, inCurrentScope) = computeNewContextInfo current env (fld parent ''left'');
          references' = (case pe_acquire env (fld parent ''body'') of
                           None \<Rightarrow> references
                         | Some currentScope \<Rightarrow> fold set_reference (scope_references currentScope) references);
          names = set (map identifier_name (resolveIdentifiers (fld parent ''left'') True)) in
      \<lparr>rc_type = ForeachContext, rc_variablesToCheckInCurrentScope = inCurrentScope \<union> names,
       rc_variablesToCheck = toCheck \<union> names,
       rc_variablesRead = computeSetDifference (rc_variablesRead current) (inCurrentScope \<union> names),
       rc_referencesByIdentifier = references'\<rparr>)"

definition catch_context :: "reassignment_env \<Rightarrow> node \<Rightarrow> reassignment_context \<Rightarrow> reassignment_context" where
  "catch_context env n current =
     (let (references, toCheck, inCurrentScope) = computeNewContextInfo current env n in
      \<lparr>rc_type = CatchContext, rc_variablesToCheckInCurrentScope = inCurrentScope, rc_variablesToCheck = toCheck,
       rc_variablesRead = computeSetDifference (rc_variablesRead current) inCurrentScope,
       rc_referencesByIdentifier = references\<rparr>)"

definition pr_push :: "(reassignment_context \<Rightarrow> reassignment_context) \<Rightarrow> reassignment_state \<Rightarrow> reassignment_state" where
  "pr_push f s = s\<lparr>pr_contexts := f (hd (pr_contexts s)) # pr_contexts s\<rparr>"

text \<open>
  The events of a traversal. An identifier comes with its ancestors, outermost first, on which the
  selectors of the four listeners are evaluated: a parent and a child among the ancestors, of the types
  the selector asks for. The class \<^verbatim>\<open>:statement\<close> of esquery holds for statements and declarations.
\<close>

datatype reassignment_event =
    CodePathStart "string option" node
  | CodePathEnd
  | SegmentLoop "node option" node
  | SegmentStart node
  | NodeExit node
  | IdentifierEnter node "node list"

definition type_ends_with :: "string \<Rightarrow> jsval \<Rightarrow> bool" where
  "type_ends_with t v = (case v of JStr s \<Rightarrow> ends_with s t | _ \<Rightarrow> False)"

definition is_statement :: "node \<Rightarrow> bool" where
  "is_statement n \<longleftrightarrow> type_ends_with ''Statement'' (fld n ''type'') \<or> type_ends_with ''Declaration'' (fld n ''type'')"

fun selected :: "(node \<Rightarrow> bool) \<Rightarrow> (node \<Rightarrow> bool) \<Rightarrow> node list \<Rightarrow> bool" where
  "selected p q (a # b # ns) = (p a \<and> q b \<or> selected p q (b # ns))"
| "selected p q _ = False"

definition usage_selectors :: "((node \<Rightarrow> bool) \<times> (node \<Rightarrow> bool) \<times> context_type) list" where
  "usage_selectors =
     [(\<lambda>n. type_in n FUNCTION_NODE_TYPES, \<lambda>n. is_type n ''BlockStatement'', FunctionContext),
      (\<lambda>n. is_type n ''ForInStatement'', is_statement, ForeachContext),
      (\<lambda>n. is_type n ''ForOfStatement'', is_statement, ForeachContext),
      (\<lambda>n. is_type n ''CatchClause'', \<lambda>n. is_type n ''BlockStatement'', CatchContext)]"

definition usage_types :: "node list \<Rightarrow> context_type list" where
  "usage_types ancestors = map (\<lambda>(p, q, t). t) (filter (\<lambda>(p, q, t). selected p q ancestors) usage_selectors)"

fun pr_step :: "reassignment_env \<Rightarrow> reassignment_event \<Rightarrow> reassignment_state \<Rightarrow> reassignment_state" where
  "pr_step env (CodePathStart scopeType n) s = pr_push (function_context env scopeType n) s"
| "pr_step env CodePathEnd s = popContext s"
| "pr_step env (SegmentLoop parent n) s =
     (if isForEachLoopStart n parent then pr_push (foreach_context env (the parent)) s else s)"
| "pr_step env (SegmentStart n) s = (if is_type n ''CatchClause'' then pr_push (catch_context env n) s else s)"
| "pr_step env (NodeExit n) s =
     (if type_in n [''ForInStatement'', ''ForOfStatement'', ''CatchClause''] then popContext s else s)"
| "pr_step env (IdentifierEnter n ancestors) s =
     fold (pr_checkIdentifierUsage env ancestors n) (usage_types ancestors) s"

definition pr_run :: "reassignment_env \<Rightarrow> reassignment_event list \<Rightarrow> reassignment_state" where
  "pr_run env evs = fold (pr_step env) evs pr_create"

section \<open>One mark per declared name\<close>

text \<open>
  The specification keeps a name that has been used in one place, the context that declares it. A name
  that no context declares is kept by the global contexts, and a global context hides the marks below it.
\<close>

fun spec_used :: "string \<Rightarrow> reassignment_context list \<Rightarrow> bool" where
  "spec_used v [] = False"
| "spec_used v (c # cs) =
     (if rc_type c = GlobalContext \<or> v \<in> rc_variablesToCheckInCurrentScope c then v \<in> rc_variablesRead c
      else spec_used v cs)"

fun spec_use :: "string \<Rightarrow> reassignment_context list \<Rightarrow> reassignment_context list" where
  "spec_use v [] = []"
| "spec_use v (c # cs) =
     (if v \<in> rc_variablesToCheckInCurrentScope c then c\<lparr>rc_variablesRead := insert v (rc_variablesRead c)\<rparr> # cs
      else if rc_type c = GlobalContext then c\<lparr>rc_variablesRead := insert v (rc_variablesRead c)\<rparr> # spec_use v cs
      else c # spec_use v cs)"

definition spec_issue :: "reassignment_env \<Rightarrow> reassignment_context \<Rightarrow> string \<Rightarrow> reference \<Rightarrow> bool" where
  "spec_issue env c v ref \<longleftrightarrow>
     v \<in> rc_variablesToCheck c \<and> ref_isWrite ref \<and> \<not> ref_isRead ref \<and> \<not> isUsedInWriteExpression env v (ref_writeExpr ref)"

definition spec_usage :: "reassignment_env \<Rightarrow> node list \<Rightarrow> node \<Rightarrow> reassignment_state \<Rightarrow> reassignment_state" where
  "spec_usage env ancestors identifier s =
     (let c = hd (pr_contexts s); v = identifier_name identifier;
          conditional = (isInsideIfStatement ancestors \<or> list_ex (\<lambda>n. is_type n ''SwitchCase'') ancestors) in
      if rc_type c \<notin> set (usage_types ancestors) then s
      else case getReference (pr_contexts s) identifier of
        Some ref \<Rightarrow>
          if \<not> pe_init env (ref_id ref) \<and> \<not> spec_used v (pr_contexts s) then
            if \<not> spec_issue env c v ref then s\<lparr>pr_contexts := spec_use v (pr_contexts s)\<rparr>
            else if conditional then s
            else (raiseIssue ref s)\<lparr>pr_contexts := spec_use v (pr_contexts s)\<rparr>
          else if v = ''arguments'' then s\<lparr>pr_contexts := markAllFunctionArgumentsAsRead (pr_contexts s)\<rparr> else s
      | None \<Rightarrow>
          if v = ''arguments'' then s\<lparr>pr_contexts := markAllFunctionArgumentsAsRead (pr_contexts s)\<rparr> else s)"

definition unmarked :: "reassignment_context \<Rightarrow> reassignment_context" where
  "unmarked c = c\<lparr>rc_variablesRead := {}\<rparr>"

fun spec_step :: "reassignment_env \<Rightarrow> reassignment_event \<Rightarrow> reassignment_state \<Rightarrow> reassignment_state" where
  "spec_step env (CodePathStart scopeType n) s = pr_push (unmarked \<circ> function_context env scopeType n) s"
| "spec_step env (SegmentLoop parent n) s =
     (if isForEachLoopStart n parent then pr_push (unmarked \<circ> foreach_context env (the parent)) s else s)"
| "spec_step env (SegmentStart n) s = (if is_type n ''CatchClause'' then pr_push (unmarked \<circ> catch_context env n) s else s)"
| "spec_step env (IdentifierEnter n ancestors) s = spec_usage env ancestors n s"
| "spec_step env e s = pr_step env e s"

definition spec_run :: "reassignment_env \<Rightarrow> reassignment_event list \<Rightarrow> reassignment_state" where
  "spec_run env evs = fold (spec_step env) evs pr_create"

definition own_marks :: "reassignment_context \<Rightarrow> reassignment_context" where
  "own_marks c = (if rc_type c = GlobalContext then c
     else c\<lparr>rc_variablesRead := rc_variablesRead c \<inter> rc_variablesToCheckInCurrentScope c\<rparr>)"

definition pr_abs :: "reassignment_state \<Rightarrow> reassignment_state" where
  "pr_abs s = s\<lparr>pr_contexts := map own_marks (pr_contexts s)\<rparr>"

text \<open>
  Copies agree: between a context that is not global and its parent, the marks of the names the context
  does not declare are the same.
\<close>

fun coherent :: "reassignment_context list \<Rightarrow> bool" where
  "coherent [] = False"
| "coherent [c] = (rc_type c = GlobalContext)"
| "coherent (c # d # cs) =
     ((rc_type c \<noteq> GlobalContext \<longrightarrow>
         rc_variablesRead c - rc_variablesToCheckInCurrentScope c = rc_variablesRead d - rc_variablesToCheckInCurrentScope c) \<and>
      coherent (d # cs))"

lemma own_marks_fields [simp]:
  "rc_type (own_marks c) = rc_type c"
  "rc_variablesToCheckInCurrentScope (own_marks c) = rc_variablesToCheckInCurrentScope c"
  "rc_variablesToCheck (own_marks c) = rc_variablesToCheck c"
  "rc_referencesByIdentifier (own_marks c) = rc_referencesByIdentifier c"
  by (simp_all add: own_marks_def)

lemma getReference_own_marks [simp]: "getReference (map own_marks cs) n = getReference cs n"
  by (induction cs) (simp_all cong: option.case_cong)

lemma used_own_marks: "coherent cs \<Longrightarrow> spec_used v (map own_marks cs) \<longleftrightarrow> v \<in> rc_variablesRead (hd cs)"
proof (induction cs rule: coherent.induct)
  case (3 c d cs)
  then show ?case by (auto simp: own_marks_def)
qed (simp_all add: own_marks_def)

lemma markAsRead_own_marks: "map own_marks (markAsRead v cs) = spec_use v (map own_marks cs)"
  by (induction cs) (auto simp: own_marks_def)

lemma markAsRead_hd: "cs \<noteq> [] \<Longrightarrow> rc_variablesRead (hd (markAsRead v cs)) = insert v (rc_variablesRead (hd cs))"
  by (cases cs) simp_all

lemma markAsRead_coherent: "coherent cs \<Longrightarrow> coherent (markAsRead v cs)"
proof (induction cs rule: coherent.induct)
  case (3 c d cs)
  then show ?case by (cases "v \<in> rc_variablesToCheckInCurrentScope c"; cases "v \<in> rc_variablesToCheckInCurrentScope d") auto
qed simp_all

lemma markAll_function:
  assumes "coherent cs" "rc_type (hd cs) = FunctionContext"
  shows "map own_marks (markAllFunctionArgumentsAsRead cs) = markAllFunctionArgumentsAsRead (map own_marks cs)"
    and "coherent (markAllFunctionArgumentsAsRead cs)"
  using assms by (cases cs rule: coherent.cases; auto simp: own_marks_def)+

text \<open>
  An identifier that several selectors select is checked several times, the second time without effect,
  so that neither the order of the listeners nor the double selection in nested loops matters.
\<close>

lemma check_other: "rc_type (hd (pr_contexts s)) \<noteq> t \<Longrightarrow> pr_checkIdentifierUsage env as n t s = s"
  by (simp add: pr_checkIdentifierUsage_def)

lemma getReference_markAsRead [simp]: "getReference (markAsRead v cs) n = getReference cs n"
  by (induction cs) (simp_all cong: option.case_cong)

lemma types_marked [simp]:
  "map rc_type (markAsRead v cs) = map rc_type cs" "map rc_type (markAllFunctionArgumentsAsRead cs) = map rc_type cs"
  by (induction cs) simp_all

lemma check_types: "map rc_type (pr_contexts (pr_checkIdentifierUsage env as n t s)) = map rc_type (pr_contexts s)"
  unfolding pr_checkIdentifierUsage_def Let_def raiseIssue_def
  by (cases "getReference (pr_contexts s) n") simp_all

lemma hd_type: "map rc_type cs = map rc_type ds \<Longrightarrow> cs \<noteq> [] \<Longrightarrow> rc_type (hd cs) = rc_type (hd ds)"
  by (metis hd_map map_is_Nil_conv)

lemma check_marked:
  assumes "identifier_name n \<in> rc_variablesRead (hd (pr_contexts s))" "identifier_name n \<noteq> ''arguments''"
  shows "pr_checkIdentifierUsage env as n t s = s"
  using assms unfolding pr_checkIdentifierUsage_def Let_def
  by (cases "getReference (pr_contexts s) n") simp_all

lemma check_idempotent:
  assumes "identifier_name n \<noteq> ''arguments''" "pr_contexts s \<noteq> []"
  shows "pr_checkIdentifierUsage env as n t (pr_checkIdentifierUsage env as n t s) = pr_checkIdentifierUsage env as n t s"
proof (cases "pr_checkIdentifierUsage env as n t s = s")
  case False
  then have "pr_contexts (pr_checkIdentifierUsage env as n t s) = markAsRead (identifier_name n) (pr_contexts s)"
    using assms(1) unfolding pr_checkIdentifierUsage_def Let_def raiseIssue_def
    by (cases "getReference (pr_contexts s) n") (auto split: if_splits)
  then show ?thesis using assms by (intro check_marked) (simp_all add: markAsRead_hd)
qed simp

lemma fold_check:
  assumes "identifier_name n \<noteq> ''arguments'' \<or> count_list ts t \<le> 1" "pr_contexts s \<noteq> []" "rc_type (hd (pr_contexts s)) = t"
  shows "fold (pr_checkIdentifierUsage env as n) ts s = (if t \<in> set ts then pr_checkIdentifierUsage env as n t s else s)"
  using assms
proof (induction ts arbitrary: s)
  case (Cons u ts)
  let ?s = "pr_checkIdentifierUsage env as n u s"
  have ne: "pr_contexts ?s \<noteq> []" and ty: "rc_type (hd (pr_contexts ?s)) = t"
    using check_types [of env as n u s] Cons.prems(2,3) hd_type [of "pr_contexts ?s" "pr_contexts s"]
    by (metis map_is_Nil_conv)+
  have rest: "fold (pr_checkIdentifierUsage env as n) ts ?s = (if t \<in> set ts then pr_checkIdentifierUsage env as n t ?s else ?s)"
    using Cons.IH [OF _ ne ty] Cons.prems(1) by (auto split: if_splits)
  show ?case
  proof (cases "u = t")
    case True
    with Cons.prems(1) have "identifier_name n \<noteq> ''arguments'' \<or> t \<notin> set ts"
      by (auto simp: count_list_0_iff)
    then show ?thesis using rest True check_idempotent [of n s env as t] Cons.prems(2) by auto
  next
    case False
    then show ?thesis using rest check_other [of s u env as n] Cons.prems(3) by auto
  qed
qed simp

section \<open>The refinement\<close>

fun arguments_at_function :: "reassignment_event \<Rightarrow> reassignment_state \<Rightarrow> bool" where
  "arguments_at_function (IdentifierEnter n ancestors) s \<longleftrightarrow>
     identifier_name n \<noteq> ''arguments'' \<or> rc_type (hd (pr_contexts s)) \<in> {FunctionContext, GlobalContext}"
| "arguments_at_function _ s \<longleftrightarrow> True"

text \<open>Along a run, \<^verbatim>\<open>arguments\<close> is never used while the current context is a loop or a catch clause.\<close>

fun quiet :: "reassignment_env \<Rightarrow> reassignment_event list \<Rightarrow> reassignment_state \<Rightarrow> bool" where
  "quiet env [] s = True"
| "quiet env (e # evs) s = (arguments_at_function e s \<and> quiet env evs (pr_step env e s))"

lemma function_type_once: "count_list (usage_types as) FunctionContext \<le> 1" "GlobalContext \<notin> set (usage_types as)"
  by (simp_all add: usage_types_def usage_selectors_def)

lemma usage_once:
  assumes "pr_contexts s \<noteq> []" "arguments_at_function (IdentifierEnter n as) s"
  shows "pr_step env (IdentifierEnter n as) s =
    (if rc_type (hd (pr_contexts s)) \<in> set (usage_types as)
     then pr_checkIdentifierUsage env as n (rc_type (hd (pr_contexts s))) s else s)"
proof -
  have "identifier_name n \<noteq> ''arguments'' \<or> count_list (usage_types as) (rc_type (hd (pr_contexts s))) \<le> 1"
    using assms(2) function_type_once [of as] by (auto simp: count_list_0_iff [THEN iffD2])
  then show ?thesis using fold_check [OF _ assms(1) refl] by simp
qed

lemma coherent_nonempty: "coherent cs \<Longrightarrow> cs \<noteq> []"
  by auto

lemma hd_own_marks: "coherent cs \<Longrightarrow> hd (map own_marks cs) = own_marks (hd cs)"
  by (simp add: coherent_nonempty hd_map)

lemma usage_refines:
  assumes co: "coherent (pr_contexts s)" and ok: "arguments_at_function (IdentifierEnter n as) s"
  shows "pr_abs (pr_step env (IdentifierEnter n as) s) = spec_usage env as n (pr_abs s)"
    and "coherent (pr_contexts (pr_step env (IdentifierEnter n as) s))"
proof -
  let ?t = "rc_type (hd (pr_contexts s))"
  have fn: "?t \<in> set (usage_types as) \<Longrightarrow> identifier_name n = ''arguments'' \<Longrightarrow> ?t = FunctionContext"
    using ok function_type_once [of as] by auto
  note step = usage_once [OF coherent_nonempty [OF co] ok] and facts = hd_own_marks [OF co] used_own_marks [OF co]
    markAsRead_own_marks markAsRead_coherent [OF co] co
  show "pr_abs (pr_step env (IdentifierEnter n as) s) = spec_usage env as n (pr_abs s)"
    unfolding step spec_usage_def pr_checkIdentifierUsage_def Let_def pr_abs_def raiseIssue_def spec_issue_def
    using markAll_function(1) [OF co fn] by (cases "getReference (pr_contexts s) n") (simp_all add: facts)
  show "coherent (pr_contexts (pr_step env (IdentifierEnter n as) s))"
    unfolding step pr_checkIdentifierUsage_def Let_def raiseIssue_def
    using markAll_function(2) [OF co fn] by (cases "getReference (pr_contexts s) n") (simp_all add: facts)
qed

text \<open>
  What the three ways of entering a context have in common: the names the new context declares are
  unmarked, the other ones are marked as in the context it was entered from, and nothing else depends on
  the marks of that context.
\<close>

locale context_entry =
  fixes enter :: "reassignment_context \<Rightarrow> reassignment_context"
  assumes enter_own: "own_marks (enter c) = unmarked (enter (own_marks c))"
    and enter_rest: "rc_type (enter c) \<noteq> GlobalContext \<Longrightarrow>
      rc_variablesRead (enter c) - rc_variablesToCheckInCurrentScope (enter c) =
      rc_variablesRead c - rc_variablesToCheckInCurrentScope (enter c)"
begin

lemma push_refines:
  assumes "coherent (pr_contexts s)"
  shows "pr_abs (pr_push enter s) = pr_push (unmarked \<circ> enter) (pr_abs s)"
  using assms by (simp add: pr_abs_def pr_push_def hd_own_marks enter_own)

lemma push_coherent:
  assumes "coherent (pr_contexts s)"
  shows "coherent (pr_contexts (pr_push enter s))"
proof -
  obtain c cs where "pr_contexts s = c # cs" using coherent_nonempty [OF assms] by (cases "pr_contexts s") auto
  then show ?thesis using assms enter_rest by (simp add: pr_push_def)
qed

end

lemma info_marks [simp]: "computeNewContextInfo (c\<lparr>rc_variablesRead := r\<rparr>) env n = computeNewContextInfo c env n"
  by (simp add: computeNewContextInfo_def)

lemma difference_marks [simp]: "computeSetDifference a b \<inter> b = {}" "computeSetDifference a b - b = a - b"
  by (auto simp: computeSetDifference_def)

interpretation fn_entry: context_entry "function_context env scopeType n" for env scopeType n
  by unfold_locales
    (auto simp: function_context_def own_marks_def unmarked_def global_context_def Let_def split: prod.splits)

interpretation loop_entry: context_entry "foreach_context env parent" for env parent
  by unfold_locales (auto simp: foreach_context_def own_marks_def unmarked_def Let_def split: prod.splits)

interpretation catch_entry: context_entry "catch_context env n" for env n
  by unfold_locales (auto simp: catch_context_def own_marks_def unmarked_def Let_def split: prod.splits)

lemma pop_refines:
  "pr_abs (popContext s) = popContext (pr_abs s)" "coherent (pr_contexts s) \<Longrightarrow> coherent (pr_contexts (popContext s))"
  by (auto simp: pr_abs_def popContext_def split: list.splits)

lemma step_refines:
  assumes "coherent (pr_contexts s)" "arguments_at_function e s"
  shows "pr_abs (pr_step env e s) = spec_step env e (pr_abs s) \<and> coherent (pr_contexts (pr_step env e s))"
proof (cases e)
  case (IdentifierEnter n as)
  then show ?thesis using usage_refines [of s n as env] assms by simp
qed (use assms(1) in \<open>simp_all add: pop_refines fn_entry.push_refines fn_entry.push_coherent loop_entry.push_refines
    loop_entry.push_coherent catch_entry.push_refines catch_entry.push_coherent\<close>)

lemma run_refines:
  assumes "coherent (pr_contexts s)" "quiet env evs s"
  shows "pr_abs (fold (pr_step env) evs s) = fold (spec_step env) evs (pr_abs s) \<and>
    coherent (pr_contexts (fold (pr_step env) evs s))"
  using assms
proof (induction evs arbitrary: s)
  case (Cons e evs)
  then show ?case using step_refines [of s e env] by simp
qed simp

text \<open>
  In the specification a name that has been used stays used, whatever happens in nested contexts, until
  the context that declares it is left.
\<close>

lemma spec_used_use: "cs \<noteq> [] \<Longrightarrow> rc_type (last cs) = GlobalContext \<Longrightarrow> spec_used w (spec_use v cs) \<longleftrightarrow> w = v \<or> spec_used w cs"
proof (induction cs)
  case (Cons c cs)
  then show ?case by (cases cs) auto
qed simp

section \<open>Programs\<close>

text \<open>
  The function \<^verbatim>\<open>function f(a, xs) { ... a = 1; }\<close> with a loop before or around the assignment:
  the loop has a block as its body or a single statement.
\<close>

definition ex_node :: "nat \<Rightarrow> string \<Rightarrow> (string \<times> jsval) list \<Rightarrow> node" where
  "ex_node i t fs = JObj i None None ((''type'', JStr t) # fs)"

definition ex_identifier :: "nat \<Rightarrow> string \<Rightarrow> node" where
  "ex_identifier i name = ex_node i ''Identifier'' [(''name'', JStr name)]"

definition ex_program :: node where "ex_program = ex_node 0 ''Program'' []"
definition ex_body :: node where "ex_body = ex_node 2 ''BlockStatement'' []"
definition ex_function :: node where "ex_function = ex_node 1 ''FunctionDeclaration'' [(''id'', ex_identifier 9 ''f''), (''body'', ex_body)]"
definition ex_block :: node where "ex_block = ex_node 4 ''BlockStatement'' []"
definition ex_statement :: node where "ex_statement = ex_node 5 ''ExpressionStatement'' []"
definition ex_loop :: "node \<Rightarrow> node" where
  "ex_loop body = ex_node 3 ''ForOfStatement'' [(''left'', ex_node 6 ''VariableDeclaration'' []), (''body'', body)]"

definition ex_reference :: "nat \<Rightarrow> string \<Rightarrow> bool \<Rightarrow> reference" where
  "ex_reference i name write =
     \<lparr>ref_id = i, ref_identifier = ex_identifier i name, ref_isRead = (\<not> write), ref_isWrite = write,
      ref_writeExpr = (if write then Some (ex_node 20 ''Literal'' []) else None), ref_resolved = None\<rparr>"

definition ex_parameter :: variable where
  "ex_parameter = \<lparr>var_id = 0, var_name = ''a'', var_defs = [],
     var_references = [ex_reference 10 ''a'' False, ex_reference 11 ''a'' True], var_writeable = None\<rparr>"

definition ex_env :: reassignment_env where
  "ex_env = \<lparr>pe_init = (\<lambda>_. False),
     pe_getDeclaredVariables = (\<lambda>n. if node_id n = Some 1 then [ex_parameter] else []),
     pe_acquire = (\<lambda>n. if node_id n = Some 4 then Some (Scope [] [ex_reference 12 ''arguments'' False] None) else None),
     pe_getFirstToken = (\<lambda>_ _. None)\<rparr>"

definition ex_start :: "reassignment_event list" where
  "ex_start = [CodePathStart (Some ''global'') ex_program, CodePathStart (Some ''function'') ex_function]"

definition ex_usage :: "nat \<Rightarrow> string \<Rightarrow> node list \<Rightarrow> reassignment_event" where
  "ex_usage i name inner = IdentifierEnter (ex_identifier i name) ([ex_program, ex_function, ex_body] @ inner)"

definition ex_report :: reassignment_report where
  "ex_report = NoReassignment ''a'' (AtNode (ex_identifier 11 ''a''))"

lemma first_usage_reported: "pr_reports (pr_run ex_env (ex_start @ [ex_usage 11 ''a'' []])) = [ex_report]"
  by code_simp

lemma usage_in_loop_counts:
  "pr_reports (pr_run ex_env (ex_start @ [SegmentLoop (Some (ex_loop ex_block)) ex_block,
     ex_usage 10 ''a'' [ex_loop ex_block, ex_block], NodeExit (ex_loop ex_block), ex_usage 11 ''a'' []])) = []"
  by code_simp

text \<open>
  A loop whose body is not a block enters no context, but its exit leaves one: the context of the
  function that contains the loop is lost, and with it every later report in that function.
\<close>

lemma loop_without_block_pops:
  assumes "is_type loop ''ForInStatement'' \<or> is_type loop ''ForOfStatement''" "\<not> is_type body ''BlockStatement''"
    "pr_contexts s = c # d # cs"
  shows "pr_contexts (fold (pr_step env) [SegmentLoop (Some loop) body, NodeExit loop] s) = d # cs"
  using assms by (auto simp: isForEachLoopStart_def popContext_def js_simps)

lemma missed_after_loop:
  "pr_reports (pr_run ex_env (ex_start @ [SegmentLoop (Some (ex_loop ex_statement)) ex_statement,
     NodeExit (ex_loop ex_statement), ex_usage 11 ''a'' []])) = []"
  by code_simp

text \<open>
  A usage of \<^verbatim>\<open>arguments\<close> counts as a usage of every parameter in the body of the function, but not in
  a loop: there the first one only marks the name \<^verbatim>\<open>arguments\<close>, and later ones mark the parameters in
  the context of the function, not in that of the loop, which keeps its own copy.
\<close>

lemma arguments_in_function: "pr_reports (pr_run ex_env (ex_start @ [ex_usage 12 ''arguments'' [], ex_usage 11 ''a'' []])) = []"
  by code_simp

lemma arguments_in_loop_forgotten:
  "pr_reports (pr_run ex_env (ex_start @ [SegmentLoop (Some (ex_loop ex_block)) ex_block,
     ex_usage 12 ''arguments'' [ex_loop ex_block, ex_block], ex_usage 12 ''arguments'' [ex_loop ex_block, ex_block],
     ex_usage 11 ''a'' [ex_loop ex_block, ex_block]])) = [ex_report]"
  by code_simp

section \<open>Correctness\<close>

text \<open>
  C5. The rule on reassigned parameters keeps a set of used names in every context, copied from the
  enclosing context when a function, loop or catch clause is entered and copied back by every usage.
  On every sequence of events in which \<^verbatim>\<open>arguments\<close> is not used directly in a loop or a catch clause, these sets
  implement one mark per declared name: the reports are those of the specification that keeps a mark only
  in the context that declares the name, the marks of the contexts are the marks of the specification,
  and the current context considers a name as used exactly when the specification does. This also shows that the
  order of the four listeners on identifiers is irrelevant: the specification has one.
\<close>

theorem reassignment_refines:
  assumes "quiet env evs pr_create"
  shows "pr_reports (pr_run env evs) = pr_reports (spec_run env evs) \<and>
    map own_marks (pr_contexts (pr_run env evs)) = pr_contexts (spec_run env evs) \<and>
    (\<forall>v. v \<in> rc_variablesRead (hd (pr_contexts (pr_run env evs))) \<longleftrightarrow> spec_used v (pr_contexts (spec_run env evs)))"
proof -
  have start: "coherent (pr_contexts pr_create)" "pr_abs pr_create = pr_create"
    by (simp_all add: pr_create_def pr_abs_def global_context_def own_marks_def)
  then have "pr_abs (pr_run env evs) = spec_run env evs" "coherent (pr_contexts (pr_run env evs))"
    using run_refines [OF start(1) assms] by (simp_all add: pr_run_def spec_run_def)
  then show ?thesis by (auto simp: pr_abs_def used_own_marks dest: sym)
qed

theorem reassignment_refines_witness:
  "pr_reports (spec_run ex_env (ex_start @ [SegmentLoop (Some (ex_loop ex_block)) ex_block,
     ex_usage 11 ''a'' [ex_loop ex_block, ex_block], NodeExit (ex_loop ex_block), ex_usage 11 ''a'' []])) = [ex_report] \<and>
   spec_used ''a'' (pr_contexts (spec_run ex_env (ex_start @ [SegmentLoop (Some (ex_loop ex_block)) ex_block,
     ex_usage 11 ''a'' [ex_loop ex_block, ex_block], NodeExit (ex_loop ex_block), ex_usage 11 ''a'' []])))"
proof -
  let ?evs = "ex_start @ [SegmentLoop (Some (ex_loop ex_block)) ex_block,
     ex_usage 11 ''a'' [ex_loop ex_block, ex_block], NodeExit (ex_loop ex_block), ex_usage 11 ''a'' []]"
  have "quiet ex_env ?evs pr_create" by code_simp
  moreover have "pr_reports (pr_run ex_env ?evs) = [ex_report]" by code_simp
  moreover have "''a'' \<in> rc_variablesRead (hd (pr_contexts (pr_run ex_env ?evs)))" by code_simp
  ultimately show ?thesis using reassignment_refines [of ex_env ?evs] by metis
qed

end
