(* ===== verification/Aws_Rules.thy ===== *)
theory Aws_Rules
  imports Aws_Cdk
begin

text \<open>
  Rules on top of the templates of Aws\_Cdk: policies of the identity and access management
  (\<^verbatim>\<open>src/linting/eslint/rules/aws-iam-*.ts\<close>), storage that is not encrypted
  (\<^verbatim>\<open>aws-*-unencrypted-*.ts\<close>), and buckets (\<^verbatim>\<open>aws-s3-*.ts\<close>). A rule is its listener:
  the reports for a node.
\<close>

section \<open>Policies\<close>

text \<open>
  The reports that three of the rules make in the same way: on the offending node, with the effect
  as secondary location when the policy has one.
\<close>

definition encoded_report :: "string \<Rightarrow> jsval list \<Rightarrow> string list \<Rightarrow> node \<Rightarrow> report list ro" where
  "encoded_report message locations messages n =
     Some (bind_res (toEncodedMessage message (map node_loc locations) (Some (map Some messages)) None)
       (\<lambda>m. Inr [\<lparr>rep_node = n, rep_message = m\<rparr>]))"

definition plain_report :: "string \<Rightarrow> node \<Rightarrow> report list ro" where
  "plain_report message n =
     Some (bind_res (toEncodedMessage message [] None None) (\<lambda>m. Inr [\<lparr>rep_node = n, rep_message = m\<rparr>]))"

definition report_with_effect :: "string \<Rightarrow> result \<Rightarrow> node option \<Rightarrow> report list ro" where
  "report_with_effect message effect offending =
     (case offending of
        None \<Rightarrow> return_ro []
      | Some n \<Rightarrow>
          if isMissing effect then plain_report message n
          else if isFound effect then encoded_report message [rs_node effect] [''Related effect''] n
          else return_ro [])"

subsection \<open>All privileges\<close>

definition getActionLiterals :: "rule_context \<Rightarrow> result \<Rightarrow> policy_options \<Rightarrow> node list ro" where
  "getActionLiterals ctx properties options =
     bind_ro (run_ro (result_getProperty ctx (po_actions options) properties))
       (\<lambda>actions. run_ro (asStringLiterals ctx actions))"

definition privileges_action :: "rule_context \<Rightarrow> result \<Rightarrow> policy_options \<Rightarrow> node option ro" where
  "privileges_action ctx properties options =
     bind_ro (getActionLiterals ctx properties options) (\<lambda>ls. return_ro (List.find isAnyLiteral ls))"

definition allPrivilegesStatementChecker :: "(nat \<Rightarrow> scope option) \<Rightarrow> report statement_checker" where
  "allPrivilegesStatementChecker scopeOf expr ctx options =
     bind_ro (run_ro (getResultOfExpression ctx expr)) (\<lambda>properties.
     bind_ro (getSensitiveEffect scopeOf properties ctx options) (\<lambda>effect.
     bind_ro (privileges_action ctx properties options)
       (report_with_effect ''Make sure granting all privileges is safe here.'' effect)))"

subsection \<open>All resources\<close>

definition isKmsAction :: "node \<Rightarrow> bool" where
  "isKmsAction action = (case fld action ''value'' of JStr s \<Rightarrow> starts_with s ''kms:'' | _ \<Rightarrow> False)"

definition resources_exception :: "rule_context \<Rightarrow> result \<Rightarrow> policy_options \<Rightarrow> bool ro" where
  "resources_exception ctx properties options =
     bind_ro (run_ro (result_getProperty ctx (po_actions options) properties))
       (\<lambda>actions. run_ro (everyStringLiteral ctx isKmsAction actions))"

definition getSensitiveResources :: "rule_context \<Rightarrow> result \<Rightarrow> policy_options \<Rightarrow> node list ro" where
  "getSensitiveResources ctx properties options =
     bind_ro (run_ro (result_getProperty ctx (po_resources options) properties))
       (\<lambda>resources. run_ro (asStringLiterals ctx resources))"

definition any_resource :: "rule_context \<Rightarrow> result \<Rightarrow> policy_options \<Rightarrow> node option ro" where
  "any_resource ctx properties options =
     bind_ro (getSensitiveResources ctx properties options) (\<lambda>ls. return_ro (List.find isAnyLiteral ls))"

definition allResourcesAccessibleStatementCheck :: "(nat \<Rightarrow> scope option) \<Rightarrow> report statement_checker" where
  "allResourcesAccessibleStatementCheck scopeOf expr ctx options =
     bind_ro (run_ro (getResultOfExpression ctx expr)) (\<lambda>properties.
     bind_ro (getSensitiveEffect scopeOf properties ctx options) (\<lambda>effect.
     bind_ro (any_resource ctx properties options) (\<lambda>resource.
     bind_ro (resources_exception ctx properties options) (\<lambda>exception.
       if exception then return_ro []
       else report_with_effect ''Make sure granting access to all resources is safe here.'' effect resource))))"

subsection \<open>Privilege escalation\<close>

definition SENSITIVE_ACTIONS :: "string list" where
  "SENSITIVE_ACTIONS =
     [''cloudformation:CreateStack'', ''datapipeline:CreatePipeline'', ''datapipeline:PutPipelineDefinition'',
      ''ec2:RunInstances'', ''glue:CreateDevEndpoint'', ''glue:UpdateDevEndpoint'', ''iam:AddUserToGroup'',
      ''iam:AttachGroupPolicy'', ''iam:AttachRolePolicy'', ''iam:AttachUserPolicy'', ''iam:CreateAccessKey'',
      ''iam:CreateLoginProfile'', ''iam:CreatePolicyVersion'', ''iam:PassRole'', ''iam:PutGroupPolicy'',
      ''iam:PutRolePolicy'', ''iam:PutUserPolicy'', ''iam:SetDefaultPolicyVersion'',
      ''iam:UpdateAssumeRolePolicy'', ''iam:UpdateLoginProfile'', ''lambda:AddPermission'',
      ''lambda:CreateEventSourceMapping'', ''lambda:CreateFunction'', ''lambda:InvokeFunction'',
      ''lambda:UpdateFunctionCode'', ''sts:AssumeRole'']"

text \<open>
  The pattern \<^verbatim>\<open>SENSITIVE_RESOURCE\<close>: a star, or six parts between colons of which the first is
  \<^verbatim>\<open>arn\<close> and the last names all roles, users or groups.
\<close>

definition SENSITIVE_RESOURCE :: "string \<Rightarrow> bool" where
  "SENSITIVE_RESOURCE s \<longleftrightarrow> s = ''*'' \<or>
     (case split_on (CHR '':'') s of
        [arn, _, _, _, _, kind] \<Rightarrow> arn = ''arn'' \<and> kind \<in> set [''role/*'', ''user/*'', ''group/*'']
      | _ \<Rightarrow> False)"

definition isSensitiveAction :: "node \<Rightarrow> bool" where
  "isSensitiveAction action = (case fld action ''value'' of JStr s \<Rightarrow> s \<in> set SENSITIVE_ACTIONS | _ \<Rightarrow> False)"

definition isSensitiveResource :: "node \<Rightarrow> bool" where
  "isSensitiveResource resource = (case fld resource ''value'' of JStr s \<Rightarrow> SENSITIVE_RESOURCE s | _ \<Rightarrow> False)"

definition escalation_action :: "rule_context \<Rightarrow> result \<Rightarrow> policy_options \<Rightarrow> node option ro" where
  "escalation_action ctx properties options =
     bind_ro (run_ro (result_getProperty ctx (po_actions options) properties)) (\<lambda>actions.
     bind_ro (run_ro (asStringLiterals ctx actions)) (\<lambda>ls. return_ro (List.find isSensitiveAction ls)))"

definition escalation_resource :: "rule_context \<Rightarrow> result \<Rightarrow> policy_options \<Rightarrow> node option ro" where
  "escalation_resource ctx properties options =
     bind_ro (run_ro (result_getProperty ctx (po_resources options) properties)) (\<lambda>resources.
     bind_ro (run_ro (asStringLiterals ctx resources)) (\<lambda>ls. return_ro (List.find isSensitiveResource ls)))"

definition hasExceptionProperties :: "rule_context \<Rightarrow> result \<Rightarrow> policy_options \<Rightarrow> bool ro" where
  "hasExceptionProperties ctx properties options =
     some_ro (\<lambda>name. bind_ro (run_ro (result_getProperty ctx name properties)) (\<lambda>r. return_ro (\<not> isMissing r)))
       [po_principals options, po_conditions options]"

definition escalation_message :: "jsval \<Rightarrow> string" where
  "escalation_message v =
     ''This policy is vulnerable to the '' @ [CHR 0x22] @ text_of v @ [CHR 0x22] @
     '' privilege escalation vector. Remove permissions or restrict the set of resources they apply to.''"

definition privilegeEscalationStatementChecker :: "(nat \<Rightarrow> scope option) \<Rightarrow> report statement_checker" where
  "privilegeEscalationStatementChecker scopeOf expr ctx options =
     bind_ro (run_ro (getResultOfExpression ctx expr)) (\<lambda>properties.
     bind_ro (getSensitiveEffect scopeOf properties ctx options) (\<lambda>effect.
     bind_ro (escalation_resource ctx properties options) (\<lambda>resource.
     bind_ro (escalation_action ctx properties options) (\<lambda>action.
     bind_ro (hasExceptionProperties ctx properties options) (\<lambda>exception.
       if exception then return_ro []
       else case (resource, action) of
         (Some r, Some a) \<Rightarrow>
           if isFound effect \<or> isMissing effect
           then encoded_report (escalation_message (fld a ''value'')) [a] [''Permissions are granted on all resources.''] r
           else return_ro []
       | _ \<Rightarrow> return_ro [])))))"

subsection \<open>Public access\<close>

definition getPrincipalNewExpressions :: "node \<Rightarrow> node list" where
  "getPrincipalNewExpressions n =
     (if isArrayExpression n then filter (\<lambda>e. is_type e ''NewExpression'') (elems (fld n ''elements'')) else [])"

definition isSensitivePrincipalNewExpression ::
  "(nat \<Rightarrow> scope option) \<Rightarrow> rule_context \<Rightarrow> node \<Rightarrow> policy_options \<Rightarrow> bool ro" where
  "isSensitivePrincipalNewExpression scopeOf ctx newExpression options =
     some_ro (\<lambda>anyValue.
         if anyValue = ARN_PRINCIPAL then
           let args = elems (fld newExpression ''arguments'');
               argument = (if args = [] then JUndefined else args ! 0)
           in return_ro (isStringLiteral argument \<and> isAnyLiteral argument)
         else bind_ro (normalized_name scopeOf ctx (fld newExpression ''callee'')) (\<lambda>fqn.
           return_ro (fqn = Some anyValue)))
       (case po_principals_anyValues options of None \<Rightarrow> [] | Some vs \<Rightarrow> vs)"

fun find_ro :: "('a \<Rightarrow> bool ro) \<Rightarrow> 'a list \<Rightarrow> 'a option ro" where
  "find_ro f [] = return_ro None"
| "find_ro f (x # xs) = bind_ro (f x) (\<lambda>b. if b then return_ro (Some x) else find_ro f xs)"

definition getPrincipalLiterals :: "rule_context \<Rightarrow> node \<Rightarrow> node list ro" where
  "getPrincipalLiterals ctx n =
     (if isStringLiteral n then return_ro [n]
      else bind_ro (run_ro (getResultOfExpression ctx n)) (\<lambda>r.
           bind_ro (run_ro (result_getProperty ctx ''AWS'' r)) (\<lambda>aws. run_ro (asStringLiterals ctx aws))))"

definition getSensitivePrincipalFromFullyQualifiedName ::
  "(nat \<Rightarrow> scope option) \<Rightarrow> rule_context \<Rightarrow> node \<Rightarrow> policy_options \<Rightarrow> node option ro" where
  "getSensitivePrincipalFromFullyQualifiedName scopeOf ctx n options =
     find_ro (\<lambda>e. isSensitivePrincipalNewExpression scopeOf ctx e options) (getPrincipalNewExpressions n)"

definition getSensitivePrincipalFromJson :: "rule_context \<Rightarrow> node \<Rightarrow> node option ro" where
  "getSensitivePrincipalFromJson ctx n =
     bind_ro (getPrincipalLiterals ctx n) (\<lambda>ls. return_ro (List.find isAnyLiteral ls))"

definition getSensitivePrincipal ::
  "(nat \<Rightarrow> scope option) \<Rightarrow> result \<Rightarrow> rule_context \<Rightarrow> policy_options \<Rightarrow> node option ro" where
  "getSensitivePrincipal scopeOf properties ctx options =
     bind_ro (run_ro (result_getProperty ctx (po_principals options) properties)) (\<lambda>principal.
       if \<not> isFound principal then return_ro None
       else if po_principals_type options = KindFullyQualifiedName
       then getSensitivePrincipalFromFullyQualifiedName scopeOf ctx (rs_node principal) options
       else getSensitivePrincipalFromJson ctx (rs_node principal))"

definition publicAccessStatementChecker :: "(nat \<Rightarrow> scope option) \<Rightarrow> report statement_checker" where
  "publicAccessStatementChecker scopeOf expr ctx options =
     bind_ro (run_ro (getResultOfExpression ctx expr)) (\<lambda>properties.
     bind_ro (getSensitiveEffect scopeOf properties ctx options) (\<lambda>effect.
     bind_ro (getSensitivePrincipal scopeOf properties ctx options)
       (report_with_effect ''Make sure granting public access is safe here.'' effect)))"

subsection \<open>The rules\<close>

definition iam_all_privileges :: "(nat \<Rightarrow> scope option) \<Rightarrow> rule_context \<Rightarrow> node \<Rightarrow> report list ro" where
  "iam_all_privileges scopeOf = AwsIamPolicyTemplate scopeOf (allPrivilegesStatementChecker scopeOf)"

definition iam_all_resources_accessible :: "(nat \<Rightarrow> scope option) \<Rightarrow> rule_context \<Rightarrow> node \<Rightarrow> report list ro" where
  "iam_all_resources_accessible scopeOf = AwsIamPolicyTemplate scopeOf (allResourcesAccessibleStatementCheck scopeOf)"

definition iam_privilege_escalation :: "(nat \<Rightarrow> scope option) \<Rightarrow> rule_context \<Rightarrow> node \<Rightarrow> report list ro" where
  "iam_privilege_escalation scopeOf = AwsIamPolicyTemplate scopeOf (privilegeEscalationStatementChecker scopeOf)"

definition iam_public_access :: "(nat \<Rightarrow> scope option) \<Rightarrow> rule_context \<Rightarrow> node \<Rightarrow> report list ro" where
  "iam_public_access scopeOf = AwsIamPolicyTemplate scopeOf (publicAccessStatementChecker scopeOf)"

section \<open>Encryption\<close>

text \<open>A check of arguments as a consumer of the template; the node it returns is not used.\<close>

definition check_consumer ::
  "(nat \<Rightarrow> scope option) \<Rightarrow> message_ids \<Rightarrow> bool \<Rightarrow> string \<times> string list \<Rightarrow> values_by_type option \<Rightarrow> rule_context \<Rightarrow>
     cdk_report cdk_consumer" where
  "check_consumer scopeOf messageId needsProps propertyName values ctx =
     ConsumerFunction (\<lambda>n. bind_ro
       (AwsCdkCheckArguments scopeOf messageId needsProps propertyName values False AWS_OPTIONS_ARGUMENT_POSITION n ctx)
       (\<lambda>(rs, _). return_ro rs))"

definition invalid_values :: "jsval list \<Rightarrow> values_by_type option" where
  "invalid_values vs = Some \<lparr>vt_primitives =
     Some \<lparr>cv_invalid = Some vs, cv_valid = None, cv_case_insensitive = False\<rparr>, vt_fqns = None, vt_customChecker = None\<rparr>"

definition valid_values :: "jsval list \<Rightarrow> values_by_type option" where
  "valid_values vs = Some \<lparr>vt_primitives =
     Some \<lparr>cv_invalid = None, cv_valid = Some vs, cv_case_insensitive = False\<rparr>, vt_fqns = None, vt_customChecker = None\<rparr>"

definition invalid_names :: "string list \<Rightarrow> values_by_type option" where
  "invalid_names ns = Some \<lparr>vt_primitives = None, vt_fqns = Some \<lparr>fv_invalid = Some ns, fv_valid = None\<rparr>,
     vt_customChecker = None\<rparr>"

definition ec2_unencrypted_ebs_volume :: "(nat \<Rightarrow> scope option) \<Rightarrow> rule_context \<Rightarrow> node \<Rightarrow> cdk_report list ro" where
  "ec2_unencrypted_ebs_volume scopeOf = AwsCdkTemplate scopeOf (\<lambda>ctx.
     [(''aws-cdk-lib.aws-ec2.Volume'',
        check_consumer scopeOf (Messages [''encryptionOmitted'', ''encryptionDisabled'']) True (''encrypted'', [])
          (invalid_values [JBool False]) ctx)])"

definition efs_unencrypted :: "(nat \<Rightarrow> scope option) \<Rightarrow> rule_context \<Rightarrow> node \<Rightarrow> cdk_report list ro" where
  "efs_unencrypted scopeOf = AwsCdkTemplate scopeOf (\<lambda>ctx.
     [(''aws-cdk-lib.aws_efs.FileSystem'',
        check_consumer scopeOf (OneMessage ''FSEncryptionDisabled'') False (''encrypted'', [])
          (invalid_values [JBool False]) ctx),
      (''aws-cdk-lib.aws_efs.CfnFileSystem'',
        check_consumer scopeOf (Messages [''CFSEncryptionOmitted'', ''CFSEncryptionDisabled'']) True (''encrypted'', [])
          (valid_values [JBool True]) ctx)])"

definition sagemaker_unencrypted_notebook :: "(nat \<Rightarrow> scope option) \<Rightarrow> rule_context \<Rightarrow> node \<Rightarrow> cdk_report list ro" where
  "sagemaker_unencrypted_notebook scopeOf = AwsCdkTemplate scopeOf (\<lambda>ctx.
     [(''aws-cdk-lib.aws_sagemaker.CfnNotebookInstance'',
        check_consumer scopeOf (OneMessage ''CfnNotebookInstance'') True (''kmsKeyId'', []) None ctx)])"

definition sns_unencrypted_topics :: "(nat \<Rightarrow> scope option) \<Rightarrow> rule_context \<Rightarrow> node \<Rightarrow> cdk_report list ro" where
  "sns_unencrypted_topics scopeOf = AwsCdkTemplate scopeOf (\<lambda>ctx.
     [(''aws-cdk-lib.aws_sns.Topic'', check_consumer scopeOf (OneMessage ''SNSTopic'') True (''masterKey'', []) None ctx),
      (''aws-cdk-lib.aws_sns.CfnTopic'',
        check_consumer scopeOf (OneMessage ''SNSCfnTopic'') True (''kmsMasterKeyId'', []) None ctx)])"

definition sqs_unencrypted_queue :: "(nat \<Rightarrow> scope option) \<Rightarrow> rule_context \<Rightarrow> node \<Rightarrow> cdk_report list ro" where
  "sqs_unencrypted_queue scopeOf = AwsCdkTemplate scopeOf (\<lambda>ctx.
     [(''aws-cdk-lib.aws-sqs.Queue'',
        check_consumer scopeOf (Messages [''OmittedQueue'', ''DisabledQueue'']) True (''encryption'', [])
          (invalid_names [''aws-cdk-lib.aws-sqs.QueueEncryption.UNENCRYPTED'']) ctx),
      (''aws-cdk-lib.aws-sqs.CfnQueue'',
        check_consumer scopeOf (OneMessage ''CfnQueue'') True (''kmsMasterKeyId'', []) None ctx)])"

subsection \<open>Databases\<close>

definition argument_at :: "node \<Rightarrow> nat \<Rightarrow> jsval" where
  "argument_at n position =
     (let args = elems (fld n ''arguments'') in if position < length args then args ! position else JUndefined)"

definition storage_unresolved :: "jsval \<Rightarrow> node option \<Rightarrow> bool" where
  "storage_unresolved n v \<longleftrightarrow> is_type n ''Identifier'' \<and> \<not> isUndefined n \<and> v = None"

definition storage_exception ::
  "(nat \<Rightarrow> scope option) \<Rightarrow> string \<Rightarrow> node \<Rightarrow> rule_context \<Rightarrow> bool ro" where
  "storage_exception scopeOf storage props ctx =
     (if storage \<notin> set [''DatabaseCluster'', ''DatabaseClusterFromSnapshot'', ''DatabaseInstance'',
        ''DatabaseInstanceReadReplica''] then return_ro False
      else bind_ro (run_ro (getProperty props ''storageEncryptionKey'' ctx)) (\<lambda>exceptionKey.
        case exceptionKey of
          PropertyFound p \<Rightarrow>
            bind_ro (run_ro (getUniqueWriteUsageOrNode ctx (fld p ''value'') False)) (\<lambda>exceptionValue.
              if \<not> is_type exceptionValue ''NewExpression'' then return_ro False
              else bind_ro (normalized_name scopeOf ctx (fld exceptionValue ''callee'')) (\<lambda>fqn.
                return_ro (fqn = Some ''aws_cdk_lib.aws_kms.Key'' \<or> fqn = Some ''aws_cdk_lib.aws_kms.Alias'')))
        | _ \<Rightarrow> return_ro False))"

definition report_id :: "string \<Rightarrow> node \<Rightarrow> cdk_report" where
  "report_id messageId n = \<lparr>cr_messageId = Some messageId, cr_node = n\<rparr>"

definition checkStorage ::
  "(nat \<Rightarrow> scope option) \<Rightarrow> string \<Rightarrow> rule_context \<Rightarrow> node \<Rightarrow> cdk_report list ro" where
  "checkStorage scopeOf storage ctx expr =
     bind_ro (run_ro (getValueOfExpression ctx (argument_at expr 2) ''ObjectExpression'' False)) (\<lambda>props.
       if storage_unresolved (argument_at expr 2) props then return_ro []
       else case props of
         None \<Rightarrow> return_ro [report_id ''omitted'' (fld expr ''callee'')]
       | Some obj \<Rightarrow>
           bind_ro (storage_exception scopeOf storage obj ctx) (\<lambda>exception.
             if exception then return_ro []
             else bind_ro (run_ro (getProperty obj ''storageEncrypted'' ctx)) (\<lambda>propertyKey.
               case propertyKey of
                 PropertyNull \<Rightarrow> return_ro [report_id ''omitted'' obj]
               | PropertyUndefined \<Rightarrow> return_ro []
               | PropertyFound p \<Rightarrow>
                   bind_ro (run_ro (getUniqueWriteUsageOrNode ctx (fld p ''value'') False)) (\<lambda>propertyValue.
                     return_ro (if isFalseLiteral propertyValue then [report_id ''unsafe'' (fld p ''value'')] else [])))))"

definition rds_unencrypted_databases :: "(nat \<Rightarrow> scope option) \<Rightarrow> rule_context \<Rightarrow> node \<Rightarrow> cdk_report list ro" where
  "rds_unencrypted_databases scopeOf = AwsCdkTemplate scopeOf (\<lambda>ctx.
     map (\<lambda>storage. (''aws-cdk-lib.aws_rds.'' @ storage, ConsumerFunction (checkStorage scopeOf storage ctx)))
       [''CfnDBCluster'', ''CfnDBInstance'', ''DatabaseCluster'', ''DatabaseClusterFromSnapshot'',
        ''DatabaseInstance'', ''DatabaseInstanceReadReplica''])"

section \<open>Buckets\<close>

text \<open>
  The parent of a node, which the parser sets, is a parameter. A property that is \<^verbatim>\<open>null\<close> or
  \<^verbatim>\<open>undefined\<close> is absent.
\<close>

definition bucket_property :: "rule_context \<Rightarrow> node \<Rightarrow> string \<Rightarrow> node option ro" where
  "bucket_property ctx bucket key =
     bind_ro (s3_getProperty ctx bucket key) (\<lambda>p. return_ro (Option.bind p (\<lambda>x. x)))"

definition report_propagated :: "(node \<Rightarrow> jsval) \<Rightarrow> string \<Rightarrow> node \<Rightarrow> node \<Rightarrow> report list ro" where
  "report_propagated parent message property v =
     (let propagated = findPropagatedSetting parent property v
      in encoded_report message (ps_locations propagated) (ps_messages propagated) property)"

definition literal_is :: "node option \<Rightarrow> bool \<Rightarrow> bool" where
  "literal_is v b = (case v of None \<Rightarrow> False | Some l \<Rightarrow> fld l ''value'' = JBool b)"

definition s3_bucket_insecure_http :: "(nat \<Rightarrow> scope option) \<Rightarrow> rule_context \<Rightarrow> node \<Rightarrow> report list ro" where
  "s3_bucket_insecure_http scopeOf = S3BucketTemplate scopeOf (\<lambda>bucket ctx.
     bind_ro (bucket_property ctx bucket ''enforceSSL'') (\<lambda>property.
       case property of
         None \<Rightarrow> return_ro [\<lparr>rep_node = fld bucket ''callee'', rep_message =
           ''Omitting '' @ [CHR 0x27] @ ''enforceSSL'' @ [CHR 0x27] @ '' authorizes HTTP requests. Make sure it is safe here.''\<rparr>]
       | Some p \<Rightarrow>
           bind_ro (run_ro (getValueOfExpression ctx (fld p ''value'') ''Literal'' False)) (\<lambda>v.
             return_ro (if literal_is v False
               then [\<lparr>rep_node = p, rep_message = ''Make sure authorizing HTTP requests is safe here.''\<rparr>] else []))))"

definition s3_bucket_versioning ::
  "(nat \<Rightarrow> scope option) \<Rightarrow> (node \<Rightarrow> jsval) \<Rightarrow> rule_context \<Rightarrow> node \<Rightarrow> report list ro" where
  "s3_bucket_versioning scopeOf parent = S3BucketTemplate scopeOf (\<lambda>bucket ctx.
     bind_ro (bucket_property ctx bucket ''versioned'') (\<lambda>property.
       case property of
         None \<Rightarrow> plain_report (''Omitting the '' @ [CHR 0x22] @ ''versioned'' @ [CHR 0x22] @
           '' argument disables S3 bucket versioning. Make sure it is safe here.'') (fld bucket ''callee'')
       | Some p \<Rightarrow>
           bind_ro (run_ro (getValueOfExpression ctx (fld p ''value'') ''Literal'' False)) (\<lambda>v.
             case v of
               None \<Rightarrow> return_ro []
             | Some l \<Rightarrow>
                 if \<not> literal_is v False then return_ro []
                 else if \<not> strict_eq (fld p ''value'') l
                 then encoded_report ''Make sure using unversioned S3 bucket is safe here.'' [parent l] [''Propagated setting''] p
                 else encoded_report ''Make sure using unversioned S3 bucket is safe here.'' [] [] p)))"

definition isUnencrypted :: "(nat \<Rightarrow> scope option) \<Rightarrow> rule_context \<Rightarrow> node \<Rightarrow> bool ro" where
  "isUnencrypted scopeOf ctx encrypted =
     bind_ro (normalized_name scopeOf ctx encrypted)
       (\<lambda>fqn. return_ro (fqn = Some ''aws_cdk_lib.aws_s3.BucketEncryption.UNENCRYPTED''))"

definition s3_bucket_server_encryption ::
  "(nat \<Rightarrow> scope option) \<Rightarrow> (node \<Rightarrow> jsval) \<Rightarrow> rule_context \<Rightarrow> node \<Rightarrow> report list ro" where
  "s3_bucket_server_encryption scopeOf parent = S3BucketTemplate scopeOf (\<lambda>bucket ctx.
     bind_ro (bucket_property ctx bucket ''encryption'') (\<lambda>property.
       case property of
         None \<Rightarrow> encoded_report (''Omitting '' @ [CHR 0x22] @ ''encryption'' @ [CHR 0x22] @
           '' disables server-side encryption. Make sure it is safe here.'') [] [] (fld bucket ''callee'')
       | Some p \<Rightarrow>
           bind_ro (run_ro (getValueOfExpression ctx (fld p ''value'') ''MemberExpression'' False)) (\<lambda>v.
             case v of
               None \<Rightarrow> return_ro []
             | Some e \<Rightarrow> bind_ro (isUnencrypted scopeOf ctx e) (\<lambda>b.
                 if b then report_propagated parent
                   ''Objects in the bucket are not encrypted. Make sure it is safe here.'' p e
                 else return_ro []))))"

subsection \<open>Public access\<close>

definition public_message :: string where
  "public_message = ''Make sure allowing public ACL/policies to be set is safe here.''"

definition omitted_message :: string where
  "omitted_message = ''No Public Access Block configuration prevents public ACL/policies '' @
     ''to be set on this S3 bucket. Make sure it is safe here.''"

definition checkBlockPublicAccessValue ::
  "(nat \<Rightarrow> scope option) \<Rightarrow> (node \<Rightarrow> jsval) \<Rightarrow> rule_context \<Rightarrow> node \<Rightarrow> report list ro" where
  "checkBlockPublicAccessValue scopeOf parent ctx blockPublicAccess =
     bind_ro (run_ro (getValueOfExpression ctx (fld blockPublicAccess ''value'') ''MemberExpression'' False)) (\<lambda>m.
       case m of
         None \<Rightarrow> return_ro []
       | Some member \<Rightarrow> bind_ro (normalized_name scopeOf ctx member) (\<lambda>fqn.
           if fqn = Some ''aws_cdk_lib.aws_s3.BlockPublicAccess.BLOCK_ACLS''
           then report_propagated parent public_message blockPublicAccess member else return_ro []))"

definition checkBlockPublicAccessConstructorProperty ::
  "(node \<Rightarrow> jsval) \<Rightarrow> rule_context \<Rightarrow> node \<Rightarrow> string \<Rightarrow> report list ro" where
  "checkBlockPublicAccessConstructorProperty parent ctx config key =
     (case List.find (\<lambda>p. isProperty p \<and> isIdentifier (fld p ''key'') [key]) (elems (fld config ''properties'')) of
        None \<Rightarrow> return_ro []
      | Some p \<Rightarrow>
          bind_ro (run_ro (getValueOfExpression ctx (fld p ''value'') ''Literal'' False)) (\<lambda>v.
            case v of
              None \<Rightarrow> return_ro []
            | Some l \<Rightarrow> if literal_is v False then report_propagated parent public_message p l else return_ro []))"

definition isS3BlockPublicAccessConstructor :: "(nat \<Rightarrow> scope option) \<Rightarrow> rule_context \<Rightarrow> node \<Rightarrow> bool ro" where
  "isS3BlockPublicAccessConstructor scopeOf ctx expr =
     (if \<not> is_type (fld expr ''callee'') ''MemberExpression'' then return_ro False
      else bind_ro (normalized_name scopeOf ctx (fld expr ''callee''))
        (\<lambda>fqn. return_ro (fqn = Some ''aws_cdk_lib.aws_s3.BlockPublicAccess'')))"

definition checkBlockPublicAccessConstructor ::
  "(nat \<Rightarrow> scope option) \<Rightarrow> (node \<Rightarrow> jsval) \<Rightarrow> rule_context \<Rightarrow> node \<Rightarrow> report list ro" where
  "checkBlockPublicAccessConstructor scopeOf parent ctx blockPublicAccess =
     bind_ro (run_ro (getValueOfExpression ctx (fld blockPublicAccess ''value'') ''NewExpression'' False)) (\<lambda>n.
       case n of
         None \<Rightarrow> return_ro []
       | Some new \<Rightarrow> bind_ro (isS3BlockPublicAccessConstructor scopeOf ctx new) (\<lambda>b.
           if \<not> b then return_ro []
           else bind_ro (run_ro (getValueOfExpression ctx (argument_at new 0) ''ObjectExpression'' False)) (\<lambda>config.
             case config of
               None \<Rightarrow> plain_report omitted_message new
             | Some obj \<Rightarrow> concat_ro (checkBlockPublicAccessConstructorProperty parent ctx obj)
                 [''blockPublicAcls'', ''blockPublicPolicy'', ''ignorePublicAcls'', ''restrictPublicBuckets''])))"

definition s3_bucket_public_access ::
  "(nat \<Rightarrow> scope option) \<Rightarrow> (node \<Rightarrow> jsval) \<Rightarrow> rule_context \<Rightarrow> node \<Rightarrow> report list ro" where
  "s3_bucket_public_access scopeOf parent = S3BucketTemplate scopeOf (\<lambda>bucket ctx.
     bind_ro (bucket_property ctx bucket ''blockPublicAccess'') (\<lambda>property.
       case property of
         None \<Rightarrow> plain_report omitted_message (fld bucket ''callee'')
       | Some p \<Rightarrow>
           bind_ro (checkBlockPublicAccessValue scopeOf parent ctx p) (\<lambda>rs.
           bind_ro (checkBlockPublicAccessConstructor scopeOf parent ctx p) (\<lambda>rs'. return_ro (rs @ rs')))))"

subsection \<open>Granted access\<close>

definition unrestricted_message :: string where
  "unrestricted_message = ''Make sure allowing unrestricted access to objects from this bucket is safe here.''"

definition checkBooleanParam ::
  "(node \<Rightarrow> jsval) \<Rightarrow> rule_context \<Rightarrow> node \<Rightarrow> string \<Rightarrow> bool \<Rightarrow> report list ro" where
  "checkBooleanParam parent ctx bucket propName propValue =
     bind_ro (bucket_property ctx bucket propName) (\<lambda>property.
       case property of
         None \<Rightarrow> return_ro []
       | Some p \<Rightarrow>
           bind_ro (run_ro (getValueOfExpression ctx (fld p ''value'') ''Literal'' False)) (\<lambda>v.
             case v of
               None \<Rightarrow> return_ro []
             | Some l \<Rightarrow> if literal_is v propValue then report_propagated parent unrestricted_message p l else return_ro []))"

definition checkConstantParam ::
  "(nat \<Rightarrow> scope option) \<Rightarrow> (node \<Rightarrow> jsval) \<Rightarrow> rule_context \<Rightarrow> node \<Rightarrow> string \<Rightarrow> string list \<Rightarrow> report list ro" where
  "checkConstantParam scopeOf parent ctx bucket propName paramQualifiers =
     bind_ro (bucket_property ctx bucket propName) (\<lambda>property.
       case property of
         None \<Rightarrow> return_ro []
       | Some p \<Rightarrow>
           bind_ro (run_ro (getValueOfExpression ctx (fld p ''value'') ''MemberExpression'' False)) (\<lambda>v.
             case v of
               None \<Rightarrow> return_ro []
             | Some m \<Rightarrow> bind_ro (normalized_name scopeOf ctx m) (\<lambda>fqn.
                 if fqn = Some (''aws_cdk_lib.aws_s3.'' @ join_with (CHR ''.'') paramQualifiers)
                 then report_propagated parent
                   (''Make sure granting '' @ (if paramQualifiers = [] then ''undefined'' else last paramQualifiers) @
                     '' access is safe here.'') p m
                 else return_ro [])))"

definition check_access_control ::
  "(nat \<Rightarrow> scope option) \<Rightarrow> (node \<Rightarrow> jsval) \<Rightarrow> rule_context \<Rightarrow> node \<Rightarrow> report list ro" where
  "check_access_control scopeOf parent ctx n =
     concat_ro (\<lambda>v. checkConstantParam scopeOf parent ctx n ''accessControl'' [''BucketAccessControl'', v])
       [''PUBLIC_READ'', ''PUBLIC_READ_WRITE'', ''AUTHENTICATED_READ'']"

definition s3BucketConstructorRule ::
  "(nat \<Rightarrow> scope option) \<Rightarrow> (node \<Rightarrow> jsval) \<Rightarrow> rule_context \<Rightarrow> node \<Rightarrow> report list ro" where
  "s3BucketConstructorRule scopeOf parent = S3BucketTemplate scopeOf (\<lambda>bucket ctx.
     bind_ro (check_access_control scopeOf parent ctx bucket) (\<lambda>rs.
     bind_ro (checkBooleanParam parent ctx bucket ''publicReadAccess'' True) (\<lambda>rs'. return_ro (rs @ rs'))))"

definition s3BucketDeploymentConstructorRule ::
  "(nat \<Rightarrow> scope option) \<Rightarrow> (node \<Rightarrow> jsval) \<Rightarrow> rule_context \<Rightarrow> node \<Rightarrow> report list ro" where
  "s3BucketDeploymentConstructorRule scopeOf parent ctx n =
     bind_ro (isS3BucketDeploymentConstructor scopeOf ctx n) (\<lambda>b.
       if b then check_access_control scopeOf parent ctx n else return_ro [])"

definition handleGrantPublicAccess ::
  "(nat \<Rightarrow> scope option) \<Rightarrow> rule_context \<Rightarrow> node \<Rightarrow> report list ro" where
  "handleGrantPublicAccess scopeOf ctx n =
     (let callee = fld n ''callee'' in
      if \<not> isMethodCall n \<or> \<not> isIdentifier (fld callee ''property'') [''grantPublicAccess''] then return_ro []
      else bind_ro (run_ro (getUniqueWriteUsageOrNode ctx (fld callee ''object'') False)) (\<lambda>v.
        if \<not> is_type v ''NewExpression'' then return_ro []
        else bind_ro (isS3BucketConstructor scopeOf ctx v) (\<lambda>b.
          if b then plain_report unrestricted_message (fld callee ''property'') else return_ro [])))"

text \<open>The three rules merged: their listeners run in order.\<close>

definition s3_bucket_granted_access ::
  "(nat \<Rightarrow> scope option) \<Rightarrow> (node \<Rightarrow> jsval) \<Rightarrow> rule_context \<Rightarrow> node \<Rightarrow> report list ro" where
  "s3_bucket_granted_access scopeOf parent ctx n =
     (if is_type n ''NewExpression'' then
        bind_ro (s3BucketConstructorRule scopeOf parent ctx n) (\<lambda>rs.
        bind_ro (s3BucketDeploymentConstructorRule scopeOf parent ctx n) (\<lambda>rs'. return_ro (rs @ rs')))
      else if is_type n ''CallExpression'' then handleGrantPublicAccess scopeOf ctx n
      else return_ro [])"

section \<open>What the rules on policies report\<close>

text \<open>A policy that allows something: its effect is absent, which means to allow, or known to be that.\<close>

definition allows :: "result \<Rightarrow> bool" where
  "allows effect \<longleftrightarrow> isMissing effect \<or> isFound effect"

lemma encoded_report_one: "encoded_report message ls ms n = return_ro rs \<Longrightarrow> \<exists>m. rs = [\<lparr>rep_node = n, rep_message = m\<rparr>]"
  by (auto simp: encoded_report_def return_ro_def bind_res_eq_Inr)

lemma plain_report_one: "plain_report message n = return_ro rs \<Longrightarrow> \<exists>m. rs = [\<lparr>rep_node = n, rep_message = m\<rparr>]"
  by (auto simp: plain_report_def return_ro_def bind_res_eq_Inr)

lemma report_with_effect_cases:
  assumes "report_with_effect message effect offending = return_ro rs"
  shows "rs = [] \<or> allows effect \<and> (\<exists>n m. offending = Some n \<and> rs = [\<lparr>rep_node = n, rep_message = m\<rparr>])"
  using assms
  by (auto simp: report_with_effect_def allows_def split: option.splits if_splits
      dest: encoded_report_one plain_report_one)

definition checker_of :: "(nat \<Rightarrow> scope option) \<Rightarrow> report statement_checker \<Rightarrow> bool" where
  "checker_of scopeOf checker \<longleftrightarrow> (\<forall>expr ctx options rs. checker expr ctx options = return_ro rs \<longrightarrow> rs \<noteq> [] \<longrightarrow>
     (\<exists>properties effect r. getResultOfExpression ctx expr = Some properties \<and>
        getSensitiveEffect scopeOf properties ctx options = return_ro effect \<and> allows effect \<and> rs = [r]))"

text \<open>
  Every rule on policies reports a statement at most once, and only when the statement allows
  something.
\<close>

lemma policy_checkers:
  "checker_of scopeOf (allPrivilegesStatementChecker scopeOf)"
  "checker_of scopeOf (allResourcesAccessibleStatementCheck scopeOf)"
  "checker_of scopeOf (privilegeEscalationStatementChecker scopeOf)"
  "checker_of scopeOf (publicAccessStatementChecker scopeOf)"
proof -
  note defs = checker_of_def bind_ro_eq_return run_ro_eq_return
  show "checker_of scopeOf (allPrivilegesStatementChecker scopeOf)"
    by (fastforce simp: defs allPrivilegesStatementChecker_def dest: report_with_effect_cases)
  show "checker_of scopeOf (allResourcesAccessibleStatementCheck scopeOf)"
    by (fastforce simp: defs allResourcesAccessibleStatementCheck_def split: if_splits dest: report_with_effect_cases)
  show "checker_of scopeOf (publicAccessStatementChecker scopeOf)"
    by (fastforce simp: defs publicAccessStatementChecker_def dest: report_with_effect_cases)
  show "checker_of scopeOf (privilegeEscalationStatementChecker scopeOf)"
    by (fastforce simp: defs privilegeEscalationStatementChecker_def allows_def
        split: if_splits option.splits dest: encoded_report_one)
qed

lemma denied_effect:
  assumes "result_getProperty ctx (po_effect options) properties = Some r" "isFound r"
    and "po_effect_type options \<noteq> KindFullyQualifiedName"
    and "\<not> (isStringLiteral (rs_node r) \<and> fld (rs_node r) ''value'' = JStr (po_effect_allowValue options))"
  shows "\<exists>effect. getSensitiveEffect scopeOf properties ctx options = return_ro effect \<and> \<not> allows effect"
  using assms
  by (auto simp: getSensitiveEffect_def run_ro_def return_ro_def bind_ro_def filter_ro_def allows_def status_simps)

text \<open>
  A policy in JSON whose effect is anything but \<^verbatim>\<open>Allow\<close> is reported by none of them.
\<close>

lemma denied_policies_silent:
  assumes "getResultOfExpression ctx expr = Some properties"
    and "result_getProperty ctx ''Effect'' properties = Some r" "isFound r"
    and "\<not> (isStringLiteral (rs_node r) \<and> fld (rs_node r) ''value'' = JStr ''Allow'')"
    and "checker_of scopeOf checker" "checker expr ctx JSON_OPTIONS = return_ro rs"
  shows "rs = []"
proof -
  have "result_getProperty ctx (po_effect JSON_OPTIONS) properties = Some r"
    using assms(2) by (simp add: JSON_OPTIONS_def)
  from denied_effect [OF this assms(3)] assms(4) obtain effect where
    "getSensitiveEffect scopeOf properties ctx JSON_OPTIONS = return_ro effect" "\<not> allows effect"
    by (auto simp: JSON_OPTIONS_def)
  with assms(1,5,6) show ?thesis unfolding checker_of_def by fastforce
qed

text \<open>
  For \<^verbatim>\<open>ArnPrincipal\<close> only the argument is looked at: a new expression with the argument
  \<^verbatim>\<open>'*'\<close> is a sensitive principal whatever its constructor is.
\<close>

lemma any_constructor_is_sensitive:
  assumes "normalized_name scopeOf ctx (fld new ''callee'') = return_ro fqn"
    and "elems (fld new ''arguments'') = star # rest" "isStringLiteral star" "isAnyLiteral star"
  shows "isSensitivePrincipalNewExpression scopeOf ctx new PROPERTIES_OPTIONS = return_ro True"
proof -
  have "STAR_PRINCIPAL \<noteq> ARN_PRINCIPAL" "ANY_PRINCIPAL \<noteq> ARN_PRINCIPAL"
    by (simp_all add: STAR_PRINCIPAL_def ANY_PRINCIPAL_def ARN_PRINCIPAL_def)
  with assms show ?thesis
    by (simp add: isSensitivePrincipalNewExpression_def PROPERTIES_OPTIONS_def)
qed

end
