(* ===== verification/Frameworks.thy ===== *)
theory Frameworks
  imports Aws_Cdk "HOL-Library.Word"
begin

text \<open>
  Helpers for frameworks and types, \<^verbatim>\<open>src/linting/eslint/rules/helpers/\<close>: \<^verbatim>\<open>chai.ts\<close>,
  \<^verbatim>\<open>mocha.ts\<close>, \<^verbatim>\<open>express.ts\<close> with its template for rules on middlewares, \<^verbatim>\<open>file.ts\<close> and
  \<^verbatim>\<open>type.ts\<close>.
\<close>

unbundle bit_operations_syntax

section \<open>Chai\<close>

definition chai_isImported :: "rule_context \<Rightarrow> bool" where
  "chai_isImported ctx \<longleftrightarrow>
     list_ex (\<lambda>r. let argument = elems (fld r ''arguments'') ! 0 in
         is_type argument ''Literal'' \<and> fld argument ''value'' = JStr ''chai'') (getRequireCalls ctx) \<or>
     list_ex (\<lambda>i. fld (fld i ''source'') ''value'' = JStr ''chai'') (getImportDeclarations ctx)"

definition isAssertUsage :: "node \<Rightarrow> bool" where
  "isAssertUsage n \<longleftrightarrow>
     is_type n ''CallExpression'' \<and>
     (isMethodInvocation n ''chai'' ''assert'' 1 \<or> isFunctionInvocation n ''assert'' 1 \<or>
      isMethodCall n \<and> isIdentifier (fld (fld n ''callee'') ''object'') [''assert''] \<or>
      isMethodCall n \<and> is_type (fld (fld n ''callee'') ''object'') ''MemberExpression'' \<and>
        isIdentifier (fld (fld (fld n ''callee'') ''object'') ''object'') [''chai''] \<and>
        isIdentifier (fld (fld (fld n ''callee'') ''object'') ''property'') [''assert''])"

definition isExpectUsage :: "node \<Rightarrow> bool" where
  "isExpectUsage n \<longleftrightarrow>
     is_type n ''CallExpression'' \<and>
     (isMethodInvocation n ''chai'' ''expect'' 1 \<or> isFunctionInvocation n ''expect'' 1)"

definition isShouldUsage :: "node \<Rightarrow> bool" where
  "isShouldUsage n \<longleftrightarrow> is_type n ''MemberExpression'' \<and> isIdentifier (fld n ''property'') [''should'']"

definition chai_isAssertion :: "node \<Rightarrow> bool" where
  "chai_isAssertion n \<longleftrightarrow> isAssertUsage n \<or> isExpectUsage n \<or> isShouldUsage n"

section \<open>Mocha\<close>

definition TEST_CONSTRUCTS :: "string list" where
  "TEST_CONSTRUCTS =
     [''describe'', ''context'', ''it'', ''specify'', ''before'', ''after'', ''beforeEach'', ''afterEach'']"

record test_case =
  tc_node :: node
  tc_callback :: node

definition isTestConstruct :: "node \<Rightarrow> string list \<Rightarrow> bool" where
  "isTestConstruct n constructs =
     list_ex (\<lambda>c. is_type n ''CallExpression'' \<and>
       (isIdentifier (fld n ''callee'') [c] \<or>
        is_type (fld n ''callee'') ''MemberExpression'' \<and> isIdentifier (fld (fld n ''callee'') ''object'') [c] \<and>
        isIdentifier (fld (fld n ''callee'') ''property'') [''only'', ''skip''])) constructs"

definition isTestCase :: "node \<Rightarrow> bool" where
  "isTestCase n = isTestConstruct n [''it'', ''specify'']"

definition extractTestCase :: "node \<Rightarrow> test_case option" where
  "extractTestCase n =
     (if isTestCase n then
        (case elems (fld n ''arguments'') of
           _ # callback # _ \<Rightarrow>
             if truthy callback \<and> type_in callback FUNCTION_NODE_TYPES
             then Some \<lparr>tc_node = fld n ''callee'', tc_callback = callback\<rparr> else None
         | _ \<Rightarrow> None)
      else None)"

section \<open>Express\<close>

definition attemptFindAppInstantiation ::
  "(nat \<Rightarrow> scope option) \<Rightarrow> node \<Rightarrow> rule_context \<Rightarrow> node option ro" where
  "attemptFindAppInstantiation scopeOf varDecl ctx =
     (let rhs = fld varDecl ''init'' in
      if truthy rhs \<and> is_type rhs ''CallExpression'' then
        bind_ro (run_ro (getFullyQualifiedName scopeOf ctx rhs)) (\<lambda>fqn.
          return_ro (if fqn = Some ''express'' \<and> is_type (fld varDecl ''id'') ''Identifier''
            then Some (fld varDecl ''id'') else None))
      else return_ro None)"

definition attemptFindAppInjection :: "node \<Rightarrow> rule_context \<Rightarrow> node option" where
  "attemptFindAppInjection functionDef ctx =
     (case List.find (\<lambda>p. is_type p ''Identifier'' \<and> fld p ''name'' = JStr ''app'') (elems (fld functionDef ''params'')) of
        None \<Rightarrow> None
      | Some app \<Rightarrow>
          (case getParent ctx of
             None \<Rightarrow> None
           | Some parent \<Rightarrow>
               if is_type parent ''AssignmentExpression'' \<and> is_type (fld parent ''left'') ''MemberExpression'' \<and>
                  (isModuleExports (fld parent ''left'') \<or> isModuleExports (fld (fld parent ''left'') ''object''))
               then Some app else None))"

text \<open>\<^verbatim>\<open>find\<close> with a predicate that changes a state.\<close>

fun find_state :: "('a \<Rightarrow> 's \<Rightarrow> ('s \<times> bool) ro) \<Rightarrow> 'a list \<Rightarrow> 's \<Rightarrow> ('s \<times> 'a option) ro" where
  "find_state p [] s = return_ro (s, None)"
| "find_state p (x # xs) s =
     bind_ro (p x s) (\<lambda>(s', b). if b then return_ro (s', Some x) else find_state p xs s')"

definition isUsingMiddleware ::
  "rule_context \<Rightarrow> node \<Rightarrow> node \<Rightarrow> (node \<Rightarrow> 's \<Rightarrow> ('s \<times> bool) ro) \<Rightarrow> 's \<Rightarrow> ('s \<times> bool) ro" where
  "isUsingMiddleware ctx callExpression app middlewareNodePredicate s =
     (case name_of app of
        None \<Rightarrow> return_ro (s, False)
      | Some name \<Rightarrow>
          if isMethodInvocation callExpression name ''use'' 1
          then bind_ro (run_ro (flattenArgs ctx (elems (fld callExpression ''arguments'')))) (\<lambda>flattenedArgs.
               bind_ro (find_state middlewareNodePredicate flattenedArgs s) (\<lambda>(s', n).
                 return_ro (s', case n of None \<Rightarrow> False | Some m \<Rightarrow> truthy m)))
          else return_ro (s, False))"

definition isMiddlewareInstance ::
  "(nat \<Rightarrow> scope option) \<Rightarrow> rule_context \<Rightarrow> string list \<Rightarrow> node \<Rightarrow> bool ro" where
  "isMiddlewareInstance scopeOf ctx middlewares n =
     (if is_type n ''CallExpression''
      then bind_ro (run_ro (getFullyQualifiedName scopeOf ctx n)) (\<lambda>fqn.
        return_ro (list_ex (\<lambda>m. Some m = fqn) middlewares))
      else return_ro False)"

subsection \<open>The template\<close>

record middleware_state =
  ms_app :: "node option"
  ms_sensitiveProperties :: "node list"

datatype middleware_event = ProgramEnter | CallEnter node | DeclaratorEnter node | FunctionEnter node

type_synonym property_finder = "rule_context \<Rightarrow> node \<Rightarrow> node list ro"

definition findSensitiveProperty :: "property_finder \<Rightarrow> rule_context \<Rightarrow> node \<Rightarrow> node list ro" where
  "findSensitiveProperty finder ctx n =
     (if is_type n ''CallExpression'' then finder ctx n else return_ro [])"

text \<open>\<^verbatim>\<open>push\<close> returns the new length, which \<^verbatim>\<open>Boolean\<close> turns into a truth value.\<close>

definition isExposing :: "property_finder \<Rightarrow> rule_context \<Rightarrow> node \<Rightarrow> node list \<Rightarrow> (node list \<times> bool) ro" where
  "isExposing finder ctx n sensitiveProperties =
     bind_ro (findSensitiveProperty finder ctx n) (\<lambda>ps.
       let pushed = sensitiveProperties @ ps in return_ro (pushed, length pushed \<noteq> 0))"

definition report_sensitive :: "string \<Rightarrow> node \<Rightarrow> node \<Rightarrow> report list ro" where
  "report_sensitive message callExpr sensitive =
     Some (bind_res (toEncodedMessage message [node_loc sensitive] None None)
       (\<lambda>m. Inr [\<lparr>rep_node = callExpr, rep_message = m\<rparr>]))"

definition onCallExpression ::
  "property_finder \<Rightarrow> string \<Rightarrow> rule_context \<Rightarrow> node \<Rightarrow> middleware_state \<Rightarrow> (middleware_state \<times> report list) ro" where
  "onCallExpression finder message ctx n s =
     (case ms_app s of
        None \<Rightarrow> return_ro (s, [])
      | Some app \<Rightarrow>
          bind_ro (isUsingMiddleware ctx n app (isExposing finder ctx) (ms_sensitiveProperties s))
            (\<lambda>(sensitiveProperties, unsafe).
               if unsafe
               then bind_ro (concat_ro (report_sensitive message n) sensitiveProperties) (\<lambda>rs.
                 return_ro (s\<lparr>ms_sensitiveProperties := []\<rparr>, rs))
               else return_ro (s\<lparr>ms_sensitiveProperties := sensitiveProperties\<rparr>, [])))"

definition onVariableDeclarator ::
  "(nat \<Rightarrow> scope option) \<Rightarrow> rule_context \<Rightarrow> node \<Rightarrow> middleware_state \<Rightarrow> middleware_state ro" where
  "onVariableDeclarator scopeOf ctx n s =
     (case ms_app s of
        Some _ \<Rightarrow> return_ro s
      | None \<Rightarrow> bind_ro (attemptFindAppInstantiation scopeOf n ctx) (\<lambda>app. return_ro (s\<lparr>ms_app := app\<rparr>)))"

definition onFunction :: "rule_context \<Rightarrow> node \<Rightarrow> middleware_state \<Rightarrow> middleware_state" where
  "onFunction ctx n s =
     (case ms_app s of Some _ \<Rightarrow> s | None \<Rightarrow> s\<lparr>ms_app := attemptFindAppInjection n ctx\<rparr>)"

fun SensitiveMiddlewarePropertyRule ::
  "(nat \<Rightarrow> scope option) \<Rightarrow> property_finder \<Rightarrow> string \<Rightarrow> rule_context \<times> middleware_event \<Rightarrow> middleware_state \<Rightarrow>
     (middleware_state \<times> report list) ro" where
  "SensitiveMiddlewarePropertyRule scopeOf finder message (ctx, ProgramEnter) s =
     return_ro (\<lparr>ms_app = None, ms_sensitiveProperties = []\<rparr>, [])"
| "SensitiveMiddlewarePropertyRule scopeOf finder message (ctx, CallEnter n) s = onCallExpression finder message ctx n s"
| "SensitiveMiddlewarePropertyRule scopeOf finder message (ctx, DeclaratorEnter n) s =
     bind_ro (onVariableDeclarator scopeOf ctx n s) (\<lambda>s'. return_ro (s', []))"
| "SensitiveMiddlewarePropertyRule scopeOf finder message (ctx, FunctionEnter n) s = return_ro (onFunction ctx n s, [])"

section \<open>Files and types\<close>

definition isTestCode :: "jsval \<Rightarrow> bool" where
  "isTestCode settings \<longleftrightarrow> fld settings ''fileType'' = JStr ''TEST''"

definition isMainCode :: "jsval \<Rightarrow> bool" where
  "isMainCode settings \<longleftrightarrow> \<not> isTestCode settings"

text \<open>
  Types and symbols of the TypeScript compiler, and its flags, which are 32-bit integers. The type
  checker is a parameter: the type, the symbol and the signature it finds for a node. The values of
  the flags are parameters, too.
\<close>

record ts_symbol =
  sy_name :: string
  sy_flags :: "32 word"

record ts_type =
  ty_flags :: "32 word"
  ty_symbol :: "ts_symbol option"
  ty_property :: "string \<Rightarrow> ts_symbol option"

record type_flags =
  tf_StringLike :: "32 word"
  tf_NumberLike :: "32 word"
  tf_BigIntLike :: "32 word"
  tf_Undefined :: "32 word"
  tf_Null :: "32 word"
  tf_Any :: "32 word"
  sf_Function :: "32 word"
  sf_Method :: "32 word"

record 'g type_services =
  sv_typeAt :: "node \<Rightarrow> ts_type"
  sv_symbolAt :: "node \<Rightarrow> ts_symbol option"
  sv_resolvedSignature :: "node \<Rightarrow> 'g option"
  sv_baseTypeOfLiteral :: "ts_type \<Rightarrow> ts_type"
  sv_typeToString :: "ts_type \<Rightarrow> string"

definition has_flag :: "32 word \<Rightarrow> 32 word \<Rightarrow> bool" where
  "has_flag flags wanted \<longleftrightarrow> flags AND wanted \<noteq> 0"

definition getTypeFromTreeNode :: "node \<Rightarrow> 'g type_services \<Rightarrow> ts_type" where
  "getTypeFromTreeNode n services = sv_typeAt services n"

definition isArray :: "node \<Rightarrow> 'g type_services \<Rightarrow> bool" where
  "isArray n services =
     (case ty_symbol (getTypeFromTreeNode n services) of None \<Rightarrow> False | Some s \<Rightarrow> sy_name s = ''Array'')"

definition isString :: "type_flags \<Rightarrow> node \<Rightarrow> 'g type_services \<Rightarrow> bool" where
  "isString fl n services = has_flag (ty_flags (sv_typeAt services n)) (tf_StringLike fl)"

definition isNumber :: "type_flags \<Rightarrow> node \<Rightarrow> 'g type_services \<Rightarrow> bool" where
  "isNumber fl n services = has_flag (ty_flags (sv_typeAt services n)) (tf_NumberLike fl)"

definition isBigIntType :: "type_flags \<Rightarrow> ts_type \<Rightarrow> bool" where
  "isBigIntType fl t = has_flag (ty_flags t) (tf_BigIntLike fl)"

definition isNumberType :: "type_flags \<Rightarrow> ts_type \<Rightarrow> bool" where
  "isNumberType fl t = has_flag (ty_flags t) (tf_NumberLike fl)"

text \<open>This test compares the signed value of the flags with zero.\<close>

definition isStringType :: "type_flags \<Rightarrow> ts_type \<Rightarrow> bool" where
  "isStringType fl t \<longleftrightarrow> sint (ty_flags t AND tf_StringLike fl) > 0 \<or>
     (case ty_symbol t of None \<Rightarrow> False | Some s \<Rightarrow> sy_name s = ''String'')"

definition isFunction :: "type_flags \<Rightarrow> node \<Rightarrow> 'g type_services \<Rightarrow> bool" where
  "isFunction fl n services =
     (case ty_symbol (sv_typeAt services n) of None \<Rightarrow> False | Some s \<Rightarrow> has_flag (sy_flags s) (sf_Function fl))"

definition isUndefinedOrNull :: "type_flags \<Rightarrow> node \<Rightarrow> 'g type_services \<Rightarrow> bool" where
  "isUndefinedOrNull fl n services \<longleftrightarrow>
     has_flag (ty_flags (sv_typeAt services n)) (tf_Undefined fl) \<or>
     has_flag (ty_flags (sv_typeAt services n)) (tf_Null fl)"

definition isThenable :: "type_flags \<Rightarrow> node \<Rightarrow> 'g type_services \<Rightarrow> bool" where
  "isThenable fl n services =
     (case ty_property (sv_typeAt services n) ''then'' of None \<Rightarrow> False | Some p \<Rightarrow> has_flag (sy_flags p) (sf_Method fl))"

definition isAny :: "type_flags \<Rightarrow> ts_type \<Rightarrow> bool" where
  "isAny fl t \<longleftrightarrow> ty_flags t = tf_Any fl"

definition getTypeAsString :: "node \<Rightarrow> 'g type_services \<Rightarrow> string" where
  "getTypeAsString n services =
     sv_typeToString services (sv_baseTypeOfLiteral services (getTypeFromTreeNode n services))"

definition getSymbolAtLocation :: "node \<Rightarrow> 'g type_services \<Rightarrow> ts_symbol option" where
  "getSymbolAtLocation n services = sv_symbolAt services n"

definition getSignatureFromCallee :: "node \<Rightarrow> 'g type_services \<Rightarrow> 'g option" where
  "getSignatureFromCallee n services = sv_resolvedSignature services n"

section \<open>Correctness\<close>

text \<open>
  The signed comparison in \<^verbatim>\<open>isStringType\<close> is the test for a common flag, as in the other
  functions, as long as the sign bit is not among the flags.
\<close>

lemma and_nonneg:
  fixes a b :: "32 word"
  assumes "\<not> bit b 31"
  shows "0 \<le> sint (a AND b)"
  using bit_last_iff [of "a AND b"] assms by (simp add: bit_and_iff not_less [symmetric])

lemma isStringType_flag:
  assumes "\<not> bit (tf_StringLike fl) 31"
  shows "isStringType fl t \<longleftrightarrow> has_flag (ty_flags t) (tf_StringLike fl) \<or>
    (\<exists>s. ty_symbol t = Some s \<and> sy_name s = ''String'')"
proof -
  have "sint (ty_flags t AND tf_StringLike fl) > 0 \<longleftrightarrow> ty_flags t AND tf_StringLike fl \<noteq> 0"
    using and_nonneg [OF assms, of "ty_flags t"] by (auto simp: order_less_le signed_eq_0_iff)
  then show ?thesis by (auto simp: isStringType_def has_flag_def split: option.split)
qed

text \<open>Every test case of Mocha is one of its test constructs.\<close>

lemma test_case_is_construct: "isTestCase n \<Longrightarrow> isTestConstruct n TEST_CONSTRUCTS"
  by (auto simp: isTestCase_def isTestConstruct_def TEST_CONSTRUCTS_def)

lemma extractTestCase_function: "extractTestCase n = Some tc \<Longrightarrow> isFunctionNode (tc_callback tc) \<and> isTestCase n"
  by (auto simp: extractTestCase_def isFunctionNode_def split: if_splits list.splits)

text \<open>
  The first middleware with sensitive properties: what the search with a changing state finds when
  it starts without any.
\<close>

fun first_exposing :: "('a \<Rightarrow> 'b list ro) \<Rightarrow> 'a list \<Rightarrow> 'b list ro" where
  "first_exposing f [] = return_ro []"
| "first_exposing f (x # xs) = bind_ro (f x) (\<lambda>ps. if ps = [] then first_exposing f xs else return_ro ps)"

lemma find_exposing:
  "find_state (isExposing finder ctx) ns [] = return_ro (sens, hit) \<Longrightarrow>
     first_exposing (findSensitiveProperty finder ctx) ns = return_ro sens \<and> (hit \<noteq> None \<longleftrightarrow> sens \<noteq> []) \<and>
     (\<forall>m. hit = Some m \<longrightarrow> is_type m ''CallExpression'')"
proof (induction ns)
  case (Cons n ns)
  then obtain ps where ps: "findSensitiveProperty finder ctx n = return_ro ps"
    by (auto simp: bind_ro_eq_return isExposing_def)
  then have "ps \<noteq> [] \<Longrightarrow> is_type n ''CallExpression''"
    by (auto simp: findSensitiveProperty_def split: if_splits)
  with Cons ps show ?case by (auto simp: isExposing_def Let_def split: if_splits)
qed auto

lemma typed_truthy: "is_type m t \<Longrightarrow> truthy m"
  by (cases m) (auto simp: is_type_def)

text \<open>
  Between two events no sensitive property is pending, and a call of \<^verbatim>\<open>app.use\<close> reports
  exactly the sensitive properties of the first middleware among its arguments that has any; a
  second one of the same call is not looked at.
\<close>

lemma middleware_invariant:
  assumes "ms_sensitiveProperties s = []"
    and "SensitiveMiddlewarePropertyRule scopeOf finder message e s = return_ro (s', rs)"
  shows "ms_sensitiveProperties s' = []"
proof (cases "(scopeOf, finder, message, e, s)" rule: SensitiveMiddlewarePropertyRule.cases)
  case (2 _ _ _ ctx n s)
  with assms have run: "onCallExpression finder message ctx n s = return_ro (s', rs)" "ms_sensitiveProperties s = []" by auto
  show ?thesis
  proof (cases "ms_app s")
    case None
    with run show ?thesis by (simp add: onCallExpression_def)
  next
    case (Some app)
    with run obtain sens unsafe where u: "isUsingMiddleware ctx n app (isExposing finder ctx) [] = return_ro (sens, unsafe)"
      by (auto simp: onCallExpression_def bind_ro_eq_return)
    then have "\<not> unsafe \<Longrightarrow> sens = []"
      by (auto simp: isUsingMiddleware_def bind_ro_eq_return run_ro_eq_return typed_truthy
          split: option.splits if_splits dest!: find_exposing)
    with run Some u show ?thesis
      by (cases unsafe) (auto simp: onCallExpression_def bind_ro_eq_return)
  qed
qed (use assms in \<open>auto simp: bind_ro_eq_return onVariableDeclarator_def onFunction_def split: option.splits\<close>)

lemma middleware_reports:
  assumes "ms_sensitiveProperties s = []" "ms_app s = Some app" "name_of app = Some name"
    and "isMethodInvocation n name ''use'' 1" "flattenArgs ctx (elems (fld n ''arguments'')) = Some args"
    and "onCallExpression finder message ctx n s = return_ro (s', rs)"
  shows "\<exists>sens. first_exposing (findSensitiveProperty finder ctx) args = return_ro sens \<and>
    concat_ro (report_sensitive message n) sens = return_ro rs"
proof -
  from assms obtain sens hit where f: "find_state (isExposing finder ctx) args [] = return_ro (sens, hit)"
    and run: "(if case hit of None \<Rightarrow> False | Some m \<Rightarrow> truthy m
      then bind_ro (concat_ro (report_sensitive message n) sens) (\<lambda>rs. return_ro (s\<lparr>ms_sensitiveProperties := []\<rparr>, rs))
      else return_ro (s\<lparr>ms_sensitiveProperties := sens\<rparr>, [])) = return_ro (s', rs)"
    by (auto simp: onCallExpression_def isUsingMiddleware_def bind_ro_eq_return run_ro_def return_ro_def [symmetric]
        split: if_splits)
  note found = find_exposing [OF f]
  show ?thesis
  proof (cases "sens = []")
    case True
    with found run show ?thesis by auto
  next
    case False
    with found obtain m where "hit = Some m" "truthy m" using typed_truthy by blast
    with found run show ?thesis by (auto simp: bind_ro_eq_return)
  qed
qed

end
