(* ===== verification/Commented_Code.thy ===== *)
theory Commented_Code
  imports Recognizers Parsers Module_Names
begin

text \<open>
  The rule on commented-out code, \<^verbatim>\<open>src/linting/eslint/rules/no-commented-code.ts\<close>: comments
  are grouped, a group whose text looks like code to the recognizer is parsed, and is reported when
  the parser finds statements in it. The parser of Babel and ESLint's tokens are parameters; comments
  are those of typescript-eslint, which always have a location.
\<close>

section \<open>Groups of comments\<close>

record located_comment =
  lc_type :: string
  lc_value :: string
  lc_range :: range
  lc_loc :: source_loc

record group_comment =
  gc_value :: string
  gc_nodes :: "located_comment list"

definition newline :: char where
  "newline = CHR 0x0A"

text \<open>The parameter is the line of the first token after a comment, if there is one.\<close>

definition areAdjacentLineComments ::
  "(located_comment \<Rightarrow> int option) \<Rightarrow> located_comment \<Rightarrow> located_comment \<Rightarrow> bool" where
  "areAdjacentLineComments nextTokenLine previous following =
     (let nextCommentLine = pos_line (loc_start (lc_loc following)) in
      if pos_line (loc_start (lc_loc previous)) + 1 = nextCommentLine
      then (case nextTokenLine previous of None \<Rightarrow> True | Some line \<Rightarrow> line > nextCommentLine)
      else False)"

definition line_group :: "located_comment list \<Rightarrow> group_comment" where
  "line_group cs = \<lparr>gc_value = join_with newline (map lc_value cs), gc_nodes = cs\<rparr>"

definition block_group :: "located_comment \<Rightarrow> group_comment" where
  "block_group c = \<lparr>gc_value = lc_value c, gc_nodes = [c]\<rparr>"

fun group_loop ::
  "(located_comment \<Rightarrow> located_comment \<Rightarrow> bool) \<Rightarrow> located_comment list \<Rightarrow> group_comment list \<Rightarrow>
     located_comment list \<Rightarrow> group_comment list" where
  "group_loop adjacent [] groupedComments currentGroup =
     (if length currentGroup > 0 then groupedComments @ [line_group currentGroup] else groupedComments)"
| "group_loop adjacent (c # cs) groupedComments currentGroup =
     (if lc_type c = ''Block'' then group_loop adjacent cs (groupedComments @ [block_group c]) currentGroup
      else if length currentGroup = 0 \<or> adjacent (last currentGroup) c
      then group_loop adjacent cs groupedComments (currentGroup @ [c])
      else group_loop adjacent cs (groupedComments @ [line_group currentGroup]) [c])"

definition getGroupedComments ::
  "(located_comment \<Rightarrow> int option) \<Rightarrow> located_comment list \<Rightarrow> group_comment list" where
  "getGroupedComments nextTokenLine comments =
     group_loop (areAdjacentLineComments nextTokenLine) comments [] []"

section \<open>Code in comments\<close>

definition injectMissingBraces :: "string \<Rightarrow> string" where
  "injectMissingBraces v =
     (let openCurlyBraceNum = length (filter (\<lambda>c. c = CHR ''{'') v);
          closeCurlyBraceNum = length (filter (\<lambda>c. c = CHR ''}'') v);
          missingBraces = int openCurlyBraceNum - int closeCurlyBraceNum
      in if missingBraces > 0 then v @ replicate (nat missingBraces) (CHR ''}'')
         else if missingBraces < 0 then replicate (nat (- missingBraces)) (CHR ''{'') @ v
         else v)"

definition isReturnThrowExclusion :: "node \<Rightarrow> bool" where
  "isReturnThrowExclusion statement =
     (if type_in statement [''ReturnStatement'', ''ThrowStatement'']
      then nullish (fld statement ''argument'') \<or> is_type (fld statement ''argument'') ''Identifier'' else False)"

definition isUnaryPlusOrMinus :: "node \<Rightarrow> bool" where
  "isUnaryPlusOrMinus expression \<longleftrightarrow> is_type expression ''UnaryExpression'' \<and>
     fld expression ''operator'' \<in> {JStr ''+'', JStr ''-''}"

definition isExcludedLiteral :: "node \<Rightarrow> bool" where
  "isExcludedLiteral expression =
     (if is_type expression ''Literal''
      then (case fld expression ''value'' of JStr _ \<Rightarrow> True | JNum _ \<Rightarrow> True | _ \<Rightarrow> False) else False)"

text \<open>
  What parsing gives: the statements, and whether the last token of a statement that is a
  semicolon exists (\<^verbatim>\<open>getLastToken\<close> with a filter).
\<close>

record parsed_comment =
  pc_body :: "node list"
  pc_hasSemicolon :: "node \<Rightarrow> bool"

definition isExpressionExclusion :: "node \<Rightarrow> parsed_comment \<Rightarrow> bool" where
  "isExpressionExclusion statement code =
     (if is_type statement ''ExpressionStatement'' then
        let expression = fld statement ''expression'' in
        type_in expression [''Identifier'', ''SequenceExpression''] \<or> isUnaryPlusOrMinus expression \<or>
        isExcludedLiteral expression \<or> \<not> pc_hasSemicolon code statement
      else False)"

definition EXCLUDED_STATEMENTS :: "string list" where
  "EXCLUDED_STATEMENTS = [''BreakStatement'', ''LabeledStatement'', ''ContinueStatement'']"

definition isExclusion :: "parsed_comment \<Rightarrow> bool" where
  "isExclusion code =
     (case pc_body code of
        [singleStatement] \<Rightarrow>
          type_in singleStatement EXCLUDED_STATEMENTS \<or> isReturnThrowExclusion singleStatement \<or>
          isExpressionExclusion singleStatement code
      | _ \<Rightarrow> False)"

definition couldBeJsCode :: "detector list \<Rightarrow> string \<Rightarrow> bool" where
  "couldBeJsCode recognized input =
     (length (extractCodeLines (9 / 10) recognized (split_on newline input)) > 0)"

definition comment_input :: jsts_input where
  "comment_input =
     \<lparr>ji_filePath = ''some/filePath'', ji_fileContent = [], ji_linterId = None, ji_fileType = MAIN,
      ji_ignoreHeaderComments = None, ji_tsConfigs = Some [], ji_programId = None\<rparr>"

definition containsCode ::
  "detector list \<Rightarrow> string \<Rightarrow> 'p program_cache \<Rightarrow> (string \<Rightarrow> 'p parser_options \<Rightarrow> parsed_comment res) \<Rightarrow> string \<Rightarrow> bool" where
  "containsCode recognized dirname cache parse v =
     (if \<not> couldBeJsCode recognized v then False
      else case bind_res (buildParserOptions dirname cache comment_input True None ''module'') (parse v) of
        Inl exception \<Rightarrow> False
      | Inr result \<Rightarrow> length (pc_body result) > 0 \<and> \<not> isExclusion result)"

definition getCommentLocation :: "located_comment list \<Rightarrow> source_loc" where
  "getCommentLocation nodes =
     \<lparr>loc_start = loc_start (lc_loc (hd nodes)), loc_end = loc_end (lc_loc (last nodes))\<rparr>"

record commented_code_report =
  cd_loc :: source_loc
  cd_removed :: range

definition commented_code ::
  "detector list \<Rightarrow> string \<Rightarrow> 'p program_cache \<Rightarrow> (string \<Rightarrow> 'p parser_options \<Rightarrow> parsed_comment res) \<Rightarrow>
     (located_comment \<Rightarrow> int option) \<Rightarrow> located_comment list \<Rightarrow> commented_code_report list" where
  "commented_code recognized dirname cache parse nextTokenLine comments =
     concat (map (\<lambda>g.
       let rawTextTrimmed = trim (gc_value g) in
       if rawTextTrimmed \<noteq> ''}'' \<and> containsCode recognized dirname cache parse (injectMissingBraces rawTextTrimmed)
       then [\<lparr>cd_loc = getCommentLocation (gc_nodes g),
              cd_removed = (fst (lc_range (hd (gc_nodes g))), snd (lc_range (last (gc_nodes g))))\<rparr>]
       else []) (getGroupedComments nextTokenLine comments))"

section \<open>Correctness\<close>

text \<open>The braces of the text that is parsed are balanced in number, and the text of the comment is in it.\<close>

lemma injectMissingBraces_balanced:
  "length (filter (\<lambda>c. c = CHR ''{'') (injectMissingBraces v)) = length (filter (\<lambda>c. c = CHR ''}'') (injectMissingBraces v))"
  by (auto simp: injectMissingBraces_def Let_def)

lemma injectMissingBraces_around:
  "\<exists>n m. injectMissingBraces v = replicate n (CHR ''{'') @ v @ replicate m (CHR ''}'') \<and> (n = 0 \<or> m = 0)"
proof -
  let ?d = "int (length (filter (\<lambda>c. c = CHR ''{'') v)) - int (length (filter (\<lambda>c. c = CHR ''}'') v))"
  show ?thesis
    by (rule exI [of _ "nat (- ?d)"], rule exI [of _ "nat ?d"]) (auto simp: injectMissingBraces_def Let_def)
qed

definition is_line :: "located_comment \<Rightarrow> bool" where
  "is_line c \<longleftrightarrow> lc_type c \<noteq> ''Block''"

definition is_line_group :: "group_comment \<Rightarrow> bool" where
  "is_line_group g \<longleftrightarrow> list_all is_line (gc_nodes g)"

definition line_runs :: "group_comment list \<Rightarrow> located_comment list list" where
  "line_runs gs = map gc_nodes (filter is_line_group gs)"

lemma line_runs_simps [simp]:
  "line_runs [] = []"
  "line_runs (gs @ gs') = line_runs gs @ line_runs gs'"
  "list_all is_line cs \<Longrightarrow> line_runs [line_group cs] = [cs]"
  "\<not> is_line c \<Longrightarrow> line_runs [block_group c] = []"
  by (simp_all add: line_runs_def is_line_group_def line_group_def block_group_def)

lemma group_kinds [simp]:
  "list_all is_line cs \<Longrightarrow> is_line_group (line_group cs)" "is_line_group (block_group c) \<longleftrightarrow> is_line c"
  by (simp_all add: is_line_group_def line_group_def block_group_def)

text \<open>
  What the loop keeps: neighbours in a run are adjacent, and no run could be joined with the next.
\<close>

definition runs_ok :: "(located_comment \<Rightarrow> located_comment \<Rightarrow> bool) \<Rightarrow> located_comment list list \<Rightarrow> bool" where
  "runs_ok adjacent runs \<longleftrightarrow> (\<forall>run \<in> set runs. run \<noteq> [] \<and> successively adjacent run) \<and>
     successively (\<lambda>a b. \<not> adjacent (last a) (hd b)) runs"

definition pending :: "located_comment list \<Rightarrow> located_comment list list" where
  "pending cur = (if cur = [] then [] else [cur])"

lemma runs_ok_grow:
  assumes "runs_ok adjacent (runs @ pending cur)" "cur \<noteq> []" "adjacent (last cur) c"
  shows "runs_ok adjacent (runs @ pending (cur @ [c]))"
  using assms by (auto simp: runs_ok_def pending_def successively_append_iff)

lemma runs_ok_start: "runs_ok adjacent (pending [c])"
  by (simp add: runs_ok_def pending_def)

lemma runs_ok_next:
  assumes "runs_ok adjacent (runs @ pending cur)" "cur \<noteq> []" "\<not> adjacent (last cur) c"
  shows "runs_ok adjacent ((runs @ [cur]) @ pending [c])"
  using assms by (auto simp: runs_ok_def pending_def successively_append_iff)

lemma block_iff: "lc_type c = ''Block'' \<longleftrightarrow> \<not> is_line c"
  by (simp add: is_line_def)

lemma group_loop_runs:
  assumes "list_all is_line cur" "runs_ok adjacent (line_runs gs @ pending cur)" "cur = [] \<longrightarrow> line_runs gs = []"
  shows "concat (line_runs (group_loop adjacent cs gs cur)) = concat (line_runs gs) @ cur @ filter is_line cs \<and>
    runs_ok adjacent (line_runs (group_loop adjacent cs gs cur)) \<and>
    filter (\<lambda>g. \<not> is_line_group g) (group_loop adjacent cs gs cur) =
      filter (\<lambda>g. \<not> is_line_group g) gs @ map block_group (filter (\<lambda>c. \<not> is_line c) cs)"
  using assms
proof (induction cs arbitrary: gs cur)
  case Nil
  then show ?case by (auto simp: pending_def)
next
  case (Cons c cs)
  show ?case
  proof (cases "is_line c")
    case False
    with Cons.IH [of cur "gs @ [block_group c]"] Cons.prems show ?thesis
      by (simp add: block_iff)
  next
    case line: True
    show ?thesis
    proof (cases "cur = [] \<or> adjacent (last cur) c")
      case True
      have "runs_ok adjacent (line_runs gs @ pending (cur @ [c]))"
        using Cons.prems True runs_ok_grow runs_ok_start by (cases "cur = []") auto
      with Cons.IH [of "cur @ [c]" gs] Cons.prems line True show ?thesis by (auto simp: block_iff)
    next
      case False
      then have "runs_ok adjacent (line_runs (gs @ [line_group cur]) @ pending [c])"
        using Cons.prems runs_ok_next by simp
      with Cons.IH [of "[c]" "gs @ [line_group cur]"] Cons.prems line False show ?thesis by (simp add: block_iff)
    qed
  qed
qed

text \<open>
  Every comment is in exactly one group: the block comments each in their own, in order, and the
  line comments, in order, in maximal runs of adjacent ones.
\<close>

lemma getGroupedComments_correct:
  fixes comments nextTokenLine
  defines "gs \<equiv> getGroupedComments nextTokenLine comments"
  shows "concat (line_runs gs) = filter is_line comments"
    and "runs_ok (areAdjacentLineComments nextTokenLine) (line_runs gs)"
    and "filter (\<lambda>g. \<not> is_line_group g) gs = map block_group (filter (\<lambda>c. \<not> is_line c) comments)"
  using group_loop_runs [of "[]" "areAdjacentLineComments nextTokenLine" "[]" comments]
  by (simp_all add: gs_def getGroupedComments_def runs_ok_def pending_def)

lemma line_groups_joined:
  "g \<in> set (getGroupedComments nextTokenLine comments) \<Longrightarrow>
     (\<exists>c. g = block_group c) \<or> (\<exists>cs. g = line_group cs \<and> cs \<noteq> [])"
proof -
  have "\<forall>g \<in> set (group_loop adjacent cs gs cur). (\<exists>c. g = block_group c) \<or> (\<exists>cs. g = line_group cs \<and> cs \<noteq> [])"
    if "\<forall>g \<in> set gs. (\<exists>c. g = block_group c) \<or> (\<exists>cs. g = line_group cs \<and> cs \<noteq> [])" for adjacent cs gs cur
    using that by (induction adjacent cs gs cur rule: group_loop.induct) auto
  then show "g \<in> set (getGroupedComments nextTokenLine comments) \<Longrightarrow>
     (\<exists>c. g = block_group c) \<or> (\<exists>cs. g = line_group cs \<and> cs \<noteq> [])"
    unfolding getGroupedComments_def by (metis empty_iff empty_set)
qed

end
