(* ===== verification/Spec2Isabelle.thy ===== *)
theory Spec2Isabelle
  imports Prelude Visitor Metrics Scopes Highlighting Json Rule_Parameters Issues Objects Helpers
    Linter Dataflow Reaching_Definitions Ast_Helpers Module_Names Results Recognizers Programs Parsers
    Embedded Stylelint Analyzers Server Lifecycle Regex_Tokens Regex_Helpers Character_Classes Decorators Dead_Stores Redundant_Assignments Complexity_Rules Regex_Complexity Loop_Rules Parameter_Reassignment Aws_Cdk Aws_Rules Frameworks Commented_Code
begin

text \<open>
  A verification development of the analysis bridge of SonarJS, the TypeScript program under
  \<^verbatim>\<open>src/src/\<close> of the repository. The bridge is a web server that a SonarQube or SonarLint plugin
  drives: it initializes ESLint linters with the rules of a quality profile, creates TypeScript
  programs, analyzes JavaScript, TypeScript, Vue, HTML, YAML and CSS files, and answers with issues, metrics
  and highlighting.

  \<^bold>\<open>How a request flows.\<close> \<^verbatim>\<open>server.ts\<close> puts an orphan timeout before the router (theory
  Lifecycle). The router of \<^verbatim>\<open>routing/\<close> hands a request to its handler, and errors to the error
  middleware (Server). An analysis reads the file if needed and finds the linter (Analyzers),
  parses the file (Parsers, which may use a program of the cache of Programs), or extracts the
  snippets of HTML and YAML and moves their positions (Embedded). The linter wrapper runs ESLint with the
  configuration for the type of file (Linter, Rule\_Parameters) and turns its messages into
  issues (Issues, with the texts of Json); metrics and highlighting visit the syntax tree
  (Visitor, Metrics, Highlighting, Scopes). Stylesheets go to Stylelint (Stylelint). The rules
  share the helpers for syntax trees, modules, results and data flow (Ast\_Helpers, Module\_Names,
  Results, Dataflow, Reaching\_Definitions, Regex\_Tokens, Regex\_Helpers, Character\_Classes) and the recognizers of commented-out code (Recognizers).

  \<^bold>\<open>The theories\<close>, with the files they model under \<^verbatim>\<open>src/src/\<close>:
  \<^item> Prelude: JavaScript values and ESTree nodes (\<open>jsval\<close>, with the identity that \<^verbatim>\<open>===\<close> compares),
    thrown errors as the sum \<open>'a res\<close>, and the lemmas that all share. Objects: dictionaries behind
    the locales \<open>keyed_store\<close> and \<open>deletable_store\<close>, interpreted on association lists.
  \<^item> Visitor: \<^verbatim>\<open>linting/eslint/linter/visitors/visitor.ts\<close>; the stack loop is a depth-first
    pre-order visit (C1), behind the locale that Metrics and Highlighting use.
  \<^item> Metrics: \<^verbatim>\<open>visitors/metrics/\<close>; complexity, executable lines, lines of code, comment and
    \<^verbatim>\<open>NOSONAR\<close> lines against their specifications.
  \<^item> Scopes and Highlighting: \<^verbatim>\<open>cpd.ts\<close>, \<^verbatim>\<open>syntax-highlighting.ts\<close>, \<^verbatim>\<open>symbol-highlighting.ts\<close>;
    duplication tokens, when symbol highlighting fails, matching of braces (C7).
  \<^item> Json, Rule\_Parameters, Issues: \<^verbatim>\<open>JSON\<close> of the standard library, \<^verbatim>\<open>parameters/\<close>, \<^verbatim>\<open>quickfixes/\<close>,
    \<^verbatim>\<open>issues/\<close>, \<^verbatim>\<open>rules/helpers/location.ts\<close>; encoded locations survive (C9), when quick
    fixes fail, the transformation of messages (C11).
  \<^item> Helpers and Linter: \<^verbatim>\<open>helpers/\<close>, \<^verbatim>\<open>config/\<close>, \<^verbatim>\<open>bundle-loader.ts\<close>, \<^verbatim>\<open>decoration/\<close>,
    \<^verbatim>\<open>wrapper.ts\<close>, \<^verbatim>\<open>linter/index.ts\<close>; decoration, the order of bundles, configurations, the registry
    (C12, C14).
  \<^item> Dataflow and Reaching\_Definitions: \<^verbatim>\<open>rules/helpers/lva.ts\<close> and \<^verbatim>\<open>reaching-definitions.ts\<close>
    as instances of one worklist locale; live variables are exact on every graph (C16), reaching
    definitions when no write copies a variable (C17), and a program with copies on which they never return (C3).
  \<^item> Ast\_Helpers, Module\_Names, Results, Recognizers: \<^verbatim>\<open>rules/helpers/ast.ts\<close>, \<^verbatim>\<open>ancestor.ts\<close>,
    \<^verbatim>\<open>collection.ts\<close>, \<^verbatim>\<open>module.ts\<close>, \<^verbatim>\<open>result.ts\<close> and \<^verbatim>\<open>linter/recognizers/\<close>; when
    resolution ends and with what (C18, C21, C24).
  \<^item> Embedded: \<^verbatim>\<open>parsing/embedded/\<close> and \<^verbatim>\<open>services/analysis/analyzers/embedded/\<close>; positions,
    snippets, patched trees and errors, the analysis (C27 to C30).
  \<^item> Programs: \<^verbatim>\<open>services/program/\<close> and \<^verbatim>\<open>services/tsconfig/\<close>; the cache against its history, and
    creation (C31, C32). Parsers: \<^verbatim>\<open>parsing/jsts/\<close> and \<^verbatim>\<open>errors/\<close>; attempts and errors (C33, C34).
  \<^item> Stylelint: \<^verbatim>\<open>linting/stylelint/\<close> with the rule on \<^verbatim>\<open>calc\<close>, which reports each problem once (C35).
  \<^item> Analyzers, Server, Lifecycle: \<^verbatim>\<open>services/analysis/\<close>, \<^verbatim>\<open>services/monitoring/\<close>, \<^verbatim>\<open>routing/\<close>,
    \<^verbatim>\<open>server.ts\<close>; the output of an analysis (C36), the effects of requests (C37), the linter after any
    history (C38), safety and liveness of the orphan timeout (C39, C40).
  \<^item> Regex\_Tokens and Regex\_Helpers: \<^verbatim>\<open>rules/helpers/regex/\<close>; the tokens of string literals that hold
    regular expressions (C25), where nodes of a pattern are located (C15), and when the extraction of
    patterns returns. Character\_Classes: \<^verbatim>\<open>simplified-regex-character-class.ts\<close> and the rule
    \<^verbatim>\<open>duplicates-in-character-class.ts\<close>; adding ranges to a class of intervals (C10) and intersecting classes (C22), on
    any tree with the laws \<open>tree_laws\<close>.
  \<^item> Decorators: \<^verbatim>\<open>rules/decorators/\<close> and \<^verbatim>\<open>rules/helpers/quickfix.ts\<close>; decorated rules refine the reports of the
    original ones (C20), exempting decorators keep exactly the reports that are not exempted, and two quick fixes that break code.
  \<^item> Dead\_Stores: the rule \<^verbatim>\<open>no-dead-store.ts\<close>, which composes the listeners with the live variable analysis; its
    invariant over every run of listeners, exactly what it reports (C13), and that every reported value is dead (C19).
  \<^item> Redundant\_Assignments: the rule \<^verbatim>\<open>no-redundant-assignments.ts\<close> on the reaching definitions; its assertions hold on
    every nested sequence of events (C2), what it reports is redundant unless it passed over a write (C23), two false
    alarms, and a function on which it never ends.
  \<^item> Complexity\_Rules: \<^verbatim>\<open>expression-complexity.ts\<close>, whose stack computes a definition by recursion (C4), and
    \<^verbatim>\<open>cyclomatic-complexity.ts\<close>, whose functions share the complexity of the file (C26). Regex\_Complexity:
    \<^verbatim>\<open>regex-complexity.ts\<close>; the calculator computes the sum of the increments of a pattern.
  \<^item> Loop\_Rules: \<^verbatim>\<open>for-loop-increment-sign.ts\<close>, whose reported loops never stop (C8), and
    \<^verbatim>\<open>no-equals-in-for-termination.ts\<close>, whose exempted loops over integers do.
  \<^item> Parameter\_Reassignment: \<^verbatim>\<open>no-parameter-reassignment.ts\<close>, whose contexts with copied sets of used names refine one
    mark per declared name (C5), and two flaws: a loop without a block, and \<^verbatim>\<open>arguments\<close> in a loop.
  \<^item> Commented\_Code: the rule \<^verbatim>\<open>no-commented-code.ts\<close> on top of the recognizers and the parser; how comments are
    grouped and braces are added.
  \<^item> Aws\_Cdk, Aws\_Rules and Frameworks: \<^verbatim>\<open>rules/helpers/aws/\<close> with fifteen rules \<^verbatim>\<open>aws-*.ts\<close> on it, and \<^verbatim>\<open>chai.ts\<close>,
    \<^verbatim>\<open>mocha.ts\<close>, \<^verbatim>\<open>express.ts\<close>, \<^verbatim>\<open>file.ts\<close>, \<^verbatim>\<open>type.ts\<close>; the two modes of the check of arguments agree (C6), denied
    policies are not reported, and middlewares leave no property pending.

  \<^bold>\<open>Conventions.\<close> State that the source keeps in module variables is passed explicitly (the
  context, the registry of linters, the cache of programs, together the record \<open>bridge\<close>). A
  thrown error is \<open>Inl\<close>, and \<^verbatim>\<open>null\<close> or \<^verbatim>\<open>undefined\<close> is \<open>None\<close> or \<open>JUndefined\<close>. A loop is a total function
  where it ends on every input; where it may not, the definition is an option whose \<open>None\<close> is
  non-termination, and a theorem says when it returns (C16, C17, C18, C21, C25); there is no fuel but in
  \<open>parse_value\<close> of Json, which gets the length of the text. Packages outside of the repository (ESLint, the parsers,
  Stylelint, TypeScript, the HTML and YAML parsers, Node.js) are parameters: functions in
  records such as \<open>packages\<close>, \<open>parser_packages\<close>, \<open>typescript\<close> and \<open>world\<close>.

  \<^bold>\<open>Limits of the model.\<close> Texts are lists of 8-bit characters, except for byte order marks and the tokens of string literals,
  which are on 16-bit code units. Numbers of the source are integers, or exact rationals where it
  computes with fractions. Reading a property of \<^verbatim>\<open>undefined\<close> inside a helper on syntax trees is
  \<open>JUndefined\<close> where the tree's shape excludes it. Termination of reaching definitions is proved for maps without copying writes. A
  request is served in one step: the source awaits files before it touches the state, and touches
  it without awaiting in between.

  \<^bold>\<open>Not modelled.\<close> The other rules of \<^verbatim>\<open>linting/eslint/rules/\<close>, about 200 small visitors, and the table of names of globals.
  The Java plugin, the profiling and build scripts and the tests are outside of the program.
\<close>

end
